(* ===== verification/Prelude.thy ===== *)
theory Prelude imports Main "HOL-Library.Word" begin
unbundle bit_operations_syntax

text \<open>
  Shared vocabulary of the development.

  A C string held in a buffer is a \<^typ>\<open>string\<close>: the bytes before the terminating NUL, so
  an empty list is the empty string. \<open>strncpy\<close> followed by the write of the terminator at the
  last position of an \<open>n\<close>-byte buffer keeps the first \<open>n - 1\<close> bytes, which is
  \<open>bounded_copy n\<close>. \<open>cstr\<close> reads raw bytes up to the first NUL, as \<open>strlen\<close> and \<open>strcmp\<close> do.
  \<open>uint8_t\<close>, \<open>uint16_t\<close>, \<open>uint32_t\<close> and \<open>uint64_t\<close> are words; an \<open>int\<close> whose range the code keeps
  small is an \<^typ>\<open>int\<close> or a \<^typ>\<open>nat\<close>.

  The theory also holds lists that are strictly sorted by a key (the order of event sequence
  numbers), which are determined by their sets, and the hint collections of the components.
\<close>

type_synonym u8 = "8 word"
type_synonym u16 = "16 word"
type_synonym u32 = "32 word"
type_synonym u64 = "64 word"

named_theorems bounds_intro \<open>bounds that the components' invariants are made of\<close>
named_theorems frame_simps \<open>fields that an operation does not write\<close>

section \<open>C strings\<close>

definition bounded_copy :: "nat \<Rightarrow> string \<Rightarrow> string" where
  "bounded_copy n s = take (n - 1) s"

definition cstr :: "u8 list \<Rightarrow> u8 list" where
  "cstr bs = takeWhile (\<lambda>b. b \<noteq> 0) bs"

definition char_of_u8 :: "u8 \<Rightarrow> char" where
  "char_of_u8 b = char_of (unat b)"

lemma length_bounded_copy [bounds_intro]: "0 < n \<Longrightarrow> length (bounded_copy n s) < n"
  by (auto simp: bounded_copy_def min_def)

lemma bounded_copy_id: "length s < n \<Longrightarrow> bounded_copy n s = s"
  by (simp add: bounded_copy_def)

lemma bounded_copy_idem [simp]: "bounded_copy n (bounded_copy n s) = bounded_copy n s"
  by (simp add: bounded_copy_def)

lemma bounded_copy_Nil [simp]: "bounded_copy n [] = []"
  by (simp add: bounded_copy_def)

lemma bounded_copy_eq_Nil [simp]: "1 < n \<Longrightarrow> bounded_copy n s = [] \<longleftrightarrow> s = []"
  by (auto simp: bounded_copy_def)

lemma length_cstr: "length (cstr bs) \<le> length bs"
  by (simp add: cstr_def length_takeWhile_le)

section \<open>Ranges of words\<close>

lemma unat_u8_less [simp]: "unat (b :: u8) < 256"
  using unsigned_less [of b, where 'a = nat] by simp

lemma unat_u8_le [simp]: "unat (b :: u8) \<le> 255"
  using unat_u8_less [of b] by linarith

section \<open>Rounding down to a power of two\<close>

lemma and_not_mask: "(x :: 'a::len word) AND NOT (mask k) = push_bit k (drop_bit k x)"
  by (rule bit_eqI) (auto simp: bit_simps)

lemma unat_round_down: "unat ((x :: 'a::len word) AND NOT (mask k)) = unat x div 2 ^ k * 2 ^ k"
proof -
  have "unat x div 2 ^ k * 2 ^ k < 2 ^ LENGTH('a)"
    by (rule le_less_trans [OF div_times_less_eq_dividend]) (rule unsigned_less)
  moreover have "unat (drop_bit k x) = unat x div 2 ^ k"
    using unsigned_less [of x, where 'a = nat]
    by (simp only: unsigned_drop_bit_eq) (simp add: drop_bit_eq_div take_bit_nat_eq_self)
  ultimately show ?thesis
    by (simp only: and_not_mask unsigned_push_bit_eq) (simp add: push_bit_eq_mult take_bit_nat_eq_self)
qed

section \<open>Memory that is overwritten\<close>

text \<open>The bytes at \<open>p\<close> are replaced with \<open>ys\<close>, as \<open>memcpy\<close> does when they fit.\<close>

definition overwrite :: "nat \<Rightarrow> 'a list \<Rightarrow> 'a list \<Rightarrow> 'a list" where
  "overwrite p ys xs = take p xs @ ys @ drop (p + length ys) xs"

lemma length_overwrite [simp]: "p + length ys \<le> length xs \<Longrightarrow> length (overwrite p ys xs) = length xs"
  by (simp add: overwrite_def)

lemma take_overwrite: "p \<le> length xs \<Longrightarrow> q \<le> p \<Longrightarrow> take q (overwrite p ys xs) = take q xs"
  by (simp add: overwrite_def)

lemma take_overwrite_new: "p \<le> length xs \<Longrightarrow> take (p + length ys) (overwrite p ys xs) = take p xs @ ys"
  by (simp add: overwrite_def)

section \<open>Folds that may fail\<close>

text \<open>A loop that stops at the first error, as a fold: \<open>None\<close> once a step has failed.\<close>

fun fold_opt :: "('a \<Rightarrow> 's \<Rightarrow> 's option) \<Rightarrow> 'a list \<Rightarrow> 's \<Rightarrow> 's option" where
  "fold_opt f [] s = Some s"
| "fold_opt f (x # xs) s = (case f x s of None \<Rightarrow> None | Some s' \<Rightarrow> fold_opt f xs s')"

lemma fold_opt_append:
  "fold_opt f (xs @ ys) s = (case fold_opt f xs s of None \<Rightarrow> None | Some s' \<Rightarrow> fold_opt f ys s')"
  by (induction xs arbitrary: s) (auto split: option.split)

text \<open>
  A concrete loop that marks its state as failed, and then keeps it, does what the fold that may
  fail does on the abstract state.
\<close>

lemma fold_opt_simulates:
  assumes "\<And>x s c. R s c \<Longrightarrow> (case f x s of None \<Rightarrow> bad (step x c) | Some s' \<Rightarrow> R s' (step x c))"
    and "\<And>x c. bad c \<Longrightarrow> bad (step x c)"
    and "R s c"
  shows "case fold_opt f xs s of None \<Rightarrow> bad (fold step xs c) | Some s' \<Rightarrow> R s' (fold step xs c)"
proof -
  have bad: "bad (fold step ys d)" if "bad d" for ys d
    using that assms(2) by (induction ys arbitrary: d) auto
  show ?thesis
    using assms(3)
  proof (induction xs arbitrary: s c)
    case (Cons x xs)
    show ?case
    proof (cases "f x s")
      case None
      then show ?thesis using assms(1) [OF Cons.prems, of x] bad by simp
    next
      case (Some s')
      then have "R s' (step x c)"
        using assms(1) [OF Cons.prems, of x] by simp
      then show ?thesis using Cons.IH [of s' "step x c"] Some by (simp split: option.splits)
    qed
  qed simp
qed

section \<open>Lists strictly sorted by a key\<close>

definition sorted_key :: "('a \<Rightarrow> nat) \<Rightarrow> 'a list \<Rightarrow> bool" where
  "sorted_key f xs = sorted_wrt (\<lambda>a b. f a < f b) xs"

lemma sorted_key_Nil [simp]: "sorted_key f []"
  by (simp add: sorted_key_def)

lemma sorted_key_Cons:
  "sorted_key f (x # xs) \<longleftrightarrow> (\<forall>y\<in>set xs. f x < f y) \<and> sorted_key f xs"
  by (simp add: sorted_key_def)

lemma sorted_key_append:
  "sorted_key f (xs @ ys) \<longleftrightarrow>
     sorted_key f xs \<and> sorted_key f ys \<and> (\<forall>x\<in>set xs. \<forall>y\<in>set ys. f x < f y)"
  by (simp add: sorted_key_def sorted_wrt_append)

lemma sorted_key_map: "sorted_key f xs \<longleftrightarrow> sorted_wrt (<) (map f xs)"
  by (simp add: sorted_key_def sorted_wrt_map)

lemma sorted_key_filter: "sorted_key f xs \<Longrightarrow> sorted_key f (filter P xs)"
  by (simp add: sorted_key_def sorted_wrt_filter)

lemma sorted_key_inj: "sorted_key f xs \<Longrightarrow> inj_on f (set xs)"
  by (metis distinct_map sorted_key_map strict_sorted_iff)

lemma sorted_key_unique:
  assumes "sorted_key f xs" and "sorted_key f ys" and "set xs = set ys"
  shows "xs = ys"
proof -
  have "map f xs = map f ys"
    using assms by (intro strict_sorted_equal) (auto simp: sorted_key_map)
  then show ?thesis
    using assms sorted_key_inj [OF assms(1)] by (metis map_inj_on sup.idem)
qed

lemma sorted_key_sort:
  assumes "inj_on f (set xs)" and "distinct xs"
  shows "sorted_key f (sort_key f xs)"
  using assms by (simp add: sorted_key_map strict_sorted_iff distinct_map)

end
