(* ===== verification/Simulation.thy ===== *)
theory Simulation imports Prelude begin

text \<open>
  The interface between a component and its abstract specification, both given as step functions
  that take a state and an operation and return a reply and the next state. The locale
  \<open>simulation\<close> states what the component promises (under its invariant, and while a resource it
  consumes lasts, one step gives the abstract reply and the abstraction of the next state) and
  proves once that every sequence of operations then gives the abstract replies.
\<close>

fun run :: "('s \<Rightarrow> 'o \<Rightarrow> 'r \<times> 's) \<Rightarrow> 's \<Rightarrow> 'o list \<Rightarrow> 'r list \<times> 's" where
  "run step s [] = ([], s)"
| "run step s (x # xs) =
     (case step s x of (r, s') \<Rightarrow> case run step s' xs of (rs, s'') \<Rightarrow> (r # rs, s''))"

lemma run_Cons_simps [simp]:
  "fst (run step s (x # xs)) = fst (step s x) # fst (run step (snd (step s x)) xs)"
  "snd (run step s (x # xs)) = snd (run step (snd (step s x)) xs)"
  by (simp_all split: prod.splits)

declare run.simps(2) [simp del]

lemma length_run [simp]: "length (fst (run step s xs)) = length xs"
  by (induction xs arbitrary: s) simp_all

locale simulation =
  fixes step :: "'s \<Rightarrow> 'o \<Rightarrow> 'r \<times> 's"
    and astep :: "'a \<Rightarrow> 'o \<Rightarrow> 'r \<times> 'a"
    and abs :: "'s \<Rightarrow> 'a"
    and inv :: "'s \<Rightarrow> bool"
    and room :: "'s \<Rightarrow> nat"
    and cost :: "'o \<Rightarrow> nat"
  assumes step_inv: "inv s \<Longrightarrow> cost x \<le> room s \<Longrightarrow> inv (snd (step s x))"
    and step_room: "inv s \<Longrightarrow> cost x \<le> room s \<Longrightarrow> room s \<le> room (snd (step s x)) + cost x"
    and step_abs: "inv s \<Longrightarrow> cost x \<le> room s \<Longrightarrow>
      astep (abs s) x = (fst (step s x), abs (snd (step s x)))"
begin

lemma run_simulates:
  "inv s \<Longrightarrow> sum_list (map cost xs) \<le> room s \<Longrightarrow>
     inv (snd (run step s xs)) \<and>
     fst (run step s xs) = fst (run astep (abs s) xs) \<and>
     abs (snd (run step s xs)) = snd (run astep (abs s) xs)"
proof (induction xs arbitrary: s)
  case Nil
  then show ?case by simp
next
  case (Cons x xs)
  then have c: "cost x \<le> room s" by simp
  have "sum_list (map cost xs) \<le> room (snd (step s x))"
    using Cons.prems step_room [OF Cons.prems(1) c] by simp
  then show ?case
    using Cons.IH [OF step_inv [OF Cons.prems(1) c]] step_abs [OF Cons.prems(1) c] by simp
qed

end

end
