(* ===== verification/EventQueue.thy ===== *)
theory EventQueue imports Simulation begin

text \<open>
  The application event queue (\<open>src/app/event_queue.c\<close>, \<open>include/app/event_queue.h\<close>,
  \<open>MoonlightEvent\<close> of \<open>include/moonlight/types.h\<close>): a ring of sixteen ordered slots, four
  coalescing snapshot slots, one slot that holds the event being delivered and a 64-bit sequence
  number that orders the two kinds of slot against each other.

  The abstract queue is the list of waiting events in sequence order. The lemmas show that the
  invariant is kept by every operation, that a push appends (replacing the older invalidation of
  its own kind), that a peek takes the head and keeps returning it until it is acknowledged, and
  that draining the queue delivers the whole list in order.
\<close>

section \<open>Events and the queue\<close>

datatype event_type =
    EvNone
  | EvHostsChanged
  | EvPairingRequired
  | EvPairingFinished
  | EvPairingFailed
  | EvConnectionStarted
  | EvConnectionReady
  | EvConnectionFailed
  | EvConnectionClosed
  | EvStreamStarted
  | EvStreamStopped
  | EvStreamFailed
  | EvApplicationsReady
  | EvApplicationsFailed
  | EvSettingsChanged
  | EvSettingsClosed
  | EvHostAvailabilityChanged
  | EvDiscoveryChanged

record event =
  ev_type :: event_type
  ev_result :: int
  ev_host_id :: int
  ev_application_id :: int
  ev_address :: "string option"  \<comment> \<open>NULL is None\<close>
  ev_pairing_pin :: string
  ev_server_status_code :: int
  ev_server_status_message :: string
  ev_running_application_id :: int
  ev_discovery_generation :: u32

record queued_event =
  q_event :: event
  q_address :: string
  q_sequence :: u64

record event_queue =
  eq_ordered :: "queued_event list"
  eq_snapshots :: "queued_event list"
  eq_snapshot_pending :: "bool list"
  eq_head :: nat
  eq_tail :: nat
  eq_count :: nat
  eq_sequence :: u64
  eq_pending :: queued_event
  eq_pending_valid :: bool

definition queue_capacity :: nat where
  "queue_capacity = 16"

definition snapshot_count :: nat where
  "snapshot_count = 4"

text \<open>\<open>snapshot_index\<close>: \<open>-1\<close> is \<^const>\<open>None\<close>.\<close>

fun snapshot_index :: "event_type \<Rightarrow> nat option" where
  "snapshot_index EvHostsChanged = Some 0"
| "snapshot_index EvSettingsChanged = Some 1"
| "snapshot_index EvHostAvailabilityChanged = Some 2"
| "snapshot_index EvDiscoveryChanged = Some 3"
| "snapshot_index _ = None"

text \<open>
  \<open>copy_event\<close>: the copy owns its address bytes, and its event points at them. The address is cut
  to the 256-byte buffer.
\<close>

definition copy_event :: "event \<Rightarrow> u64 \<Rightarrow> queued_event" where
  "copy_event e s =
     (case ev_address e of
        Some a \<Rightarrow>
          \<lparr>q_event = e\<lparr>ev_address := Some (bounded_copy 256 a)\<rparr>,
           q_address = bounded_copy 256 a, q_sequence = s\<rparr>
      | None \<Rightarrow>
          \<lparr>q_event = e\<lparr>ev_address := None\<rparr>, q_address = [], q_sequence = s\<rparr>)"

definition queue_reset :: "event_queue \<Rightarrow> event_queue" where
  "queue_reset q = q\<lparr>eq_head := 0, eq_tail := 0, eq_count := 0, eq_sequence := 0, eq_pending_valid := False,
     eq_snapshot_pending := replicate snapshot_count False\<rparr>"

definition queue_push :: "event_queue \<Rightarrow> event \<Rightarrow> int \<times> event_queue" where
  "queue_push q e =
     (case snapshot_index (ev_type e) of
        None \<Rightarrow>
          if eq_count q = queue_capacity then (-1, q)
          else (let s = eq_sequence q + 1 in
            (0, q\<lparr>eq_sequence := s,
                  eq_ordered := (eq_ordered q)[eq_tail q := copy_event e s],
                  eq_tail := (eq_tail q + 1) mod queue_capacity,
                  eq_count := eq_count q + 1\<rparr>))
      | Some i \<Rightarrow>
          (let s = eq_sequence q + 1 in
            (0, q\<lparr>eq_sequence := s,
                  eq_snapshots := (eq_snapshots q)[i := copy_event e s],
                  eq_snapshot_pending := (eq_snapshot_pending q)[i := True]\<rparr>)))"

text \<open>
  The selection loop of \<open>moonlight_event_queue_peek\<close>: the accumulator is the pair \<open>(selected,
  sequence)\<close>, where the sequence 0 says that nothing was found so far.
\<close>

definition select_step :: "event_queue \<Rightarrow> nat \<Rightarrow> nat option \<times> u64 \<Rightarrow> nat option \<times> u64" where
  "select_step q i acc =
     (if eq_snapshot_pending q ! i \<and> (snd acc = 0 \<or> q_sequence (eq_snapshots q ! i) < snd acc)
      then (Some i, q_sequence (eq_snapshots q ! i)) else acc)"

definition select :: "event_queue \<Rightarrow> nat option \<times> u64" where
  "select q = fold (select_step q) [0..<snapshot_count]
     (None, if eq_count q \<noteq> 0 then q_sequence (eq_ordered q ! eq_head q) else 0)"

text \<open>
  \<open>moonlight_event_queue_peek\<close>: \<open>None\<close> for a return value of 0, \<open>Some e\<close> for 1 with the event
  written out.
\<close>

definition queue_peek :: "event_queue \<Rightarrow> event option \<times> event_queue" where
  "queue_peek q =
     (if eq_pending_valid q then (Some (q_event (eq_pending q)), q)
      else case select q of (selected, s) \<Rightarrow>
        if s = 0 then (None, q)
        else let q' =
          (case selected of
             Some i \<Rightarrow> q\<lparr>eq_pending := copy_event (q_event (eq_snapshots q ! i)) s,
                         eq_snapshot_pending := (eq_snapshot_pending q)[i := False]\<rparr>
           | None \<Rightarrow> q\<lparr>eq_pending := copy_event (q_event (eq_ordered q ! eq_head q)) s,
                       eq_head := (eq_head q + 1) mod queue_capacity,
                       eq_count := eq_count q - 1\<rparr>)\<lparr>eq_pending_valid := True\<rparr>
        in (Some (q_event (eq_pending q')), q'))"

definition queue_acknowledge :: "event_queue \<Rightarrow> event_queue" where
  "queue_acknowledge q = q\<lparr>eq_pending_valid := False\<rparr>"

section \<open>The waiting events\<close>

abbreviation seqno :: "queued_event \<Rightarrow> nat" where
  "seqno x \<equiv> unat (q_sequence x)"

definition ring :: "event_queue \<Rightarrow> queued_event list" where
  "ring q = map (\<lambda>k. eq_ordered q ! ((eq_head q + k) mod queue_capacity)) [0..<eq_count q]"

definition live_snapshots :: "event_queue \<Rightarrow> queued_event list" where
  "live_snapshots q =
     map ((!) (eq_snapshots q)) (filter ((!) (eq_snapshot_pending q)) [0..<snapshot_count])"

definition waiting :: "event_queue \<Rightarrow> queued_event list" where
  "waiting q = sort_key seqno (ring q @ live_snapshots q)"

definition delivered :: "event \<Rightarrow> event" where
  "delivered e = e\<lparr>ev_address := map_option (bounded_copy 256) (ev_address e)\<rparr>"

definition owned :: "queued_event \<Rightarrow> bool" where
  "owned x = (case ev_address (q_event x) of
      None \<Rightarrow> q_address x = []
    | Some a \<Rightarrow> q_address x = a \<and> length a < 256)"

definition kind :: "queued_event \<Rightarrow> nat option" where
  "kind x = snapshot_index (ev_type (q_event x))"

definition queue_shape :: "event_queue \<Rightarrow> bool" where
  "queue_shape q \<longleftrightarrow> length (eq_ordered q) = queue_capacity \<and>
     length (eq_snapshots q) = snapshot_count \<and> length (eq_snapshot_pending q) = snapshot_count"

definition slot_ok :: "event_queue \<Rightarrow> queued_event \<Rightarrow> bool" where
  "slot_ok q x \<longleftrightarrow> 0 < seqno x \<and> seqno x \<le> unat (eq_sequence q) \<and> owned x"

definition queue_inv :: "event_queue \<Rightarrow> bool" where
  "queue_inv q \<longleftrightarrow> queue_shape q \<and>
     eq_head q < queue_capacity \<and> eq_count q \<le> queue_capacity \<and>
     eq_tail q = (eq_head q + eq_count q) mod queue_capacity \<and>
     sorted_key seqno (ring q) \<and>
     (\<forall>x\<in>set (ring q). slot_ok q x \<and> kind x = None) \<and>
     (\<forall>i < snapshot_count. eq_snapshot_pending q ! i \<longrightarrow>
        slot_ok q (eq_snapshots q ! i) \<and> kind (eq_snapshots q ! i) = Some i) \<and>
     inj_on seqno (set (ring q) \<union> set (live_snapshots q)) \<and>
     (eq_pending_valid q \<longrightarrow> owned (eq_pending q))"

lemma set_live_snapshots:
  "set (live_snapshots q) = {eq_snapshots q ! i |i. i < snapshot_count \<and> eq_snapshot_pending q ! i}"
  by (auto simp: live_snapshots_def)

lemma kind_copy_event [simp]: "kind (copy_event e s) = snapshot_index (ev_type e)"
  by (simp add: kind_def copy_event_def split: option.splits)

lemma q_sequence_copy_event [simp]: "q_sequence (copy_event e s) = s"
  by (simp add: copy_event_def split: option.splits)

lemma q_event_copy_event [simp]: "q_event (copy_event e s) = delivered e"
  by (simp add: copy_event_def delivered_def split: option.splits)

lemma ev_type_delivered [simp]: "ev_type (delivered e) = ev_type e"
  by (simp add: delivered_def)

lemma owned_copy_event [simp]: "owned (copy_event e s)"
  by (auto simp: copy_event_def owned_def length_bounded_copy split: option.splits)

lemma copy_event_owned: "owned x \<Longrightarrow> copy_event (q_event x) (q_sequence x) = x"
  by (cases x) (auto simp: copy_event_def owned_def bounded_copy_id split: option.splits)

text \<open>
  Under the invariant the waiting events are determined by the occupied slots: they are the one
  list, strictly sorted by sequence number, that holds exactly those.
\<close>

definition slots :: "event_queue \<Rightarrow> queued_event set" where
  "slots q = set (ring q) \<union> set (live_snapshots q)"

lemma live_kind:
  "queue_inv q \<Longrightarrow> i < snapshot_count \<Longrightarrow> eq_snapshot_pending q ! i \<Longrightarrow>
     kind (eq_snapshots q ! i) = Some i"
  by (simp add: queue_inv_def)

lemma distinct_live_snapshots:
  assumes "queue_inv q"
  shows "distinct (live_snapshots q)"
  unfolding live_snapshots_def distinct_map
proof (intro conjI inj_onI)
  fix i j
  assume i: "i \<in> set (filter ((!) (eq_snapshot_pending q)) [0..<snapshot_count])"
    and j: "j \<in> set (filter ((!) (eq_snapshot_pending q)) [0..<snapshot_count])"
    and eq: "eq_snapshots q ! i = eq_snapshots q ! j"
  have "kind (eq_snapshots q ! i) = Some i"
    using i live_kind [OF assms] by simp
  moreover have "kind (eq_snapshots q ! j) = Some j"
    using j live_kind [OF assms] by simp
  ultimately show "i = j"
    using eq by (metis option.inject)
qed simp

lemma slot_kinds:
  assumes "queue_inv q"
  shows "x \<in> set (ring q) \<Longrightarrow> kind x = None" and "x \<in> set (live_snapshots q) \<Longrightarrow> kind x \<noteq> None"
  using assms by (auto simp: queue_inv_def set_live_snapshots)

lemma slots_ok: "queue_inv q \<Longrightarrow> x \<in> slots q \<Longrightarrow> slot_ok q x"
  by (auto simp: queue_inv_def slots_def set_live_snapshots)

lemma sorted_waiting:
  assumes "queue_inv q"
  shows "sorted_key seqno (waiting q)" and "set (waiting q) = slots q"
proof -
  have "distinct (ring q)"
    using assms by (metis distinct_map queue_inv_def sorted_key_map strict_sorted_iff)
  moreover have "set (ring q) \<inter> set (live_snapshots q) = {}"
    using slot_kinds [OF assms] by (meson disjoint_iff)
  ultimately have "distinct (ring q @ live_snapshots q)"
    using distinct_live_snapshots [OF assms] by simp
  moreover have "inj_on seqno (set (ring q @ live_snapshots q))"
    using assms by (simp add: queue_inv_def)
  ultimately show "sorted_key seqno (waiting q)"
    unfolding waiting_def by (intro sorted_key_sort)
  show "set (waiting q) = slots q"
    by (simp add: waiting_def slots_def)
qed

lemma waiting_unique:
  assumes "queue_inv q" and "sorted_key seqno xs" and "set xs = slots q"
  shows "waiting q = xs"
  using sorted_key_unique assms sorted_waiting by blast

section \<open>Push\<close>

lemma mod_neq:
  assumes "k < c" and "c < n"
  shows "(h + k) mod n \<noteq> (h + c) mod (n :: nat)"
proof
  assume "(h + k) mod n = (h + c) mod n"
  then have "n dvd h + c - (h + k)"
    using assms by (metis add_le_mono1 add.commute less_imp_le mod_eq_dvd_iff_nat)
  then show False
    using assms by (auto dest: dvd_imp_le)
qed

lemma ring_enqueue:
  assumes "queue_shape q" and "eq_count q < queue_capacity"
    and "eq_tail q = (eq_head q + eq_count q) mod queue_capacity"
  shows "ring (q\<lparr>eq_sequence := s, eq_ordered := (eq_ordered q)[eq_tail q := x], eq_tail := t,
           eq_count := eq_count q + 1\<rparr>) = ring q @ [x]"
proof -
  have "eq_tail q < length (eq_ordered q)"
    using assms by (simp add: queue_shape_def queue_capacity_def)
  then show ?thesis
    using assms mod_neq [of _ "eq_count q" queue_capacity "eq_head q"] by (fastforce simp: ring_def)
qed

lemma live_snapshots_enqueue [frame_simps]:
  "live_snapshots (q\<lparr>eq_sequence := s, eq_ordered := xs, eq_tail := t, eq_count := c\<rparr>) = live_snapshots q"
  by (simp add: live_snapshots_def)

lemma ring_snapshot [frame_simps]:
  "ring (q\<lparr>eq_sequence := s, eq_snapshots := xs, eq_snapshot_pending := ps\<rparr>) = ring q"
  by (simp add: ring_def)

lemma set_live_snapshots_put:
  assumes "queue_inv q" and "i < snapshot_count"
  shows "set (live_snapshots (q\<lparr>eq_sequence := s, eq_snapshots := (eq_snapshots q)[i := x],
           eq_snapshot_pending := (eq_snapshot_pending q)[i := True]\<rparr>)) =
         insert x {y \<in> set (live_snapshots q). kind y \<noteq> Some i}"
    (is "?L = ?R")
proof -
  have len: "i < length (eq_snapshots q)" "i < length (eq_snapshot_pending q)"
    using assms by (simp_all add: queue_inv_def queue_shape_def)
  have "?L = insert x {eq_snapshots q ! j |j. j < snapshot_count \<and> eq_snapshot_pending q ! j \<and> j \<noteq> i}"
    using len assms(2) unfolding set_live_snapshots by (force simp: nth_list_update)
  also have "{eq_snapshots q ! j |j. j < snapshot_count \<and> eq_snapshot_pending q ! j \<and> j \<noteq> i} =
      {y \<in> set (live_snapshots q). kind y \<noteq> Some i}"
    using live_kind [OF assms(1)] unfolding set_live_snapshots by fastforce
  finally show ?thesis .
qed

definition room :: "event_queue \<Rightarrow> nat" where
  "room q = 2 ^ 64 - 1 - unat (eq_sequence q)"

lemma seqno_next:
  "1 \<le> room q \<Longrightarrow> unat (eq_sequence q + 1) = unat (eq_sequence q) + 1"
  by (simp add: room_def unat_word_ariths)

lemma slot_ok_mono:
  "slot_ok q x \<Longrightarrow> unat (eq_sequence q) \<le> unat (eq_sequence q') \<Longrightarrow> slot_ok q' x"
  by (simp add: slot_ok_def)

text \<open>An ordered event: refused when the ring is full, appended otherwise.\<close>

lemma push_full:
  "snapshot_index (ev_type e) = None \<Longrightarrow> eq_count q = queue_capacity \<Longrightarrow> queue_push q e = (-1, q)"
  by (simp add: queue_push_def)

lemma push_ordered:
  assumes inv: "queue_inv q" and ord: "snapshot_index (ev_type e) = None"
    and free: "eq_count q \<noteq> queue_capacity" and room: "1 \<le> room q"
  shows "queue_inv (snd (queue_push q e))"
    and "waiting (snd (queue_push q e)) = waiting q @ [copy_event e (eq_sequence q + 1)]"
    and "fst (queue_push q e) = 0"
proof -
  let ?x = "copy_event e (eq_sequence q + 1)"
  define q' where "q' = snd (queue_push q e)"
  have q': "q' = q\<lparr>eq_sequence := eq_sequence q + 1, eq_ordered := (eq_ordered q)[eq_tail q := ?x],
      eq_tail := (eq_tail q + 1) mod queue_capacity, eq_count := eq_count q + 1\<rparr>"
    using ord free by (simp add: q'_def queue_push_def Let_def)
  have lt: "eq_count q < queue_capacity"
    using inv free by (simp add: queue_inv_def)
  have ring: "ring q' = ring q @ [?x]"
    unfolding q' using inv lt by (intro ring_enqueue) (auto simp: queue_inv_def)
  have live: "live_snapshots q' = live_snapshots q"
    by (simp add: q' frame_simps)
  have new: "y \<in> slots q \<Longrightarrow> seqno y < seqno ?x" for y
    using slots_ok [OF inv, of y] seqno_next [OF room] by (simp add: slot_ok_def)
  have ok: "slot_ok q y \<Longrightarrow> slot_ok q' y" for y
    using seqno_next [OF room] by (auto simp: q' intro: slot_ok_mono)
  have okx: "slot_ok q' ?x"
    using seqno_next [OF room] by (simp add: slot_ok_def q')
  have frame: "eq_snapshots q' = eq_snapshots q" "eq_snapshot_pending q' = eq_snapshot_pending q"
    by (simp_all add: q')
  have tail: "(eq_tail q + 1) mod queue_capacity = (eq_head q + (eq_count q + 1)) mod queue_capacity"
    using inv by (simp add: queue_inv_def mod_simps)
  have sorted: "sorted_key seqno (ring q')"
    using inv new by (auto simp: ring sorted_key_append sorted_key_Cons queue_inv_def slots_def)
  have inj: "inj_on seqno (set (ring q') \<union> set (live_snapshots q'))"
    using inv new by (force simp: ring live inj_on_def queue_inv_def slots_def)
  have slot: "(\<forall>x\<in>set (ring q'). slot_ok q' x \<and> kind x = None) \<and>
      (\<forall>i < snapshot_count. eq_snapshot_pending q' ! i \<longrightarrow>
        slot_ok q' (eq_snapshots q' ! i) \<and> kind (eq_snapshots q' ! i) = Some i)"
    using inv ok okx ord unfolding ring queue_inv_def frame by auto
  show I: "queue_inv (snd (queue_push q e))"
    using inv lt tail sorted inj slot unfolding q'_def [symmetric] queue_inv_def
    by (simp add: q' queue_shape_def)
  have "waiting q' = waiting q @ [?x]"
    using I sorted_waiting [OF inv] new
    by (intro waiting_unique)
       (auto simp: q'_def [symmetric] sorted_key_append sorted_key_Cons slots_def ring live)
  then show "waiting (snd (queue_push q e)) = waiting q @ [?x]"
    by (simp add: q'_def)
  show "fst (queue_push q e) = 0"
    using ord free by (simp add: queue_push_def Let_def)
qed

text \<open>
  A snapshot event: always accepted; the older invalidation of its kind is replaced, and the new
  one takes its place at the end of the order.
\<close>

lemma push_snapshot:
  assumes inv: "queue_inv q" and snap: "snapshot_index (ev_type e) = Some i" and room: "1 \<le> room q"
  shows "queue_inv (snd (queue_push q e))"
    and "waiting (snd (queue_push q e)) =
           filter (\<lambda>y. kind y \<noteq> Some i) (waiting q) @ [copy_event e (eq_sequence q + 1)]"
    and "fst (queue_push q e) = 0"
proof -
  let ?x = "copy_event e (eq_sequence q + 1)"
  define q' where "q' = snd (queue_push q e)"
  have q': "q' = q\<lparr>eq_sequence := eq_sequence q + 1, eq_snapshots := (eq_snapshots q)[i := ?x],
      eq_snapshot_pending := (eq_snapshot_pending q)[i := True]\<rparr>"
    using snap by (simp add: q'_def queue_push_def Let_def)
  have i: "i < snapshot_count"
    using snap by (cases "ev_type e") (auto simp: snapshot_count_def)
  have ring: "ring q' = ring q"
    by (simp add: q' frame_simps)
  have live: "set (live_snapshots q') = insert ?x {y \<in> set (live_snapshots q). kind y \<noteq> Some i}"
    unfolding q' using inv i by (rule set_live_snapshots_put)
  have new: "y \<in> slots q \<Longrightarrow> seqno y < seqno ?x" for y
    using slots_ok [OF inv, of y] seqno_next [OF room] by (simp add: slot_ok_def)
  have ok: "slot_ok q y \<Longrightarrow> slot_ok q' y" for y
    using seqno_next [OF room] by (auto simp: q' intro: slot_ok_mono)
  have okx: "slot_ok q' ?x"
    using seqno_next [OF room] by (simp add: slot_ok_def q')
  have slots': "slots q' = insert ?x {y \<in> slots q. kind y \<noteq> Some i}"
    using slot_kinds(1) [OF inv] by (auto simp: slots_def ring live)
  have sub: "inj_on seqno {y \<in> slots q. kind y \<noteq> Some i}"
    using inv by (auto simp: queue_inv_def slots_def intro: inj_on_subset)
  have inj: "inj_on seqno (set (ring q') \<union> set (live_snapshots q'))"
    using sub new unfolding slots_def [symmetric] slots' by (force simp: inj_on_insert)
  have nth: "j < snapshot_count \<Longrightarrow>
      eq_snapshots q' ! j = (if j = i then ?x else eq_snapshots q ! j) \<and>
      (eq_snapshot_pending q' ! j \<longleftrightarrow> j = i \<or> eq_snapshot_pending q ! j)" for j
    using inv i by (simp add: q' queue_inv_def queue_shape_def nth_list_update)
  have slot: "(\<forall>x\<in>set (ring q'). slot_ok q' x \<and> kind x = None) \<and>
      (\<forall>j < snapshot_count. eq_snapshot_pending q' ! j \<longrightarrow>
        slot_ok q' (eq_snapshots q' ! j) \<and> kind (eq_snapshots q' ! j) = Some j)"
    using inv ok okx snap nth unfolding ring queue_inv_def by auto
  have shape: "queue_shape q'" "eq_head q' = eq_head q" "eq_count q' = eq_count q" "eq_tail q' = eq_tail q"
    "eq_pending_valid q' = eq_pending_valid q" "eq_pending q' = eq_pending q"
    using inv by (simp_all add: q' queue_inv_def queue_shape_def)
  show I: "queue_inv (snd (queue_push q e))"
    using inv slot inj shape unfolding q'_def [symmetric] queue_inv_def ring by simp
  have "waiting q' = filter (\<lambda>y. kind y \<noteq> Some i) (waiting q) @ [?x]"
    using I sorted_waiting [OF inv] new
    by (intro waiting_unique)
       (auto simp: q'_def [symmetric] sorted_key_append sorted_key_Cons sorted_key_filter slots')
  then show "waiting (snd (queue_push q e)) = filter (\<lambda>y. kind y \<noteq> Some i) (waiting q) @ [?x]"
    by (simp add: q'_def)
  show "fst (queue_push q e) = 0"
    using snap by (simp add: queue_push_def Let_def)
qed

section \<open>Peek\<close>

text \<open>
  The selection loop finds the least sequence number among the snapshots it has visited and the
  oldest ordered event.
\<close>

definition select_ok :: "event_queue \<Rightarrow> nat list \<Rightarrow> u64 \<Rightarrow> nat option \<times> u64 \<Rightarrow> bool" where
  "select_ok q is s0 acc \<longleftrightarrow>
     (case fst acc of
        None \<Rightarrow> snd acc = s0
      | Some i \<Rightarrow> i \<in> set is \<and> eq_snapshot_pending q ! i \<and> snd acc = q_sequence (eq_snapshots q ! i) \<and>
          (s0 \<noteq> 0 \<longrightarrow> snd acc < s0)) \<and>
     (\<forall>i\<in>set is. eq_snapshot_pending q ! i \<longrightarrow>
        snd acc \<noteq> 0 \<and> snd acc \<le> q_sequence (eq_snapshots q ! i))"

lemma select_step_ok:
  assumes "select_ok q is s0 acc" and "eq_snapshot_pending q ! i \<Longrightarrow> q_sequence (eq_snapshots q ! i) \<noteq> 0"
  shows "select_ok q (is @ [i]) s0 (select_step q i acc)"
  using assms unfolding select_ok_def select_step_def
  by (auto split: option.splits if_splits intro: less_le_trans order.strict_trans dest: less_le_trans)

lemma select_fold_ok:
  assumes "\<forall>i\<in>set js. eq_snapshot_pending q ! i \<longrightarrow> q_sequence (eq_snapshots q ! i) \<noteq> 0"
    and "select_ok q is s0 acc"
  shows "select_ok q (is @ js) s0 (fold (select_step q) js acc)"
  using assms
proof (induction js arbitrary: "is" acc)
  case Nil
  then show ?case by simp
next
  case (Cons j js)
  have "select_ok q (is @ [j]) s0 (select_step q j acc)"
    using Cons.prems by (intro select_step_ok) auto
  then show ?case
    using Cons.IH [of "is @ [j]"] Cons.prems by simp
qed

lemma select_correct:
  assumes "queue_inv q"
  shows "select_ok q [0..<snapshot_count]
     (if eq_count q \<noteq> 0 then q_sequence (eq_ordered q ! eq_head q) else 0) (select q)"
proof -
  have "\<forall>i\<in>set [0..<snapshot_count]. eq_snapshot_pending q ! i \<longrightarrow> q_sequence (eq_snapshots q ! i) \<noteq> 0"
    using assms by (auto simp: queue_inv_def slot_ok_def)
  from select_fold_ok [OF this, of "[]"] show ?thesis
    by (simp add: select_def select_ok_def)
qed

lemma ring_pop:
  assumes "eq_count q \<noteq> 0" and "eq_head q < queue_capacity"
  shows "ring q = eq_ordered q ! eq_head q #
    ring (q\<lparr>eq_pending := p, eq_head := (eq_head q + 1) mod queue_capacity,
            eq_count := eq_count q - 1, eq_pending_valid := v\<rparr>)"
proof -
  have "[0..<eq_count q] = 0 # map Suc [0..<eq_count q - 1]"
    using assms(1) by (metis Suc_pred' gr0I map_Suc_upt upt_conv_Cons)
  then show ?thesis
    using assms(2) by (simp add: ring_def mod_simps)
qed

lemma ring_take_snapshot [frame_simps]:
  "ring (q\<lparr>eq_pending := p, eq_snapshot_pending := ps, eq_pending_valid := v\<rparr>) = ring q"
  by (simp add: ring_def)

lemma live_snapshots_take_ordered [frame_simps]:
  "live_snapshots (q\<lparr>eq_pending := p, eq_head := h, eq_count := c, eq_pending_valid := v\<rparr>) = live_snapshots q"
  by (simp add: live_snapshots_def)

lemma set_live_snapshots_take:
  assumes "queue_inv q" and "i < snapshot_count"
  shows "set (live_snapshots (q\<lparr>eq_pending := p, eq_snapshot_pending := (eq_snapshot_pending q)[i := False],
           eq_pending_valid := v\<rparr>)) = {y \<in> set (live_snapshots q). kind y \<noteq> Some i}"
proof -
  have "length (eq_snapshot_pending q) = snapshot_count"
    using assms by (simp add: queue_inv_def queue_shape_def)
  then show ?thesis
    using live_kind [OF assms(1)] assms(2) unfolding set_live_snapshots
    by (auto simp: nth_list_update) metis
qed

definition take_snapshot :: "event_queue \<Rightarrow> nat \<Rightarrow> event_queue" where
  "take_snapshot q i = q\<lparr>eq_pending := eq_snapshots q ! i,
     eq_snapshot_pending := (eq_snapshot_pending q)[i := False], eq_pending_valid := True\<rparr>"

definition take_ordered :: "event_queue \<Rightarrow> event_queue" where
  "take_ordered q = q\<lparr>eq_pending := eq_ordered q ! eq_head q,
     eq_head := (eq_head q + 1) mod queue_capacity, eq_count := eq_count q - 1, eq_pending_valid := True\<rparr>"

lemma take_snapshot_inv:
  assumes inv: "queue_inv q" and i: "i < snapshot_count" and p: "eq_snapshot_pending q ! i"
  shows "queue_inv (take_snapshot q i)" and "slots (take_snapshot q i) = slots q - {eq_snapshots q ! i}"
proof -
  let ?q = "take_snapshot q i"
  have ring: "ring ?q = ring q" and
    live: "set (live_snapshots ?q) = {y \<in> set (live_snapshots q). kind y \<noteq> Some i}"
    by (simp_all add: take_snapshot_def frame_simps set_live_snapshots_take [OF inv i])
  have k: "y \<in> slots q \<Longrightarrow> kind y = Some i \<longleftrightarrow> y = eq_snapshots q ! i" for y
    using live_kind [OF inv] p i slot_kinds(1) [OF inv] by (auto simp: slots_def set_live_snapshots)
  have out: "eq_snapshots q ! i \<notin> set (ring q)"
    using slot_kinds(1) [OF inv] live_kind [OF inv i p] by auto
  show "slots ?q = slots q - {eq_snapshots q ! i}"
    using k out unfolding slots_def ring live by auto
  have "inj_on seqno (set (ring ?q) \<union> set (live_snapshots ?q))"
    using inv unfolding ring live by (auto simp: queue_inv_def intro: inj_on_subset)
  moreover have "\<forall>j < snapshot_count. eq_snapshot_pending ?q ! j \<longrightarrow> eq_snapshot_pending q ! j"
    using inv i by (simp add: take_snapshot_def queue_inv_def queue_shape_def nth_list_update)
  moreover have "owned (eq_snapshots q ! i)"
    using inv i p by (simp add: queue_inv_def slot_ok_def)
  ultimately show "queue_inv ?q"
    using inv unfolding queue_inv_def ring
    by (auto simp: take_snapshot_def queue_shape_def slot_ok_def)
qed

lemma take_ordered_inv:
  assumes inv: "queue_inv q" and n: "eq_count q \<noteq> 0"
  shows "queue_inv (take_ordered q)" and "ring q = eq_ordered q ! eq_head q # ring (take_ordered q)"
    and "live_snapshots (take_ordered q) = live_snapshots q"
proof -
  let ?q = "take_ordered q"
  show ring: "ring q = eq_ordered q ! eq_head q # ring ?q"
    using inv n unfolding take_ordered_def by (intro ring_pop) (auto simp: queue_inv_def)
  show live: "live_snapshots ?q = live_snapshots q"
    by (simp add: take_ordered_def frame_simps)
  have "inj_on seqno (set (ring ?q) \<union> set (live_snapshots ?q))"
    using inv unfolding live by (auto simp: queue_inv_def ring intro: inj_on_subset)
  moreover have "eq_tail q = ((eq_head q + 1) mod queue_capacity + (eq_count q - 1)) mod queue_capacity"
  proof -
    have "(eq_head q + 1) mod queue_capacity + (eq_count q - 1) =
        (eq_head q + 1) mod queue_capacity + eq_count q - 1"
      using n by simp
    moreover have "((eq_head q + 1) mod queue_capacity + (eq_count q - 1)) mod queue_capacity =
        (eq_head q + 1 + (eq_count q - 1)) mod queue_capacity"
      by (rule mod_add_left_eq)
    moreover have "eq_head q + 1 + (eq_count q - 1) = eq_head q + eq_count q"
      using n by simp
    ultimately show ?thesis
      using inv by (simp add: queue_inv_def)
  qed
  moreover have "\<forall>x\<in>set (ring ?q). x \<in> set (ring q)" and "owned (eq_ordered q ! eq_head q)"
    and "sorted_key seqno (ring ?q)"
    using inv by (auto simp: ring queue_inv_def slot_ok_def sorted_key_Cons)
  ultimately show "queue_inv ?q"
    using inv unfolding queue_inv_def
    by (auto simp: take_ordered_def queue_shape_def slot_ok_def queue_capacity_def)
qed

lemma owned_slots: "queue_inv q \<Longrightarrow> x \<in> slots q \<Longrightarrow> copy_event (q_event x) (q_sequence x) = x"
  using slots_ok [of q x] by (simp add: slot_ok_def copy_event_owned)

lemma least_waiting:
  assumes inv: "queue_inv q" and inv': "queue_inv q'" and x: "x \<in> slots q"
    and slots': "slots q' = slots q - {x}" and least: "\<And>y. y \<in> slots q \<Longrightarrow> seqno x \<le> seqno y"
  shows "waiting q = x # waiting q'"
proof (rule waiting_unique [OF inv])
  have "inj_on seqno (slots q)"
    using inv by (simp add: queue_inv_def slots_def)
  then have "seqno x < seqno y" if "y \<in> slots q'" for y
    using that x least [of y] unfolding slots' by (metis DiffE inj_onD le_neq_implies_less singletonI)
  then show "sorted_key seqno (x # waiting q')"
    using sorted_waiting [OF inv'] by (simp add: sorted_key_Cons)
  show "set (x # waiting q') = slots q"
    using sorted_waiting(2) [OF inv'] x slots' by auto
qed

lemma head_slot:
  assumes "queue_inv q" and "eq_count q \<noteq> 0"
  shows "eq_ordered q ! eq_head q \<in> set (ring q)"
    and "y \<in> set (ring q) \<Longrightarrow> seqno (eq_ordered q ! eq_head q) \<le> seqno y"
proof -
  have r: "ring q = eq_ordered q ! eq_head q # ring (take_ordered q)"
    using assms by (rule take_ordered_inv(2))
  show "eq_ordered q ! eq_head q \<in> set (ring q)"
    by (simp add: r)
  have "sorted_key seqno (ring q)"
    using assms by (simp add: queue_inv_def)
  then show "y \<in> set (ring q) \<Longrightarrow> seqno (eq_ordered q ! eq_head q) \<le> seqno y"
    by (auto simp: r sorted_key_Cons less_imp_le)
qed

lemma peek_held: "eq_pending_valid q \<Longrightarrow> queue_peek q = (Some (q_event (eq_pending q)), q)"
  by (simp add: queue_peek_def)

lemma ring_empty_iff: "ring q = [] \<longleftrightarrow> eq_count q = 0"
  by (simp add: ring_def)

text \<open>The three outcomes of the selection: nothing waits, a snapshot is due, an ordered event is due.\<close>

lemma peek_cases:
  assumes inv: "queue_inv q" and idle: "\<not> eq_pending_valid q"
  obtains
    (empty) "queue_peek q = (None, q)" and "waiting q = []"
  | (due) x q' where "queue_peek q = (Some (q_event x), q')" and "queue_inv q'"
      and "waiting q = x # waiting q'" and "eq_pending_valid q'" and "eq_pending q' = x"
      and "eq_sequence q' = eq_sequence q"
proof -
  define s0 where "s0 = (if eq_count q \<noteq> 0 then q_sequence (eq_ordered q ! eq_head q) else 0)"
  obtain sel s where sel: "select q = (sel, s)" by fastforce
  note ok = select_correct [OF inv, folded s0_def, unfolded sel select_ok_def fst_conv snd_conv]
  have snaps: "y \<in> set (live_snapshots q) \<Longrightarrow> s \<noteq> 0 \<and> unat s \<le> seqno y" for y
    using ok by (auto simp: set_live_snapshots word_le_nat_alt)
  have head: "s0 \<noteq> 0 \<and> s0 = q_sequence (eq_ordered q ! eq_head q)" if "eq_count q \<noteq> 0"
    using that slots_ok [OF inv, of "eq_ordered q ! eq_head q"] head_slot(1) [OF inv that]
    by (auto simp: slot_ok_def slots_def s0_def)
  show thesis
  proof (cases sel)
    case None
    then have s: "s = s0" using ok by simp
    show thesis
    proof (cases "eq_count q = 0")
      case True
      then have "s = 0" using s by (simp add: s0_def)
      then have "set (live_snapshots q) = {}"
        using snaps by (metis all_not_in_conv)
      then have "slots q = {}"
        using True by (simp add: slots_def ring_empty_iff)
      then have "waiting q = []"
        using sorted_waiting(2) [OF inv] by simp
      then show thesis
        using empty idle sel None \<open>s = 0\<close> by (simp add: queue_peek_def)
    next
      case False
      let ?x = "eq_ordered q ! eq_head q"
      have x: "?x \<in> slots q"
        using head_slot(1) [OF inv False] by (simp add: slots_def)
      note t = take_ordered_inv [OF inv False]
      have le: "y \<in> slots q \<Longrightarrow> seqno ?x \<le> seqno y" for y
        using head_slot(2) [OF inv False] snaps s head [OF False] by (auto simp: slots_def)
      have "?x \<notin> set (live_snapshots q)"
        using head_slot(1) [OF inv False] slot_kinds [OF inv] by blast
      moreover have "?x \<notin> set (ring (take_ordered q))"
        using inv by (auto simp: queue_inv_def t(2) sorted_key_Cons)
      ultimately have "slots (take_ordered q) = slots q - {?x}"
        by (auto simp: slots_def t(2,3))
      then have "waiting q = ?x # waiting (take_ordered q)"
        using least_waiting inv t(1) x le by blast
      moreover have "queue_peek q = (Some (q_event ?x), take_ordered q)"
        using idle sel None s head [OF False] owned_slots [OF inv x] False
        by (clarsimp simp: queue_peek_def take_ordered_def Let_def)
      moreover have "eq_pending_valid (take_ordered q)" and "eq_pending (take_ordered q) = ?x"
        and "eq_sequence (take_ordered q) = eq_sequence q"
        by (simp_all add: take_ordered_def)
      ultimately show thesis
        using due [of ?x "take_ordered q"] t(1) by blast
    qed
  next
    case (Some i)
    let ?x = "eq_snapshots q ! i"
    have i: "i < snapshot_count" "eq_snapshot_pending q ! i" "s = q_sequence ?x" "s0 \<noteq> 0 \<Longrightarrow> s < s0"
      using ok Some by auto
    have x: "?x \<in> slots q" "?x \<in> set (live_snapshots q)"
      using i by (auto simp: slots_def set_live_snapshots)
    have le: "seqno ?x \<le> seqno y" if "y \<in> slots q" for y
    proof (cases "y \<in> set (ring q)")
      case True
      then have n: "eq_count q \<noteq> 0" by (auto simp: ring_def)
      then show ?thesis
        using head_slot(2) [OF inv n True] i(3,4) head [OF n]
        by (auto simp: word_less_nat_alt)
    qed (use that snaps i(3) in \<open>auto simp: slots_def\<close>)
    have "waiting q = ?x # waiting (take_snapshot q i)"
      using least_waiting [OF inv _ x(1)] take_snapshot_inv [OF inv i(1,2)] le by blast
    moreover have "queue_peek q = (Some (q_event ?x), take_snapshot q i)"
      using idle sel Some i(3) snaps [OF x(2)] owned_slots [OF inv x(1)]
      by (simp add: queue_peek_def take_snapshot_def Let_def)
    moreover have "eq_pending_valid (take_snapshot q i)" and "eq_pending (take_snapshot q i) = ?x"
      and "eq_sequence (take_snapshot q i) = eq_sequence q"
      by (simp_all add: take_snapshot_def)
    ultimately show thesis
      using due [of ?x "take_snapshot q i"] take_snapshot_inv(1) [OF inv i(1,2)] by blast
  qed
qed

section \<open>The abstract mailbox and the simulation\<close>

datatype queue_op = Push event | Peek | Acknowledge

datatype queue_reply = Pushed int | Peeked "event option" | Acknowledged

fun queue_step :: "event_queue \<Rightarrow> queue_op \<Rightarrow> queue_reply \<times> event_queue" where
  "queue_step q (Push e) = map_prod Pushed id (queue_push q e)"
| "queue_step q Peek = map_prod Peeked id (queue_peek q)"
| "queue_step q Acknowledge = (Acknowledged, queue_acknowledge q)"

text \<open>
  The contract of the header file: the event being delivered, and the events that wait in order.
\<close>

record mailbox =
  mb_held :: "event option"
  mb_waiting :: "event list"

definition is_ordered :: "event \<Rightarrow> bool" where
  "is_ordered e \<longleftrightarrow> snapshot_index (ev_type e) = None"

fun mailbox_step :: "mailbox \<Rightarrow> queue_op \<Rightarrow> queue_reply \<times> mailbox" where
  "mailbox_step m (Push e) =
     (case snapshot_index (ev_type e) of
        Some i \<Rightarrow> (Pushed 0, m\<lparr>mb_waiting :=
          filter (\<lambda>x. snapshot_index (ev_type x) \<noteq> Some i) (mb_waiting m) @ [delivered e]\<rparr>)
      | None \<Rightarrow>
          if length (filter is_ordered (mb_waiting m)) = 16 then (Pushed (-1), m)
          else (Pushed 0, m\<lparr>mb_waiting := mb_waiting m @ [delivered e]\<rparr>))"
| "mailbox_step m Peek =
     (case mb_held m of
        Some e \<Rightarrow> (Peeked (Some e), m)
      | None \<Rightarrow> (case mb_waiting m of
          [] \<Rightarrow> (Peeked None, m)
        | e # es \<Rightarrow> (Peeked (Some e), m\<lparr>mb_held := Some e, mb_waiting := es\<rparr>)))"
| "mailbox_step m Acknowledge = (Acknowledged, m\<lparr>mb_held := None\<rparr>)"

definition abs_queue :: "event_queue \<Rightarrow> mailbox" where
  "abs_queue q = \<lparr>mb_held = (if eq_pending_valid q then Some (q_event (eq_pending q)) else None),
                 mb_waiting = map q_event (waiting q)\<rparr>"

fun push_cost :: "queue_op \<Rightarrow> nat" where
  "push_cost (Push e) = 1"
| "push_cost _ = 0"

lemma ordered_count:
  assumes "queue_inv q"
  shows "length (filter is_ordered (map q_event (waiting q))) = eq_count q"
proof -
  have P: "is_ordered \<circ> q_event = (\<lambda>x. kind x = None)"
    by (simp add: fun_eq_iff is_ordered_def kind_def)
  have "filter (\<lambda>x. kind x = None) (ring q @ live_snapshots q) = ring q"
    using slot_kinds [OF assms] by (simp add: filter_id_conv filter_empty_conv)
  then have "length (filter (\<lambda>x. kind x = None) (waiting q)) = length (ring q)"
    by (simp add: waiting_def filter_sort)
  then show ?thesis
    by (simp add: filter_map P ring_def)
qed

lemma push_cases:
  assumes inv: "queue_inv q"
  obtains (full) "snapshot_index (ev_type e) = None" "eq_count q = queue_capacity"
      "queue_push q e = (-1, q)"
    | (ordered) "snapshot_index (ev_type e) = None" "eq_count q \<noteq> queue_capacity"
    | (snapshot) i where "snapshot_index (ev_type e) = Some i"
  using push_full [of e q] by (cases "snapshot_index (ev_type e)") auto

lemma waiting_acknowledge [frame_simps]: "waiting (queue_acknowledge q) = waiting q"
  by (simp add: queue_acknowledge_def waiting_def ring_def live_snapshots_def)

lemma queue_inv_acknowledge: "queue_inv q \<Longrightarrow> queue_inv (queue_acknowledge q)"
  by (simp add: queue_inv_def queue_acknowledge_def queue_shape_def slot_ok_def ring_def live_snapshots_def)

lemma pending_push [frame_simps]:
  "eq_pending (snd (queue_push q e)) = eq_pending q"
  "eq_pending_valid (snd (queue_push q e)) = eq_pending_valid q"
  by (simp_all add: queue_push_def Let_def split: option.splits)

lemma push_step:
  assumes inv: "queue_inv q" and room: "1 \<le> room q"
  shows "queue_inv (snd (queue_push q e)) \<and>
    mailbox_step (abs_queue q) (Push e) = (Pushed (fst (queue_push q e)), abs_queue (snd (queue_push q e)))"
  using inv
proof (cases rule: push_cases [where e = e])
  case full
  then show ?thesis
    using inv ordered_count [OF inv] by (simp add: abs_queue_def queue_capacity_def)
next
  case ordered
  then show ?thesis
    using push_ordered [OF inv ordered(1,2) room] ordered_count [OF inv]
    by (simp add: abs_queue_def queue_capacity_def frame_simps)
next
  case (snapshot i)
  have "kind y \<noteq> Some i \<longleftrightarrow> snapshot_index (ev_type (q_event y)) \<noteq> Some i" for y
    by (simp add: kind_def)
  then show ?thesis
    using push_snapshot [OF inv snapshot room] snapshot
    by (simp add: abs_queue_def frame_simps filter_map comp_def)
qed

lemma room_push: "room q \<le> room (snd (queue_push q e)) + 1"
proof (cases "snd (queue_push q e) = q")
  case False
  then have "eq_sequence (snd (queue_push q e)) = eq_sequence q + 1"
    by (auto simp: queue_push_def Let_def split: option.splits if_splits)
  moreover have "unat (eq_sequence q + 1) \<le> unat (eq_sequence q) + 1"
    by (simp add: unat_word_ariths)
  ultimately show ?thesis
    by (simp add: room_def)
qed simp

lemma peek_step:
  assumes inv: "queue_inv q"
  shows "queue_inv (snd (queue_peek q)) \<and> room (snd (queue_peek q)) = room q \<and>
    mailbox_step (abs_queue q) Peek = (Peeked (fst (queue_peek q)), abs_queue (snd (queue_peek q)))"
proof (cases "eq_pending_valid q")
  case True
  then show ?thesis
    using inv by (simp add: peek_held abs_queue_def)
next
  case False
  from inv False show ?thesis
    by (cases rule: peek_cases) (use inv False in \<open>simp_all add: abs_queue_def room_def\<close>)
qed

lemma acknowledge_step:
  "mailbox_step (abs_queue q) Acknowledge = (Acknowledged, abs_queue (queue_acknowledge q)) \<and>
   room (queue_acknowledge q) = room q"
  by (simp add: abs_queue_def frame_simps) (simp add: queue_acknowledge_def room_def)

interpretation mail: simulation queue_step mailbox_step abs_queue queue_inv room push_cost
proof
  fix q x assume inv: "queue_inv q" and cost: "push_cost x \<le> room q"
  show "queue_inv (snd (queue_step q x))"
    using inv cost push_step peek_step queue_inv_acknowledge by (cases x) auto
  show "room q \<le> room (snd (queue_step q x)) + push_cost x"
    using inv room_push peek_step acknowledge_step by (cases x) auto
  show "mailbox_step (abs_queue q) x = (fst (queue_step q x), abs_queue (snd (queue_step q x)))"
    using inv cost push_step peek_step acknowledge_step by (cases x) auto
qed

lemma reset_inv:
  "queue_shape q \<Longrightarrow> queue_inv (queue_reset q) \<and> room (queue_reset q) = 2 ^ 64 - 1 \<and>
     abs_queue (queue_reset q) = \<lparr>mb_held = None, mb_waiting = []\<rparr>"
  by (auto simp: queue_inv_def queue_reset_def queue_shape_def ring_def live_snapshots_def room_def
      queue_capacity_def abs_queue_def waiting_def filter_empty_conv)

section \<open>Properties\<close>

text \<open>
  Draining a mailbox: every Peek and Acknowledge pair of the delivery loop takes the next event.
\<close>

definition drain_ops :: "nat \<Rightarrow> queue_op list" where
  "drain_ops n = concat (replicate n [Peek, Acknowledge])"

lemma drain_cost [simp]: "sum_list (map push_cost (drain_ops n)) = 0"
  by (induction n) (simp_all add: drain_ops_def)

lemma mailbox_drain:
  "fst (run mailbox_step \<lparr>mb_held = None, mb_waiting = es\<rparr> (drain_ops (length es) @ [Peek])) =
     concat (map (\<lambda>e. [Peeked (Some e), Acknowledged]) es) @ [Peeked None]"
  by (induction es) (simp_all add: drain_ops_def)

lemma mailbox_held:
  "mb_held m = Some e \<Longrightarrow> \<forall>x\<in>set xs. x \<noteq> Acknowledge \<Longrightarrow>
     mb_held (snd (run mailbox_step m xs)) = Some e"
proof (induction xs arbitrary: m)
  case (Cons x xs)
  then have "mb_held (snd (mailbox_step m x)) = Some e"
    by (cases x) (auto split: option.splits)
  then show ?case
    using Cons by simp
qed simp

text \<open>
  Property C7. Whatever the producers and the delivery loop do, in any order, a queue that was
  reset behaves as the mailbox of the header file: the replies of every push, peek and acknowledge
  are those of the abstract mailbox, as long as fewer than \<open>2 ^ 64\<close> events have been accepted.
\<close>

theorem event_queue_refines_mailbox:
  assumes "queue_shape q" and "length (filter (\<lambda>x. push_cost x = 1) xs) < 2 ^ 64"
  shows "fst (run queue_step (queue_reset q) xs) =
         fst (run mailbox_step \<lparr>mb_held = None, mb_waiting = []\<rparr> xs)"
proof -
  have "sum_list (map push_cost xs) = length (filter (\<lambda>x. push_cost x = 1) xs)" for xs
  proof (induction xs)
    case (Cons x xs)
    then show ?case by (cases x) auto
  qed simp
  then show ?thesis
    using assms mail.run_simulates [of "queue_reset q" xs] reset_inv [OF assms(1)] by simp
qed

definition sample_event :: "event_type \<Rightarrow> int \<Rightarrow> event" where
  "sample_event t n = \<lparr>ev_type = t, ev_result = n, ev_host_id = 0, ev_application_id = 0,
     ev_address = Some ''192.168.1.7'', ev_pairing_pin = [], ev_server_status_code = 0,
     ev_server_status_message = [], ev_running_application_id = 0, ev_discovery_generation = 0\<rparr>"

definition sample_queue :: event_queue where
  "sample_queue = (let x = copy_event (sample_event EvNone 0) 0 in
     \<lparr>eq_ordered = replicate 16 x, eq_snapshots = replicate 4 x,
      eq_snapshot_pending = replicate 4 True, eq_head = 3, eq_tail = 5, eq_count = 2,
      eq_sequence = 9, eq_pending = x, eq_pending_valid = True\<rparr>)"

lemma sample_event_simps [simp]:
  "ev_type (sample_event t n) = t" "delivered (sample_event t n) = sample_event t n"
  by (simp_all add: sample_event_def delivered_def bounded_copy_id)

lemma sample_queue_shape: "queue_shape sample_queue"
  by (simp add: queue_shape_def sample_queue_def queue_capacity_def snapshot_count_def Let_def)

definition sample_ops :: "queue_op list" where
  "sample_ops = [Push (sample_event EvHostsChanged 1), Push (sample_event EvStreamStarted 2),
     Push (sample_event EvHostsChanged 3), Peek, Push (sample_event EvStreamStopped 4), Peek,
     Acknowledge, Peek, Acknowledge, Peek]"

lemma event_queue_refines_mailbox_witness:
  "fst (run queue_step (queue_reset sample_queue) sample_ops) =
     [Pushed 0, Pushed 0, Pushed 0, Peeked (Some (sample_event EvStreamStarted 2)), Pushed 0,
      Peeked (Some (sample_event EvStreamStarted 2)), Acknowledged,
      Peeked (Some (sample_event EvHostsChanged 3)), Acknowledged,
      Peeked (Some (sample_event EvStreamStopped 4))]"
  by (subst event_queue_refines_mailbox [OF sample_queue_shape])
     (simp_all add: sample_ops_def is_ordered_def)

text \<open>
  Property C33. Nothing accepted is lost, duplicated or reordered: when no event is being delivered,
  as many Peek and Acknowledge pairs as events wait deliver exactly those events, in sequence
  order, and the next Peek finds the queue empty.
\<close>

theorem event_queue_drains_in_order:
  assumes "queue_inv q" and "\<not> eq_pending_valid q"
  shows "fst (run queue_step q (drain_ops (length (waiting q)) @ [Peek])) =
         concat (map (\<lambda>x. [Peeked (Some (q_event x)), Acknowledged]) (waiting q)) @ [Peeked None]"
proof -
  have "abs_queue q = \<lparr>mb_held = None, mb_waiting = map q_event (waiting q)\<rparr>"
    using assms(2) by (simp add: abs_queue_def)
  then show ?thesis
    using mail.run_simulates [OF assms(1), of "drain_ops (length (waiting q)) @ [Peek]"]
      mailbox_drain [of "map q_event (waiting q)"] by (simp add: comp_def)
qed

definition sample_busy :: event_queue where
  "sample_busy = snd (run queue_step (queue_reset sample_queue)
     [Push (sample_event EvHostsChanged 1), Push (sample_event EvStreamStarted 2),
      Push (sample_event EvHostsChanged 3)])"

lemma sample_busy_facts:
  "queue_inv sample_busy" "\<not> eq_pending_valid sample_busy" "1 \<le> room sample_busy"
  "map q_event (waiting sample_busy) = [sample_event EvStreamStarted 2, sample_event EvHostsChanged 3]"
proof -
  let ?xs = "[Push (sample_event EvHostsChanged 1), Push (sample_event EvStreamStarted 2),
      Push (sample_event EvHostsChanged 3)]"
  have "queue_inv sample_busy \<and> abs_queue sample_busy =
      \<lparr>mb_held = None, mb_waiting = [sample_event EvStreamStarted 2, sample_event EvHostsChanged 3]\<rparr>"
    using mail.run_simulates [of "queue_reset sample_queue" ?xs] reset_inv [OF sample_queue_shape]
    by (simp add: sample_busy_def is_ordered_def)
  then show "queue_inv sample_busy" "\<not> eq_pending_valid sample_busy"
    "map q_event (waiting sample_busy) = [sample_event EvStreamStarted 2, sample_event EvHostsChanged 3]"
    by (auto simp: abs_queue_def split: if_splits)
  show "1 \<le> room sample_busy"
    by (simp add: sample_busy_def room_def queue_push_def queue_reset_def sample_queue_def
        Let_def queue_capacity_def)
qed

lemma event_queue_drains_in_order_witness:
  "fst (run queue_step sample_busy (drain_ops 2 @ [Peek])) =
     [Peeked (Some (sample_event EvStreamStarted 2)), Acknowledged,
      Peeked (Some (sample_event EvHostsChanged 3)), Acknowledged, Peeked None]"
proof -
  note m = sample_busy_facts(4)
  have "length (waiting sample_busy) = 2"
    using arg_cong [OF m, of length] by simp
  moreover have "concat (map (\<lambda>x. [Peeked (Some (q_event x)), Acknowledged]) (waiting sample_busy)) =
      concat (map (\<lambda>e. [Peeked (Some e), Acknowledged]) (map q_event (waiting sample_busy)))"
    by (simp add: comp_def)
  ultimately show ?thesis
    using event_queue_drains_in_order [OF sample_busy_facts(1,2)] by (simp add: m)
qed

text \<open>
  Back-pressure: a push is refused exactly when its event is an ordered one and all
  sixteen ordered slots are occupied, and a refused push changes nothing. Invalidations (hosts,
  settings, availability, discovery) are never refused and never take an ordered slot.
\<close>

theorem event_queue_push_refused_iff:
  assumes "queue_inv q"
  shows "fst (queue_push q e) = (if is_ordered e \<and> length (ring q) = 16 then -1 else 0) \<and>
         (fst (queue_push q e) \<noteq> 0 \<longrightarrow> snd (queue_push q e) = q) \<and>
         (\<not> is_ordered e \<longrightarrow> ring (snd (queue_push q e)) = ring q)"
proof -
  have "length (ring q) = eq_count q"
    by (simp add: ring_def)
  then show ?thesis
    by (simp add: queue_push_def is_ordered_def queue_capacity_def Let_def frame_simps
        split: option.splits)
qed

lemma event_queue_push_refused_iff_witness:
  "fst (queue_push sample_busy (sample_event EvStreamStopped 4)) = 0"
proof -
  have "length (ring sample_busy) = eq_count sample_busy"
    by (simp add: ring_def)
  also have "\<dots> = 1"
    using ordered_count [OF sample_busy_facts(1)]
    by (simp add: sample_busy_facts(4) is_ordered_def)
  finally show ?thesis
    using event_queue_push_refused_iff [OF sample_busy_facts(1), of "sample_event EvStreamStopped 4"]
    by simp
qed

text \<open>
  A delivered event is stable until it is acknowledged: after a peek has returned an
  event, further pushes and peeks (a producer that overwrites the same snapshot slot, a full ring)
  leave it in place, and the next peek returns the same event with the same address.
\<close>

theorem event_queue_peek_stable:
  assumes "queue_inv q" and "fst (queue_peek q) = Some e" and "Acknowledge \<notin> set xs"
    and "length xs \<le> room q"
  shows "fst (queue_peek (snd (run queue_step (snd (queue_peek q)) xs))) = Some e"
proof -
  have cost: "sum_list (map push_cost xs) \<le> length xs"
  proof (induction xs)
    case (Cons x xs)
    then show ?case by (cases x) auto
  qed simp
  note p = peek_step [OF assms(1)]
  have held: "mb_held (abs_queue (snd (queue_peek q))) = Some e"
    using assms(1,2) by (cases "eq_pending_valid q")
      (auto simp: abs_queue_def peek_held elim: peek_cases [OF assms(1)])
  define q' where "q' = snd (run queue_step (snd (queue_peek q)) xs)"
  have "mb_held (abs_queue q') = Some e"
    using mail.run_simulates [of "snd (queue_peek q)" xs] mailbox_held [OF held, of xs] p assms(3,4) cost
    by (auto simp: q'_def)
  then have "fst (queue_peek q') = Some e"
    by (auto simp: abs_queue_def peek_held split: if_splits)
  then show ?thesis
    by (simp add: q'_def)
qed

lemma event_queue_peek_stable_witness:
  "fst (queue_peek (snd (run queue_step (snd (queue_peek sample_busy))
     [Push (sample_event EvStreamStopped 4)]))) = Some (sample_event EvStreamStarted 2)"
proof -
  have "fst (queue_peek sample_busy) = Some (sample_event EvStreamStarted 2)"
    using sample_busy_facts by (cases rule: peek_cases [of sample_busy]) auto
  then show ?thesis
    by (rule event_queue_peek_stable [OF sample_busy_facts(1)]) (use sample_busy_facts(3) in simp_all)
qed

end
