(* ===== verification/StreamSession.thy ===== *)
theory StreamSession imports EventQueue begin

text \<open>
  The life of a stream (\<open>src/moonlight/stream_session.cpp\<close>): a start admits one owner, a thread that sets the stream up, runs it until it is
  asked to stop, takes it down and frees the place. Other threads ask it to stop, the connection library calls
  back, and all of them meet in variables behind one mutex.

  The model has the critical sections of the file as its steps. A list of actions says which thread goes next and what the other side
  decides: how far the setup gets, which callbacks the library makes, with what it returns. So every
  interleaving is a list. The owners are a list too: that there is never more than one is a theorem and not an assumption.

  About the library (\<open>LiStartConnection\<close> of moonlight-common-c) the model takes for granted that it calls back from the thread of its caller while it
  starts, begins at most \<open>stages\<close> stages, at least one before \<open>connectionStarted\<close>, and returns 0 exactly after that callback, having
  undone everything otherwise. \<open>on_connection_terminated\<close> and the callbacks for the lights may come from anywhere at any time. What the owner asks the
  server before is the matter of \<open>StreamLaunch\<close>; here it is the result of the setup.
\<close>

section \<open>The variables\<close>

record controller_light =
  cl_generation :: u32
  cl_mode :: int
  cl_r :: u8
  cl_g :: u8
  cl_b :: u8

text \<open>
  Calls that leave the file, in order, with marks for what happens inside it: an owner is admitted and gone, and the window in which a stop
  interrupts the library (\<open>s_common_starting\<close>) opens and closes.
\<close>

datatype session_call =
    Admitted_owner
  | Stats_begin u32
  | Stats_end u32
  | Li_start
  | Window_opened
  | Window_closed
  | Li_returned int
  | Li_interrupt
  | Li_stop
  | Input_start
  | Input_stop
  | Deliver event_type int
  | Owner_gone

text \<open>
  Where an owner is. \<open>Checking n\<close> has \<open>n\<close> looks at the cancellation ahead of it until it calls the library, \<open>Starting begun n\<close> is in the library
  with at most \<open>n\<close> stages to go, \<open>Announcing\<close> has committed the start and is about to tell, \<open>Connected\<close> is back in the library.
\<close>

datatype owner =
    Admitted
  | Checking nat
  | Starting bool nat
  | Announcing
  | Connected
  | Returned int
  | Cancelling
  | Active
  | Stopping
  | Stopped
  | Failing int
  | Finishing event_type int
  | Delivering bool event_type int
  | Delivered

record session =
  ss_running :: bool
  ss_stop :: bool
  ss_cancel :: bool
  ss_termination :: int
  ss_stats_generation :: u32
  ss_common_starting :: bool
  ss_interrupt_sent :: bool
  ss_callback :: bool
  ss_started :: bool
  ss_light :: controller_light
  ss_owners :: "owner list"
  ss_log :: "session_call list"

definition session_boot :: session where
  "session_boot = \<lparr>ss_running = False, ss_stop = False, ss_cancel = False, ss_termination = 0, ss_stats_generation = 0,
     ss_common_starting = False, ss_interrupt_sent = False, ss_callback = False, ss_started = False,
     ss_light = \<lparr>cl_generation = 0, cl_mode = 0, cl_r = 0, cl_g = 0, cl_b = 0\<rparr>, ss_owners = [], ss_log = []\<rparr>"

definition noting :: "session_call \<Rightarrow> session \<Rightarrow> session" where
  "noting c s = s\<lparr>ss_log := ss_log s @ [c]\<rparr>"

section \<open>The critical sections\<close>

definition light_of_mode :: "int \<Rightarrow> int" where
  "light_of_mode mode = (if mode < 0 \<or> mode > 2 then 0 else mode)"

text \<open>The admission of \<open>moonlight_stream_start\<close>; \<open>-2\<close> when there is an owner.\<close>

definition stream_admit :: "bool \<Rightarrow> int \<Rightarrow> session \<Rightarrow> int \<times> session" where
  "stream_admit callback light_mode s =
     (if ss_running s then (- 2, s)
      else let generation = cl_generation (ss_light s) + 1
           in (0, noting Admitted_owner (s\<lparr>ss_running := True, ss_stop := False, ss_cancel := False, ss_termination := 0,
                ss_common_starting := False, ss_interrupt_sent := False, ss_callback := callback, ss_started := False,
                ss_light := \<lparr>cl_generation = (if generation = 0 then 1 else generation), cl_mode = light_of_mode light_mode,
                             cl_r = 0, cl_g = 0, cl_b = 0\<rparr>,
                ss_owners := ss_owners s @ [Admitted]\<rparr>)))"

definition interrupt_common_startup :: "session \<Rightarrow> session" where
  "interrupt_common_startup s =
     (if ss_common_starting s \<and> ss_cancel s \<and> \<not> ss_started s \<and> \<not> ss_interrupt_sent s
      then noting Li_interrupt s\<lparr>ss_interrupt_sent := True\<rparr> else s)"

definition stream_stop :: "session \<Rightarrow> session" where
  "stream_stop s =
     (if \<not> ss_running s then s else interrupt_common_startup (s\<lparr>ss_cancel := True, ss_stop := True\<rparr>))"

definition publish_common_startup :: "session \<Rightarrow> session" where
  "publish_common_startup s = interrupt_common_startup (noting Window_opened s\<lparr>ss_common_starting := True\<rparr>)"

text \<open>Whether the start was cancelled.\<close>

definition finish_common_startup :: "session \<Rightarrow> bool \<times> session" where
  "finish_common_startup s =
     (ss_interrupt_sent s \<and> ss_cancel s \<and> \<not> ss_started s, noting Window_closed s\<lparr>ss_common_starting := False, ss_interrupt_sent := False\<rparr>)"

definition on_connection_started :: "session \<Rightarrow> session" where
  "on_connection_started s = noting Window_closed s\<lparr>ss_common_starting := False, ss_started := (if ss_cancel s then ss_started s else True)\<rparr>"

definition on_connection_terminated :: "int \<Rightarrow> session \<Rightarrow> session" where
  "on_connection_terminated result s =
     (if ss_running s then s\<lparr>ss_termination := result, ss_stop := True\<rparr> else s)"

text \<open>The generation whose connection status is noted, if any.\<close>

definition on_status_update :: "session \<Rightarrow> u32 option" where
  "on_status_update s = (if ss_running s \<and> \<not> ss_stop s \<and> \<not> ss_cancel s then Some (ss_stats_generation s) else None)"

definition on_controller_led :: "nat \<Rightarrow> u8 \<Rightarrow> u8 \<Rightarrow> u8 \<Rightarrow> session \<Rightarrow> session" where
  "on_controller_led controller r g b s =
     (if controller = 0 \<and> ss_running s \<and> \<not> ss_stop s \<and> \<not> ss_cancel s \<and> cl_mode (ss_light s) \<noteq> 0
      then s\<lparr>ss_light := (ss_light s)\<lparr>cl_r := r, cl_g := g, cl_b := b\<rparr>\<rparr> else s)"

definition stream_controller_light :: "session \<Rightarrow> controller_light" where
  "stream_controller_light s =
     (if \<not> ss_running s \<or> \<not> ss_started s \<or> ss_stop s \<or> ss_cancel s then (ss_light s)\<lparr>cl_mode := 0\<rparr> else ss_light s)"

section \<open>The owner\<close>

text \<open>What the other side decides at a step of the owner.\<close>

datatype choice =
    Created u32 bool
  | Setup_fails int
  | Go_on
  | Stage_begins
  | Connection_starts
  | Start_fails int

text \<open>The owner looks at the cancellation seven times before it calls the library.\<close>

definition checks :: nat where "checks = 7"

text \<open>One step; \<open>None\<close> for the second part when the owner is gone.\<close>

definition created_move :: "session \<Rightarrow> u32 \<Rightarrow> bool \<Rightarrow> session \<times> owner option" where
  "created_move s generation created =
     (let s = noting (Stats_begin generation) (s\<lparr>ss_stats_generation := generation\<rparr>)
      in if created then (s, Some (Checking checks))
         else (noting Owner_gone (noting (Stats_end generation) s)\<lparr>ss_callback := False, ss_running := False\<rparr>, None))"

fun starting_move :: "session \<Rightarrow> bool \<Rightarrow> nat \<Rightarrow> choice \<Rightarrow> (session \<times> owner option) option" where
  "starting_move s begun n Stage_begins = (if n > 0 then Some (publish_common_startup s, Some (Starting True (n - 1))) else None)"
| "starting_move s begun n Connection_starts =
     (if begun then Some (on_connection_started s, Some (if ss_cancel s then Connected else Announcing)) else None)"
| "starting_move s begun n (Start_fails r) = (if r \<noteq> 0 then Some (noting (Li_returned r) s, Some (Returned r)) else None)"
| "starting_move s begun n c = None"

definition returned_move :: "session \<Rightarrow> int \<Rightarrow> session \<times> owner option" where
  "returned_move s r =
     (case finish_common_startup s of (cancelled, s) \<Rightarrow>
        (s, Some (if cancelled then if r = 0 then Cancelling else Failing (- 7) else if r = 0 then Active else Failing r)))"

text \<open>The steps that leave nothing to the other side.\<close>

fun plain_move :: "nat \<Rightarrow> session \<Rightarrow> owner \<Rightarrow> (session \<times> owner option) option" where
  "plain_move stages s (Checking n) =
     Some (if n = 0 then (noting Li_start s, Some (Starting False stages))
           else (s, Some (if ss_cancel s then Failing (- 7) else Checking (n - 1))))"
| "plain_move stages s Announcing =
     (let s = noting Input_start s in Some (if ss_callback s then noting (Deliver EvStreamStarted 0) s else s, Some Connected))"
| "plain_move stages s Connected = Some (noting (Li_returned 0) s, Some (Returned 0))"
| "plain_move stages s (Returned r) = Some (returned_move s r)"
| "plain_move stages s Cancelling = Some (noting Li_stop s, Some (Failing (- 7)))"
| "plain_move stages s Active =
     Some (if ss_stop s \<or> ss_cancel s
           then (noting Input_stop (noting (Stats_end (ss_stats_generation s)) s), Some Stopping) else (s, Some Active))"
| "plain_move stages s Stopping = Some (noting Li_stop s, Some Stopped)"
| "plain_move stages s Stopped = Some (s, Some (Finishing EvStreamStopped (ss_termination s)))"
| "plain_move stages s (Failing r) = Some (noting (Stats_end (ss_stats_generation s)) s, Some (Finishing EvStreamFailed r))"
| "plain_move stages s (Finishing event r) = Some (s\<lparr>ss_started := False\<rparr>, Some (Delivering (ss_callback s) event r))"
| "plain_move stages s (Delivering callback event r) = Some (if callback then noting (Deliver event r) s else s, Some Delivered)"
| "plain_move stages s Delivered = Some (noting Owner_gone s\<lparr>ss_stop := False, ss_cancel := False, ss_running := False\<rparr>, None)"
| "plain_move stages s _ = None"

definition owner_move :: "nat \<Rightarrow> session \<Rightarrow> owner \<Rightarrow> choice \<Rightarrow> (session \<times> owner option) option" where
  "owner_move stages s pc c =
     (case pc of
        Admitted \<Rightarrow> (case c of Created generation created \<Rightarrow> Some (created_move s generation created) | _ \<Rightarrow> None)
      | Checking n \<Rightarrow>
          (case c of Setup_fails r \<Rightarrow> if r \<noteq> 0 then Some (s, Some (Failing r)) else None
           | Go_on \<Rightarrow> plain_move stages s pc | _ \<Rightarrow> None)
      | Starting begun n \<Rightarrow> starting_move s begun n c
      | _ \<Rightarrow> (case c of Go_on \<Rightarrow> plain_move stages s pc | _ \<Rightarrow> None))"

section \<open>All threads\<close>

text \<open>The only caller of the start passes a callback.\<close>

datatype session_action =
    Own nat choice
  | Start int
  | Stop
  | Terminated int
  | Led nat u8 u8 u8

fun session_act :: "nat \<Rightarrow> session_action \<Rightarrow> session \<Rightarrow> session option" where
  "session_act stages (Own i c) s =
     (if i < length (ss_owners s) then
        (case owner_move stages s (ss_owners s ! i) c of None \<Rightarrow> None
         | Some (t, None) \<Rightarrow> Some (t\<lparr>ss_owners := take i (ss_owners s) @ drop (Suc i) (ss_owners s)\<rparr>)
         | Some (t, Some pc) \<Rightarrow> Some (t\<lparr>ss_owners := (ss_owners s)[i := pc]\<rparr>))
      else None)"
| "session_act stages (Start light) s = Some (snd (stream_admit True light s))"
| "session_act stages Stop s = Some (stream_stop s)"
| "session_act stages (Terminated r) s = Some (on_connection_terminated r s)"
| "session_act stages (Led controller r g b) s = Some (on_controller_led controller r g b s)"

definition session_run :: "nat \<Rightarrow> session_action list \<Rightarrow> session \<Rightarrow> session option" where
  "session_run stages = fold_opt (session_act stages)"

section \<open>What the connection library and the user interface demand\<close>

text \<open>
  \<open>Free\<close> before and after a session, \<open>Pending\<close> from its admission, \<open>Streaming\<close> from its start event, \<open>Closed\<close> from its last event. The library
  is \<open>Untouched\<close>, in its start, up, or down for good.
\<close>

datatype phase = Free | Pending | Streaming | Closed
datatype library = Untouched | Called | Up | Down

record protocol =
  pr_phase :: phase
  pr_library :: library
  pr_window :: bool
  pr_interrupted :: bool
  pr_input :: bool
  pr_stats :: "u32 option"

definition fresh_protocol :: "phase \<Rightarrow> protocol" where
  "fresh_protocol phase = \<lparr>pr_phase = phase, pr_library = Untouched, pr_window = False, pr_interrupted = False, pr_input = False, pr_stats = None\<rparr>"

definition guard :: "bool \<Rightarrow> 'a \<Rightarrow> 'a option" where
  "guard b x = (if b then Some x else None)"

text \<open>
  One session at a time. The library is started once and taken down exactly if it came up, by then without input; it is interrupted at
  most once, from its first stage until its owner has dealt with the result of the start, and never once it came up; a session that interrupted it
  ends with \<open>-7\<close>. The user interface hears of a start at most once, when the input runs and the
  library is about to return, and then of exactly one end, when everything is down: of a stop after a start and of a failure
  otherwise.
\<close>

fun session_rule :: "session_call \<Rightarrow> protocol \<Rightarrow> protocol option" where
  "session_rule Admitted_owner w = guard (pr_phase w = Free) (fresh_protocol Pending)"
| "session_rule (Stats_begin g) w = guard (pr_phase w = Pending \<and> pr_stats w = None \<and> pr_library w = Untouched) (w\<lparr>pr_stats := Some g\<rparr>)"
| "session_rule (Stats_end g) w = guard (pr_stats w = Some g) (w\<lparr>pr_stats := None\<rparr>)"
| "session_rule Li_start w = guard (pr_phase w = Pending \<and> pr_library w = Untouched \<and> pr_stats w \<noteq> None) (w\<lparr>pr_library := Called\<rparr>)"
| "session_rule Window_opened w = guard (pr_phase w = Pending \<and> pr_library w = Called) (w\<lparr>pr_window := True\<rparr>)"
| "session_rule Window_closed w = guard (pr_library w \<noteq> Untouched) (w\<lparr>pr_window := False\<rparr>)"
| "session_rule (Li_returned r) w = guard (pr_library w = Called) (w\<lparr>pr_library := (if r = 0 then Up else Down)\<rparr>)"
| "session_rule Li_interrupt w =
     guard (pr_phase w = Pending \<and> pr_window w \<and> pr_library w \<in> {Called, Down} \<and> \<not> pr_interrupted w) (w\<lparr>pr_interrupted := True\<rparr>)"
| "session_rule Li_stop w = guard (pr_library w = Up \<and> \<not> pr_input w) (w\<lparr>pr_library := Down\<rparr>)"
| "session_rule Input_start w = guard (pr_phase w = Pending \<and> pr_library w = Called \<and> \<not> pr_input w) (w\<lparr>pr_input := True\<rparr>)"
| "session_rule Input_stop w = guard (pr_input w) (w\<lparr>pr_input := False\<rparr>)"
| "session_rule (Deliver event r) w =
     (case event of
        EvStreamStarted \<Rightarrow> guard (pr_phase w = Pending \<and> pr_input w \<and> pr_library w = Called \<and> \<not> pr_interrupted w) (w\<lparr>pr_phase := Streaming\<rparr>)
      | EvStreamFailed \<Rightarrow>
          guard (pr_phase w = Pending \<and> r \<noteq> 0 \<and> (pr_interrupted w \<longrightarrow> r = - 7) \<and> pr_library w \<in> {Untouched, Down} \<and> \<not> pr_input w \<and> pr_stats w = None)
            (w\<lparr>pr_phase := Closed\<rparr>)
      | EvStreamStopped \<Rightarrow>
          guard (pr_phase w = Streaming \<and> pr_library w = Down \<and> \<not> pr_input w \<and> pr_stats w = None) (w\<lparr>pr_phase := Closed\<rparr>)
      | _ \<Rightarrow> None)"
| "session_rule Owner_gone w =
     guard (pr_phase w = Closed \<or> pr_phase w = Pending \<and> pr_library w = Untouched \<and> pr_stats w = None) (fresh_protocol Free)"

lemma guard_Some [simp]: "guard b x = Some y \<longleftrightarrow> b \<and> x = y"
  by (simp add: guard_def)

lemma guard_True [simp]: "guard True x = Some x"
  by (simp add: guard_def)

section \<open>The invariant\<close>

definition waiting :: "session \<Rightarrow> protocol \<Rightarrow> bool" where
  "waiting s w \<longleftrightarrow> pr_phase w = Pending \<and> \<not> pr_input w \<and> \<not> ss_started s"

definition measured :: "session \<Rightarrow> protocol \<Rightarrow> bool" where
  "measured s w \<longleftrightarrow> pr_stats w = Some (ss_stats_generation s)"

text \<open>A start that was cancelled has been told to the library.\<close>

definition cancelled :: "session \<Rightarrow> protocol \<Rightarrow> bool" where
  "cancelled s w \<longleftrightarrow> waiting s w \<and> ss_cancel s \<and> ss_interrupt_sent s"

definition streaming :: "session \<Rightarrow> protocol \<Rightarrow> bool" where
  "streaming s w \<longleftrightarrow> pr_phase w = Streaming \<and> pr_input w \<and> ss_started s"

definition ended :: "event_type \<Rightarrow> int \<Rightarrow> protocol \<Rightarrow> bool" where
  "ended event r w \<longleftrightarrow> pr_stats w = None \<and> \<not> pr_input w \<and>
     (event = EvStreamFailed \<and> r \<noteq> 0 \<and> (pr_interrupted w \<longrightarrow> r = - 7) \<and> pr_phase w = Pending \<and> pr_library w \<in> {Untouched, Down} \<or>
      event = EvStreamStopped \<and> pr_phase w = Streaming \<and> pr_library w = Down)"

fun owner_rel :: "owner \<Rightarrow> session \<Rightarrow> protocol \<Rightarrow> bool" where
  "owner_rel Admitted s w \<longleftrightarrow> waiting s w \<and> pr_library w = Untouched \<and> pr_stats w = None \<and>
     \<not> ss_common_starting s \<and> \<not> ss_interrupt_sent s \<and> \<not> pr_interrupted w"
| "owner_rel (Checking n) s w \<longleftrightarrow> waiting s w \<and> pr_library w = Untouched \<and> measured s w \<and>
     \<not> ss_common_starting s \<and> \<not> ss_interrupt_sent s \<and> \<not> pr_interrupted w"
| "owner_rel (Starting begun n) s w \<longleftrightarrow> waiting s w \<and> pr_library w = Called \<and> measured s w \<and>
     ss_common_starting s = begun \<and> ss_interrupt_sent s = pr_interrupted w \<and> ss_interrupt_sent s = (begun \<and> ss_cancel s)"
| "owner_rel Announcing s w \<longleftrightarrow> pr_phase w = Pending \<and> \<not> pr_input w \<and> ss_started s \<and> pr_library w = Called \<and> measured s w \<and>
     \<not> ss_common_starting s \<and> \<not> pr_interrupted w"
| "owner_rel Connected s w \<longleftrightarrow> pr_library w = Called \<and> measured s w \<and> \<not> ss_common_starting s \<and> (streaming s w \<or> cancelled s w)"
| "owner_rel (Returned r) s w \<longleftrightarrow> measured s w \<and>
     (if r = 0 then pr_library w = Up \<and> \<not> ss_common_starting s \<and> (streaming s w \<or> cancelled s w)
      else pr_library w = Down \<and> waiting s w \<and> ss_interrupt_sent s = pr_interrupted w \<and> (ss_interrupt_sent s \<longrightarrow> ss_cancel s))"
| "owner_rel Cancelling s w \<longleftrightarrow> pr_library w = Up \<and> measured s w \<and> waiting s w \<and> \<not> ss_common_starting s"
| "owner_rel Active s w \<longleftrightarrow> pr_library w = Up \<and> measured s w \<and> streaming s w \<and> \<not> ss_common_starting s"
| "owner_rel Stopping s w \<longleftrightarrow> pr_library w = Up \<and> pr_stats w = None \<and> pr_phase w = Streaming \<and> \<not> pr_input w \<and> \<not> ss_common_starting s"
| "owner_rel Stopped s w \<longleftrightarrow> pr_library w = Down \<and> pr_stats w = None \<and> pr_phase w = Streaming \<and> \<not> pr_input w \<and> \<not> ss_common_starting s"
| "owner_rel (Failing r) s w \<longleftrightarrow> r \<noteq> 0 \<and> (pr_interrupted w \<longrightarrow> r = - 7) \<and> pr_library w \<in> {Untouched, Down} \<and> measured s w \<and> waiting s w \<and> \<not> ss_common_starting s"
| "owner_rel (Finishing event r) s w \<longleftrightarrow> ended event r w \<and> \<not> ss_common_starting s"
| "owner_rel (Delivering callback event r) s w \<longleftrightarrow> callback \<and> ended event r w \<and> \<not> ss_common_starting s"
| "owner_rel Delivered s w \<longleftrightarrow> pr_phase w = Closed \<and> \<not> ss_common_starting s"

definition session_ok :: "session \<Rightarrow> protocol \<Rightarrow> bool" where
  "session_ok s w \<longleftrightarrow> fold_opt session_rule (ss_log s) (fresh_protocol Free) = Some w \<and>
     (case ss_owners s of
        [] \<Rightarrow> \<not> ss_running s \<and> pr_phase w = Free
      | [pc] \<Rightarrow> ss_running s \<and> ss_callback s \<and> pr_window w = ss_common_starting s \<and> owner_rel pc s w
      | _ \<Rightarrow> False)"

lemma log_noting [simp]: "ss_log (noting c s) = ss_log s @ [c]"
  by (simp add: noting_def)

lemma noting_frame [simp]:
  "ss_running (noting c s) = ss_running s" "ss_stop (noting c s) = ss_stop s" "ss_cancel (noting c s) = ss_cancel s"
  "ss_termination (noting c s) = ss_termination s" "ss_stats_generation (noting c s) = ss_stats_generation s"
  "ss_common_starting (noting c s) = ss_common_starting s" "ss_interrupt_sent (noting c s) = ss_interrupt_sent s"
  "ss_callback (noting c s) = ss_callback s" "ss_started (noting c s) = ss_started s" "ss_light (noting c s) = ss_light s"
  "ss_owners (noting c s) = ss_owners s"
  by (simp_all add: noting_def)

lemmas owner_defs = waiting_def measured_def cancelled_def streaming_def ended_def

text \<open>The steps of an owner.\<close>

lemma owner_move_ok:
  assumes "fold_opt session_rule (ss_log s) start = Some w" "ss_running s" "ss_callback s" "owner_rel pc s w" "pr_window w = ss_common_starting s"
    "owner_move stages s pc c = Some (t, pc')"
  shows "\<exists>w'. fold_opt session_rule (ss_log t) start = Some w' \<and>
    (case pc' of None \<Rightarrow> \<not> ss_running t \<and> pr_phase w' = Free | Some q \<Rightarrow> ss_running t \<and> ss_callback t \<and> pr_window w' = ss_common_starting t \<and> owner_rel q t w')"
proof (cases pc)
  case Admitted
  then show ?thesis
    using assms by (auto simp: owner_move_def created_move_def Let_def fold_opt_append guard_def fresh_protocol_def owner_defs
        split: choice.splits if_splits)
next
  case (Checking n)
  then show ?thesis
    using assms by (auto simp: owner_move_def fold_opt_append guard_def owner_defs split: choice.splits if_splits)
next
  case (Starting begun n)
  then show ?thesis
    using assms by (cases c) (auto simp: owner_move_def publish_common_startup_def interrupt_common_startup_def on_connection_started_def
        fold_opt_append guard_def owner_defs split: if_splits)
next
  case (Returned r)
  then show ?thesis
    using assms by (cases c) (auto simp: owner_move_def returned_move_def finish_common_startup_def fold_opt_append guard_def owner_defs
        split: if_splits)
next
  case (Finishing event r)
  then show ?thesis
    using assms by (cases c) (auto simp: owner_move_def fold_opt_append guard_def owner_defs split: if_splits)
next
  case (Delivering callback event r)
  then show ?thesis
    using assms by (cases c) (auto simp: owner_move_def fold_opt_append guard_def owner_defs split: if_splits)
next
  case Delivered
  then show ?thesis
    using assms by (cases c) (auto simp: owner_move_def fold_opt_append guard_def fresh_protocol_def owner_defs split: if_splits)
qed (use assms in \<open>cases c; auto simp: owner_move_def Let_def fold_opt_append guard_def owner_defs split: if_splits\<close>)+

lemma interrupt_frame:
  "ss_running (interrupt_common_startup s) = ss_running s" "ss_callback (interrupt_common_startup s) = ss_callback s"
  "ss_owners (interrupt_common_startup s) = ss_owners s" "ss_cancel (interrupt_common_startup s) = ss_cancel s"
  "ss_started (interrupt_common_startup s) = ss_started s" "ss_stats_generation (interrupt_common_startup s) = ss_stats_generation s"
  "ss_common_starting (interrupt_common_startup s) = ss_common_starting s" "ss_stop (interrupt_common_startup s) = ss_stop s"
  by (simp_all add: interrupt_common_startup_def)

text \<open>A stop may interrupt the library, which its owner then knows.\<close>

lemma stream_stop_ok:
  assumes "session_ok s w"
  shows "\<exists>w'. session_ok (stream_stop s) w'"
proof (cases "ss_owners s")
  case Nil
  then show ?thesis
    using assms by (intro exI [of _ w]) (auto simp: session_ok_def stream_stop_def)
next
  case (Cons pc rest)
  then have single: "ss_owners s = [pc]" and r: "ss_running s" "ss_callback s" "owner_rel pc s w" "pr_window w = ss_common_starting s"
    and log: "fold_opt session_rule (ss_log s) (fresh_protocol Free) = Some w"
    using assms by (auto simp: session_ok_def split: list.splits)
  let ?s = "s\<lparr>ss_cancel := True, ss_stop := True\<rparr>"
  show ?thesis
  proof (cases "ss_common_starting s \<and> \<not> ss_started s \<and> \<not> ss_interrupt_sent s")
    case True
    then have "\<exists>w'. session_rule Li_interrupt w = Some w' \<and> pr_window w' = ss_common_starting s \<and> owner_rel pc (noting Li_interrupt ?s\<lparr>ss_interrupt_sent := True\<rparr>) w'"
      using r(3,4) by (cases pc) (auto simp: owner_defs split: if_splits)
    then show ?thesis
      using True r single log
      by (auto simp: session_ok_def stream_stop_def interrupt_common_startup_def fold_opt_append)
  next
    case False
    then have "owner_rel pc ?s w"
      using r(3) by (cases pc) (auto simp: owner_defs split: if_splits)
    then show ?thesis
      using False r single log
      by (intro exI [of _ w]) (auto simp: session_ok_def stream_stop_def interrupt_common_startup_def)
  qed
qed

lemma session_ok_frame:
  assumes "session_ok s w" "ss_log s' = ss_log s" "ss_owners s' = ss_owners s" "ss_running s' = ss_running s"
    "ss_callback s' = ss_callback s" "ss_cancel s' = ss_cancel s" "ss_started s' = ss_started s"
    "ss_stats_generation s' = ss_stats_generation s" "ss_common_starting s' = ss_common_starting s"
    "ss_interrupt_sent s' = ss_interrupt_sent s"
  shows "session_ok s' w"
proof -
  have "owner_rel pc s' w = owner_rel pc s w" for pc
    using assms by (cases pc) (simp_all add: owner_defs)
  then show ?thesis
    using assms by (auto simp: session_ok_def split: list.splits)
qed

lemma owner_rel_owners [simp]: "owner_rel q (t\<lparr>ss_owners := pcs\<rparr>) w = owner_rel q t w"
  by (cases q) (simp_all add: owner_defs)

lemma stream_admit_ok:
  assumes "session_ok s w"
  shows "\<exists>w'. session_ok (snd (stream_admit True light s)) w'"
proof (cases "ss_running s")
  case True
  then show ?thesis using assms by (auto simp: stream_admit_def)
next
  case False
  then have "ss_owners s = []" "pr_phase w = Free" "fold_opt session_rule (ss_log s) (fresh_protocol Free) = Some w"
    using assms by (auto simp: session_ok_def split: list.splits)
  then show ?thesis
    using False by (simp add: session_ok_def stream_admit_def Let_def fold_opt_append fresh_protocol_def guard_def owner_defs)
qed

lemma session_act_ok:
  assumes "session_ok s w" "session_act stages a s = Some s'"
  shows "\<exists>w'. session_ok s' w'"
proof (cases a)
  case (Own i c)
  then obtain pc where pc: "ss_owners s = [pc]" "i = 0" "ss_running s" "ss_callback s" "owner_rel pc s w" "pr_window w = ss_common_starting s"
    and log: "fold_opt session_rule (ss_log s) (fresh_protocol Free) = Some w"
    using assms by (auto simp: session_ok_def split: list.splits if_splits)
  then obtain t pc' where move: "owner_move stages s pc c = Some (t, pc')"
    using assms(2) Own by (auto split: option.splits)
  obtain w' where w': "fold_opt session_rule (ss_log t) (fresh_protocol Free) = Some w'"
    "case pc' of None \<Rightarrow> \<not> ss_running t \<and> pr_phase w' = Free | Some q \<Rightarrow> ss_running t \<and> ss_callback t \<and> pr_window w' = ss_common_starting t \<and> owner_rel q t w'"
    using owner_move_ok [OF log pc(3,4,5,6) move] by blast
  show ?thesis
  proof (cases pc')
    case None
    then have "s' = t\<lparr>ss_owners := []\<rparr>"
      using assms(2) Own pc move by simp
    then show ?thesis using w' None by (auto simp: session_ok_def)
  next
    case (Some q)
    then have s': "s' = t\<lparr>ss_owners := [q]\<rparr>"
      using assms(2) Own pc move by simp
    have "owner_rel q s' w'"
      using w'(2) Some by (simp add: s')
    then show ?thesis using w' Some by (auto simp: session_ok_def s')
  qed
next
  case (Terminated r)
  then show ?thesis
    using assms session_ok_frame [OF assms(1), of s'] by (auto simp: on_connection_terminated_def split: if_splits)
next
  case (Led n r g b)
  then show ?thesis
    using assms session_ok_frame [OF assms(1), of s'] by (auto simp: on_controller_led_def split: if_splits)
qed (use assms stream_stop_ok stream_admit_ok in auto)

lemma session_run_ok:
  "session_ok s w \<Longrightarrow> session_run stages actions s = Some s' \<Longrightarrow> \<exists>w'. session_ok s' w'"
  unfolding session_run_def
proof (induction actions arbitrary: s w)
  case (Cons a actions)
  then obtain t where "session_act stages a s = Some t" "fold_opt (session_act stages) actions t = Some s'"
    by (auto split: option.splits)
  then show ?case using Cons session_act_ok by metis
qed auto

lemma session_boot_ok: "session_ok session_boot (fresh_protocol Free)"
  by (simp add: session_ok_def session_boot_def fresh_protocol_def)

section \<open>Properties\<close>


text \<open>What is left to an owner that has been told to stop.\<close>

fun owner_rank :: "nat \<Rightarrow> owner \<Rightarrow> nat" where
  "owner_rank stages Admitted = checks + stages + 13"
| "owner_rank stages (Checking n) = n + stages + 12"
| "owner_rank stages (Starting begun n) = n + 11"
| "owner_rank stages Announcing = 10"
| "owner_rank stages Connected = 9"
| "owner_rank stages (Returned r) = 8"
| "owner_rank stages Cancelling = 6"
| "owner_rank stages Active = 7"
| "owner_rank stages Stopping = 5"
| "owner_rank stages Stopped = 4"
| "owner_rank stages (Failing r) = 4"
| "owner_rank stages (Finishing event r) = 3"
| "owner_rank stages (Delivering callback event r) = 2"
| "owner_rank stages Delivered = 1"

lemma owner_rank_pos [simp]: "owner_rank stages pc \<noteq> 0"
  by (cases pc) simp_all

lemma owner_move_rank:
  assumes "owner_move stages s pc c = Some (t, pc')" "ss_cancel s"
  shows "case pc' of None \<Rightarrow> True | Some q \<Rightarrow> owner_rank stages q < owner_rank stages pc \<and> ss_cancel t"
  using assms
  by (cases pc; cases c) (auto simp: owner_move_def created_move_def returned_move_def finish_common_startup_def publish_common_startup_def
      interrupt_frame on_connection_started_def Let_def checks_def split: if_splits)

text \<open>The owner always has a step, whatever happened: nothing waits for something else.\<close>

lemma owner_move_enabled: "\<exists>c. owner_move stages s pc c \<noteq> None"
proof (cases pc)
  case Admitted
  then show ?thesis by (intro exI [of _ "Created 0 False"]) (simp add: owner_move_def)
next
  case (Starting begun n)
  then show ?thesis by (intro exI [of _ "Start_fails 1"]) (simp add: owner_move_def)
qed (rule exI [of _ Go_on], simp add: owner_move_def Let_def)+

fun is_own :: "session_action \<Rightarrow> bool" where
  "is_own (Own i c) = True"
| "is_own _ = False"

definition session_rank :: "nat \<Rightarrow> session \<Rightarrow> nat" where
  "session_rank stages s = (case ss_owners s of [] \<Rightarrow> 0 | pc # _ \<Rightarrow> owner_rank stages pc)"

lemma stop_step:
  assumes "session_ok s w" "ss_cancel s" "ss_owners s \<noteq> []" "session_act stages a s = Some s'"
  shows "ss_owners s' = [] \<or> ss_cancel s' \<and> session_rank stages s' + of_bool (is_own a) \<le> session_rank stages s"
proof (cases a)
  case (Own i c)
  then obtain pc where pc: "ss_owners s = [pc]" "i = 0"
    using assms by (auto simp: session_ok_def split: list.splits if_splits)
  then obtain t pc' where move: "owner_move stages s pc c = Some (t, pc')"
    using assms(4) Own by (auto split: option.splits)
  then show ?thesis
    using assms(4) Own pc owner_move_rank [OF move assms(2)] by (cases pc') (auto simp: session_rank_def)
next
  case (Start light)
  have "ss_running s"
    using assms(1,3) by (auto simp: session_ok_def split: list.splits)
  then show ?thesis
    using Start assms by (simp add: stream_admit_def)
qed (use assms in \<open>auto simp: session_rank_def stream_stop_def interrupt_frame on_connection_terminated_def on_controller_led_def\<close>)

lemma stopped_run:
  assumes "session_ok s w" "ss_cancel s" "session_run stages actions s = Some s'"
    "session_rank stages s \<le> length (filter is_own actions)"
  shows "\<exists>k\<le>length actions. \<exists>t. session_run stages (take k actions) s = Some t \<and> ss_owners t = []"
  using assms
proof (induction actions arbitrary: s w)
  case Nil
  then show ?case
    by (auto simp: session_run_def session_rank_def split: list.splits)
next
  case (Cons a actions)
  show ?case
  proof (cases "ss_owners s = []")
    case True
    then show ?thesis by (intro exI [of _ 0]) (simp add: session_run_def)
  next
    case False
    obtain t where t: "session_act stages a s = Some t" "session_run stages actions t = Some s'"
      using Cons.prems(3) by (auto simp: session_run_def split: option.splits)
    obtain v where v: "session_ok t v" using session_act_ok [OF Cons.prems(1) t(1)] by blast
    have "\<exists>k\<le>length actions. \<exists>u. session_run stages (take k actions) t = Some u \<and> ss_owners u = []"
    proof (cases "ss_owners t = []")
      case True
      then show ?thesis by (intro exI [of _ 0]) (simp add: session_run_def)
    next
      case other: False
      then have "ss_cancel t" "session_rank stages t \<le> length (filter is_own actions)"
        using stop_step [OF Cons.prems(1,2) False t(1)] Cons.prems(4) by (cases a; auto)+
      then show ?thesis using Cons.IH [OF v _ t(2)] by blast
    qed
    then obtain k u where "k \<le> length actions" "session_run stages (take k actions) t = Some u" "ss_owners u = []"
      by blast
    then show ?thesis
      using t(1) by (intro exI [of _ "Suc k"]) (simp add: session_run_def)
  qed
qed

text \<open>The counters of an owner never grow.\<close>

fun counters_ok :: "nat \<Rightarrow> owner \<Rightarrow> bool" where
  "counters_ok stages (Checking n) \<longleftrightarrow> n \<le> checks"
| "counters_ok stages (Starting b n) \<longleftrightarrow> n \<le> stages"
| "counters_ok stages _ \<longleftrightarrow> True"

lemma owner_move_counters:
  "owner_move stages s pc c = Some (t, Some q) \<Longrightarrow> counters_ok stages pc \<Longrightarrow> counters_ok stages q"
  by (cases pc; cases c) (auto simp: owner_move_def created_move_def returned_move_def finish_common_startup_def Let_def split: if_splits)

lemma session_act_counters:
  assumes "session_act stages a s = Some s'" "list_all (counters_ok stages) (ss_owners s)"
  shows "list_all (counters_ok stages) (ss_owners s')"
proof (cases a)
  case (Own i c)
  then obtain t pc' where move: "owner_move stages s (ss_owners s ! i) c = Some (t, pc')" and i: "i < length (ss_owners s)"
    using assms(1) by (auto split: if_splits option.splits)
  have pc: "counters_ok stages (ss_owners s ! i)"
    using assms(2) i by (simp add: list_all_length)
  show ?thesis
  proof (cases pc')
    case None
    then have "s' = t\<lparr>ss_owners := take i (ss_owners s) @ drop (Suc i) (ss_owners s)\<rparr>"
      using assms(1) Own move i by simp
    then show ?thesis
      using assms(2) by (auto simp: list_all_iff dest: in_set_takeD in_set_dropD)
  next
    case (Some q)
    then have "s' = t\<lparr>ss_owners := (ss_owners s)[i := q]\<rparr>" "counters_ok stages q"
      using assms(1) Own move i owner_move_counters [OF _ pc] by simp_all
    then show ?thesis
      using assms(2) i by (auto simp: list_all_length nth_list_update)
  qed
next
  case (Start light)
  then show ?thesis using assms by (auto simp: stream_admit_def Let_def)
next
  case Stop
  then show ?thesis using assms by (auto simp: stream_stop_def interrupt_frame)
next
  case (Terminated r)
  then show ?thesis using assms by (auto simp: on_connection_terminated_def)
next
  case (Led n r g b)
  then show ?thesis using assms by (auto simp: on_controller_led_def)
qed

lemma session_run_counters:
  "session_run stages actions s = Some s' \<Longrightarrow> list_all (counters_ok stages) (ss_owners s) \<Longrightarrow> list_all (counters_ok stages) (ss_owners s')"
  unfolding session_run_def
  by (induction actions arbitrary: s) (auto split: option.splits dest: session_act_counters)

lemma counters_rank: "list_all (counters_ok stages) (ss_owners s) \<Longrightarrow> session_rank stages s \<le> checks + stages + 13"
proof -
  have "counters_ok stages pc \<Longrightarrow> owner_rank stages pc \<le> checks + stages + 13" for pc
    by (cases pc) simp_all
  then show "list_all (counters_ok stages) (ss_owners s) \<Longrightarrow> ?thesis"
    by (auto simp: session_rank_def split: list.splits)
qed

text \<open>
  Property C10: a stop is never lost. Whatever the other threads do after it, the owner is gone after at most \<open>checks + stages + 13\<close>
  steps of its own, and it always has a step (\<open>owner_move_enabled\<close>): the library is left, its resources are given back, and a new session can be admitted.
\<close>

theorem stream_stop_ends:
  assumes "session_run stages history session_boot = Some s" "session_run stages (Stop # actions) s = Some s'"
    "checks + stages + 13 \<le> length (filter is_own actions)"
  shows "list_ex (\<lambda>k. map_option ss_owners (session_run stages (Stop # take k actions) s) = Some []) [0..<Suc (length actions)]"
proof -
  obtain w where w: "session_ok s w"
    using session_run_ok [OF session_boot_ok assms(1)] by blast
  have "list_all (counters_ok stages) (ss_owners s)"
    using session_run_counters [OF assms(1)] by (simp add: session_boot_def)
  define t where "t = stream_stop s"
  have run: "session_run stages (Stop # as) s = session_run stages as t" for "as"
    by (simp add: session_run_def t_def)
  have owners: "ss_owners t = ss_owners s"
    by (simp add: t_def stream_stop_def interrupt_frame)
  have "\<exists>k\<le>length actions. \<exists>u. session_run stages (take k actions) t = Some u \<and> ss_owners u = []"
  proof (cases "ss_owners s = []")
    case True
    then show ?thesis using owners by (intro exI [of _ 0]) (simp add: session_run_def)
  next
    case False
    then have "ss_running s" using w by (auto simp: session_ok_def split: list.splits)
    then have "ss_cancel t" by (simp add: t_def stream_stop_def interrupt_frame)
    moreover obtain v where "session_ok t v"
      using stream_stop_ok [OF w] t_def by blast
    moreover have "session_rank stages t \<le> length (filter is_own actions)"
      using counters_rank [of stages t] owners \<open>list_all (counters_ok stages) (ss_owners s)\<close> assms(3) by simp
    ultimately show ?thesis
      using stopped_run assms(2) run by metis
  qed
  then show ?thesis
    by (auto simp: list_ex_iff run less_Suc_eq_le simp del: upt_Suc)
qed

text \<open>A session that is asked to stop while it sets up, and the next one, which streams.\<close>

definition go :: "nat \<Rightarrow> session_action list" where
  "go n = replicate n (Own 0 Go_on)"

definition sample_after :: "session_action list" where
  "sample_after = go 5 @ [Start 1, Own 0 (Created 6 True)] @ go 8 @ [Own 0 Stage_begins, Own 0 Connection_starts] @ go 10"

lemma stream_stop_ends_witness:
  "case session_run 1 [Start 1, Own 0 (Created 5 True)] session_boot of None \<Rightarrow> False
   | Some s \<Rightarrow> list_ex (\<lambda>k. map_option ss_owners (session_run 1 (Stop # take k sample_after) s) = Some []) [0..<Suc (length sample_after)]"
proof -
  have "session_run 1 ([Start 1, Own 0 (Created 5 True)] @ Stop # sample_after) session_boot \<noteq> None"
    by code_simp
  then obtain s s' where s: "session_run 1 [Start 1, Own 0 (Created 5 True)] session_boot = Some s"
    "session_run 1 (Stop # sample_after) s = Some s'"
    unfolding session_run_def fold_opt_append by (auto split: option.splits)
  have "checks + 1 + 13 \<le> length (filter is_own sample_after)"
    by code_simp
  then show ?thesis
    using stream_stop_ends [OF s] s(1) by simp
qed

text \<open>The light of the controller is on only while the input runs.\<close>

lemma light_on_running:
  assumes "session_run stages history session_boot = Some s" "cl_mode (stream_controller_light s) \<noteq> 0"
  shows "ss_running s \<and> ss_started s \<and> \<not> ss_stop s \<and> \<not> ss_cancel s"
  using assms by (auto simp: stream_controller_light_def split: if_splits)

section \<open>Messages of the library that repeat\<close>

record wait_log =
  wl_last_emit_us :: u64
  wl_seen :: u32
  wl_emitted :: u32
  wl_pending :: u32

definition wait_log_zero :: wait_log where
  "wait_log_zero = \<lparr>wl_last_emit_us = 0, wl_seen = 0, wl_emitted = 0, wl_pending = 0\<rparr>"

text \<open>The number of messages left out since the last one that was written, when this one is written.\<close>

definition update_recovery_wait_log :: "u64 \<Rightarrow> wait_log \<Rightarrow> u32 option \<times> wait_log" where
  "update_recovery_wait_log now st =
     (let st = st\<lparr>wl_seen := wl_seen st + 1\<rparr>
      in if wl_emitted st \<noteq> 0 \<and> now - wl_last_emit_us st < 1000000 then (None, st\<lparr>wl_pending := wl_pending st + 1\<rparr>)
         else (Some (wl_pending st), st\<lparr>wl_pending := 0, wl_last_emit_us := now, wl_emitted := wl_emitted st + 1\<rparr>))"

text \<open>Which of the two kinds a message is.\<close>

definition message_kind :: "string \<Rightarrow> nat option" where
  "message_kind format = (if format = ''Waiting for IDR frame'' @ [CHR 0x0A] then Some 0
     else if format = ''Waiting for RFI frame'' @ [CHR 0x0A] then Some 1 else None)"

text \<open>The messages left out altogether, for the summary at the end.\<close>

definition recovery_summary :: "wait_log \<Rightarrow> (u32 \<times> u32) option" where
  "recovery_summary st = (if wl_seen st > wl_emitted st then Some (wl_seen st, wl_seen st - wl_emitted st) else None)"

text \<open>All messages of one kind, with the time and the count of each message written.\<close>

fun recovery_logs :: "u64 list \<Rightarrow> wait_log \<Rightarrow> (u64 \<times> u32) list \<times> wait_log" where
  "recovery_logs [] st = ([], st)"
| "recovery_logs (t # ts) st =
     (case update_recovery_wait_log t st of (omitted, st) \<Rightarrow>
      case recovery_logs ts st of (out, st) \<Rightarrow> ((case omitted of None \<Rightarrow> out | Some n \<Rightarrow> (t, n) # out), st))"

lemma recovery_logs_account:
  assumes "recovery_logs ts st = (out, st')"
  shows "wl_seen st' - wl_emitted st' - wl_pending st' = wl_seen st - wl_emitted st - wl_pending st + sum_list (map snd out)"
    "wl_seen st' = wl_seen st + of_nat (length ts)" "wl_emitted st' = wl_emitted st + of_nat (length out)" "length out \<le> length ts"
  using assms
  by (induction ts arbitrary: st out)
    (force simp: update_recovery_wait_log_def Let_def split: prod.splits if_splits)+

text \<open>Messages that are written are at least a second apart.\<close>

lemma recovery_logs_spaced:
  "recovery_logs ts st = (out, st') \<Longrightarrow> unat (wl_emitted st) + length ts < 2 ^ 32 \<Longrightarrow>
     successively (\<lambda>a b. 1000000 \<le> fst b - fst a) out \<and>
     (wl_emitted st \<noteq> 0 \<longrightarrow> out \<noteq> [] \<longrightarrow> 1000000 \<le> fst (hd out) - wl_last_emit_us st)"
proof (induction ts arbitrary: st out)
  case (Cons t ts)
  obtain omitted st1 where u: "update_recovery_wait_log t st = (omitted, st1)" by fastforce
  obtain out1 where r: "recovery_logs ts st1 = (out1, st')" and out: "out = (case omitted of None \<Rightarrow> out1 | Some n \<Rightarrow> (t, n) # out1)"
    using Cons.prems(1) u by (auto split: prod.splits)
  have emitted: "unat (wl_emitted st + 1) = unat (wl_emitted st) + 1"
    using Cons.prems(2) by (simp add: unat_word_ariths)
  show ?case
  proof (cases omitted)
    case None
    then have "wl_emitted st1 = wl_emitted st" "wl_last_emit_us st1 = wl_last_emit_us st"
      using u by (auto simp: update_recovery_wait_log_def Let_def split: if_splits)
    then show ?thesis
      using Cons.IH [OF r] Cons.prems(2) out None by simp
  next
    case (Some n)
    then have st1: "wl_emitted st1 = wl_emitted st + 1" "wl_last_emit_us st1 = t"
      and late: "wl_emitted st \<noteq> 0 \<longrightarrow> 1000000 \<le> t - wl_last_emit_us st"
      using u by (auto simp: update_recovery_wait_log_def Let_def split: if_splits)
    have "wl_emitted st1 \<noteq> 0"
      using emitted st1(1) by (metis Suc_eq_plus1 nat.distinct(1) unsigned_0)
    then show ?thesis
      using Cons.IH [OF r] Cons.prems(2) out Some st1 late emitted by (cases out1) auto
  qed
qed simp

end
