(* ===== verification/GamestreamXml.thy ===== *)
theory GamestreamXml imports Prelude begin

unbundle bit_operations_syntax

text \<open>
  The strict GameStream response parser (\<open>src/moonlight/gamestream_xml.c\<close>,
  \<open>include/moonlight/gamestream_xml.h\<close>): handlers that expat calls on the start and end of each
  element, on character data and on a document type declaration. Expat itself is a parameter: a
  function from the bytes to \<open>None\<close> (no parser could be created) or to the sequence of callbacks
  it makes and the result of \<open>XML_Parse\<close>. After \<open>XML_StopParser\<close> expat may still make some
  callbacks; the model runs the handlers on the whole sequence, and the lemmas show that a rejected
  context does not change any more, so how many of them still come makes no difference.

  The main lemmas relate the handlers to a specification on the document tree: which documents are
  accepted, and which values are returned for them.
\<close>

section \<open>Data\<close>

definition int_max :: int where
  "int_max = 2147483647"

record application =
  app_id :: int
  app_name :: string

record response =
  rs_status_code :: int
  rs_status_message :: string
  rs_session_url :: string
  rs_session_url_present :: bool
  rs_total_applications :: int

definition response_zero :: response where
  "response_zero = \<lparr>rs_status_code = 0, rs_status_message = [], rs_session_url = [],
     rs_session_url_present = False, rs_total_applications = 0\<rparr>"

datatype field = FieldNone | FieldTitle | FieldId | FieldSession | FieldUrl

datatype xml_result = XmlOk | XmlInvalid | XmlServerError | XmlOutOfMemory

text \<open>Callers see the numbers of the enumeration.\<close>

definition xml_code :: "xml_result \<Rightarrow> int" where
  "xml_code r = (case r of XmlOk \<Rightarrow> 0 | XmlInvalid \<Rightarrow> - 1 | XmlServerError \<Rightarrow> - 2 | XmlOutOfMemory \<Rightarrow> - 3)"

text \<open>
  \<open>ParseContext\<close>. \<open>cx_apps\<close> is the caller's array; \<open>text\<close> together with \<open>field_length\<close> is the
  string \<open>cx_text\<close>.
\<close>

record parse_context =
  cx_response :: response
  cx_apps :: "application list"
  cx_app :: application
  cx_capacity :: int
  cx_count :: int
  cx_list_mode :: bool
  cx_result_field :: string
  cx_depth :: int
  cx_invalid :: bool
  cx_root_seen :: bool
  cx_app_open :: bool
  cx_have_id :: bool
  cx_have_title :: bool
  cx_have_session :: bool
  cx_field :: field
  cx_field_depth :: int
  cx_text :: string

text \<open>The callbacks of expat. Attributes come as name and value pairs.\<close>

datatype sax =
    StartElement string "(string \<times> string) list"
  | CharacterData string
  | EndElement string
  | Doctype

type_synonym expat = "string \<Rightarrow> (sax list \<times> bool) option"

section \<open>Numbers and titles\<close>

definition is_space :: "char \<Rightarrow> bool" where
  "is_space c \<longleftrightarrow> c = CHR '' '' \<or> c = CHR 0x09 \<or> c = CHR 0x0D \<or> c = CHR 0x0A"

definition is_digit :: "char \<Rightarrow> bool" where
  "is_digit c \<longleftrightarrow> 48 \<le> (of_char c :: nat) \<and> (of_char c :: nat) \<le> 57"

definition digit_value :: "char \<Rightarrow> int" where
  "digit_value c = of_char c - 48"

text \<open>
  The digit loop of \<open>parse_number\<close>: the rest of the text, the number so far and how many digits
  were read; \<open>None\<close> where the code returns 0 because the number would exceed \<open>INT_MAX\<close>.
\<close>

fun parse_digits :: "string \<Rightarrow> int \<Rightarrow> nat \<Rightarrow> (string \<times> int \<times> nat) option" where
  "parse_digits [] result digits = Some ([], result, digits)"
| "parse_digits (c # text) result digits =
     (if is_digit c then
        if result > (int_max - digit_value c) div 10 then None
        else parse_digits text (result * 10 + digit_value c) (digits + 1)
      else Some (c # text, result, digits))"

definition parse_number :: "string \<Rightarrow> int option" where
  "parse_number text =
     (case parse_digits (dropWhile is_space text) 0 0 of
        None \<Rightarrow> None
      | Some (rest, result, digits) \<Rightarrow>
          if digits = 0 \<or> dropWhile is_space rest \<noteq> [] then None else Some result)"

definition byte_of :: "char \<Rightarrow> u8" where
  "byte_of c = of_nat (of_char c)"

text \<open>The loop of \<open>finish_title\<close> that walks back over UTF-8 continuation bytes.\<close>

fun title_start :: "string \<Rightarrow> nat \<Rightarrow> nat" where
  "title_start text 0 = 0"
| "title_start text (Suc n) =
     (if byte_of (text ! Suc n) AND 0xC0 = 0x80 then title_start text n else Suc n)"

definition lead_width :: "u8 \<Rightarrow> nat" where
  "lead_width lead = (if lead < 0x80 then 1 else if lead < 0xE0 then 2 else if lead < 0xF0 then 3 else 4)"

definition clip_title :: "string \<Rightarrow> string" where
  "clip_title text =
     (if length text = 0 then text
      else let start = title_start text (length text - 1);
               width = lead_width (byte_of (text ! start))
           in if start + width > length text then take start text else text)"

definition finish_title :: "parse_context \<Rightarrow> parse_context" where
  "finish_title ctx =
     ctx\<lparr>cx_app := (cx_app ctx)\<lparr>app_name := clip_title (cx_text ctx)\<rparr>, cx_have_title := True\<rparr>"

section \<open>Handlers\<close>

definition reject :: "parse_context \<Rightarrow> parse_context" where
  "reject ctx = ctx\<lparr>cx_invalid := True\<rparr>"

definition begin_field :: "parse_context \<Rightarrow> field \<Rightarrow> parse_context" where
  "begin_field ctx f = ctx\<lparr>cx_field := f, cx_field_depth := cx_depth ctx, cx_text := []\<rparr>"

definition root_attribute :: "string \<times> string \<Rightarrow> parse_context \<Rightarrow> parse_context" where
  "root_attribute a ctx =
     (if fst a = ''status_code'' then
        (case parse_number (snd a) of
           None \<Rightarrow> reject ctx
         | Some n \<Rightarrow> ctx\<lparr>cx_response := (cx_response ctx)\<lparr>rs_status_code := n\<rparr>\<rparr>)
      else if fst a = ''status_message'' then
        ctx\<lparr>cx_response := (cx_response ctx)\<lparr>rs_status_message := bounded_copy 256 (snd a)\<rparr>\<rparr>
      else ctx)"

definition start_list :: "parse_context \<Rightarrow> string \<Rightarrow> parse_context" where
  "start_list ctx name =
     (if name = ''App'' then
        if cx_depth ctx \<noteq> 2 \<or> cx_app_open ctx then reject ctx
        else ctx\<lparr>cx_app := \<lparr>app_id = 0, app_name = []\<rparr>, cx_have_id := False,
                 cx_have_title := False, cx_app_open := True\<rparr>
      else if cx_app_open ctx \<and> cx_depth ctx = 3 then
        if name = ''ID'' then
          if cx_have_id ctx then reject ctx else begin_field ctx FieldId
        else if name = ''AppTitle'' then
          if cx_have_title ctx then reject ctx else begin_field ctx FieldTitle
        else ctx
      else ctx)"

definition start_launch :: "parse_context \<Rightarrow> string \<Rightarrow> parse_context" where
  "start_launch ctx name =
     (if cx_depth ctx = 2 then
        if name = cx_result_field ctx then
          if cx_have_session ctx then reject ctx else begin_field ctx FieldSession
        else if name = ''sessionUrl0'' then
          if rs_session_url_present (cx_response ctx) then reject ctx else begin_field ctx FieldUrl
        else ctx
      else ctx)"

definition start_root :: "parse_context \<Rightarrow> string \<Rightarrow> (string \<times> string) list \<Rightarrow> parse_context" where
  "start_root ctx name attrs =
     (if cx_root_seen ctx \<or> name \<noteq> ''root'' then reject ctx
      else let ctx' = fold root_attribute attrs (ctx\<lparr>cx_root_seen := True\<rparr>)
           in if rs_status_code (cx_response ctx') = 0 then reject ctx' else ctx')"

definition start_element :: "parse_context \<Rightarrow> string \<Rightarrow> (string \<times> string) list \<Rightarrow> parse_context" where
  "start_element ctx name attrs =
     (if cx_invalid ctx then ctx
      else let ctx = ctx\<lparr>cx_depth := cx_depth ctx + 1\<rparr>
      in if cx_depth ctx = 1 then start_root ctx name attrs
         else if rs_status_code (cx_response ctx) \<noteq> 200 then ctx
         else if cx_field ctx \<noteq> FieldNone then reject ctx
         else if cx_list_mode ctx then start_list ctx name
         else start_launch ctx name)"

definition character_data :: "parse_context \<Rightarrow> string \<Rightarrow> parse_context" where
  "character_data ctx data =
     (if cx_invalid ctx \<or> cx_field ctx = FieldNone then ctx
      else let available = 256 - 1 - length (cx_text ctx)
      in if length data > available \<and> cx_field ctx \<noteq> FieldTitle then reject ctx
         else ctx\<lparr>cx_text := cx_text ctx @ take available data\<rparr>)"

definition valid_session_url :: "string \<Rightarrow> bool" where
  "valid_session_url text \<longleftrightarrow>
     (take 7 text = ''rtsp://'' \<and> length text > 7) \<or> (take 10 text = ''rtspenc://'' \<and> length text > 10)"

definition finish_field :: "parse_context \<Rightarrow> parse_context" where
  "finish_field ctx =
     (case cx_field ctx of
        FieldTitle \<Rightarrow> finish_title ctx
      | FieldId \<Rightarrow>
          (case parse_number (cx_text ctx) of
             None \<Rightarrow> reject ctx
           | Some n \<Rightarrow> ctx\<lparr>cx_app := (cx_app ctx)\<lparr>app_id := n\<rparr>\<rparr>)\<lparr>cx_have_id := True\<rparr>
      | FieldSession \<Rightarrow>
          (if parse_number (cx_text ctx) \<noteq> Some 1 then reject ctx else ctx)\<lparr>cx_have_session := True\<rparr>
      | FieldUrl \<Rightarrow>
          (let ctx' =
             (if valid_session_url (cx_text ctx) then
                if list_ex is_space (cx_text ctx) then reject ctx
                else ctx\<lparr>cx_response := (cx_response ctx)\<lparr>rs_session_url := cx_text ctx\<rparr>\<rparr>
              else reject ctx)
           in ctx'\<lparr>cx_response := (cx_response ctx')\<lparr>rs_session_url_present := True\<rparr>\<rparr>)
      | FieldNone \<Rightarrow> ctx)\<lparr>cx_field := FieldNone\<rparr>"

definition store_app :: "parse_context \<Rightarrow> parse_context" where
  "store_app ctx =
     (if cx_count ctx < cx_capacity ctx
      then ctx\<lparr>cx_apps := (cx_apps ctx)[nat (cx_count ctx) := cx_app ctx], cx_count := cx_count ctx + 1\<rparr>
      else ctx)"

definition end_element :: "parse_context \<Rightarrow> string \<Rightarrow> parse_context" where
  "end_element ctx name =
     (if cx_invalid ctx then ctx
      else let ctx = (if cx_field ctx \<noteq> FieldNone \<and> cx_depth ctx = cx_field_depth ctx
                      then finish_field ctx else ctx)
      in if cx_list_mode ctx \<and> cx_depth ctx = 2 \<and> name = ''App'' \<and>
            rs_status_code (cx_response ctx) = 200 \<and> \<not> cx_invalid ctx
         then if \<not> cx_have_id ctx \<or> \<not> cx_have_title ctx \<or>
                 rs_total_applications (cx_response ctx) = int_max
              then reject ctx
              else let ctx = store_app ctx
                   in ctx\<lparr>cx_response := (cx_response ctx)\<lparr>rs_total_applications :=
                            rs_total_applications (cx_response ctx) + 1\<rparr>,
                          cx_app_open := False, cx_depth := cx_depth ctx - 1\<rparr>
         else ctx\<lparr>cx_depth := cx_depth ctx - 1\<rparr>)"

fun handle :: "sax \<Rightarrow> parse_context \<Rightarrow> parse_context" where
  "handle (StartElement name attrs) ctx = start_element ctx name attrs"
| "handle (CharacterData data) ctx = character_data ctx data"
| "handle (EndElement name) ctx = end_element ctx name"
| "handle Doctype ctx = reject ctx"

section \<open>Entry points\<close>

text \<open>
  \<open>parse_response\<close>. \<open>data\<close> is \<open>None\<close> for a NULL pointer. The context comes back, because the
  callers read their outputs from it; a NULL \<open>response\<close> is handled in \<open>parse_response\<close>'s callers
  below, as a context is only built around a response.
\<close>

definition parse_response :: "expat \<Rightarrow> string option \<Rightarrow> parse_context \<Rightarrow> xml_result \<times> parse_context" where
  "parse_response expat data ctx =
     (let ctx = ctx\<lparr>cx_response := response_zero\<rparr>
      in case data of
           None \<Rightarrow> (XmlInvalid, ctx)
         | Some bytes \<Rightarrow>
             if length bytes = 0 \<or> int (length bytes) > int_max then (XmlInvalid, ctx)
             else case expat bytes of
                 None \<Rightarrow> (XmlOutOfMemory, ctx)
               | Some (events, parsed) \<Rightarrow>
                   let ctx = fold handle events ctx
                   in (if \<not> parsed \<or> cx_invalid ctx \<or> \<not> cx_root_seen ctx \<or> cx_depth ctx \<noteq> 0 then XmlInvalid
                       else if rs_status_code (cx_response ctx) \<noteq> 200 then XmlServerError
                       else if \<not> cx_list_mode ctx \<and> \<not> cx_have_session ctx then XmlInvalid
                       else XmlOk, ctx))"

definition context_zero :: parse_context where
  "context_zero = \<lparr>cx_response = response_zero, cx_apps = [], cx_app = \<lparr>app_id = 0, app_name = []\<rparr>,
     cx_capacity = 0, cx_count = 0, cx_list_mode = False, cx_result_field = [], cx_depth = 0,
     cx_invalid = False, cx_root_seen = False, cx_app_open = False, cx_have_id = False,
     cx_have_title = False, cx_have_session = False, cx_field = FieldNone, cx_field_depth = 0,
     cx_text = []\<rparr>"

text \<open>
  \<open>moonlight_xml_parse_applications\<close> returns the result, the array \<open>apps\<close>, \<open>*count\<close> and
  \<open>*response\<close>. \<open>apps\<close> is \<open>None\<close> for a NULL pointer and holds \<open>capacity\<close> entries otherwise; the
  pointers \<open>count\<close> and \<open>response\<close> are flags that say whether they are given.
\<close>

definition xml_parse_applications ::
  "expat \<Rightarrow> string option \<Rightarrow> application list option \<Rightarrow> int \<Rightarrow> bool \<Rightarrow> bool \<Rightarrow>
     xml_result \<times> application list \<times> int \<times> response option" where
  "xml_parse_applications expat data apps capacity count_given response_given =
     (let array = case_option [] id apps
      in if \<not> count_given then (XmlInvalid, array, 0, None)
         else if capacity < 0 \<or> (capacity \<noteq> 0 \<and> apps = None) then (XmlInvalid, array, 0, None)
         else if \<not> response_given then (XmlInvalid, array, 0, None)
         else case parse_response expat data
                (context_zero\<lparr>cx_apps := array, cx_capacity := capacity, cx_list_mode := True\<rparr>) of
              (result, ctx) \<Rightarrow>
                (result, cx_apps ctx, (if result = XmlOk then cx_count ctx else 0), Some (cx_response ctx)))"

definition xml_parse_launch :: "expat \<Rightarrow> string option \<Rightarrow> bool \<Rightarrow> bool \<Rightarrow> xml_result \<times> response option" where
  "xml_parse_launch expat data resume response_given =
     (if \<not> response_given then (XmlInvalid, None)
      else map_prod id (Some \<circ> cx_response) (parse_response expat data
        (context_zero\<lparr>cx_result_field := (if resume then ''resume'' else ''gamesession'')\<rparr>)))"

definition xml_parse_cancel :: "expat \<Rightarrow> string option \<Rightarrow> bool \<Rightarrow> xml_result \<times> response option" where
  "xml_parse_cancel expat data response_given =
     (if \<not> response_given then (XmlInvalid, None)
      else map_prod id (Some \<circ> cx_response) (parse_response expat data
        (context_zero\<lparr>cx_result_field := ''cancel''\<rparr>)))"

section \<open>Document trees\<close>

text \<open>
  The documents that expat reports as a sequence of callbacks. An element's text may come in any
  number of pieces.
\<close>

datatype node = Elem string "(string \<times> string) list" "node list" | Text string

fun events :: "node \<Rightarrow> sax list" where
  "events (Elem name attrs children) =
     StartElement name attrs # concat (map events children) @ [EndElement name]"
| "events (Text data) = [CharacterData data]"

text \<open>The text of an element without nested markup; \<open>None\<close> if it has any.\<close>

fun flat_text :: "node list \<Rightarrow> string option" where
  "flat_text [] = Some []"
| "flat_text (Text s # ns) = map_option ((@) s) (flat_text ns)"
| "flat_text (Elem n a cs # ns) = None"

text \<open>A scalar that the parser compares or converts has at most 255 bytes.\<close>

definition scalar :: "node list \<Rightarrow> string option" where
  "scalar ns = (case flat_text ns of None \<Rightarrow> None | Some t \<Rightarrow> if length t \<le> 255 then Some t else None)"

fun no_app :: "node \<Rightarrow> bool" where
  "no_app (Elem name attrs children) \<longleftrightarrow> name \<noteq> ''App'' \<and> list_all no_app children"
| "no_app (Text s) \<longleftrightarrow> True"

definition root_status :: "(string \<times> string) list \<Rightarrow> int option" where
  "root_status attrs =
     (let vs = map (parse_number \<circ> snd) (filter (\<lambda>a. fst a = ''status_code'') attrs)
      in if vs = [] \<or> None \<in> set vs \<or> last vs = Some 0 then None else last vs)"

definition root_message :: "(string \<times> string) list \<Rightarrow> string" where
  "root_message attrs =
     (let ms = map snd (filter (\<lambda>a. fst a = ''status_message'') attrs)
      in if ms = [] then [] else take 255 (last ms))"

text \<open>One child of the root of a launch or cancel response: the flag and the address so far.\<close>

fun launch_child :: "string \<Rightarrow> node \<Rightarrow> bool \<times> string option \<Rightarrow> (bool \<times> string option) option" where
  "launch_child wanted (Text s) (have, url) = Some (have, url)"
| "launch_child wanted (Elem name attrs children) (have, url) =
     (if name = wanted then
        if have \<or> Option.bind (scalar children) parse_number \<noteq> Some 1 then None else Some (True, url)
      else if name = ''sessionUrl0'' then
        (case scalar children of
           None \<Rightarrow> None
         | Some t \<Rightarrow> if url \<noteq> None \<or> \<not> valid_session_url t \<or> list_ex is_space t then None
                      else Some (have, Some t))
      else Some (have, url))"

text \<open>One child of an \<open>App\<close> element: the number and the title so far.\<close>

fun app_child :: "node \<Rightarrow> int option \<times> string option \<Rightarrow> (int option \<times> string option) option" where
  "app_child (Text s) (n, t) = Some (n, t)"
| "app_child (Elem name attrs children) (n, t) =
     (if name = ''ID'' then
        case Option.bind (scalar children) parse_number of
          None \<Rightarrow> None
        | Some m \<Rightarrow> if n \<noteq> None then None else Some (Some m, t)
      else if name = ''AppTitle'' then
        case flat_text children of
          None \<Rightarrow> None
        | Some s \<Rightarrow> if t \<noteq> None then None else Some (n, Some (clip_title (take 255 s)))
      else if no_app (Elem name attrs children) then Some (n, t) else None)"

definition app_of :: "node list \<Rightarrow> application option" where
  "app_of children =
     (case fold_opt app_child children (None, None) of
        Some (Some n, Some t) \<Rightarrow> Some \<lparr>app_id = n, app_name = t\<rparr>
      | _ \<Rightarrow> None)"

text \<open>One child of the root of an application list: the applications so far.\<close>

fun list_child :: "node \<Rightarrow> application list \<Rightarrow> application list option" where
  "list_child (Text s) apps = Some apps"
| "list_child (Elem name attrs children) apps =
     (if name = ''App'' then
        case app_of children of
          None \<Rightarrow> None
        | Some a \<Rightarrow> if int (length apps) = int_max then None else Some (apps @ [a])
      else if no_app (Elem name attrs children) then Some apps else None)"

section \<open>Rejection\<close>

lemma handle_invalid [simp]: "cx_invalid ctx \<Longrightarrow> handle e ctx = ctx"
  by (cases e) (simp_all add: start_element_def character_data_def end_element_def reject_def)

lemma element_invalid [simp]:
  assumes "cx_invalid ctx"
  shows "start_element ctx name attrs = ctx" "character_data ctx data = ctx" "end_element ctx name = ctx"
  using assms by (simp_all add: start_element_def character_data_def end_element_def)

lemma fold_handle_invalid [simp]: "cx_invalid ctx \<Longrightarrow> fold handle es ctx = ctx"
  by (induction es) auto

lemma reject_invalid [simp]: "cx_invalid (reject ctx)"
  by (simp add: reject_def)

section \<open>Subtrees\<close>

lemmas handler_defs = start_element_def character_data_def end_element_def Let_def

lemma concat_map_Cons [simp]: "concat (map f (x # xs)) = f x @ concat (map f xs)"
  by simp

text \<open>Below a root that reports an error nothing is looked at.\<close>

lemma skip_error:
  assumes "\<not> cx_invalid ctx" "cx_field ctx = FieldNone" "rs_status_code (cx_response ctx) \<noteq> 200"
    and "0 < cx_depth ctx"
  shows "fold handle (events n) ctx = ctx"
  using assms
proof (induction n arbitrary: ctx)
  case (Elem name attrs children)
  let ?inner = "ctx\<lparr>cx_depth := cx_depth ctx + 1\<rparr>"
  have "fold handle (concat (map events ns)) ?inner = ?inner" if "set ns \<subseteq> set children" for ns
    using that Elem by (induction ns) auto
  then show ?case
    using Elem.prems by (simp add: handler_defs)
qed (simp add: character_data_def)

lemma skip_launch:
  assumes "\<not> cx_invalid ctx" "cx_field ctx = FieldNone" "rs_status_code (cx_response ctx) = 200"
    and "\<not> cx_list_mode ctx" "1 < cx_depth ctx"
  shows "fold handle (events n) ctx = ctx"
  using assms
proof (induction n arbitrary: ctx)
  case (Elem name attrs children)
  let ?inner = "ctx\<lparr>cx_depth := cx_depth ctx + 1\<rparr>"
  have "fold handle (concat (map events ns)) ?inner = ?inner" if "set ns \<subseteq> set children" for ns
    using that Elem by (induction ns) auto
  then show ?case
    using Elem.prems by (simp add: handler_defs start_launch_def)
qed (simp add: character_data_def)

lemma skip_list:
  assumes "\<not> cx_invalid ctx" "cx_field ctx = FieldNone" "rs_status_code (cx_response ctx) = 200"
    and "cx_list_mode ctx" "1 < cx_depth ctx" "cx_app_open ctx \<longrightarrow> 2 < cx_depth ctx"
  shows "if no_app n then fold handle (events n) ctx = ctx else cx_invalid (fold handle (events n) ctx)"
  using assms
proof (induction n arbitrary: ctx)
  case (Elem name attrs children)
  let ?inner = "ctx\<lparr>cx_depth := cx_depth ctx + 1\<rparr>"
  have "if list_all no_app ns then fold handle (concat (map events ns)) ?inner = ?inner
        else cx_invalid (fold handle (concat (map events ns)) ?inner)" if "set ns \<subseteq> set children" for ns
    using that
  proof (induction ns)
    case (Cons m ms)
    have "if no_app m then fold handle (events m) ?inner = ?inner
          else cx_invalid (fold handle (events m) ?inner)"
      using Cons.prems Elem by auto
    then show ?case
      using Cons by (auto split: if_splits)
  qed simp
  from this [of children]
  have children: "list_all no_app children \<Longrightarrow> fold handle (concat (map events children)) ?inner = ?inner"
    "\<not> list_all no_app children \<Longrightarrow> cx_invalid (fold handle (concat (map events children)) ?inner)"
    by auto
  show ?case
  proof (cases "name = ''App''")
    case True
    then have "cx_invalid (start_element ctx name attrs)"
      using Elem.prems by (simp add: handler_defs start_list_def)
    then show ?thesis using True by simp
  next
    case False
    have "\<not> (cx_app_open ctx \<and> cx_depth ctx = 2)"
      using Elem.prems by auto
    then have "start_element ctx name attrs = ?inner"
      using Elem.prems False by (cases "cx_app_open ctx") (simp_all add: handler_defs start_list_def)
    moreover have "end_element ?inner name = ctx"
      using Elem.prems False by (simp add: handler_defs)
    ultimately show ?thesis
      using False children by (cases "list_all no_app children") simp_all
  qed
qed (simp add: character_data_def)

text \<open>The content of a scalar field: its text is gathered, and nested markup is rejected.\<close>

lemma field_content:
  assumes "\<not> cx_invalid ctx" "cx_field ctx \<noteq> FieldNone" "cx_field ctx \<noteq> FieldTitle"
    and "rs_status_code (cx_response ctx) = 200" "0 < cx_depth ctx" "length (cx_text ctx) \<le> 255"
  shows "case flat_text ns of
           None \<Rightarrow> cx_invalid (fold handle (concat (map events ns)) ctx)
         | Some t \<Rightarrow>
             if length (cx_text ctx @ t) \<le> 255
             then fold handle (concat (map events ns)) ctx = ctx\<lparr>cx_text := cx_text ctx @ t\<rparr>
             else cx_invalid (fold handle (concat (map events ns)) ctx)"
  using assms
proof (induction ns arbitrary: ctx rule: flat_text.induct)
  case (2 s ns)
  show ?case
  proof (cases "length (cx_text ctx @ s) \<le> 255")
    case True
    let ?c = "ctx\<lparr>cx_text := cx_text ctx @ s\<rparr>"
    have "character_data ctx s = ?c"
      using True "2.prems" by (simp add: handler_defs)
    then show ?thesis
      using "2.IH" [of ?c] "2.prems" True by (auto split: option.splits if_splits)
  next
    case False
    then have "cx_invalid (character_data ctx s)"
      using "2.prems" by (simp add: handler_defs)
    then show ?thesis
      using False by (auto split: option.splits)
  qed
next
  case (3 n a cs ns)
  then have "cx_invalid (start_element ctx n a)"
    by (simp add: handler_defs)
  then show ?case by simp
qed simp

lemma title_content:
  assumes "\<not> cx_invalid ctx" "cx_field ctx = FieldTitle"
    and "rs_status_code (cx_response ctx) = 200" "0 < cx_depth ctx" "length (cx_text ctx) \<le> 255"
  shows "case flat_text ns of
           None \<Rightarrow> cx_invalid (fold handle (concat (map events ns)) ctx)
         | Some t \<Rightarrow> fold handle (concat (map events ns)) ctx =
                      ctx\<lparr>cx_text := take 255 (cx_text ctx @ t)\<rparr>"
  using assms
proof (induction ns arbitrary: ctx rule: flat_text.induct)
  case (2 s ns)
  let ?c = "ctx\<lparr>cx_text := take 255 (cx_text ctx @ s)\<rparr>"
  have c: "character_data ctx s = ?c"
    using "2.prems" by (simp add: handler_defs)
  have "take 255 (take 255 (cx_text ctx @ s) @ t) = take 255 (cx_text ctx @ s @ t)" for t
    by (simp add: min_def)
  then show ?case
    using "2.IH" [of ?c] "2.prems" c by (auto split: option.splits)
next
  case (3 n a cs ns)
  then have "cx_invalid (start_element ctx n a)"
    by (simp add: handler_defs)
  then show ?case by simp
qed simp

text \<open>
  A whole scalar element: its start has opened field \<open>f\<close>, and its end finishes the field with the
  text that was gathered.
\<close>

lemma scalar_element:
  assumes "\<not> cx_invalid ctx" "rs_status_code (cx_response ctx) = 200" "0 < cx_depth ctx"
    and "f \<noteq> FieldNone" "f \<noteq> FieldTitle"
    and "start_element ctx name attrs = begin_field (ctx\<lparr>cx_depth := cx_depth ctx + 1\<rparr>) f"
  shows "case scalar children of
           None \<Rightarrow> cx_invalid (fold handle (events (Elem name attrs children)) ctx)
         | Some t \<Rightarrow> fold handle (events (Elem name attrs children)) ctx =
             end_element (begin_field (ctx\<lparr>cx_depth := cx_depth ctx + 1\<rparr>) f\<lparr>cx_text := t\<rparr>) name"
proof -
  let ?c = "begin_field (ctx\<lparr>cx_depth := cx_depth ctx + 1\<rparr>) f"
  have "case flat_text children of
           None \<Rightarrow> cx_invalid (fold handle (concat (map events children)) ?c)
         | Some t \<Rightarrow>
             if length (cx_text ?c @ t) \<le> 255
             then fold handle (concat (map events children)) ?c = ?c\<lparr>cx_text := cx_text ?c @ t\<rparr>
             else cx_invalid (fold handle (concat (map events children)) ?c)"
    by (rule field_content) (use assms in \<open>simp_all add: begin_field_def\<close>)
  moreover have "cx_text ?c = []"
    by (simp add: begin_field_def)
  ultimately show ?thesis
    using assms(6) by (auto simp: scalar_def split: option.splits)
qed

lemma title_element:
  assumes "\<not> cx_invalid ctx" "rs_status_code (cx_response ctx) = 200" "0 < cx_depth ctx"
    and "start_element ctx name attrs = begin_field (ctx\<lparr>cx_depth := cx_depth ctx + 1\<rparr>) FieldTitle"
  shows "case flat_text children of
           None \<Rightarrow> cx_invalid (fold handle (events (Elem name attrs children)) ctx)
         | Some t \<Rightarrow> fold handle (events (Elem name attrs children)) ctx =
             end_element (begin_field (ctx\<lparr>cx_depth := cx_depth ctx + 1\<rparr>) FieldTitle
               \<lparr>cx_text := take 255 t\<rparr>) name"
proof -
  let ?c = "begin_field (ctx\<lparr>cx_depth := cx_depth ctx + 1\<rparr>) FieldTitle"
  have "case flat_text children of
           None \<Rightarrow> cx_invalid (fold handle (concat (map events children)) ?c)
         | Some t \<Rightarrow> fold handle (concat (map events children)) ?c = ?c\<lparr>cx_text := take 255 (cx_text ?c @ t)\<rparr>"
    by (rule title_content) (use assms in \<open>simp_all add: begin_field_def\<close>)
  moreover have "cx_text ?c = []"
    by (simp add: begin_field_def)
  ultimately show ?thesis
    using assms(4) by (auto split: option.splits)
qed

section \<open>Launch and cancel responses\<close>

text \<open>
  A context between two children of the root of a launch or cancel response, whose response apart
  from the address is \<open>base\<close>.
\<close>

definition launch_ready :: "string \<Rightarrow> response \<Rightarrow> parse_context \<Rightarrow> bool" where
  "launch_ready wanted base ctx \<longleftrightarrow>
     \<not> cx_invalid ctx \<and> \<not> cx_list_mode ctx \<and> cx_root_seen ctx \<and> cx_field ctx = FieldNone \<and>
     cx_depth ctx = 1 \<and> cx_result_field ctx = wanted \<and> wanted \<noteq> ''sessionUrl0'' \<and>
     rs_status_code base = 200 \<and>
     (\<exists>url. cx_response ctx =
        base\<lparr>rs_session_url := case_option [] id url, rs_session_url_present := url \<noteq> None\<rparr>)"

definition launch_state :: "parse_context \<Rightarrow> bool \<times> string option" where
  "launch_state ctx =
     (cx_have_session ctx,
      if rs_session_url_present (cx_response ctx) then Some (rs_session_url (cx_response ctx)) else None)"

lemma launch_readyD:
  assumes "launch_ready wanted base ctx"
  shows "\<not> cx_invalid ctx" "\<not> cx_list_mode ctx" "cx_field ctx = FieldNone" "cx_depth ctx = 1"
    "cx_result_field ctx = wanted" "rs_status_code (cx_response ctx) = 200" "wanted \<noteq> ''sessionUrl0''"
  using assms by (auto simp: launch_ready_def)

abbreviation opened :: "parse_context \<Rightarrow> field \<Rightarrow> parse_context" where
  "opened ctx f \<equiv> begin_field (ctx\<lparr>cx_depth := cx_depth ctx + 1\<rparr>) f"

abbreviation run_node :: "node \<Rightarrow> parse_context \<Rightarrow> parse_context" where
  "run_node n ctx \<equiv> fold handle (events n) ctx"

lemma launch_result_field:
  fixes attrs :: "(string \<times> string) list" and children :: "node list"
  assumes "launch_ready wanted base ctx"
  defines "ctx' \<equiv> run_node (Elem wanted attrs children) ctx"
  shows "if cx_have_session ctx \<or> Option.bind (scalar children) parse_number \<noteq> Some 1
         then cx_invalid ctx'
         else \<exists>t. ctx' = ctx\<lparr>cx_have_session := True, cx_text := t, cx_field_depth := 2\<rparr>"
proof (cases "cx_have_session ctx")
  case True
  then have "cx_invalid (start_element ctx wanted attrs)"
    using launch_readyD [OF assms(1)] by (simp add: handler_defs start_launch_def)
  then show ?thesis using True by (simp add: ctx'_def)
next
  case False
  then have "start_element ctx wanted attrs = opened ctx FieldSession"
    using launch_readyD [OF assms(1)] by (simp add: handler_defs start_launch_def)
  then have "case scalar children of
       None \<Rightarrow> cx_invalid ctx'
     | Some t \<Rightarrow> ctx' = end_element (opened ctx FieldSession\<lparr>cx_text := t\<rparr>) wanted"
    unfolding ctx'_def using launch_readyD [OF assms(1)] by (intro scalar_element) simp_all
  moreover have "if parse_number t = Some 1
       then end_element (opened ctx FieldSession\<lparr>cx_text := t\<rparr>) wanted =
            ctx\<lparr>cx_have_session := True, cx_text := t, cx_field_depth := 2\<rparr>
       else cx_invalid (end_element (opened ctx FieldSession\<lparr>cx_text := t\<rparr>) wanted)" for t
    using launch_readyD [OF assms(1)] by (simp add: handler_defs begin_field_def finish_field_def)
  ultimately show ?thesis
    using False by (auto split: option.splits)
qed

lemma launch_url_field:
  fixes attrs :: "(string \<times> string) list" and children :: "node list"
  assumes "launch_ready wanted base ctx"
  defines "ctx' \<equiv> run_node (Elem ''sessionUrl0'' attrs children) ctx"
  shows "case scalar children of
           None \<Rightarrow> cx_invalid ctx'
         | Some t \<Rightarrow>
             if rs_session_url_present (cx_response ctx) \<or> \<not> valid_session_url t \<or> list_ex is_space t
             then cx_invalid ctx'
             else ctx' = ctx\<lparr>cx_response := (cx_response ctx)
                    \<lparr>rs_session_url := t, rs_session_url_present := True\<rparr>,
                  cx_text := t, cx_field_depth := 2\<rparr>"
proof (cases "rs_session_url_present (cx_response ctx)")
  case True
  then have "cx_invalid (start_element ctx ''sessionUrl0'' attrs)"
    using launch_readyD [OF assms(1)] by (simp add: handler_defs start_launch_def)
  then show ?thesis using True by (simp add: ctx'_def split: option.split)
next
  case False
  then have "start_element ctx ''sessionUrl0'' attrs = opened ctx FieldUrl"
    using launch_readyD [OF assms(1)] by (simp add: handler_defs start_launch_def)
  then have "case scalar children of
       None \<Rightarrow> cx_invalid ctx'
     | Some t \<Rightarrow> ctx' = end_element (opened ctx FieldUrl\<lparr>cx_text := t\<rparr>) ''sessionUrl0''"
    unfolding ctx'_def using launch_readyD [OF assms(1)] by (intro scalar_element) simp_all
  moreover have "if valid_session_url t \<and> \<not> list_ex is_space t
       then end_element (opened ctx FieldUrl\<lparr>cx_text := t\<rparr>) ''sessionUrl0'' =
            ctx\<lparr>cx_response := (cx_response ctx)\<lparr>rs_session_url := t, rs_session_url_present := True\<rparr>,
                cx_text := t, cx_field_depth := 2\<rparr>
       else cx_invalid (end_element (opened ctx FieldUrl\<lparr>cx_text := t\<rparr>) ''sessionUrl0'')" for t
    using launch_readyD [OF assms(1)] by (simp add: handler_defs begin_field_def finish_field_def)
  ultimately show ?thesis
    using False by (auto split: option.splits)
qed

lemma launch_other_field:
  assumes "launch_ready wanted base ctx" "name \<noteq> wanted" "name \<noteq> ''sessionUrl0''"
  shows "run_node (Elem name attrs children) ctx = ctx"
proof -
  let ?inner = "ctx\<lparr>cx_depth := 2\<rparr>"
  note ready = launch_readyD [OF assms(1)]
  have "start_element ctx name attrs = ?inner"
    using ready assms by (simp add: handler_defs start_launch_def)
  moreover have "fold handle (concat (map events ns)) ?inner = ?inner" for ns
    using ready by (induction ns) (simp_all add: skip_launch)
  moreover have "end_element ?inner name = ctx"
    using ready by (simp add: handler_defs)
  ultimately show ?thesis by simp
qed

lemma launch_step:
  assumes "launch_ready wanted base ctx"
  shows "case launch_child wanted n (launch_state ctx) of
           None \<Rightarrow> cx_invalid (run_node n ctx)
         | Some s \<Rightarrow> launch_ready wanted base (run_node n ctx) \<and> launch_state (run_node n ctx) = s"
proof (cases n)
  case (Text s)
  then show ?thesis
    using assms by (simp add: launch_ready_def launch_state_def character_data_def)
next
  case (Elem name attrs children)
  consider "name = wanted" | "name \<noteq> wanted" "name = ''sessionUrl0''"
    | "name \<noteq> wanted" "name \<noteq> ''sessionUrl0''" by blast
  then show ?thesis
  proof cases
    case 1
    have "launch_ready wanted base (ctx\<lparr>cx_have_session := True, cx_text := t, cx_field_depth := 2\<rparr>)" for t
      using assms by (simp add: launch_ready_def)
    then show ?thesis
      using launch_result_field [OF assms, where attrs = attrs and children = children] Elem 1
      by (auto simp: launch_state_def split: if_splits)
  next
    case 2
    have "launch_ready wanted base (ctx\<lparr>cx_response := (cx_response ctx)
           \<lparr>rs_session_url := t, rs_session_url_present := True\<rparr>, cx_text := t, cx_field_depth := 2\<rparr>)" for t
      using assms unfolding launch_ready_def by (auto intro: exI [of _ "Some t"])
    then show ?thesis
      using launch_url_field [OF assms, where attrs = attrs and children = children] Elem 2
      by (auto simp: launch_state_def split: option.splits if_splits)
  next
    case 3
    then show ?thesis
      using launch_other_field [OF assms] assms Elem by (simp add: launch_state_def)
  qed
qed

lemma fold_events: "fold handle (concat (map events ns)) ctx = fold run_node ns ctx"
  by (induction ns arbitrary: ctx) auto

lemma launch_children:
  assumes "launch_ready wanted base ctx"
  shows "case fold_opt (launch_child wanted) ns (launch_state ctx) of
           None \<Rightarrow> cx_invalid (fold handle (concat (map events ns)) ctx)
         | Some s \<Rightarrow> launch_ready wanted base (fold handle (concat (map events ns)) ctx) \<and>
             launch_state (fold handle (concat (map events ns)) ctx) = s"
  unfolding fold_events
  by (rule fold_opt_simulates [where R = "\<lambda>s c. launch_ready wanted base c \<and> launch_state c = s"])
    (use assms launch_step in auto)

text \<open>
  What the children must be, without a fold: \<open>named\<close> collects the contents of the children of a
  name.
\<close>

fun named :: "string \<Rightarrow> node list \<Rightarrow> node list list" where
  "named name [] = []"
| "named name (Text s # ns) = named name ns"
| "named name (Elem name' attrs children # ns) =
     (if name' = name then children # named name ns else named name ns)"

definition says_one :: "string \<Rightarrow> node list \<Rightarrow> bool" where
  "says_one name ns \<longleftrightarrow> map (\<lambda>c. Option.bind (scalar c) parse_number) (named name ns) = [Some 1]"

definition session_address :: "node list \<Rightarrow> string option option" where
  "session_address ns =
     (case named ''sessionUrl0'' ns of
        [] \<Rightarrow> Some None
      | [c] \<Rightarrow> (case scalar c of
          Some t \<Rightarrow> if valid_session_url t \<and> \<not> list_ex is_space t then Some (Some t) else None
        | None \<Rightarrow> None)
      | _ \<Rightarrow> None)"

lemma launch_children_iff:
  assumes "wanted \<noteq> ''sessionUrl0''"
  shows "fold_opt (launch_child wanted) ns (have, url) = Some (have', url') \<longleftrightarrow>
     (if have' then (if have then named wanted ns = [] else says_one wanted ns)
      else \<not> have \<and> named wanted ns = []) \<and>
     (case url of None \<Rightarrow> session_address ns = Some url'
      | Some u \<Rightarrow> named ''sessionUrl0'' ns = [] \<and> url' = url)"
proof (induction ns arbitrary: "have" url)
  case Nil
  show ?case by (cases url) (auto simp: says_one_def session_address_def)
next
  case (Cons n ns)
  show ?case
  proof (cases n)
    case (Text s)
    then show ?thesis
      using Cons.IH by (cases url) (simp_all add: says_one_def session_address_def)
  next
    case (Elem name attrs children)
    consider "name = wanted" | "name \<noteq> wanted" "name = ''sessionUrl0''"
      | "name \<noteq> wanted" "name \<noteq> ''sessionUrl0''" by blast
    then show ?thesis
    proof cases
      case 1
      then show ?thesis
        using Cons.IH [of True url] assms Elem
        by (cases "have"; cases url) (auto simp: says_one_def session_address_def)
    next
      case 2
      show ?thesis
      proof (cases "scalar children")
        case None
        then show ?thesis
          using Elem 2 by (cases "named ''sessionUrl0'' ns"; cases url) (auto simp: session_address_def)
      next
        case (Some t)
        then show ?thesis
          using Cons.IH [of "have" "Some t"] Elem 2
          by (cases "named ''sessionUrl0'' ns"; cases url) (auto simp: session_address_def says_one_def)
      qed
    next
      case 3
      then show ?thesis
        using Cons.IH [of "have" url] Elem
        by (cases url) (simp_all add: says_one_def session_address_def)
    qed
  qed
qed

section \<open>The root element\<close>

lemma root_attributes:
  fixes attrs :: "(string \<times> string) list"
  defines "codes \<equiv> map (parse_number \<circ> snd) (filter (\<lambda>a. fst a = ''status_code'') attrs)"
    and "messages \<equiv> map snd (filter (\<lambda>a. fst a = ''status_message'') attrs)"
  shows "if None \<in> set codes then cx_invalid (fold root_attribute attrs ctx)
         else fold root_attribute attrs ctx = ctx\<lparr>cx_response := (cx_response ctx)\<lparr>
           rs_status_code := (if codes = [] then rs_status_code (cx_response ctx) else the (last codes)),
           rs_status_message := (if messages = [] then rs_status_message (cx_response ctx)
                                 else take 255 (last messages))\<rparr>\<rparr>"
proof -
  have still: "cx_invalid c \<Longrightarrow> cx_invalid (root_attribute a c)" for a c
    by (simp add: root_attribute_def split: option.split)
  have still: "cx_invalid c \<Longrightarrow> cx_invalid (fold root_attribute as c)" for as c
    by (induction as arbitrary: c) (simp_all add: still)
  show ?thesis
    unfolding codes_def messages_def
  proof (induction attrs arbitrary: ctx)
    case (Cons a as)
    show ?case
    proof (cases "fst a = ''status_code'' \<and> parse_number (snd a) = None")
      case True
      then have "cx_invalid (root_attribute a ctx)"
        by (simp add: root_attribute_def)
      then show ?thesis using True still by simp
    next
      case False
      consider n where "fst a = ''status_code''" "parse_number (snd a) = Some n"
        | "fst a \<noteq> ''status_code''" "fst a = ''status_message''"
        | "fst a \<noteq> ''status_code''" "fst a \<noteq> ''status_message''"
        using False by (cases "parse_number (snd a)") auto
      then show ?thesis
      proof cases
        case 1
        then have "root_attribute a ctx = ctx\<lparr>cx_response := (cx_response ctx)\<lparr>rs_status_code := n\<rparr>\<rparr>"
          by (simp add: root_attribute_def)
        then show ?thesis
          using Cons.IH [of "root_attribute a ctx"] 1 by (simp split: if_splits)
      next
        case 2
        then have "root_attribute a ctx =
            ctx\<lparr>cx_response := (cx_response ctx)\<lparr>rs_status_message := take 255 (snd a)\<rparr>\<rparr>"
          by (simp add: root_attribute_def bounded_copy_def)
        then show ?thesis
          using Cons.IH [of "root_attribute a ctx"] 2 by (simp split: if_splits)
      next
        case 3
        then have "root_attribute a ctx = ctx"
          by (simp add: root_attribute_def)
        then show ?thesis
          using Cons.IH [of ctx] 3 by simp
      qed
    qed
  qed simp
qed

lemma root_status_Some:
  "root_status attrs = Some s \<longleftrightarrow>
     (let codes = map (parse_number \<circ> snd) (filter (\<lambda>a. fst a = ''status_code'') attrs)
      in codes \<noteq> [] \<and> None \<notin> set codes \<and> last codes = Some s \<and> s \<noteq> 0)"
  by (auto simp: root_status_def Let_def)

lemma start_root_spec:
  assumes "\<not> cx_invalid ctx" "cx_depth ctx = 0" "\<not> cx_root_seen ctx" "cx_response ctx = response_zero"
  shows "if name \<noteq> ''root'' \<or> root_status attrs = None then cx_invalid (start_element ctx name attrs)
         else start_element ctx name attrs = ctx\<lparr>cx_depth := 1, cx_root_seen := True,
           cx_response := response_zero\<lparr>rs_status_code := the (root_status attrs),
             rs_status_message := root_message attrs\<rparr>\<rparr>"
proof (cases "name = ''root''")
  case False
  then show ?thesis using assms by (simp add: handler_defs start_root_def)
next
  case True
  let ?ctx = "ctx\<lparr>cx_depth := 1, cx_root_seen := True\<rparr>"
  let ?codes = "map (parse_number \<circ> snd) (filter (\<lambda>a. fst a = ''status_code'') attrs)"
  have start: "start_element ctx name attrs =
    (let c = fold root_attribute attrs ?ctx in if rs_status_code (cx_response c) = 0 then reject c else c)"
    using assms True by (simp add: start_element_def start_root_def Let_def)
  show ?thesis
  proof (cases "root_status attrs")
    case None
    have "?codes \<noteq> [] \<Longrightarrow> last ?codes \<in> set ?codes"
      by (rule last_in_set)
    then have "None \<in> set ?codes \<or> ?codes = [] \<or> last ?codes = Some 0"
      using None unfolding root_status_def Let_def by (metis (no_types, lifting))
    then have "cx_invalid (start_element ctx name attrs)"
      using root_attributes [of attrs ?ctx] assms start
      by (auto simp: response_zero_def Let_def split: if_splits)
    then show ?thesis using None by simp
  next
    case (Some s)
    then have "?codes \<noteq> []" "None \<notin> set ?codes" "last ?codes = Some s" "s \<noteq> 0"
      by (auto simp: root_status_Some Let_def)
    then show ?thesis
      using root_attributes [of attrs ?ctx] assms start True Some
      by (simp add: root_message_def Let_def response_zero_def)
  qed
qed

lemma end_root:
  assumes "\<not> cx_invalid ctx" "cx_depth ctx = 1" "cx_field ctx = FieldNone"
  shows "end_element ctx name = ctx\<lparr>cx_depth := 0\<rparr>"
  using assms by (simp add: handler_defs)

text \<open>The bytes that expat turns into the callbacks of one document.\<close>

definition reads :: "expat \<Rightarrow> string \<Rightarrow> node \<Rightarrow> bool" where
  "reads expat bytes doc \<longleftrightarrow>
     bytes \<noteq> [] \<and> int (length bytes) \<le> int_max \<and> expat bytes = Some (events doc, True)"

lemma parse_reads:
  assumes "reads expat bytes doc"
  shows "parse_response expat (Some bytes) ctx =
    (let c = run_node doc (ctx\<lparr>cx_response := response_zero\<rparr>)
     in (if cx_invalid c \<or> \<not> cx_root_seen c \<or> cx_depth c \<noteq> 0 then XmlInvalid
         else if rs_status_code (cx_response c) \<noteq> 200 then XmlServerError
         else if \<not> cx_list_mode c \<and> \<not> cx_have_session c then XmlInvalid
         else XmlOk, c))"
  using assms by (simp add: parse_response_def reads_def Let_def)

lemma parse_bad_root:
  assumes "reads expat bytes (Elem name attrs ns)"
    and "\<not> cx_invalid ctx" "cx_depth ctx = 0" "\<not> cx_root_seen ctx"
    and "name \<noteq> ''root'' \<or> root_status attrs = None"
  shows "fst (parse_response expat (Some bytes) ctx) = XmlInvalid"
  using start_root_spec [of "ctx\<lparr>cx_response := response_zero\<rparr>" name attrs] assms
  by (simp add: parse_reads Let_def)

lemma parse_error_root:
  assumes "reads expat bytes (Elem ''root'' attrs ns)" "root_status attrs = Some s" "s \<noteq> 200"
    and "\<not> cx_invalid ctx" "cx_depth ctx = 0" "\<not> cx_root_seen ctx" "cx_field ctx = FieldNone"
  shows "parse_response expat (Some bytes) ctx =
    (XmlServerError, ctx\<lparr>cx_root_seen := True, cx_response := response_zero
       \<lparr>rs_status_code := s, rs_status_message := root_message attrs\<rparr>\<rparr>)"
proof -
  let ?c = "ctx\<lparr>cx_depth := 1, cx_root_seen := True, cx_response := response_zero
       \<lparr>rs_status_code := s, rs_status_message := root_message attrs\<rparr>\<rparr>"
  have "start_element (ctx\<lparr>cx_response := response_zero\<rparr>) ''root'' attrs = ?c"
    using start_root_spec [of "ctx\<lparr>cx_response := response_zero\<rparr>" "''root''" attrs] assms by simp
  moreover have "fold run_node ms ?c = ?c" for ms
    using assms by (induction ms) (simp_all add: skip_error)
  moreover have "end_element ?c ''root'' = ?c\<lparr>cx_depth := 0\<rparr>"
    using assms by (simp add: end_root)
  ultimately show ?thesis
    using assms by (simp add: parse_reads Let_def fold_events)
qed

text \<open>
  The launch and cancel parsers on a document: accepted exactly when the root reports success, one
  scalar child of the expected name says 1, and there is at most one address, a valid one.
\<close>

definition launch_context :: "string \<Rightarrow> parse_context" where
  "launch_context wanted = context_zero\<lparr>cx_result_field := wanted\<rparr>"

lemma parse_launch_children:
  assumes "reads expat bytes (Elem ''root'' attrs ns)" "root_status attrs = Some 200"
    and "wanted \<noteq> ''sessionUrl0''"
  defines "p \<equiv> parse_response expat (Some bytes) (launch_context wanted)"
  shows "case fold_opt (launch_child wanted) ns (False, None) of
           None \<Rightarrow> fst p = XmlInvalid
         | Some (have, url) \<Rightarrow>
             fst p = (if have then XmlOk else XmlInvalid) \<and>
             cx_response (snd p) = \<lparr>rs_status_code = 200, rs_status_message = root_message attrs,
               rs_session_url = case_option [] id url, rs_session_url_present = (url \<noteq> None),
               rs_total_applications = 0\<rparr>"
proof -
  let ?base = "response_zero\<lparr>rs_status_code := 200, rs_status_message := root_message attrs\<rparr>"
  let ?c = "(launch_context wanted)\<lparr>cx_depth := 1, cx_root_seen := True, cx_response := ?base\<rparr>"
  let ?d = "fold handle (concat (map events ns)) ?c"
  have start: "start_element ((launch_context wanted)\<lparr>cx_response := response_zero\<rparr>) ''root'' attrs = ?c"
    using start_root_spec [of "(launch_context wanted)\<lparr>cx_response := response_zero\<rparr>" "''root''" attrs] assms
    by (simp add: launch_context_def context_zero_def)
  have ready: "launch_ready wanted ?base ?c"
    using assms by (auto simp: launch_ready_def launch_context_def context_zero_def response_zero_def
        intro: exI [of _ None])
  have state: "launch_state ?c = (False, None)"
    by (simp add: launch_state_def launch_context_def context_zero_def response_zero_def)
  have p: "p = (let c = end_element ?d ''root''
     in (if cx_invalid c \<or> \<not> cx_root_seen c \<or> cx_depth c \<noteq> 0 then XmlInvalid
         else if rs_status_code (cx_response c) \<noteq> 200 then XmlServerError
         else if \<not> cx_list_mode c \<and> \<not> cx_have_session c then XmlInvalid else XmlOk, c))"
    using start assms(1) by (simp add: p_def parse_reads)
  show ?thesis
  proof (cases "fold_opt (launch_child wanted) ns (False, None)")
    case None
    then show ?thesis
      using launch_children [OF ready, of ns] state p by (simp add: Let_def)
  next
    case (Some s)
    then have d: "launch_ready wanted ?base ?d" "launch_state ?d = s"
      using launch_children [OF ready, of ns] state by simp_all
    then have "end_element ?d ''root'' = ?d\<lparr>cx_depth := 0\<rparr>"
      using launch_readyD [OF d(1)] by (simp add: end_root)
    then show ?thesis
      using p d Some by (auto simp: launch_ready_def launch_state_def Let_def response_zero_def)
  qed
qed

section \<open>Application lists\<close>

text \<open>
  A context between two children of an open \<open>App\<close> element: \<open>outer\<close> is the context in which the
  element was opened, \<open>s\<close> the number and the title so far.
\<close>

definition app_ready :: "parse_context \<Rightarrow> int option \<times> string option \<Rightarrow> parse_context \<Rightarrow> bool" where
  "app_ready outer s ctx \<longleftrightarrow>
     \<not> cx_invalid ctx \<and> cx_list_mode ctx \<and> cx_field ctx = FieldNone \<and> cx_depth ctx = 2 \<and>
     cx_app_open ctx \<and> rs_status_code (cx_response outer) = 200 \<and>
     cx_have_id ctx = (fst s \<noteq> None) \<and> cx_have_title ctx = (snd s \<noteq> None) \<and>
     cx_app ctx = \<lparr>app_id = case_option 0 id (fst s), app_name = case_option [] id (snd s)\<rparr> \<and>
     cx_response ctx = cx_response outer \<and> cx_apps ctx = cx_apps outer \<and>
     cx_capacity ctx = cx_capacity outer \<and> cx_count ctx = cx_count outer \<and>
     cx_root_seen ctx = cx_root_seen outer"

lemma app_id_field:
  assumes "app_ready outer s ctx"
  shows "case Option.bind (scalar children) parse_number of
           None \<Rightarrow> cx_invalid (run_node (Elem ''ID'' attrs children) ctx)
         | Some m \<Rightarrow>
             if cx_have_id ctx then cx_invalid (run_node (Elem ''ID'' attrs children) ctx)
             else \<exists>t. run_node (Elem ''ID'' attrs children) ctx =
                    ctx\<lparr>cx_app := (cx_app ctx)\<lparr>app_id := m\<rparr>, cx_have_id := True, cx_text := t, cx_field_depth := 3\<rparr>"
proof (cases "cx_have_id ctx")
  case True
  then have "cx_invalid (start_element ctx ''ID'' attrs)"
    using assms by (simp add: app_ready_def handler_defs start_list_def)
  then show ?thesis using True by (simp split: option.split)
next
  case False
  have ctx: "\<not> cx_invalid ctx" "rs_status_code (cx_response ctx) = 200" "cx_depth ctx = 2"
    "cx_field ctx = FieldNone"
    using assms by (auto simp: app_ready_def)
  have "start_element ctx ''ID'' attrs = opened ctx FieldId"
    using assms False by (simp add: app_ready_def handler_defs start_list_def)
  then have "case scalar children of
       None \<Rightarrow> cx_invalid (run_node (Elem ''ID'' attrs children) ctx)
     | Some t \<Rightarrow> run_node (Elem ''ID'' attrs children) ctx = end_element (opened ctx FieldId\<lparr>cx_text := t\<rparr>) ''ID''"
    using ctx by (intro scalar_element) simp_all
  moreover have number: "case parse_number t of
       None \<Rightarrow> cx_invalid (end_element (opened ctx FieldId\<lparr>cx_text := t\<rparr>) ''ID'')
     | Some m \<Rightarrow> end_element (opened ctx FieldId\<lparr>cx_text := t\<rparr>) ''ID'' =
         ctx\<lparr>cx_app := (cx_app ctx)\<lparr>app_id := m\<rparr>, cx_have_id := True, cx_text := t, cx_field_depth := 3\<rparr>" for t
    using ctx by (simp add: handler_defs begin_field_def finish_field_def split: option.split)
  ultimately have content: "case scalar children of
       None \<Rightarrow> cx_invalid (run_node (Elem ''ID'' attrs children) ctx)
     | Some t \<Rightarrow> run_node (Elem ''ID'' attrs children) ctx = end_element (opened ctx FieldId\<lparr>cx_text := t\<rparr>) ''ID''"
    by blast
  show ?thesis
  proof (cases "scalar children")
    case None
    then show ?thesis using content by simp
  next
    case (Some t)
    with content number [of t] False show ?thesis
      by (cases "parse_number t") (simp_all, blast)
  qed
qed

lemma app_title_field:
  assumes "app_ready outer s ctx"
  shows "case flat_text children of
           None \<Rightarrow> cx_invalid (run_node (Elem ''AppTitle'' attrs children) ctx)
         | Some t \<Rightarrow>
             if cx_have_title ctx then cx_invalid (run_node (Elem ''AppTitle'' attrs children) ctx)
             else run_node (Elem ''AppTitle'' attrs children) ctx =
                    ctx\<lparr>cx_app := (cx_app ctx)\<lparr>app_name := clip_title (take 255 t)\<rparr>, cx_have_title := True,
                        cx_text := take 255 t, cx_field_depth := 3\<rparr>"
proof (cases "cx_have_title ctx")
  case True
  then have "cx_invalid (start_element ctx ''AppTitle'' attrs)"
    using assms by (simp add: app_ready_def handler_defs start_list_def)
  then show ?thesis using True by (simp split: option.split)
next
  case False
  have ctx: "\<not> cx_invalid ctx" "rs_status_code (cx_response ctx) = 200" "cx_depth ctx = 2"
    "cx_field ctx = FieldNone"
    using assms by (auto simp: app_ready_def)
  have "start_element ctx ''AppTitle'' attrs = opened ctx FieldTitle"
    using assms False by (simp add: app_ready_def handler_defs start_list_def)
  then have "case flat_text children of
       None \<Rightarrow> cx_invalid (run_node (Elem ''AppTitle'' attrs children) ctx)
     | Some t \<Rightarrow> run_node (Elem ''AppTitle'' attrs children) ctx =
         end_element (opened ctx FieldTitle\<lparr>cx_text := take 255 t\<rparr>) ''AppTitle''"
    using ctx by (intro title_element) simp_all
  moreover have "end_element (opened ctx FieldTitle\<lparr>cx_text := take 255 t\<rparr>) ''AppTitle'' =
      ctx\<lparr>cx_app := (cx_app ctx)\<lparr>app_name := clip_title (take 255 t)\<rparr>, cx_have_title := True,
          cx_text := take 255 t, cx_field_depth := 3\<rparr>" for t
    using ctx by (simp add: handler_defs begin_field_def finish_field_def finish_title_def)
  ultimately show ?thesis
    using False by (simp split: option.splits)
qed

lemma app_step:
  assumes "app_ready outer s ctx"
  shows "case app_child n s of
           None \<Rightarrow> cx_invalid (run_node n ctx)
         | Some s' \<Rightarrow> app_ready outer s' (run_node n ctx)"
proof (cases n)
  case (Text t)
  then show ?thesis
    using assms by (cases s) (simp add: app_ready_def character_data_def)
next
  case (Elem name attrs children)
  obtain i t where s: "s = (i, t)" by (cases s)
  consider "name = ''ID''" | "name = ''AppTitle''" | "name \<noteq> ''ID''" "name \<noteq> ''AppTitle''" by blast
  then show ?thesis
  proof cases
    case 1
    have "app_ready outer (Some m, t) (ctx\<lparr>cx_app := (cx_app ctx)\<lparr>app_id := m\<rparr>, cx_have_id := True,
        cx_text := u, cx_field_depth := 3\<rparr>)" for m u
      using assms s by (simp add: app_ready_def)
    moreover have "cx_have_id ctx = (i \<noteq> None)"
      using assms s by (simp add: app_ready_def)
    ultimately show ?thesis
      using app_id_field [OF assms, where attrs = attrs and children = children] Elem 1 s
      by (auto split: option.splits)
  next
    case 2
    have "app_ready outer (i, Some m) (ctx\<lparr>cx_app := (cx_app ctx)\<lparr>app_name := m\<rparr>, cx_have_title := True,
        cx_text := u, cx_field_depth := 3\<rparr>)" for m u
      using assms s by (simp add: app_ready_def)
    moreover have "cx_have_title ctx = (t \<noteq> None)"
      using assms s by (simp add: app_ready_def)
    ultimately show ?thesis
      using app_title_field [OF assms, where attrs = attrs and children = children] Elem 2 s
      by (auto split: option.splits)
  next
    case 3
    let ?inner = "ctx\<lparr>cx_depth := 3\<rparr>"
    show ?thesis
    proof (cases "name = ''App''")
      case True
      then have "cx_invalid (start_element ctx name attrs)"
        using assms by (simp add: app_ready_def handler_defs start_list_def)
      then show ?thesis using Elem True s by simp
    next
      case False
      have "start_element ctx name attrs = ?inner"
        using assms 3 False by (simp add: app_ready_def handler_defs start_list_def)
      moreover have "end_element ?inner name = ctx"
        using assms False by (simp add: app_ready_def handler_defs)
      moreover have "if list_all no_app ns then fold run_node ns ?inner = ?inner
          else cx_invalid (fold run_node ns ?inner)" for ns
      proof (induction ns)
        case (Cons m ms)
        have "if no_app m then run_node m ?inner = ?inner else cx_invalid (run_node m ?inner)"
          using assms by (intro skip_list) (simp_all add: app_ready_def)
        then show ?case
          using Cons.IH fold_handle_invalid [of "run_node m ?inner"]
          by (auto simp flip: fold_events split: if_splits)
      qed simp
      ultimately show ?thesis
        using Elem 3 False s assms
        by (cases "list_all no_app children") (auto simp: fold_events)
    qed
  qed
qed

lemma app_children:
  assumes "app_ready outer s ctx"
  shows "case fold_opt app_child ns s of
           None \<Rightarrow> cx_invalid (fold handle (concat (map events ns)) ctx)
         | Some s' \<Rightarrow> app_ready outer s' (fold handle (concat (map events ns)) ctx)"
  unfolding fold_events
  by (rule fold_opt_simulates [where R = "app_ready outer"]) (use assms app_step in auto)

text \<open>A context between two children of the root of a list, after the applications \<open>apps\<close>.\<close>

definition list_ready ::
  "application list \<Rightarrow> response \<Rightarrow> application list \<Rightarrow> parse_context \<Rightarrow> bool" where
  "list_ready array base apps ctx \<longleftrightarrow>
     \<not> cx_invalid ctx \<and> cx_list_mode ctx \<and> cx_field ctx = FieldNone \<and> cx_depth ctx = 1 \<and>
     \<not> cx_app_open ctx \<and> cx_root_seen ctx \<and> rs_status_code base = 200 \<and>
     cx_capacity ctx = int (length array) \<and>
     cx_count ctx = int (min (length array) (length apps)) \<and>
     cx_apps ctx = take (length array) apps @ drop (length apps) array \<and>
     int (length apps) \<le> int_max \<and>
     cx_response ctx = base\<lparr>rs_total_applications := int (length apps)\<rparr>"

lemma store_next:
  assumes "length apps < length array"
  shows "(take (length array) apps @ drop (length apps) array)[length apps := a] =
         take (length array) (apps @ [a]) @ drop (Suc (length apps)) array"
  using assms by (simp add: list_update_append Cons_nth_drop_Suc [symmetric])

lemma end_app:
  assumes "list_ready array base apps ctx" "app_ready outer s inner"
    and "cx_response inner = cx_response ctx" "cx_apps inner = cx_apps ctx"
      "cx_capacity inner = cx_capacity ctx" "cx_count inner = cx_count ctx"
      "cx_root_seen inner = cx_root_seen ctx"
  shows "case s of
           (Some n, Some t) \<Rightarrow>
             if int (length apps) = int_max then cx_invalid (end_element inner ''App'')
             else list_ready array base (apps @ [\<lparr>app_id = n, app_name = t\<rparr>]) (end_element inner ''App'')
         | _ \<Rightarrow> cx_invalid (end_element inner ''App'')"
proof (cases "fst s = None \<or> snd s = None \<or> int (length apps) = int_max")
  case True
  have "rs_total_applications (cx_response ctx) = int (length apps)" "rs_status_code (cx_response ctx) = 200"
    using assms(1) by (simp_all add: list_ready_def)
  then have total: "rs_total_applications (cx_response inner) = int (length apps)"
    "rs_status_code (cx_response inner) = 200"
    using assms(3) by simp_all
  have "\<not> cx_have_id inner \<or> \<not> cx_have_title inner \<or> int (length apps) = int_max"
    using True assms(2) by (auto simp: app_ready_def)
  moreover have "cx_list_mode inner" "cx_field inner = FieldNone" "cx_depth inner = 2" "\<not> cx_invalid inner"
    using assms(2) by (simp_all add: app_ready_def)
  ultimately have "cx_invalid (end_element inner ''App'')"
    using total by (auto simp: end_element_def Let_def)
  then show ?thesis
    using True by (auto split: prod.split option.split)
next
  case False
  then obtain n t where s: "s = (Some n, Some t)"
    by (cases s) auto
  have len: "int (length apps) \<noteq> int_max"
    using False by blast
  have inner: "cx_list_mode inner" "cx_field inner = FieldNone" "cx_depth inner = 2" "\<not> cx_invalid inner"
    "cx_have_id inner" "cx_have_title inner" "cx_app inner = \<lparr>app_id = n, app_name = t\<rparr>"
    using assms(2) s by (simp_all add: app_ready_def)
  have same: "cx_capacity inner = int (length array)" "cx_count inner = int (min (length array) (length apps))"
    "cx_apps inner = take (length array) apps @ drop (length apps) array" "cx_root_seen inner"
    "cx_response inner = base\<lparr>rs_total_applications := int (length apps)\<rparr>"
    "rs_status_code base = 200" "int (length apps) \<le> int_max"
    using assms(1,3-7) by (simp_all add: list_ready_def)
  have "list_ready array base (apps @ [\<lparr>app_id = n, app_name = t\<rparr>]) (end_element inner ''App'')"
  proof (cases "length apps < length array")
    case True
    then have "store_app inner = inner\<lparr>cx_apps := take (length array) (apps @ [cx_app inner]) @
        drop (Suc (length apps)) array, cx_count := int (length apps) + 1\<rparr>"
      using same store_next [OF True] by (simp add: store_app_def)
    then show ?thesis
      using inner same len True by (simp add: list_ready_def end_element_def Let_def)
  next
    case False
    then have "store_app inner = inner"
      using same by (simp add: store_app_def)
    then show ?thesis
      using inner same len False by (simp add: list_ready_def end_element_def Let_def)
  qed
  then show ?thesis using s len by simp
qed

lemma list_step:
  assumes "list_ready array base apps ctx"
  shows "case list_child n apps of
           None \<Rightarrow> cx_invalid (run_node n ctx)
         | Some apps' \<Rightarrow> list_ready array base apps' (run_node n ctx)"
proof (cases n)
  case (Text t)
  then show ?thesis
    using assms by (simp add: list_ready_def character_data_def)
next
  case (Elem name attrs children)
  show ?thesis
  proof (cases "name = ''App''")
    case True
    let ?open = "ctx\<lparr>cx_depth := 2, cx_app := \<lparr>app_id = 0, app_name = []\<rparr>, cx_have_id := False,
                 cx_have_title := False, cx_app_open := True\<rparr>"
    let ?inner = "fold handle (concat (map events children)) ?open"
    have start: "start_element ctx name attrs = ?open"
      using assms True by (simp add: list_ready_def handler_defs start_list_def)
    have "app_ready ?open (None, None) ?open"
      using assms by (simp add: list_ready_def app_ready_def)
    note inside = app_children [OF this, of children]
    show ?thesis
    proof (cases "fold_opt app_child children (None, None)")
      case None
      then show ?thesis using inside start Elem True by (simp add: app_of_def)
    next
      case (Some s)
      then have ready: "app_ready ?open s ?inner"
        using inside by simp
      have "cx_response ?inner = cx_response ctx" "cx_apps ?inner = cx_apps ctx"
        "cx_capacity ?inner = cx_capacity ctx" "cx_count ?inner = cx_count ctx"
        "cx_root_seen ?inner = cx_root_seen ctx"
        using ready by (simp_all add: app_ready_def)
      note finish = end_app [OF assms ready this]
      show ?thesis
        using finish start Elem True Some by (auto simp: app_of_def split: prod.splits option.splits)
    qed
  next
    case False
    let ?inner = "ctx\<lparr>cx_depth := 2\<rparr>"
    have "start_element ctx name attrs = ?inner"
      using assms False by (simp add: list_ready_def handler_defs start_list_def)
    moreover have "end_element ?inner name = ctx"
      using assms False by (simp add: list_ready_def handler_defs)
    moreover have "if list_all no_app ns then fold run_node ns ?inner = ?inner
        else cx_invalid (fold run_node ns ?inner)" for ns
    proof (induction ns)
      case (Cons m ms)
      have "if no_app m then run_node m ?inner = ?inner else cx_invalid (run_node m ?inner)"
        using assms by (intro skip_list) (simp_all add: list_ready_def)
      then show ?case
        using Cons.IH fold_handle_invalid [of "run_node m ?inner"]
        by (auto simp flip: fold_events split: if_splits)
    qed simp
    ultimately show ?thesis
      using Elem False assms
      by (cases "list_all no_app children") (auto simp: fold_events)
  qed
qed

lemma list_children:
  assumes "list_ready array base apps ctx"
  shows "case fold_opt list_child ns apps of
           None \<Rightarrow> cx_invalid (fold handle (concat (map events ns)) ctx)
         | Some apps' \<Rightarrow> list_ready array base apps' (fold handle (concat (map events ns)) ctx)"
  unfolding fold_events
  by (rule fold_opt_simulates [where R = "list_ready array base"]) (use assms list_step in auto)

definition list_context :: "application list \<Rightarrow> parse_context" where
  "list_context array =
     context_zero\<lparr>cx_apps := array, cx_capacity := int (length array), cx_list_mode := True\<rparr>"

lemma parse_list_children:
  fixes array :: "application list"
  assumes "reads expat bytes (Elem ''root'' attrs ns)" "root_status attrs = Some 200"
  defines "p \<equiv> parse_response expat (Some bytes) (list_context array)"
  shows "case fold_opt list_child ns [] of
           None \<Rightarrow> fst p = XmlInvalid
         | Some apps \<Rightarrow>
             fst p = XmlOk \<and> cx_count (snd p) = int (min (length array) (length apps)) \<and>
             cx_apps (snd p) = take (length array) apps @ drop (length apps) array \<and>
             cx_response (snd p) = \<lparr>rs_status_code = 200, rs_status_message = root_message attrs,
               rs_session_url = [], rs_session_url_present = False,
               rs_total_applications = int (length apps)\<rparr>"
proof -
  let ?base = "response_zero\<lparr>rs_status_code := 200, rs_status_message := root_message attrs\<rparr>"
  let ?c = "(list_context array)\<lparr>cx_depth := 1, cx_root_seen := True, cx_response := ?base\<rparr>"
  let ?d = "fold handle (concat (map events ns)) ?c"
  have start: "start_element ((list_context array)\<lparr>cx_response := response_zero\<rparr>) ''root'' attrs = ?c"
    using start_root_spec [of "(list_context array)\<lparr>cx_response := response_zero\<rparr>" "''root''" attrs] assms
    by (simp add: list_context_def context_zero_def)
  have ready: "list_ready array ?base [] ?c"
    by (simp add: list_ready_def list_context_def context_zero_def response_zero_def int_max_def)
  have p: "p = (let c = end_element ?d ''root''
     in (if cx_invalid c \<or> \<not> cx_root_seen c \<or> cx_depth c \<noteq> 0 then XmlInvalid
         else if rs_status_code (cx_response c) \<noteq> 200 then XmlServerError
         else if \<not> cx_list_mode c \<and> \<not> cx_have_session c then XmlInvalid else XmlOk, c))"
    using start assms(1) by (simp add: p_def parse_reads)
  show ?thesis
  proof (cases "fold_opt list_child ns []")
    case None
    then show ?thesis
      using list_children [OF ready, of ns] p by (simp add: Let_def)
  next
    case (Some apps)
    then have d: "list_ready array ?base apps ?d"
      using list_children [OF ready, of ns] by simp
    then have "end_element ?d ''root'' = ?d\<lparr>cx_depth := 0\<rparr>"
      by (simp add: list_ready_def end_root)
    then show ?thesis
      using p d Some by (simp add: list_ready_def Let_def response_zero_def)
  qed
qed

text \<open>Which applications a list holds, without folds.\<close>

definition plain :: "string list \<Rightarrow> node \<Rightarrow> bool" where
  "plain names n \<longleftrightarrow> (case n of Elem name attrs children \<Rightarrow> name \<in> set names \<or> no_app n | Text s \<Rightarrow> True)"

definition describes :: "node list \<Rightarrow> application \<Rightarrow> bool" where
  "describes ns a \<longleftrightarrow>
     map (\<lambda>c. Option.bind (scalar c) parse_number) (named ''ID'' ns) = [Some (app_id a)] \<and>
     map (\<lambda>c. map_option (clip_title \<circ> take 255) (flat_text c)) (named ''AppTitle'' ns) = [Some (app_name a)] \<and>
     list_all (plain [''ID'', ''AppTitle'']) ns"

lemma app_children_iff:
  "fold_opt app_child ns (i, t) = Some (i', t') \<longleftrightarrow>
     (if i = None
      then map (\<lambda>c. Option.bind (scalar c) parse_number) (named ''ID'' ns) = (if i' = None then [] else [i'])
      else named ''ID'' ns = [] \<and> i' = i) \<and>
     (if t = None
      then map (\<lambda>c. map_option (clip_title \<circ> take 255) (flat_text c)) (named ''AppTitle'' ns) =
             (if t' = None then [] else [t'])
      else named ''AppTitle'' ns = [] \<and> t' = t) \<and>
     list_all (plain [''ID'', ''AppTitle'']) ns"
proof (induction ns arbitrary: i t)
  case Nil
  show ?case by auto
next
  case (Cons n ns)
  show ?case
  proof (cases n)
    case (Text s)
    then show ?thesis using Cons.IH by (simp add: plain_def)
  next
    case (Elem name attrs children)
    consider "name = ''ID''" | "name = ''AppTitle''" | "name \<noteq> ''ID''" "name \<noteq> ''AppTitle''" by blast
    then show ?thesis
    proof cases
      case 1
      show ?thesis
      proof (cases "Option.bind (scalar children) parse_number")
        case None
        then show ?thesis using Elem 1 by (cases i; cases i') (auto simp: plain_def)
      next
        case (Some m)
        then show ?thesis
          using Cons.IH [of "Some m" t] Elem 1 by (cases i) (auto simp: plain_def)
      qed
    next
      case 2
      show ?thesis
      proof (cases "flat_text children")
        case None
        then show ?thesis using Elem 2 by (cases t; cases t') (auto simp: plain_def)
      next
        case (Some s)
        then show ?thesis
          using Cons.IH [of i "Some (clip_title (take 255 s))"] Elem 2 by (cases t) (auto simp: plain_def)
      qed
    next
      case 3
      then show ?thesis
        using Cons.IH [of i t] Elem by (auto simp: plain_def)
    qed
  qed
qed

lemma app_of_iff: "app_of ns = Some a \<longleftrightarrow> describes ns a"
proof -
  have "app_of ns = Some a \<longleftrightarrow> fold_opt app_child ns (None, None) = Some (Some (app_id a), Some (app_name a))"
    by (auto simp: app_of_def split: option.splits prod.splits)
  then show ?thesis
    by (simp add: app_children_iff describes_def)
qed

lemma list_children_iff:
  assumes "int (length apps) \<le> int_max"
  shows "fold_opt list_child ns apps = Some apps' \<longleftrightarrow>
     (\<exists>new. list_all2 describes (named ''App'' ns) new \<and> apps' = apps @ new) \<and>
     list_all (plain [''App'']) ns \<and> int (length apps') \<le> int_max"
  using assms
proof (induction ns arbitrary: apps)
  case (Cons n ns)
  show ?case
  proof (cases n)
    case (Text s)
    then show ?thesis using Cons by (simp add: plain_def)
  next
    case (Elem name attrs children)
    show ?thesis
    proof (cases "name = ''App''")
      case False
      then show ?thesis using Cons Elem by (auto simp: plain_def)
    next
      case True
      have only: "describes children b \<longleftrightarrow> app_of children = Some b" for b
        by (simp add: app_of_iff)
      show ?thesis
      proof (cases "app_of children")
        case None
        then show ?thesis using Elem True only by (auto simp: list_all2_Cons1)
      next
        case (Some a)
        show ?thesis
        proof (cases "int (length apps) = int_max")
          case True
          then show ?thesis using Some Elem \<open>name = ''App''\<close> by (auto simp: list_all2_Cons1)
        next
          case False
          then show ?thesis
            using Cons.IH [of "apps @ [a]"] Cons.prems Some Elem True only
            by (auto simp: list_all2_Cons1 plain_def)
        qed
      qed
    qed
  qed
qed auto

section \<open>Numbers and titles: what they mean\<close>

definition decimal :: "string \<Rightarrow> int" where
  "decimal ds = fold (\<lambda>c n. n * 10 + digit_value c) ds 0"

lemma digit_value_range: "is_digit c \<Longrightarrow> 0 \<le> digit_value c \<and> digit_value c \<le> 9"
proof -
  have "(of_char c :: int) = int (of_char c :: nat)"
    by (cases c) simp
  then show "is_digit c \<Longrightarrow> 0 \<le> digit_value c \<and> digit_value c \<le> 9"
    by (simp add: is_digit_def digit_value_def)
qed

lemma fold_digits_mono:
  assumes "list_all is_digit ds" "0 \<le> n"
  shows "n \<le> fold (\<lambda>c n. n * 10 + digit_value c) ds n"
  using assms
proof (induction ds arbitrary: n)
  case (Cons c cs)
  have "n \<le> n * 10 + digit_value c" "0 \<le> n * 10 + digit_value c"
    using Cons.prems digit_value_range [of c] by auto
  then show ?case
    using Cons.IH [of "n * 10 + digit_value c"] Cons.prems by simp
qed simp

lemma parse_digits_spec:
  assumes "0 \<le> n" "n \<le> int_max"
  shows "parse_digits s n k =
     (let ds = takeWhile is_digit s; m = fold (\<lambda>c n. n * 10 + digit_value c) ds n
      in if m \<le> int_max then Some (dropWhile is_digit s, m, k + length ds) else None)"
  using assms
proof (induction s arbitrary: n k)
  case (Cons c cs)
  show ?case
  proof (cases "is_digit c")
    case True
    let ?m = "n * 10 + digit_value c"
    note range = digit_value_range [OF True]
    have guard: "n > (int_max - digit_value c) div 10 \<longleftrightarrow> int_max < ?m"
      by linarith
    have "list_all is_digit (takeWhile is_digit cs)"
      by (metis list_all_iff set_takeWhileD)
    then have "?m \<le> fold (\<lambda>c n. n * 10 + digit_value c) (takeWhile is_digit cs) ?m"
      using range Cons.prems by (intro fold_digits_mono) auto
    then show ?thesis
      using True guard range Cons.prems Cons.IH [of ?m "k + 1"] by (simp add: Let_def)
  qed (use Cons in \<open>simp\<close>)
qed simp

lemma space_not_digit: "is_space c \<Longrightarrow> \<not> is_digit c"
  by (auto simp: is_space_def is_digit_def)

text \<open>
  \<open>parse_number\<close> accepts exactly the decimal numbers from 0 to \<open>INT_MAX\<close>, with blanks
  before and after them and at least one digit, and returns their value: the overflow test in the
  loop never rejects a number that fits and never lets one that does not.
\<close>

theorem parse_number_iff:
  "parse_number text = Some n \<longleftrightarrow>
     (\<exists>before digits after. text = before @ digits @ after \<and> digits \<noteq> [] \<and> n = decimal digits \<and>
        n \<le> int_max \<and> list_all is_space before \<and> list_all is_digit digits \<and> list_all is_space after)"
    (is "?parsed \<longleftrightarrow> ?meaning")
proof -
  let ?text = "dropWhile is_space text"
  let ?ds = "takeWhile is_digit ?text"
  let ?rest = "dropWhile is_digit ?text"
  have parsed: "?parsed \<longleftrightarrow> ?ds \<noteq> [] \<and> dropWhile is_space ?rest = [] \<and> decimal ?ds = n \<and> n \<le> int_max"
    by (auto simp: parse_number_def parse_digits_spec int_max_def decimal_def Let_def)
  show ?thesis
  proof
    assume ?parsed
    moreover have "text = takeWhile is_space text @ ?ds @ ?rest"
      by simp
    moreover have "list_all is_space (takeWhile is_space text)" "list_all is_digit ?ds"
      by (auto simp: list_all_iff dest: set_takeWhileD)
    moreover have "list_all is_space ?rest"
      using calculation(1) parsed by (simp add: dropWhile_eq_Nil_conv list_all_iff)
    moreover have "?ds \<noteq> []" "n = decimal ?ds" "n \<le> int_max"
      using calculation(1) parsed by simp_all
    ultimately show ?meaning
      by (intro exI [of _ "takeWhile is_space text"] exI [of _ ?ds] exI [of _ ?rest]) simp
  next
    assume ?meaning
    then obtain "before" digits after where split: "text = before @ digits @ after" "digits \<noteq> []"
      "n = decimal digits" "n \<le> int_max" "list_all is_space before" "list_all is_digit digits"
      "list_all is_space after"
      by blast
    then have "\<not> is_space (hd digits)"
      using space_not_digit by (cases digits) auto
    then have "dropWhile is_space (digits @ after) = digits @ after"
      using split(2) by (cases digits) auto
    then have "?text = digits @ after"
      using split by (simp add: dropWhile_append list_all_iff)
    moreover have "takeWhile is_digit after = []"
      using split(7) space_not_digit by (cases after) auto
    moreover have "dropWhile is_digit after = after"
      using split(7) space_not_digit by (cases after) auto
    ultimately have "?ds = digits" "?rest = after"
      using split(6) by (simp_all add: takeWhile_append dropWhile_append list_all_iff)
    then show ?parsed
      using split parsed by (simp add: list_all_iff)
  qed
qed

text \<open>
  UTF-8 as expat guarantees it: a text is a sequence of code points, each a leading byte, whose value
  gives the number of bytes, and continuation bytes.
\<close>

definition continuation :: "char \<Rightarrow> bool" where
  "continuation c \<longleftrightarrow> byte_of c AND 0xC0 = 0x80"

definition code_point :: "string \<Rightarrow> bool" where
  "code_point p \<longleftrightarrow> p \<noteq> [] \<and> \<not> continuation (hd p) \<and> list_all continuation (tl p) \<and>
     length p = lead_width (byte_of (hd p))"

text \<open>The code points that fit in \<open>n\<close> bytes.\<close>

fun fitting :: "nat \<Rightarrow> string list \<Rightarrow> string list" where
  "fitting n [] = []"
| "fitting n (p # ps) = (if length p \<le> n then p # fitting (n - length p) ps else [])"

lemma title_start_code_point:
  assumes "\<not> continuation (s ! k)" "k \<le> n" "\<forall>i. k < i \<longrightarrow> i \<le> n \<longrightarrow> continuation (s ! i)"
  shows "title_start s n = k"
  using assms
proof (induction n)
  case (Suc n)
  show ?case
  proof (cases "k = Suc n")
    case True
    then show ?thesis using Suc.prems by (simp add: continuation_def)
  next
    case False
    then show ?thesis using Suc by (simp add: continuation_def)
  qed
qed simp

lemma clip_title_prefix:
  assumes "code_point p" "0 < m" "m \<le> length p"
  shows "clip_title (s @ take m p) = (if m = length p then s @ p else s)"
proof -
  let ?t = "s @ take m p"
  have len: "length ?t = length s + m"
    using assms by simp
  have hd: "?t ! length s = hd p"
    using assms by (cases p) (auto simp: nth_append code_point_def take_Cons')
  have "continuation (?t ! i)" if "length s < i" "i \<le> length ?t - 1" for i
  proof -
    have "?t ! i = p ! (i - length s)"
      using that len by (simp add: nth_append)
    moreover have "p ! (i - length s) = tl p ! (i - length s - 1)"
      using that by (cases p) (use assms in \<open>auto simp: code_point_def\<close>)
    moreover have "i - length s - 1 < length (tl p)"
      using that len assms by auto
    ultimately show ?thesis
      using assms(1) by (simp add: code_point_def list_all_length)
  qed
  then have "title_start ?t (length ?t - 1) = length s"
    using assms hd len by (intro title_start_code_point) (auto simp: code_point_def)
  then show ?thesis
    using assms hd len by (auto simp: clip_title_def Let_def code_point_def)
qed

lemma clip_title_fitting:
  assumes "list_all code_point ps" "s \<noteq> [] \<longrightarrow> clip_title s = s"
  shows "clip_title (s @ take n (concat ps)) = s @ concat (fitting n ps)"
  using assms
proof (induction ps arbitrary: s n)
  case Nil
  then show ?case by (cases "s = []") (auto simp: clip_title_def)
next
  case (Cons p ps)
  show ?case
  proof (cases "length p \<le> n")
    case True
    have "clip_title (s @ p) = s @ p"
    proof -
      have "code_point p" "p \<noteq> []"
        using Cons.prems by (simp_all add: code_point_def)
      then show ?thesis using clip_title_prefix [of p "length p" s] by simp
    qed
    then show ?thesis
      using Cons.IH [of "s @ p" "n - length p"] Cons.prems True by simp
  next
    case False
    have "clip_title (s @ take n p) = s"
    proof (cases "n = 0")
      case True
      then show ?thesis using Cons.prems by (cases "s = []") (auto simp: clip_title_def)
    next
      case n: False
      then show ?thesis
        using Cons.prems False clip_title_prefix [of p n s] by simp
    qed
    then show ?thesis using False by simp
  qed
qed

text \<open>
  A title that is longer than the 255 bytes of the text buffer is cut at a code point
  boundary: what \<open>finish_title\<close> stores is the longest prefix of whole code points that fits.
\<close>

theorem clip_title_longest:
  assumes "list_all code_point points"
  shows "clip_title (take 255 (concat points)) = concat (fitting 255 points)"
  using clip_title_fitting [OF assms, of "[]" 255] by simp

lemma clip_title_longest_witness:
  "clip_title (take 255 (concat (replicate 254 ''A'' @ [[CHR 0xC3, CHR 0xA9]]))) =
     concat (fitting 255 (replicate 254 ''A'' @ [[CHR 0xC3, CHR 0xA9]]))"
  by (rule clip_title_longest) code_simp

section \<open>Responses\<close>

lemma root_cases:
  obtains (bad) "name \<noteq> ''root'' \<or> root_status attrs = None"
    | (error) s where "name = ''root''" "root_status attrs = Some s" "s \<noteq> 200"
    | (ok) "name = ''root''" "root_status attrs = Some 200"
  by (cases "root_status attrs") auto

lemma context_start [simp]:
  "\<not> cx_invalid (list_context array)" "cx_depth (list_context array) = 0"
  "\<not> cx_root_seen (list_context array)" "cx_field (list_context array) = FieldNone"
  "\<not> cx_invalid (launch_context w)" "cx_depth (launch_context w) = 0"
  "\<not> cx_root_seen (launch_context w)" "cx_field (launch_context w) = FieldNone"
  by (simp_all add: list_context_def launch_context_def context_zero_def)

lemma parse_applications_run:
  "xml_parse_applications expat (Some bytes) (Some array) (int (length array)) True True =
     (let p = parse_response expat (Some bytes) (list_context array)
      in (fst p, cx_apps (snd p), if fst p = XmlOk then cx_count (snd p) else 0, Some (cx_response (snd p))))"
  by (simp add: xml_parse_applications_def list_context_def Let_def split: prod.split)

lemma parse_launch_accepts:
  assumes "reads expat bytes (Elem name attrs ns)" "wanted \<noteq> ''sessionUrl0''"
  shows "map_prod id (Some \<circ> cx_response) (parse_response expat (Some bytes) (launch_context wanted)) =
           (XmlOk, Some r) \<longleftrightarrow>
     name = ''root'' \<and> root_status attrs = Some 200 \<and> says_one wanted ns \<and>
     (\<exists>url. session_address ns = Some url \<and>
        r = \<lparr>rs_status_code = 200, rs_status_message = root_message attrs,
             rs_session_url = case_option [] id url, rs_session_url_present = (url \<noteq> None),
             rs_total_applications = 0\<rparr>)"
proof -
  let ?p = "parse_response expat (Some bytes) (launch_context wanted)"
  have run: "map_prod id (Some \<circ> cx_response) ?p = (fst ?p, Some (cx_response (snd ?p)))"
    by (cases ?p) simp
  show ?thesis
  proof (cases rule: root_cases [of name attrs])
    case bad
    then show ?thesis using parse_bad_root [OF assms(1)] run by auto
  next
    case (error s)
    then show ?thesis using parse_error_root [of expat bytes attrs ns s] assms run by auto
  next
    case ok
    then have children: "case fold_opt (launch_child wanted) ns (False, None) of
           None \<Rightarrow> fst ?p = XmlInvalid
         | Some (have, url) \<Rightarrow>
             fst ?p = (if have then XmlOk else XmlInvalid) \<and>
             cx_response (snd ?p) = \<lparr>rs_status_code = 200, rs_status_message = root_message attrs,
               rs_session_url = case_option [] id url, rs_session_url_present = (url \<noteq> None),
               rs_total_applications = 0\<rparr>"
      using parse_launch_children assms by blast
    have accepted: "says_one wanted ns \<and> session_address ns = Some url \<longleftrightarrow>
        fold_opt (launch_child wanted) ns (False, None) = Some (True, url)" for url
      using launch_children_iff [OF assms(2), of ns False None True url] by simp
    then have "says_one wanted ns \<and> (\<exists>url. session_address ns = Some url \<and> Q url) \<longleftrightarrow>
        (\<exists>url. fold_opt (launch_child wanted) ns (False, None) = Some (True, url) \<and> Q url)" for Q
      by blast
    then show ?thesis
      using children run ok by (auto split: option.splits if_splits)
  qed
qed


definition sample_list :: node where
  "sample_list = Elem ''root'' [(''status_code'', ''200'')]
     [Elem ''App'' [] [Elem ''ID'' [] [Text ''4'', Text ''2''], Elem ''AppTitle'' [] [Text ''Game'']],
      Elem ''App'' [] [Elem ''AppTitle'' [] [Text ''Desktop''], Elem ''ID'' [] [Text '' 7 '']]]"

definition sample_launch :: node where
  "sample_launch = Elem ''root'' [(''status_code'', ''200'')]
     [Elem ''gamesession'' [] [Text ''1''], Elem ''sessionUrl0'' [] [Text ''rtsp://'', Text ''host'']]"

definition sample_failure :: node where
  "sample_failure = Elem ''root'' [(''status_code'', ''401''), (''status_message'', ''Denied'')] []"

lemma reads_sample: "reads (\<lambda>_. Some (events doc, True)) ''x'' doc"
  by (simp add: reads_def int_max_def)

text \<open>
  Property C17. The application list parser, on any document that expat reads and for an array of any
  size: it succeeds exactly when the root is \<open>root\<close> with status 200, every \<open>App\<close> child of the root
  has one scalar \<open>ID\<close> and one \<open>AppTitle\<close>, no other \<open>App\<close> element occurs anywhere, and the number of
  applications is at most \<open>INT_MAX\<close>. Then the array holds the first applications in document order,
  the rest of it is untouched, and the response gives the number of all of them.
\<close>

theorem xml_applications_accepts:
  assumes "reads expat bytes (Elem name attrs ns)"
  shows "xml_parse_applications expat (Some bytes) (Some array) (int (length array)) True True =
           (XmlOk, array', count, Some r) \<longleftrightarrow>
     name = ''root'' \<and> root_status attrs = Some 200 \<and> list_all (plain [''App'']) ns \<and>
     (\<exists>apps. list_all2 describes (named ''App'' ns) apps \<and> int (length apps) \<le> int_max \<and>
        array' = take (length array) apps @ drop (length apps) array \<and>
        count = int (min (length array) (length apps)) \<and>
        r = \<lparr>rs_status_code = 200, rs_status_message = root_message attrs, rs_session_url = [],
             rs_session_url_present = False, rs_total_applications = int (length apps)\<rparr>)"
proof -
  let ?p = "parse_response expat (Some bytes) (list_context array)"
  show ?thesis
  proof (cases rule: root_cases [of name attrs])
    case bad
    then show ?thesis using parse_bad_root [OF assms] by (auto simp: parse_applications_run Let_def)
  next
    case (error s)
    then show ?thesis
      using parse_error_root [of expat bytes attrs ns s] assms by (auto simp: parse_applications_run)
  next
    case ok
    then have children: "case fold_opt list_child ns [] of
           None \<Rightarrow> fst ?p = XmlInvalid
         | Some apps \<Rightarrow>
             fst ?p = XmlOk \<and> cx_count (snd ?p) = int (min (length array) (length apps)) \<and>
             cx_apps (snd ?p) = take (length array) apps @ drop (length apps) array \<and>
             cx_response (snd ?p) = \<lparr>rs_status_code = 200, rs_status_message = root_message attrs,
               rs_session_url = [], rs_session_url_present = False,
               rs_total_applications = int (length apps)\<rparr>"
      using parse_list_children assms by blast
    have "fold_opt list_child ns [] = Some apps \<longleftrightarrow> list_all2 describes (named ''App'' ns) apps \<and>
        list_all (plain [''App'']) ns \<and> int (length apps) \<le> int_max" for apps
      by (subst list_children_iff) (auto simp: int_max_def)
    then have accepted: "list_all (plain [''App'']) ns \<and>
        (\<exists>apps. list_all2 describes (named ''App'' ns) apps \<and> int (length apps) \<le> int_max \<and> Q apps) \<longleftrightarrow>
        (\<exists>apps. fold_opt list_child ns [] = Some apps \<and> Q apps)" for Q
      by blast
    show ?thesis
    proof (cases "fold_opt list_child ns []")
      case None
      then show ?thesis
        using children ok accepted [of "\<lambda>_. True"] by (auto simp: parse_applications_run Let_def)
    next
      case (Some apps)
      then show ?thesis
        using children ok accepted by (simp add: parse_applications_run Let_def) blast
    qed
  qed
qed

lemma xml_applications_accepts_witness:
  "xml_parse_applications (\<lambda>_. Some (events sample_list, True)) (Some ''x'')
     (Some [\<lparr>app_id = 0, app_name = []\<rparr>]) 1 True True =
     (XmlOk, [\<lparr>app_id = 42, app_name = ''Game''\<rparr>], 1,
      Some \<lparr>rs_status_code = 200, rs_status_message = [], rs_session_url = [],
            rs_session_url_present = False, rs_total_applications = 2\<rparr>)"
proof -
  let ?apps = "[\<lparr>app_id = 42, app_name = ''Game''\<rparr>, \<lparr>app_id = 7, app_name = ''Desktop''\<rparr>]"
  have "reads (\<lambda>_. Some (events sample_list, True)) ''x''
      (Elem ''root'' [(''status_code'', ''200'')]
        [Elem ''App'' [] [Elem ''ID'' [] [Text ''4'', Text ''2''], Elem ''AppTitle'' [] [Text ''Game'']],
         Elem ''App'' [] [Elem ''AppTitle'' [] [Text ''Desktop''], Elem ''ID'' [] [Text '' 7 '']]])"
    using reads_sample [of sample_list] by (simp add: sample_list_def)
  moreover have "root_status [(''status_code'', ''200'')] = Some 200" "root_message [(''status_code'', ''200'')] = []"
    by code_simp+
  moreover have "Option.bind (scalar [Text ''4'', Text ''2'']) parse_number = Some 42"
    "Option.bind (scalar [Text '' 7 '']) parse_number = Some 7"
    "clip_title ''Game'' = ''Game''" "clip_title ''Desktop'' = ''Desktop''"
    by code_simp+
  ultimately show ?thesis
    using xml_applications_accepts [of "\<lambda>_. Some (events sample_list, True)" "''x''" "''root''"
        "[(''status_code'', ''200'')]" _ "[\<lparr>app_id = 0, app_name = []\<rparr>]" "[\<lparr>app_id = 42, app_name = ''Game''\<rparr>]" 1
        "\<lparr>rs_status_code = 200, rs_status_message = [], rs_session_url = [],
          rs_session_url_present = False, rs_total_applications = 2\<rparr>"]
    by (auto intro!: exI [of _ ?apps] simp: plain_def describes_def int_max_def)
qed

text \<open>
  Property C18. The launch parser, on any document that expat reads: it succeeds exactly when the root
  is \<open>root\<close> with status 200, exactly one child of the expected name says 1, and the children
  \<open>sessionUrl0\<close> give at most one address, an RTSP address without blanks. The response then holds that
  address, however the text came in pieces.
\<close>

theorem xml_launch_accepts:
  assumes "reads expat bytes (Elem name attrs ns)"
  shows "xml_parse_launch expat (Some bytes) resume True = (XmlOk, Some r) \<longleftrightarrow>
     name = ''root'' \<and> root_status attrs = Some 200 \<and>
     says_one (if resume then ''resume'' else ''gamesession'') ns \<and>
     (\<exists>url. session_address ns = Some url \<and>
        r = \<lparr>rs_status_code = 200, rs_status_message = root_message attrs,
             rs_session_url = case_option [] id url, rs_session_url_present = (url \<noteq> None),
             rs_total_applications = 0\<rparr>)"
  using parse_launch_accepts [OF assms, of "if resume then ''resume'' else ''gamesession''" r]
  by (simp add: xml_parse_launch_def launch_context_def)

lemma xml_launch_accepts_witness:
  "xml_parse_launch (\<lambda>_. Some (events sample_launch, True)) (Some ''x'') False True =
     (XmlOk, Some \<lparr>rs_status_code = 200, rs_status_message = [], rs_session_url = ''rtsp://host'',
                    rs_session_url_present = True, rs_total_applications = 0\<rparr>)"
proof -
  let ?attrs = "[(''status_code'', ''200'')]"
  let ?ns = "[Elem ''gamesession'' [] [Text ''1''], Elem ''sessionUrl0'' [] [Text ''rtsp://'', Text ''host'']]"
  have "reads (\<lambda>_. Some (events sample_launch, True)) ''x'' (Elem ''root'' ?attrs ?ns)"
    using reads_sample [of sample_launch] by (simp add: sample_launch_def)
  moreover have "root_status ?attrs = Some 200 \<and> root_message ?attrs = [] \<and> says_one ''gamesession'' ?ns \<and>
      session_address ?ns = Some (Some ''rtsp://host'')"
    by code_simp
  ultimately show ?thesis
    by (subst xml_launch_accepts) auto
qed

text \<open>
  A server error is reported exactly when the root carries a status other than 200,
  whatever its children hold, and then the status and its message come back and the caller's array
  keeps its contents.
\<close>

theorem xml_server_error:
  assumes "reads expat bytes (Elem name attrs ns)"
  shows "xml_parse_applications expat (Some bytes) (Some array) (int (length array)) True True =
           (XmlServerError, array', count, Some r) \<longleftrightarrow>
     name = ''root'' \<and> array' = array \<and> count = 0 \<and>
     (\<exists>s. root_status attrs = Some s \<and> s \<noteq> 200 \<and>
        r = \<lparr>rs_status_code = s, rs_status_message = root_message attrs, rs_session_url = [],
             rs_session_url_present = False, rs_total_applications = 0\<rparr>)"
proof (cases rule: root_cases [of name attrs])
  case bad
  then show ?thesis using parse_bad_root [OF assms] by (auto simp: parse_applications_run Let_def)
next
  case (error s)
  then have "parse_response expat (Some bytes) (list_context array) =
      (XmlServerError, (list_context array)\<lparr>cx_root_seen := True, cx_response := response_zero
         \<lparr>rs_status_code := s, rs_status_message := root_message attrs\<rparr>\<rparr>)"
    using parse_error_root [of expat bytes attrs ns s] assms by simp
  then show ?thesis
    using error
    by (auto simp: parse_applications_run Let_def list_context_def context_zero_def response_zero_def)
next
  case ok
  then show ?thesis
    using parse_list_children [of expat bytes attrs ns array] assms
    by (auto simp: parse_applications_run Let_def split: option.splits)
qed

lemma xml_server_error_witness:
  "xml_parse_applications (\<lambda>_. Some (events sample_failure, True)) (Some ''x'') (Some []) 0 True True =
     (XmlServerError, [], 0,
      Some \<lparr>rs_status_code = 401, rs_status_message = ''Denied'', rs_session_url = [],
            rs_session_url_present = False, rs_total_applications = 0\<rparr>)"
proof -
  let ?attrs = "[(''status_code'', ''401''), (''status_message'', ''Denied'')]"
  have "reads (\<lambda>_. Some (events sample_failure, True)) ''x'' (Elem ''root'' ?attrs [])"
    using reads_sample [of sample_failure] by (simp add: sample_failure_def)
  moreover have "root_status ?attrs = Some 401" "root_message ?attrs = ''Denied''"
    by code_simp+
  ultimately show ?thesis
    using xml_server_error [of "\<lambda>_. Some (events sample_failure, True)" "''x''" "''root''" ?attrs "[]" "[]" "[]" 0
        "\<lparr>rs_status_code = 401, rs_status_message = ''Denied'', rs_session_url = [],
          rs_session_url_present = False, rs_total_applications = 0\<rparr>"] by simp
qed

text \<open>The cancel parser is the launch parser with the field \<open>cancel\<close>.\<close>

lemma xml_cancel_accepts:
  assumes "reads expat bytes (Elem name attrs ns)"
  shows "xml_parse_cancel expat (Some bytes) True = (XmlOk, Some r) \<longleftrightarrow>
     name = ''root'' \<and> root_status attrs = Some 200 \<and> says_one ''cancel'' ns \<and>
     (\<exists>url. session_address ns = Some url \<and>
        r = \<lparr>rs_status_code = 200, rs_status_message = root_message attrs,
             rs_session_url = case_option [] id url, rs_session_url_present = (url \<noteq> None),
             rs_total_applications = 0\<rparr>)"
  using parse_launch_accepts [OF assms, of "''cancel''" r]
  by (simp add: xml_parse_cancel_def launch_context_def)

end
