(* ===== verification/Ini.thy ===== *)
theory Ini imports Prelude begin

text \<open>
  The INI parser (\<open>third_party/inih/ini.c\<close>) as it is built here: a line buffer of 200 bytes on the
  stack, continuation lines, inline comments after \<open>;\<close>, no stop at the first error. The handler is a
  parameter; it gets the section, the name and the value, and its result is whether it accepts them.
\<close>

definition newline :: char where
  "newline = CHR 0x0A"

definition isspace :: "char \<Rightarrow> bool" where
  "isspace c \<longleftrightarrow> c = CHR '' '' \<or> (9 \<le> (of_char c :: nat) \<and> (of_char c :: nat) \<le> 13)"

definition c_string :: "string \<Rightarrow> string" where
  "c_string s = takeWhile (\<lambda>c. c \<noteq> CHR 0x00) s"

definition max_line :: nat where "max_line = 200"
definition max_name :: nat where "max_name = 50"

section \<open>Strings\<close>

definition rstrip :: "string \<Rightarrow> string" where
  "rstrip s = rev (dropWhile isspace (rev s))"

definition lskip :: "string \<Rightarrow> string" where
  "lskip s = dropWhile isspace s"

text \<open>
  \<open>ini_find_chars_or_comment\<close>, as the part of the string before the place it returns and the part from
  there on. An empty list of characters stands for \<open>NULL\<close>.
\<close>

fun find_chars_or_comment :: "string \<Rightarrow> bool \<Rightarrow> string \<Rightarrow> string \<times> string" where
  "find_chars_or_comment chars was_space [] = ([], [])"
| "find_chars_or_comment chars was_space (c # s) =
     (if c \<in> set chars \<or> (was_space \<and> c = CHR '';'') then ([], c # s)
      else case find_chars_or_comment chars (isspace c) s of (a, b) \<Rightarrow> (c # a, b))"

definition strncpy0 :: "string \<Rightarrow> nat \<Rightarrow> string" where
  "strncpy0 s n = take (n - 1) s"

section \<open>Reading lines\<close>

fun line_of :: "nat \<Rightarrow> string \<Rightarrow> string" where
  "line_of 0 s = []"
| "line_of (Suc n) [] = []"
| "line_of (Suc n) (c # s) = c # (if c = newline then [] else line_of n s)"

text \<open>\<open>fgets\<close>: the string that is read and what is left of the file.\<close>

definition fgets :: "nat \<Rightarrow> string \<Rightarrow> (string \<times> string) option" where
  "fgets n s = (if s = [] \<or> n < 2 then None
                else Some (c_string (line_of (n - 1) s), drop (length (line_of (n - 1) s)) s))"

lemma line_of_shortens: "s \<noteq> [] \<Longrightarrow> 0 < n \<Longrightarrow> 0 < length (line_of n s)"
  by (cases n; cases s) auto

lemma fgets_shorter: "fgets n s = Some (l, rest) \<Longrightarrow> length rest < length s"
  using line_of_shortens [of s "n - 1"] by (auto simp: fgets_def split: if_splits)

text \<open>The rest of a line that is too long is read in pieces of 15 bytes and dropped.\<close>

function discard_line :: "nat \<Rightarrow> string \<Rightarrow> int \<Rightarrow> string \<times> int" where
  "discard_line lineno s err =
     (case fgets 16 s of
        None \<Rightarrow> (s, err)
      | Some (piece, rest) \<Rightarrow>
          let err = (if err = 0 then int lineno else err)
          in if piece \<noteq> [] \<and> last piece = newline then (rest, err) else discard_line lineno rest err)"
  by pat_completeness auto
termination
  by (relation "measure (\<lambda>(l, s, e). length s)") (auto dest: fgets_shorter)

declare discard_line.simps [simp del]

lemma discard_line_shortens: "discard_line lineno s err = (rest, err') \<Longrightarrow> length rest \<le> length s"
proof (induction lineno s err arbitrary: rest err' rule: discard_line.induct)
  case (1 lineno s err)
  show ?case
  proof (cases "fgets 16 s")
    case None
    then show ?thesis using "1.prems" by (simp add: discard_line.simps)
  next
    case (Some p)
    obtain piece more where p: "p = (piece, more)"
      by (cases p)
    then have "length more < length s"
      using Some fgets_shorter by simp
    then show ?thesis
      using 1 Some p by (fastforce simp: discard_line.simps [of lineno s] Let_def split: if_splits)
  qed
qed

section \<open>The parser\<close>

type_synonym 'u handler = "string \<Rightarrow> string \<Rightarrow> string \<Rightarrow> 'u \<Rightarrow> bool \<times> 'u"

record 'u ini_state =
  in_section :: string
  in_prev_name :: string
  in_lineno :: nat
  in_error :: int
  in_user :: 'u

definition call_handler :: "'u handler \<Rightarrow> string \<Rightarrow> string \<Rightarrow> 'u ini_state \<Rightarrow> 'u ini_state" where
  "call_handler handler name value st =
     (case handler (in_section st) name value (in_user st) of
        (ok, u) \<Rightarrow> st\<lparr>in_user := u,
                      in_error := (if \<not> ok \<and> in_error st = 0 then int (in_lineno st) else in_error st)\<rparr>)"

definition bom :: string where
  "bom = [CHR 0xEF, CHR 0xBB, CHR 0xBF]"

text \<open>What is done with one line; \<open>start > line\<close> is whether something was skipped at its front.\<close>

definition handle_section :: "string \<Rightarrow> 'u ini_state \<Rightarrow> 'u ini_state" where
  "handle_section start st =
     (case find_chars_or_comment '']'' False (tl start) of
        (a, b) \<Rightarrow>
          if b \<noteq> [] \<and> hd b = CHR '']'' then st\<lparr>in_section := strncpy0 a max_name, in_prev_name := []\<rparr>
          else if in_error st = 0 then st\<lparr>in_error := int (in_lineno st)\<rparr> else st)"

definition handle_pair :: "'u handler \<Rightarrow> string \<Rightarrow> 'u ini_state \<Rightarrow> 'u ini_state" where
  "handle_pair handler start st =
     (case find_chars_or_comment ''=:'' False start of
        (a, b) \<Rightarrow>
          if b \<noteq> [] \<and> (hd b = CHR ''='' \<or> hd b = CHR '':'') then
            let name = rstrip a;
                value = rstrip (lskip (fst (find_chars_or_comment [] False (tl b))))
            in call_handler handler name value (st\<lparr>in_prev_name := strncpy0 name max_name\<rparr>)
          else if in_error st = 0 then st\<lparr>in_error := int (in_lineno st)\<rparr> else st)"

definition handle_line :: "'u handler \<Rightarrow> string \<Rightarrow> 'u ini_state \<Rightarrow> 'u ini_state" where
  "handle_line handler line st =
     (let skipped = (if in_lineno st = 1 \<and> take 3 line = bom then drop 3 line else line);
          start = rstrip (lskip skipped)
      in if start = [] \<or> hd start = CHR '';'' \<or> hd start = CHR ''#'' then st
         else if in_prev_name st \<noteq> [] \<and> length (lskip skipped) < length line then
           call_handler handler (in_prev_name st) (rstrip (fst (find_chars_or_comment [] False start))) st
         else if hd start = CHR ''['' then handle_section start st
         else handle_pair handler start st)"

function parse_stream :: "'u handler \<Rightarrow> string \<Rightarrow> 'u ini_state \<Rightarrow> 'u ini_state" where
  "parse_stream handler s st =
     (case fgets max_line s of
        None \<Rightarrow> st
      | Some (line, rest) \<Rightarrow>
          let st = st\<lparr>in_lineno := in_lineno st + 1\<rparr>;
              too_long = (length line = max_line - 1 \<and> last line \<noteq> newline);
              (rest', err) = (if too_long then discard_line (in_lineno st) rest (in_error st) else (rest, in_error st))
          in parse_stream handler rest'
               (handle_line handler line (st\<lparr>in_error := err\<rparr>)))"
  by pat_completeness auto
termination
proof (relation "measure (\<lambda>(h, s, st). length s)", goal_cases)
  case (2 handler s st x line rest st' too_long y rest' err)
  then have "length rest < length s"
    using fgets_shorter by metis
  moreover have "length rest' \<le> length rest"
    using 2 discard_line_shortens [of "in_lineno st'" rest "in_error st'" rest' err] by (auto split: if_splits)
  ultimately show ?case by simp
qed simp

declare parse_stream.simps [simp del]

definition ini_parse_file :: "'u handler \<Rightarrow> string \<Rightarrow> 'u \<Rightarrow> int \<times> 'u" where
  "ini_parse_file handler s u =
     (let st = parse_stream handler s \<lparr>in_section = [], in_prev_name = [], in_lineno = 0, in_error = 0, in_user = u\<rparr>
      in (in_error st, in_user st))"

text \<open>\<open>ini_parse\<close> on a file: \<open>None\<close> if it cannot be opened.\<close>

definition ini_parse :: "'u handler \<Rightarrow> string option \<Rightarrow> 'u \<Rightarrow> int \<times> 'u" where
  "ini_parse handler file u = (case file of None \<Rightarrow> (-1, u) | Some s \<Rightarrow> ini_parse_file handler s u)"

section \<open>Lines that are written as \<open>key = value\<close>\<close>

text \<open>
  A value that comes back as it was written: one line, no blanks at its ends, and no semicolon at its
  front or after a blank.
\<close>

fun no_comment :: "bool \<Rightarrow> string \<Rightarrow> bool" where
  "no_comment was_space [] \<longleftrightarrow> True"
| "no_comment was_space (c # s) \<longleftrightarrow> \<not> (was_space \<and> c = CHR '';'') \<and> no_comment (isspace c) s"

definition plain_value :: "string \<Rightarrow> bool" where
  "plain_value v \<longleftrightarrow>
     newline \<notin> set v \<and> CHR 0x00 \<notin> set v \<and> no_comment True v \<and>
     (v \<noteq> [] \<longrightarrow> \<not> isspace (hd v) \<and> \<not> isspace (last v))"

definition plain_key :: "string \<Rightarrow> bool" where
  "plain_key k \<longleftrightarrow>
     k \<noteq> [] \<and> list_all (\<lambda>c. \<not> isspace c \<and> c \<notin> set ''=:;#[]'' \<and> c \<noteq> CHR 0x00 \<and> c \<noteq> CHR 0xEF) k"

definition entry :: "string \<Rightarrow> string \<Rightarrow> string" where
  "entry k v = k @ '' = '' @ v @ [newline]"

lemma isspace_facts [simp]:
  "isspace CHR '' ''" "isspace newline" "\<not> isspace CHR ''=''" "newline \<noteq> CHR ''=''" "newline \<noteq> CHR '' ''"
  "newline \<noteq> CHR 0x00" "CHR 0x00 \<noteq> newline"
  by (simp_all add: isspace_def newline_def)

lemma line_of_line:
  "newline \<notin> set l \<Longrightarrow> length l < n \<Longrightarrow> line_of n (l @ newline # rest) = l @ [newline]"
proof (induction l arbitrary: n)
  case Nil
  then show ?case by (cases n) auto
next
  case (Cons c l)
  then show ?case by (cases n) auto
qed

lemma c_string_id: "CHR 0x00 \<notin> set s \<Longrightarrow> c_string s = s"
  by (auto simp: c_string_def takeWhile_eq_all_conv)

lemma find_until:
  "list_all (\<lambda>c. c \<notin> set chars \<and> c \<noteq> CHR '';'') a \<Longrightarrow> b \<noteq> [] \<Longrightarrow> hd b \<in> set chars \<Longrightarrow>
     find_chars_or_comment chars w (a @ b) = (a, b)"
proof (induction a arbitrary: w)
  case Nil
  then show ?case by (cases b) auto
qed auto

lemma find_none: "no_comment w s \<Longrightarrow> find_chars_or_comment [] w s = (s, [])"
  by (induction s arbitrary: w) auto

lemma rstrip_last: "s \<noteq> [] \<Longrightarrow> \<not> isspace (last s) \<Longrightarrow> rstrip s = s"
  by (cases s rule: rev_cases) (auto simp: rstrip_def)

lemma rstrip_space: "isspace c \<Longrightarrow> rstrip (s @ [c]) = rstrip s"
  by (simp add: rstrip_def)

lemma lskip_hd: "s \<noteq> [] \<Longrightarrow> \<not> isspace (hd s) \<Longrightarrow> lskip s = s"
  by (cases s) (auto simp: lskip_def)

lemma plain_key_facts:
  assumes "plain_key k"
  shows "\<not> isspace (hd k)" "\<not> isspace (last k)" "hd k \<noteq> CHR '';''" "hd k \<noteq> CHR ''#''" "hd k \<noteq> CHR ''[''"
    "newline \<notin> set k" "CHR 0x00 \<notin> set k" "k \<noteq> []" "hd k \<noteq> CHR 0xEF"
    "list_all (\<lambda>c. c \<notin> set ''=:'' \<and> c \<noteq> CHR '';'') k"
proof -
  have "isspace newline" by simp
  then show "newline \<notin> set k"
    using assms unfolding plain_key_def list_all_iff by metis
qed (use assms in \<open>cases k; auto simp: plain_key_def list_all_iff; fail\<close>)+

text \<open>The line buffer has room for 198 bytes and the newline.\<close>

lemma handle_entry:
  assumes "plain_key k" "plain_value v"
  shows "handle_line handler (entry k v) st =
    call_handler handler k v (st\<lparr>in_prev_name := strncpy0 k max_name\<rparr>)"
proof -
  note key = plain_key_facts [OF assms(1)]
  have hd: "hd (entry k v) = hd k" "entry k v \<noteq> []" "take 3 (entry k v) \<noteq> bom"
    using key(8,9) by (cases k; simp add: entry_def bom_def)+
  have skip: "lskip (entry k v) = entry k v"
    using hd key(1) by (intro lskip_hd) auto
  define start where "start = rstrip (entry k v)"
  have start: "start = k @ (if v = [] then '' ='' else '' = '' @ v)"
  proof (cases "v = []")
    case True
    then have "start = rstrip ((k @ '' ='') @ CHR '' '' # [newline])"
      by (simp add: start_def entry_def)
    also have "\<dots> = rstrip ((k @ '' ='') @ [CHR '' ''])"
      using rstrip_space [of newline "(k @ '' ='') @ [CHR '' '']"] by simp
    also have "\<dots> = rstrip (k @ '' ='')"
      by (rule rstrip_space) simp
    also have "\<dots> = k @ '' =''"
      by (rule rstrip_last) simp_all
    finally show ?thesis using True by simp
  next
    case False
    then have "start = rstrip (k @ '' = '' @ v)"
      using rstrip_space [of newline "k @ '' = '' @ v"] by (simp add: start_def entry_def)
    also have "\<dots> = k @ '' = '' @ v"
      using False assms(2) by (intro rstrip_last) (auto simp: plain_value_def)
    finally show ?thesis using False by simp
  qed
  have shd: "start \<noteq> []" "hd start = hd k"
    using start key(8) by (cases k; simp)+
  have pair: "handle_pair handler start st = call_handler handler k v (st\<lparr>in_prev_name := strncpy0 k max_name\<rparr>)"
  proof -
    have "find_chars_or_comment ''=:'' False ((k @ '' '') @ CHR ''='' # (if v = [] then [] else CHR '' '' # v)) =
        (k @ '' '', CHR ''='' # (if v = [] then [] else CHR '' '' # v))"
      using key(10) by (intro find_until) simp_all
    then have find: "find_chars_or_comment ''=:'' False start = (k @ '' '', CHR ''='' # (if v = [] then [] else CHR '' '' # v))"
      using start by (simp split: if_splits)
    have name: "rstrip (k @ '' '') = k"
      using rstrip_space [of "CHR '' ''" k] rstrip_last [OF key(8,2)] by simp
    have "rstrip (lskip (fst (find_chars_or_comment [] False (if v = [] then [] else CHR '' '' # v)))) = v"
    proof (cases "v = []")
      case False
      then have "fst (find_chars_or_comment [] False (CHR '' '' # v)) = CHR '' '' # v"
        using assms(2) by (simp add: find_none plain_value_def)
      moreover have "lskip (CHR '' '' # v) = v"
        using False assms(2) lskip_hd [of v] by (simp add: lskip_def plain_value_def)
      moreover have "rstrip v = v"
        using False assms(2) by (intro rstrip_last) (auto simp: plain_value_def)
      ultimately show ?thesis using False by simp
    qed (simp add: lskip_def rstrip_def)
    then show ?thesis
      using find name by (simp add: handle_pair_def Let_def)
  qed
  show ?thesis
    using hd skip key shd pair
    by (simp add: handle_line_def Let_def flip: start_def)
qed

lemma parse_entry:
  assumes "plain_key k" "plain_value v" "length (entry k v) < max_line"
  shows "parse_stream handler (entry k v @ rest) st =
    parse_stream handler rest (call_handler handler k v
      (st\<lparr>in_lineno := in_lineno st + 1, in_prev_name := strncpy0 k max_name\<rparr>))"
proof -
  let ?l = "k @ '' = '' @ v"
  have line: "line_of (max_line - 1) (entry k v @ rest) = entry k v"
    using assms plain_key_facts(6) line_of_line [of ?l "max_line - 1" rest]
    by (simp add: entry_def plain_value_def)
  have "CHR 0x00 \<notin> set (entry k v)"
    using assms plain_key_facts(7) by (simp add: entry_def plain_value_def)
  then have "fgets max_line (entry k v @ rest) = Some (entry k v, rest)"
    using line by (simp add: fgets_def max_line_def c_string_id) (simp add: entry_def)
  moreover have "last (entry k v) = newline"
    by (simp add: entry_def)
  ultimately show ?thesis
    using handle_entry [OF assms(1,2), of handler "st\<lparr>in_lineno := in_lineno st + 1\<rparr>"]
    by (subst parse_stream.simps) (simp add: Let_def)
qed

lemma parse_end: "parse_stream handler [] st = st"
  by (subst parse_stream.simps) (simp add: fgets_def)

text \<open>A handler that accepts everything never makes an error, and the parser keeps errors.\<close>

lemma call_handler_accepts:
  assumes "handler (in_section st) name value (in_user st) = (True, u)"
  shows "call_handler handler name value st = st\<lparr>in_user := u\<rparr>"
  using assms by (simp add: call_handler_def)

lemma call_handler_keeps_error: "in_error st \<noteq> 0 \<Longrightarrow> in_error (call_handler h n v st) = in_error st"
  by (simp add: call_handler_def split: prod.split)

lemma handle_line_keeps_error:
  assumes "in_error st \<noteq> 0"
  shows "in_error (handle_line h line st) = in_error st"
proof -
  have "in_error (handle_section start st) = in_error st" for start
    using assms by (simp add: handle_section_def split: prod.split)
  moreover have "in_error (handle_pair h start st) = in_error st" for start
    using assms by (simp add: handle_pair_def Let_def call_handler_keeps_error split: prod.split)
  ultimately show ?thesis
    using assms by (simp add: handle_line_def Let_def call_handler_keeps_error)
qed

lemma discard_line_error:
  assumes "s \<noteq> []" "0 < lineno"
  shows "snd (discard_line lineno s err) \<noteq> 0"
proof -
  have keep: "snd (discard_line lineno s err) = err" if "err \<noteq> 0" for s err
    using that
  proof (induction lineno s err rule: discard_line.induct)
    case (1 lineno s err)
    then show ?case
      by (subst discard_line.simps) (auto simp: Let_def split: option.split)
  qed
  obtain piece rest where "fgets 16 s = Some (piece, rest)"
    using assms(1) by (cases "fgets 16 s") (auto simp: fgets_def)
  then show ?thesis
    using assms(2) keep by (subst discard_line.simps) (auto simp: Let_def)
qed

lemma parse_keeps_error:
  "in_error st \<noteq> 0 \<Longrightarrow> in_error (parse_stream h s st) \<noteq> 0"
proof (induction h s st rule: parse_stream.induct)
  case (1 h s st)
  show ?case
  proof (cases "fgets max_line s")
    case None
    then show ?thesis using 1 by (subst parse_stream.simps) simp
  next
    case (Some p)
    obtain line rest where p: "p = (line, rest)" by (cases p)
    let ?long = "length line = max_line - 1 \<and> last line \<noteq> newline"
    obtain rest' err where r: "(if ?long then discard_line (in_lineno st + 1) rest (in_error st)
        else (rest, in_error st)) = (rest', err)"
      by (cases "if ?long then discard_line (in_lineno st + 1) rest (in_error st) else (rest, in_error st)")
    have "snd (discard_line l t e) \<noteq> 0" if "e \<noteq> 0" for l t e
      using that
    proof (induction l t e rule: discard_line.induct)
      case (1 l t e)
      then show ?case by (subst discard_line.simps) (auto simp: Let_def split: option.split)
    qed
    then have "err \<noteq> 0"
      using r 1(2) by (metis prod.collapse snd_conv)
    then have "in_error (handle_line h line (st\<lparr>in_lineno := in_lineno st + 1, in_error := err\<rparr>)) \<noteq> 0"
      by (simp add: handle_line_keeps_error)
    moreover have "(rest', err) = (if ?long
        then discard_line (in_lineno (st\<lparr>in_lineno := in_lineno st + 1\<rparr>)) rest (in_error (st\<lparr>in_lineno := in_lineno st + 1\<rparr>))
        else (rest, in_error (st\<lparr>in_lineno := in_lineno st + 1\<rparr>)))"
      using r by (auto split: if_splits)
    ultimately have "in_error (parse_stream h rest' (handle_line h line (st\<lparr>in_lineno := in_lineno st + 1, in_error := err\<rparr>))) \<noteq> 0"
      using 1(1) [OF Some p [symmetric] refl refl refl, of rest' err] by simp
    then show ?thesis
      using r Some p by (cases ?long; subst parse_stream.simps) (auto simp: Let_def)
  qed
qed

lemma parse_long_line:
  assumes "length l = max_line - 1" "newline \<notin> set l" "CHR 0x00 \<notin> set l" "rest \<noteq> []"
  shows "in_error (parse_stream h (l @ rest) st) \<noteq> 0"
proof -
  have line: "line_of n (l @ rest) = l" if "length l = n" "newline \<notin> set l" for n l
    using that by (induction l arbitrary: n) auto
  have "fgets max_line (l @ rest) = Some (l, rest)"
    using assms line [of l "max_line - 1"] by (auto simp: fgets_def c_string_id max_line_def)
  moreover have "l \<noteq> []"
    using assms(1) by (auto simp: max_line_def)
  then have "last l \<noteq> newline"
    using assms(2) by (metis last_in_set)
  moreover obtain rest' err where d: "discard_line (in_lineno st + 1) rest (in_error st) = (rest', err)"
    by (cases "discard_line (in_lineno st + 1) rest (in_error st)")
  moreover have "err \<noteq> 0"
    using discard_line_error [OF assms(4), of "in_lineno st + 1" "in_error st"] d by simp
  ultimately show ?thesis
    using assms(1) by (subst parse_stream.simps)
      (simp add: Let_def parse_keeps_error handle_line_keeps_error)
qed

end
