(* ===== verification/DeviceStore.thy ===== *)
theory DeviceStore imports Ini begin

text \<open>
  The list of known computers and its files (\<open>src/backend/legacy/device.c\<close>): finding a device by what
  is known of it, adding and merging, removing duplicates after a start, and the INI file each device
  has in a directory of its own.

  The list is \<open>known_devices\<close>: the first \<open>count\<close> elements of an array of \<open>size\<close> elements, so the count
  is the length of the list. Pointers into the array are positions in the list. The files are a map
  from paths to contents; whether memory, directories and files are available is a parameter of the
  operations that ask for them. Debug output is left out.
\<close>

section \<open>Data\<close>

record device_info =
  dv_name :: string
  dv_host_id :: string
  dv_storage_name :: string
  dv_port :: u16
  dv_paired :: bool
  dv_internal :: string
  dv_external :: string
  dv_mac :: string
  dv_prefer_external :: bool

definition device_zero :: device_info where
  "device_zero = \<lparr>dv_name = [], dv_host_id = [], dv_storage_name = [], dv_port = 0, dv_paired = False,
     dv_internal = [], dv_external = [], dv_mac = [], dv_prefer_external = False\<rparr>"

record device_infos =
  ki_size :: nat
  ki_devices :: "device_info list"

type_synonym files = "string \<Rightarrow> string option"

section \<open>Identity\<close>

definition ensure_host_identity :: "device_info \<Rightarrow> device_info" where
  "ensure_host_identity info =
     (if dv_storage_name info = []
      then info\<lparr>dv_storage_name := bounded_copy 256 (if dv_name info \<noteq> [] then dv_name info else dv_host_id info)\<rparr>
      else info)"

definition devices_same_identity :: "device_info \<Rightarrow> device_info \<Rightarrow> bool" where
  "devices_same_identity l r \<longleftrightarrow>
     (if dv_host_id l \<noteq> [] \<and> dv_host_id r \<noteq> [] \<and> dv_host_id l = dv_host_id r then True
      else if dv_mac l \<noteq> [] \<and> dv_mac r \<noteq> [] \<and> dv_mac l = dv_mac r then True
      else if dv_internal l \<noteq> [] \<and> dv_internal r \<noteq> [] \<and> dv_internal l = dv_internal r then True
      else if dv_external l \<noteq> [] \<and> dv_external r \<noteq> [] \<and> dv_external l = dv_external r then True
      else dv_internal l = [] \<and> dv_external l = [] \<and> dv_internal r = [] \<and> dv_external r = [] \<and>
           dv_name l \<noteq> [] \<and> dv_name r \<noteq> [] \<and> dv_name l = dv_name r)"

text \<open>The first byte of a string, and the order of \<open>strcmp\<close>, on unsigned bytes.\<close>

definition first_char :: "string \<Rightarrow> char option" where
  "first_char s = (case s of [] \<Rightarrow> None | c # _ \<Rightarrow> Some c)"

fun strcmp_less :: "string \<Rightarrow> string \<Rightarrow> bool" where
  "strcmp_less [] [] = False"
| "strcmp_less [] (d # t) = True"
| "strcmp_less (c # s) [] = False"
| "strcmp_less (c # s) (d # t) =
     ((of_char c :: nat) < of_char d \<or> ((of_char c :: nat) = of_char d \<and> strcmp_less s t))"

definition should_keep_device :: "device_info \<Rightarrow> device_info \<Rightarrow> bool" where
  "should_keep_device candidate current =
     (if dv_paired candidate \<noteq> dv_paired current then dv_paired candidate
      else if first_char (dv_host_id candidate) \<noteq> first_char (dv_host_id current)
      then dv_host_id candidate \<noteq> []
      else strcmp_less (dv_storage_name candidate) (dv_storage_name current))"

definition merge_device_info :: "device_info \<Rightarrow> device_info \<Rightarrow> device_info" where
  "merge_device_info destination source =
     destination
       \<lparr>dv_paired := dv_paired destination \<or> dv_paired source,
        dv_name := (if dv_name source \<noteq> [] then bounded_copy 256 (dv_name source) else dv_name destination),
        dv_internal := (if dv_internal source \<noteq> [] then bounded_copy 256 (dv_internal source) else dv_internal destination),
        dv_external := (if dv_external source \<noteq> [] then bounded_copy 256 (dv_external source) else dv_external destination),
        dv_mac := (if dv_mac source \<noteq> [] then bounded_copy 18 (dv_mac source) else dv_mac destination),
        dv_port := (if dv_port source \<noteq> 0 then dv_port source else dv_port destination),
        dv_prefer_external := dv_prefer_external source\<rparr>"

section \<open>Finding\<close>

text \<open>The position of the first device that satisfies a test.\<close>

fun find_index :: "('a \<Rightarrow> bool) \<Rightarrow> 'a list \<Rightarrow> nat option" where
  "find_index P [] = None"
| "find_index P (d # ds) = (if P d then Some 0 else map_option Suc (find_index P ds))"

definition find_device :: "string \<Rightarrow> device_infos \<Rightarrow> nat option" where
  "find_device name k = find_index (\<lambda>d. name = dv_name d) (ki_devices k)"

definition find_device_by_host_id :: "string \<Rightarrow> device_infos \<Rightarrow> nat option" where
  "find_device_by_host_id host_id k =
     (if host_id = [] then None else find_index (\<lambda>d. dv_host_id d = host_id) (ki_devices k))"

definition find_device_by_address :: "string \<Rightarrow> device_infos \<Rightarrow> nat option" where
  "find_device_by_address address k =
     (if address = [] then None
      else find_index (\<lambda>d. (dv_internal d \<noteq> [] \<and> dv_internal d = address) \<or>
                          (dv_external d \<noteq> [] \<and> dv_external d = address)) (ki_devices k))"

fun first_some :: "'a option list \<Rightarrow> 'a option" where
  "first_some [] = None"
| "first_some (x # xs) = (case x of None \<Rightarrow> first_some xs | Some i \<Rightarrow> Some i)"

definition find_device_by_identity :: "device_info \<Rightarrow> device_infos \<Rightarrow> nat option" where
  "find_device_by_identity info k = first_some
     [if dv_host_id info \<noteq> [] then find_device_by_host_id (dv_host_id info) k else None,
      if dv_mac info \<noteq> []
        then find_index (\<lambda>d. dv_mac d \<noteq> [] \<and> dv_mac d = dv_mac info) (ki_devices k) else None,
      if dv_internal info \<noteq> [] then find_device_by_address (dv_internal info) k else None,
      if dv_external info \<noteq> [] then find_device_by_address (dv_external info) k else None,
      if dv_name info \<noteq> [] \<and> dv_mac info = [] \<and> dv_internal info = [] \<and> dv_external info = []
        then find_device (dv_name info) k else None]"

section \<open>Adding\<close>

definition copy_device :: "device_info \<Rightarrow> device_info" where
  "copy_device info =
     \<lparr>dv_name = bounded_copy 256 (dv_name info), dv_host_id = bounded_copy 33 (dv_host_id info),
      dv_storage_name = bounded_copy 256 (dv_storage_name info), dv_port = dv_port info,
      dv_paired = dv_paired info, dv_internal = bounded_copy 256 (dv_internal info),
      dv_external = bounded_copy 256 (dv_external info), dv_mac = bounded_copy 18 (dv_mac info),
      dv_prefer_external = dv_prefer_external info\<rparr>"

definition update_existing :: "device_info \<Rightarrow> device_info \<Rightarrow> device_info" where
  "update_existing existing info =
     (let d = merge_device_info existing info;
          d = (if dv_host_id d = [] \<and> dv_host_id info \<noteq> [] then d\<lparr>dv_host_id := bounded_copy 33 (dv_host_id info)\<rparr> else d)
      in if dv_storage_name d = [] \<and> dv_storage_name info \<noteq> []
         then d\<lparr>dv_storage_name := bounded_copy 256 (dv_storage_name info)\<rparr> else d)"

text \<open>
  \<open>append_device\<close>; \<open>memory\<close> says whether \<open>malloc\<close> or \<open>realloc\<close> succeeds. The result is the position
  of the device.
\<close>

definition append_device :: "bool \<Rightarrow> device_info \<Rightarrow> device_infos \<Rightarrow> nat option \<times> device_infos" where
  "append_device memory info k =
     (case find_device_by_identity info k of
        Some i \<Rightarrow> (Some i, k\<lparr>ki_devices := (ki_devices k)[i := update_existing (ki_devices k ! i) info]\<rparr>)
      | None \<Rightarrow>
          if (ki_size k = 0 \<or> ki_size k = length (ki_devices k)) \<and> \<not> memory then (None, k)
          else let size = (if ki_size k = 0 then 4
                           else if ki_size k = length (ki_devices k) then ki_size k * 2 else ki_size k)
               in (Some (length (ki_devices k)),
                   k\<lparr>ki_size := size,
                     ki_devices := ki_devices k @ [copy_device (ensure_host_identity info)]\<rparr>))"

section \<open>Files\<close>

definition device_file_path :: "string \<Rightarrow> string \<Rightarrow> string" where
  "device_file_path key_dir dir = bounded_copy 512 (key_dir @ dir @ ''/device.ini'')"

fun decimal_text :: "nat \<Rightarrow> string" where
  "decimal_text n = (if n < 10 then [char_of (48 + n)] else decimal_text (n div 10) @ [char_of (48 + n mod 10)])"

declare decimal_text.simps [simp del]

definition bool_text :: "bool \<Rightarrow> string" where
  "bool_text b = (if b then ''true'' else ''false'')"

text \<open>What \<open>save_device_info\<close> writes; \<open>entry\<close> is \<open>fprintf\<close> with the format of the write macros.\<close>

definition device_text :: "device_info \<Rightarrow> string" where
  "device_text info =
     entry ''name'' (dv_name info) @ entry ''paired'' (bool_text (dv_paired info)) @
     entry ''host_id'' (dv_host_id info) @ entry ''internal'' (dv_internal info) @
     entry ''external'' (dv_external info) @ entry ''mac'' (dv_mac info) @
     entry ''port'' (decimal_text (unat (dv_port info))) @
     entry ''prefer_external'' (bool_text (dv_prefer_external info))"

text \<open>How the file operations go: what is in the file when a write or the close fails.\<close>

datatype file_outcome = OpenFails | WriteFails string | Written

definition save_device_info :: "string \<Rightarrow> file_outcome \<Rightarrow> device_info \<Rightarrow> files \<Rightarrow> int \<times> files" where
  "save_device_info key_dir outcome info files =
     (let storage_name = (if dv_storage_name info \<noteq> [] then dv_storage_name info else dv_name info);
          path = device_file_path key_dir storage_name
      in case outcome of
           OpenFails \<Rightarrow> (-1, files)
         | WriteFails partial \<Rightarrow> (-1, files(path \<mapsto> partial))
         | Written \<Rightarrow> (0, files(path \<mapsto> device_text info)))"

text \<open>\<open>atoi\<close> on a string without a sign: the value of the digits at its front, after blanks.\<close>

fun atoi_digits :: "string \<Rightarrow> int \<Rightarrow> int" where
  "atoi_digits [] n = n"
| "atoi_digits (c # s) n =
     (if 48 \<le> (of_char c :: int) \<and> (of_char c :: int) \<le> 57 then atoi_digits s (n * 10 + (of_char c - 48)) else n)"

definition atoi :: "string \<Rightarrow> int" where
  "atoi s = (case dropWhile isspace s of
       [] \<Rightarrow> 0
     | c # t \<Rightarrow> if c = CHR ''-'' then - atoi_digits t 0 else if c = CHR ''+'' then atoi_digits t 0
                else atoi_digits (c # t) 0)"

definition device_ini_handle :: "device_info handler" where
  "device_ini_handle section name value info =
     (True,
      if name = ''name'' then info\<lparr>dv_name := bounded_copy 256 value\<rparr>
      else if name = ''paired'' then info\<lparr>dv_paired := (value = ''true'')\<rparr>
      else if name = ''host_id'' then info\<lparr>dv_host_id := bounded_copy 33 value\<rparr>
      else if name = ''internal'' then info\<lparr>dv_internal := take 255 value\<rparr>
      else if name = ''external'' then info\<lparr>dv_external := take 255 value\<rparr>
      else if name = ''mac'' then info\<lparr>dv_mac := bounded_copy 18 value\<rparr>
      else if name = ''port'' then info\<lparr>dv_port := of_int (atoi value)\<rparr>
      else if name = ''prefer_external'' then info\<lparr>dv_prefer_external := (value = ''true'')\<rparr>
      else info)"

definition load_device_info :: "string \<Rightarrow> files \<Rightarrow> device_info \<Rightarrow> bool \<times> device_info" where
  "load_device_info key_dir files info =
     (case ini_parse device_ini_handle (files (device_file_path key_dir (dv_name info))) (info\<lparr>dv_port := 47989\<rparr>) of
        (ret, info) \<Rightarrow> (ret = 0, info))"

section \<open>Duplicates\<close>

text \<open>One round of the first loop of \<open>normalize_known_devices\<close>; the list is the devices kept so far.\<close>

definition normalize_step :: "device_info \<Rightarrow> device_info list \<Rightarrow> device_info list" where
  "normalize_step source kept =
     (case find_index (\<lambda>d. devices_same_identity d source) kept of
        None \<Rightarrow> kept @ [source]
      | Some m \<Rightarrow>
          if should_keep_device source (kept ! m) then kept[m := merge_device_info source (kept ! m)]
          else kept[m := merge_device_info (kept ! m) source])"

text \<open>\<open>outcomes\<close> tells how the save of each device goes.\<close>

fun save_all :: "string \<Rightarrow> (device_info \<Rightarrow> file_outcome) \<Rightarrow> device_info list \<Rightarrow> files \<Rightarrow> files" where
  "save_all key_dir outcomes [] files = files"
| "save_all key_dir outcomes (d # ds) files =
     save_all key_dir outcomes ds (snd (save_device_info key_dir (outcomes d) d files))"

definition normalize_known_devices ::
  "string \<Rightarrow> (device_info \<Rightarrow> file_outcome) \<Rightarrow> device_infos \<Rightarrow> files \<Rightarrow> device_infos \<times> files" where
  "normalize_known_devices key_dir outcomes k files =
     (let kept = map ensure_host_identity (fold normalize_step (ki_devices k) [])
      in (k\<lparr>ki_devices := kept\<rparr>, save_all key_dir outcomes kept files))"

text \<open>A directory entry: its name and whether it is a directory.\<close>

fun load_entries :: "string \<Rightarrow> (nat \<Rightarrow> bool) \<Rightarrow> files \<Rightarrow> (string \<times> bool) list \<Rightarrow> device_infos \<Rightarrow> device_infos" where
  "load_entries key_dir memory files [] k = k"
| "load_entries key_dir memory files ((name, is_dir) # es) k =
     (if name = ''.'' \<or> name = ''..'' \<or> \<not> is_dir then load_entries key_dir memory files es k
      else case load_device_info key_dir files
                  (device_zero\<lparr>dv_name := bounded_copy 256 name, dv_storage_name := bounded_copy 256 name\<rparr>) of
             (loaded, info) \<Rightarrow>
               load_entries key_dir memory files es
                 (if loaded then snd (append_device (memory (length es)) (ensure_host_identity info) k) else k))"

definition load_all_known_devices ::
  "string \<Rightarrow> (nat \<Rightarrow> bool) \<Rightarrow> (device_info \<Rightarrow> file_outcome) \<Rightarrow> (string \<times> bool) list option \<Rightarrow>
     device_infos \<Rightarrow> files \<Rightarrow> device_infos \<times> files" where
  "load_all_known_devices key_dir memory outcomes listing k files =
     (case listing of
        None \<Rightarrow> (k, files)
      | Some entries \<Rightarrow> normalize_known_devices key_dir outcomes (load_entries key_dir memory files entries k) files)"

section \<open>Removing\<close>

text \<open>\<open>listing\<close> is what the device's directory holds, if it can be opened.\<close>

definition remove_device_index ::
  "string \<Rightarrow> string list option \<Rightarrow> nat \<Rightarrow> device_infos \<Rightarrow> files \<Rightarrow> bool \<times> device_infos \<times> files" where
  "remove_device_index key_dir listing idx k files =
     (if idx \<ge> length (ki_devices k) then (False, k, files)
      else let d = ki_devices k ! idx;
               storage_name = bounded_copy 256 (if dv_storage_name d \<noteq> [] then dv_storage_name d else dv_name d);
               dir_path = bounded_copy 512 (key_dir @ storage_name);
               names = filter (\<lambda>n. n \<noteq> ''.'' \<and> n \<noteq> ''..'') (case_option [] id listing);
               paths = device_file_path key_dir storage_name #
                       map (\<lambda>n. bounded_copy 512 (dir_path @ ''/'' @ n)) names
           in (True, k\<lparr>ki_devices := take idx (ki_devices k) @ drop (idx + 1) (ki_devices k)\<rparr>,
               fold (\<lambda>p f. f(p := None)) paths files))"

definition remove_device_by_info ::
  "string \<Rightarrow> string list option \<Rightarrow> nat option \<Rightarrow> device_infos \<Rightarrow> files \<Rightarrow> bool \<times> device_infos \<times> files" where
  "remove_device_by_info key_dir listing device k files =
     (case device of
        None \<Rightarrow> (False, k, files)
      | Some i \<Rightarrow> if i < length (ki_devices k) then remove_device_index key_dir listing i k files
                  else (False, k, files))"

section \<open>Saving and loading\<close>

definition digit :: "char \<Rightarrow> bool" where
  "digit c \<longleftrightarrow> 48 \<le> (of_char c :: nat) \<and> (of_char c :: nat) \<le> 57"

lemma digit_char:
  assumes "digit c"
  shows "\<not> isspace c" "c \<noteq> CHR '';''" "c \<noteq> newline" "c \<noteq> CHR 0x00" "c \<noteq> CHR ''-''" "c \<noteq> CHR ''+''"
  using assms by (auto simp: digit_def isspace_def newline_def)

lemma digit_of: "n < 10 \<Longrightarrow> digit (char_of (48 + n))" "n < 10 \<Longrightarrow> (of_char (char_of (48 + n) :: char) :: int) = 48 + int n"
proof -
  assume "n < 10"
  then have "(of_char (char_of (48 + n) :: char) :: nat) = 48 + n"
    by simp
  moreover have "(of_char c :: int) = int (of_char c :: nat)" for c :: char
    by (cases c) simp
  ultimately show "digit (char_of (48 + n))" "(of_char (char_of (48 + n) :: char) :: int) = 48 + int n"
    using \<open>n < 10\<close> by (simp_all add: digit_def)
qed

lemma decimal_text_digits: "list_all digit (decimal_text n)"
proof (induction n rule: decimal_text.induct)
  case (1 n)
  show ?case
  proof (cases "n < 10")
    case True
    then show ?thesis by (subst decimal_text.simps) (simp add: digit_of)
  next
    case False
    then show ?thesis
      using 1 by (subst decimal_text.simps) (simp add: digit_of)
  qed
qed

lemma decimal_text_nonempty [simp]: "decimal_text n \<noteq> []"
  by (subst decimal_text.simps) simp

lemma atoi_digits_append:
  assumes "list_all digit s"
  shows "atoi_digits (s @ t) m = atoi_digits t (atoi_digits s m)"
proof -
  have "(of_char c :: int) = int (of_char c :: nat)" for c :: char
    by (cases c) simp
  then show ?thesis
    using assms by (induction s arbitrary: m) (auto simp: digit_def)
qed

lemma atoi_digits_decimal: "atoi_digits (decimal_text n) 0 = int n"
proof (induction n rule: decimal_text.induct)
  case (1 n)
  show ?case
  proof (cases "n < 10")
    case True
    then show ?thesis using digit_of(2) [of n] by (subst decimal_text.simps) simp
  next
    case False
    have mod: "n mod 10 < 10"
      by simp
    have "atoi_digits (decimal_text (n div 10) @ [char_of (48 + n mod 10)]) 0 =
        atoi_digits [char_of (48 + n mod 10)] (int (n div 10))"
      using 1 False atoi_digits_append [OF decimal_text_digits] by simp
    also have "\<dots> = int (n div 10) * 10 + int (n mod 10)"
      using digit_of(2) [OF mod] mod by simp
    also have "\<dots> = int n"
      using div_mult_mod_eq [of n 10] by linarith
    finally show ?thesis using False by (subst decimal_text.simps) simp
  qed
qed

lemma no_comment_digits: "list_all digit s \<Longrightarrow> no_comment w s"
  using digit_char(2) by (induction s arbitrary: w) auto

lemma plain_decimal: "plain_value (decimal_text n)"
proof -
  have "digit (hd (decimal_text n))" "digit (last (decimal_text n))" "\<forall>c \<in> set (decimal_text n). digit c"
    using decimal_text_digits [of n] by (auto simp: list_all_iff)
  moreover have "\<not> digit newline" "\<not> digit CHR 0x00"
    using digit_char(3,4) by blast+
  ultimately show ?thesis
    using no_comment_digits [OF decimal_text_digits] digit_char(1) by (auto simp: plain_value_def)
qed

lemma atoi_decimal: "atoi (decimal_text n) = int n"
proof (cases "decimal_text n")
  case (Cons c t)
  then have "digit c"
    using decimal_text_digits [of n] by simp
  then show ?thesis
    using Cons atoi_digits_decimal [of n] digit_char [of c] by (simp add: atoi_def)
qed simp

lemma length_decimal_text: "n < 10 ^ Suc k \<Longrightarrow> length (decimal_text n) \<le> Suc k"
proof (induction k arbitrary: n)
  case 0
  then show ?case by (subst decimal_text.simps) simp
next
  case (Suc k)
  then have "n div 10 < 10 ^ Suc k"
    by (simp add: less_mult_imp_div_less)
  then show ?case
    using Suc.IH by (subst decimal_text.simps) auto
qed

text \<open>The devices whose file says what they are: values that survive the format, and lines that fit.\<close>

definition storable :: "device_info \<Rightarrow> bool" where
  "storable d \<longleftrightarrow>
     plain_value (dv_name d) \<and> length (dv_name d) \<le> 191 \<and>
     plain_value (dv_host_id d) \<and> length (dv_host_id d) \<le> 32 \<and>
     plain_value (dv_internal d) \<and> length (dv_internal d) \<le> 187 \<and>
     plain_value (dv_external d) \<and> length (dv_external d) \<le> 187 \<and>
     plain_value (dv_mac d) \<and> length (dv_mac d) \<le> 17"

lemma plain_bool: "plain_value (bool_text b)" "length (bool_text b) \<le> 5"
  by (auto simp: bool_text_def plain_value_def newline_def isspace_def)

lemma plain_keys:
  "plain_key ''name''" "plain_key ''paired''" "plain_key ''host_id''" "plain_key ''internal''"
  "plain_key ''external''" "plain_key ''mac''" "plain_key ''port''" "plain_key ''prefer_external''"
  by (simp_all add: plain_key_def isspace_def)

lemma length_entry: "length (entry k v) = length k + length v + 4"
  by (simp add: entry_def)

text \<open>Reading one line with the handler of the devices.\<close>

lemma device_entry:
  assumes "plain_key k" "plain_value v" "length k + length v < 196"
  shows "parse_stream device_ini_handle (entry k v @ rest) st =
    parse_stream device_ini_handle rest (st\<lparr>in_lineno := in_lineno st + 1, in_prev_name := strncpy0 k max_name,
      in_user := snd (device_ini_handle (in_section st) k v (in_user st))\<rparr>)"
proof -
  have "length (entry k v) < max_line"
    using assms(3) by (simp add: length_entry max_line_def)
  moreover have "call_handler device_ini_handle k v t =
      t\<lparr>in_user := snd (device_ini_handle (in_section t) k v (in_user t))\<rparr>" for t
    by (rule call_handler_accepts) (simp add: device_ini_handle_def)
  ultimately show ?thesis
    using parse_entry [OF assms(1,2), of device_ini_handle rest st] by simp
qed

lemma bool_text_true [simp]: "bool_text b = ''true'' \<longleftrightarrow> b"
  by (simp add: bool_text_def)

lemma parse_device_text:
  assumes "storable d"
  shows "ini_parse_file device_ini_handle (device_text d) u =
    (0, u\<lparr>dv_name := dv_name d, dv_paired := dv_paired d, dv_host_id := dv_host_id d,
          dv_internal := dv_internal d, dv_external := dv_external d, dv_mac := dv_mac d,
          dv_port := dv_port d, dv_prefer_external := dv_prefer_external d\<rparr>)"
proof -
  note bounds = assms [unfolded storable_def]
  have port: "length (decimal_text (unat (dv_port d))) \<le> 5"
    using unsigned_less [of "dv_port d", where 'a = nat] length_decimal_text [of _ 4] by simp
  show ?thesis
    using bounds port
    by (simp add: ini_parse_file_def device_text_def device_entry [OF plain_keys(1)]
        device_entry [OF plain_keys(2) plain_bool(1)] device_entry [OF plain_keys(3)]
        device_entry [OF plain_keys(4)] device_entry [OF plain_keys(5)] device_entry [OF plain_keys(6)]
        device_entry [OF plain_keys(7) plain_decimal]
        device_entry [OF plain_keys(8) plain_bool(1), where rest = "[]", simplified]
        parse_end device_ini_handle_def bounded_copy_def atoi_decimal le_less_trans [OF plain_bool(2)])
qed

text \<open>
  Property C23. A device whose texts survive the format comes back from its file exactly as it was saved,
  the port and the flags included, when it is loaded under the directory name it was saved under.
\<close>

theorem device_save_load:
  assumes "storable d" "dv_storage_name d \<noteq> []"
  shows "fst (save_device_info key_dir Written d files) = 0 \<and>
    load_device_info key_dir (snd (save_device_info key_dir Written d files))
      (device_zero\<lparr>dv_name := dv_storage_name d, dv_storage_name := dv_storage_name d\<rparr>) = (True, d)"
proof -
  have "device_zero\<lparr>dv_storage_name := dv_storage_name d, dv_name := dv_name d, dv_paired := dv_paired d,
      dv_host_id := dv_host_id d, dv_internal := dv_internal d, dv_external := dv_external d, dv_mac := dv_mac d,
      dv_port := dv_port d, dv_prefer_external := dv_prefer_external d\<rparr> = d"
    by (simp add: device_zero_def)
  then show ?thesis
    using assms parse_device_text [OF assms(1)]
    by (simp add: save_device_info_def load_device_info_def ini_parse_def Let_def)
qed

definition sample_device :: device_info where
  "sample_device = \<lparr>dv_name = ''My PC'', dv_host_id = ''AB12'', dv_storage_name = ''My PC'', dv_port = 47989,
     dv_paired = True, dv_internal = ''192.168.1.20'', dv_external = [], dv_mac = ''00:11:22:33:44:55'',
     dv_prefer_external = False\<rparr>"

lemma device_save_load_witness:
  "load_device_info ''ux0:/'' (snd (save_device_info ''ux0:/'' Written sample_device Map.empty))
     (device_zero\<lparr>dv_name := ''My PC'', dv_storage_name := ''My PC''\<rparr>) = (True, sample_device)"
proof -
  have "storable sample_device" "dv_storage_name sample_device = ''My PC''"
    by code_simp+
  then show ?thesis
    using device_save_load [of sample_device "''ux0:/''" Map.empty] by simp
qed

text \<open>
  But a name of 192 to 255 bytes, which fits its array, does not fit the line buffer of
  the INI parser: the save succeeds, and the load of the very same file fails, so that the device is
  not in the list after the next start.
\<close>

theorem device_long_name_lost:
  assumes "192 \<le> length (dv_name d)" "newline \<notin> set (dv_name d)" "CHR 0x00 \<notin> set (dv_name d)"
    and "dv_storage_name d \<noteq> []" "dv_name info = dv_storage_name d"
  shows "fst (save_device_info key_dir Written d files) = 0 \<and>
    \<not> fst (load_device_info key_dir (snd (save_device_info key_dir Written d files)) info)"
proof -
  let ?l = "''name = '' @ take 192 (dv_name d)"
  obtain rest where rest: "device_text d = ?l @ rest" "rest \<noteq> []"
  proof
    show "device_text d = ?l @ drop 199 (device_text d)"
      using assms(1) by (simp add: device_text_def entry_def)
    show "drop 199 (device_text d) \<noteq> []"
      using assms(1) by (simp add: device_text_def entry_def)
  qed
  have "length ?l = max_line - 1" "newline \<notin> set ?l" "CHR 0x00 \<notin> set ?l"
    using assms(1-3) by (auto simp: max_line_def newline_def dest: in_set_takeD)
  then have "in_error (parse_stream device_ini_handle (device_text d) st) \<noteq> 0" for st
    using parse_long_line rest by metis
  then have "fst (ini_parse_file device_ini_handle (device_text d) u) \<noteq> 0" for u
    by (simp add: ini_parse_file_def Let_def)
  then show ?thesis
    using assms(4,5) by (simp add: save_device_info_def load_device_info_def ini_parse_def Let_def split: prod.split)
      (metis fst_conv)
qed

lemma device_long_name_lost_witness:
  "\<not> fst (load_device_info ''ux0:/'' (snd (save_device_info ''ux0:/'' Written
       (sample_device\<lparr>dv_name := replicate 192 CHR ''a''\<rparr>) Map.empty)) (device_zero\<lparr>dv_name := ''My PC''\<rparr>))"
  using device_long_name_lost [of "sample_device\<lparr>dv_name := replicate 192 CHR ''a''\<rparr>" "device_zero\<lparr>dv_name := ''My PC''\<rparr>"
      "''ux0:/''" Map.empty]
  by (simp add: sample_device_def newline_def)

section \<open>Adding a device\<close>

lemma find_index_None: "find_index P ds = None \<longleftrightarrow> \<not> list_ex P ds"
  by (induction ds) auto

lemma find_index_Some: "find_index P ds = Some i \<Longrightarrow> i < length ds \<and> P (ds ! i)"
  by (induction ds arbitrary: i) (auto split: if_splits)

lemma find_index_append: "find_index P ds = None \<Longrightarrow> find_index P (ds @ [d]) = (if P d then Some (length ds) else None)"
  by (induction ds) (auto split: if_splits)

lemma find_index_update:
  "find_index P ds = None \<Longrightarrow> i < length ds \<Longrightarrow> find_index P (ds[i := d]) = (if P d then Some i else None)"
proof (induction ds arbitrary: i)
  case (Cons e es)
  then show ?case by (cases i) (auto split: if_splits)
qed simp

lemma find_index_update_Some:
  "find_index P ds = Some i \<Longrightarrow> P d \<Longrightarrow> find_index P (ds[i := d]) = Some i"
  by (induction ds arbitrary: i) (auto split: if_splits)

text \<open>Texts that fit their arrays, which all devices of the program have.\<close>

definition fits :: "device_info \<Rightarrow> bool" where
  "fits d \<longleftrightarrow> length (dv_name d) < 256 \<and> length (dv_host_id d) < 33 \<and> length (dv_internal d) < 256 \<and>
     length (dv_external d) < 256 \<and> length (dv_mac d) < 18"

definition identifiable :: "device_info \<Rightarrow> bool" where
  "identifiable d \<longleftrightarrow> dv_host_id d \<noteq> [] \<or> dv_mac d \<noteq> [] \<or> dv_internal d \<noteq> [] \<or> dv_external d \<noteq> [] \<or> dv_name d \<noteq> []"

text \<open>The tests of \<open>find_device_by_identity\<close>, in their order.\<close>

definition identity_tests :: "device_info \<Rightarrow> (device_info \<Rightarrow> bool) list" where
  "identity_tests info =
     [\<lambda>d. dv_host_id info \<noteq> [] \<and> dv_host_id d = dv_host_id info,
      \<lambda>d. dv_mac info \<noteq> [] \<and> dv_mac d = dv_mac info,
      \<lambda>d. dv_internal info \<noteq> [] \<and> (dv_internal d = dv_internal info \<or> dv_external d = dv_internal info),
      \<lambda>d. dv_external info \<noteq> [] \<and> (dv_internal d = dv_external info \<or> dv_external d = dv_external info),
      \<lambda>d. dv_name info \<noteq> [] \<and> dv_mac info = [] \<and> dv_internal info = [] \<and> dv_external info = [] \<and>
          dv_name info = dv_name d]"

lemma find_index_cong: "(\<And>d. P d = Q d) \<Longrightarrow> find_index P ds = find_index Q ds"
  by (induction ds) auto

lemma find_index_False: "find_index (\<lambda>d. False) ds = None"
  by (simp add: find_index_None list_ex_iff)

lemma find_device_by_identity_tests:
  "find_device_by_identity info k = first_some (map (\<lambda>P. find_index P (ki_devices k)) (identity_tests info))"
proof -
  have "(if b then find_index P ds else None) = find_index (\<lambda>d. b \<and> P d) ds" for b P and ds :: "device_info list"
    by (simp add: find_index_False)
  moreover have "dv_internal info \<noteq> [] \<Longrightarrow> find_index (\<lambda>d. (dv_internal d \<noteq> [] \<and> dv_internal d = dv_internal info) \<or>
        (dv_external d \<noteq> [] \<and> dv_external d = dv_internal info)) ds =
      find_index (\<lambda>d. dv_internal d = dv_internal info \<or> dv_external d = dv_internal info) ds"
    "dv_external info \<noteq> [] \<Longrightarrow> find_index (\<lambda>d. (dv_internal d \<noteq> [] \<and> dv_internal d = dv_external info) \<or>
        (dv_external d \<noteq> [] \<and> dv_external d = dv_external info)) ds =
      find_index (\<lambda>d. dv_internal d = dv_external info \<or> dv_external d = dv_external info) ds"
    "dv_mac info \<noteq> [] \<Longrightarrow> find_index (\<lambda>d. dv_mac d \<noteq> [] \<and> dv_mac d = dv_mac info) ds =
      find_index (\<lambda>d. dv_mac d = dv_mac info) ds" for ds :: "device_info list"
    by (rule find_index_cong; auto)+
  ultimately show ?thesis
    by (simp add: find_device_by_identity_def identity_tests_def find_device_by_host_id_def
        find_device_by_address_def find_device_def find_index_False cong: if_cong)
qed

lemma first_some_update:
  assumes "first_some (map (\<lambda>P. find_index P ds) Ps) = Some i"
    and "\<And>P. P \<in> set Ps \<Longrightarrow> find_index P ds = Some i \<Longrightarrow> P d" and "i < length ds"
  shows "first_some (map (\<lambda>P. find_index P (ds[i := d])) Ps) = Some i"
  using assms(1,2)
proof (induction Ps)
  case (Cons P Ps)
  show ?case
  proof (cases "find_index P ds")
    case None
    then show ?thesis
      using Cons find_index_update [OF None assms(3), of d] by (cases "P d") auto
  next
    case (Some j)
    then have "find_index P ds = Some i"
      using Cons.prems(1) by simp
    moreover from this have "P d"
      by (rule Cons.prems(2) [OF list.set_intros(1)])
    ultimately show ?thesis by (simp add: find_index_update_Some)
  qed
qed simp

lemma first_some_None: "first_some (map f Ps) = None \<longleftrightarrow> (\<forall>P\<in>set Ps. f P = None)"
  by (induction Ps) (auto split: option.split)

lemma first_some_append:
  assumes "first_some (map (\<lambda>P. find_index P ds) Ps) = None" "\<exists>P\<in>set Ps. P d"
  shows "first_some (map (\<lambda>P. find_index P (ds @ [d])) Ps) = Some (length ds)"
  using assms
proof (induction Ps)
  case (Cons P Ps)
  then have "find_index P ds = None"
    by (simp split: option.splits)
  then show ?case
    using Cons by (cases "P d") (auto simp: find_index_append split: option.splits)
qed simp

lemma first_some_Some:
  "first_some (map (\<lambda>P. find_index P ds) Ps) = Some i \<Longrightarrow> \<exists>P\<in>set Ps. find_index P ds = Some i"
  by (induction Ps) (auto split: option.splits)

lemma update_existing_fields:
  assumes "fits info"
  shows "dv_host_id e \<noteq> [] \<Longrightarrow> dv_host_id (update_existing e info) = dv_host_id e"
    "dv_mac info \<noteq> [] \<Longrightarrow> dv_mac (update_existing e info) = dv_mac info"
    "dv_internal info \<noteq> [] \<Longrightarrow> dv_internal (update_existing e info) = dv_internal info"
    "dv_external info \<noteq> [] \<Longrightarrow> dv_external (update_existing e info) = dv_external info"
    "dv_name info \<noteq> [] \<Longrightarrow> dv_name (update_existing e info) = dv_name info"
  using assms by (simp_all add: update_existing_def merge_device_info_def fits_def bounded_copy_id Let_def)

lemma update_existing_tests:
  assumes "P \<in> set (identity_tests info)" "P e" "fits info"
  shows "P (update_existing e info)"
  using assms(1,2) update_existing_fields [OF assms(3), of e]
  unfolding identity_tests_def list.set by (elim insertE emptyE) (simp, simp, simp, simp, auto)

lemma copy_device_tests:
  assumes "fits info" "identifiable info"
  shows "\<exists>P\<in>set (identity_tests info). P (copy_device (ensure_host_identity info))"
  using assms
  by (auto simp: identity_tests_def copy_device_def ensure_host_identity_def fits_def identifiable_def bounded_copy_id)

text \<open>
  Property C24. After \<open>append_device\<close> has returned a device, the search by identity finds that very
  device for what was added. When the search found none before, the device is new, behind all the others, and every one
  of them is still there and as it was; when it found one before, the device is that one, there is no new one, and every other is
  as it was. When it returns no device, the memory was missing and nothing has changed.
\<close>

theorem append_device_found:
  assumes "append_device memory info k = (r, k')" "fits info" "identifiable info"
  shows "case r of
      None \<Rightarrow> \<not> memory \<and> k' = k
    | Some i \<Rightarrow> find_device_by_identity info k' = Some i \<and>
        (case find_device_by_identity info k of
           None \<Rightarrow> i = length (ki_devices k) \<and> length (ki_devices k') = length (ki_devices k) + 1
         | Some j \<Rightarrow> i = j \<and> i < length (ki_devices k) \<and> length (ki_devices k') = length (ki_devices k)) \<and>
        (\<forall>j. j < length (ki_devices k) \<longrightarrow> j \<noteq> i \<longrightarrow> ki_devices k' ! j = ki_devices k ! j)"
proof (cases "find_device_by_identity info k")
  case None
  let ?d = "copy_device (ensure_host_identity info)"
  show ?thesis
  proof (cases r)
    case None
    then show ?thesis
      using assms(1) \<open>find_device_by_identity info k = None\<close> by (simp add: append_device_def Let_def split: if_splits)
  next
    case (Some i)
    then have "ki_devices k' = ki_devices k @ [?d]" "i = length (ki_devices k)"
      using assms(1) None by (auto simp: append_device_def Let_def split: if_splits)
    then show ?thesis
      using Some None first_some_append [OF None [unfolded find_device_by_identity_tests] copy_device_tests [OF assms(2,3)]]
      by (simp add: find_device_by_identity_tests nth_append)
  qed
next
  case (Some i)
  let ?d = "update_existing (ki_devices k ! i) info"
  have res: "r = Some i" "ki_devices k' = (ki_devices k)[i := ?d]"
    using assms(1) Some by (auto simp: append_device_def)
  note found = Some [unfolded find_device_by_identity_tests]
  obtain P where "P \<in> set (identity_tests info)" "find_index P (ki_devices k) = Some i"
    using first_some_Some [OF found] by blast
  then have i: "i < length (ki_devices k)"
    using find_index_Some by blast
  have "first_some (map (\<lambda>P. find_index P ((ki_devices k)[i := ?d])) (identity_tests info)) = Some i"
    using first_some_update [OF found _ i] update_existing_tests [OF _ _ assms(2)] find_index_Some by blast
  then show ?thesis
    using res i Some by (simp add: find_device_by_identity_tests)
qed

definition sample_known :: device_infos where
  "sample_known = \<lparr>ki_size = 4, ki_devices = [sample_device]\<rparr>"

lemma append_device_found_witness:
  "find_device_by_identity (device_zero\<lparr>dv_internal := ''10.0.0.9'', dv_mac := ''00:11:22:33:44:55''\<rparr>)
     (snd (append_device True (device_zero\<lparr>dv_internal := ''10.0.0.9'', dv_mac := ''00:11:22:33:44:55''\<rparr>) sample_known)) = Some 0"
proof -
  let ?info = "device_zero\<lparr>dv_internal := ''10.0.0.9'', dv_mac := ''00:11:22:33:44:55''\<rparr>"
  have ok: "fst (append_device True ?info sample_known) = Some 0" "fits ?info" "identifiable ?info"
    by code_simp+
  have "append_device True ?info sample_known = (Some 0, snd (append_device True ?info sample_known))"
    using ok(1) by (metis prod.collapse)
  from append_device_found [OF this ok(2,3)] show ?thesis by simp
qed

section \<open>Normalizing\<close>

lemma normalize_fold_distinct:
  assumes "sorted_wrt (\<lambda>l r. \<not> devices_same_identity l r) (kept @ ds)"
  shows "fold normalize_step ds kept = kept @ ds"
  using assms
proof (induction ds arbitrary: kept)
  case (Cons d ds)
  have "find_index (\<lambda>e. devices_same_identity e d) kept = None"
    using Cons.prems by (auto simp: find_index_None list_ex_iff sorted_wrt_append)
  then show ?case
    using Cons by (simp add: normalize_step_def)
qed simp

text \<open>
  A list without duplicates is kept by the normalization, in its order; only missing storage
  names are filled in.
\<close>

theorem normalize_known_devices_distinct:
  assumes "sorted_wrt (\<lambda>l r. \<not> devices_same_identity l r) (ki_devices k)"
  shows "ki_devices (fst (normalize_known_devices key_dir outcomes k files)) =
    map ensure_host_identity (ki_devices k)"
  using assms normalize_fold_distinct [of "[]" "ki_devices k"]
  by (simp add: normalize_known_devices_def Let_def)

lemma normalize_known_devices_distinct_witness:
  "ki_devices (fst (normalize_known_devices ''ux0:/'' (\<lambda>_. Written)
     \<lparr>ki_size = 4, ki_devices = [sample_device, device_zero\<lparr>dv_name := ''Other''\<rparr>]\<rparr> Map.empty)) =
   [sample_device, device_zero\<lparr>dv_name := ''Other'', dv_storage_name := ''Other''\<rparr>]"
proof -
  let ?k = "\<lparr>ki_size = 4, ki_devices = [sample_device, device_zero\<lparr>dv_name := ''Other''\<rparr>]\<rparr>"
  have "sorted_wrt (\<lambda>l r. \<not> devices_same_identity l r) (ki_devices ?k)"
    "map ensure_host_identity (ki_devices ?k) = [sample_device, device_zero\<lparr>dv_name := ''Other'', dv_storage_name := ''Other''\<rparr>]"
    by code_simp+
  then show ?thesis
    by (simp only: normalize_known_devices_distinct)
qed

text \<open>
  Two entries for one computer, the one with the server's identifier not paired and the other one
  paired: the paired one is kept, and the identifier is lost, because \<open>merge_device_info\<close> does not copy
  it. \<open>append_device\<close> copies it in the same situation.
\<close>

definition known_by_id :: device_info where
  "known_by_id = device_zero\<lparr>dv_name := ''PC'', dv_storage_name := ''PC'', dv_host_id := ''AB12'', dv_mac := ''00:11''\<rparr>"

definition known_by_pairing :: device_info where
  "known_by_pairing = device_zero\<lparr>dv_name := ''PC'', dv_storage_name := ''PC-2'', dv_paired := True, dv_mac := ''00:11''\<rparr>"

lemma normalize_loses_host_id:
  "map dv_host_id (ki_devices (fst (normalize_known_devices [] (\<lambda>_. Written)
     \<lparr>ki_size = 4, ki_devices = [known_by_id, known_by_pairing]\<rparr> Map.empty))) = [[]]"
  by code_simp

text \<open>
  Merging can also make two kept entries equal, which the loop has already passed: afterwards the list
  still holds two entries of the same identity.
\<close>

lemma normalize_keeps_duplicates:
  "(case ki_devices (fst (normalize_known_devices [] (\<lambda>_. Written)
      \<lparr>ki_size = 4, ki_devices = [device_zero\<lparr>dv_storage_name := ''a'', dv_host_id := ''A'', dv_internal := ''10.0.0.1''\<rparr>,
         device_zero\<lparr>dv_storage_name := ''b'', dv_host_id := ''B'', dv_internal := ''10.0.0.2''\<rparr>,
         device_zero\<lparr>dv_storage_name := ''c'', dv_host_id := ''A'', dv_internal := ''10.0.0.2''\<rparr>]\<rparr> Map.empty)) of
     [x, y] \<Rightarrow> devices_same_identity x y | _ \<Rightarrow> False)"
  by code_simp

section \<open>Removing a device\<close>

lemma fold_delete: "fold (\<lambda>p f. f(p := None)) ps f p = (if p \<in> set ps then None else f p)"
  by (induction ps arbitrary: f) auto

text \<open>
  Removing a device takes exactly it out of the list, its file is gone, so that the next
  start cannot load it, and no file outside its directory is touched.
\<close>

theorem remove_device_gone:
  assumes "remove_device_index key_dir listing idx k files = (True, k', files')"
    and "length (key_dir @ dv_storage_name (ki_devices k ! idx)) < 256" "dv_storage_name (ki_devices k ! idx) \<noteq> []"
  shows "ki_devices k' = take idx (ki_devices k) @ drop (idx + 1) (ki_devices k) \<and>
    files' (device_file_path key_dir (dv_storage_name (ki_devices k ! idx))) = None \<and>
    (\<forall>p. take (length (key_dir @ dv_storage_name (ki_devices k ! idx)) + 1) p \<noteq>
        key_dir @ dv_storage_name (ki_devices k ! idx) @ ''/'' \<longrightarrow> files' p = files p)"
proof -
  let ?s = "dv_storage_name (ki_devices k ! idx)"
  have s: "bounded_copy 256 ?s = ?s" "bounded_copy 512 (key_dir @ ?s) = key_dir @ ?s"
    using assms(2) by (simp_all add: bounded_copy_id)
  define names where "names = filter (\<lambda>n. n \<noteq> ''.'' \<and> n \<noteq> ''..'') (case_option [] id listing)"
  define paths where "paths = device_file_path key_dir ?s # map (\<lambda>n. bounded_copy 512 ((key_dir @ ?s) @ ''/'' @ n)) names"
  have res: "ki_devices k' = take idx (ki_devices k) @ drop (idx + 1) (ki_devices k)"
    "files' = fold (\<lambda>p f. f(p := None)) paths files"
    using assms(1,3) s by (auto simp: remove_device_index_def Let_def paths_def names_def split: if_splits)
  have inside: "take (length (key_dir @ ?s) + 1) p = key_dir @ ?s @ ''/''" if "p \<in> set paths" for p
  proof -
    have "take (length (key_dir @ ?s) + 1) (bounded_copy 512 ((key_dir @ ?s) @ ''/'' @ n)) = key_dir @ ?s @ ''/''" for n
      using assms(2) by (simp add: bounded_copy_def min_def)
    from this [of "''device.ini''"] this show ?thesis
      using that by (auto simp: paths_def device_file_path_def)
  qed
  have "files' (device_file_path key_dir ?s) = None"
    using res(2) by (simp add: fold_delete paths_def)
  moreover have "files' p = files p" if "take (length (key_dir @ ?s) + 1) p \<noteq> key_dir @ ?s @ ''/''" for p
    using res(2) inside that by (auto simp: fold_delete)
  ultimately show ?thesis using res(1) by blast
qed

lemma remove_device_gone_witness:
  "ki_devices (fst (snd (remove_device_index ''ux0:/'' (Some [''.'', ''device.ini'']) 0 sample_known
     (Map.empty(''ux0:/My PC/device.ini'' \<mapsto> ''x''))))) = [] \<and>
   snd (snd (remove_device_index ''ux0:/'' (Some [''.'', ''device.ini'']) 0 sample_known
     (Map.empty(''ux0:/My PC/device.ini'' \<mapsto> ''x'')))) ''ux0:/My PC/device.ini'' = None"
proof -
  let ?f = "Map.empty(''ux0:/My PC/device.ini'' \<mapsto> ''x'')"
  let ?r = "remove_device_index ''ux0:/'' (Some [''.'', ''device.ini'']) 0 sample_known ?f"
  have r: "?r = (True, fst (snd ?r), snd (snd ?r))"
    by (simp add: remove_device_index_def sample_known_def Let_def)
  have d: "dv_storage_name (ki_devices sample_known ! 0) = ''My PC''" "ki_devices sample_known = [sample_device]"
    by (simp_all add: sample_known_def sample_device_def)
  have "device_file_path ''ux0:/'' ''My PC'' = ''ux0:/My PC/device.ini''"
    by (simp add: device_file_path_def bounded_copy_def)
  then show ?thesis
    using remove_device_gone [OF r] d by simp
qed

end
