(* ===== verification/ServerInfo.thy ===== *)
theory ServerInfo imports GamestreamXml DeviceStore begin

text \<open>
  How the GameStream client reads what a server answers, and the texts it sends (\<open>src/backend/legacy/legacy_gamestream.c\<close>): the lookup of one element in a
  document, the status of a response, the responses of the pairing, numbers, hexadecimal text and identifiers. The document comes from expat, which is
  a parameter as in \<open>GamestreamXml\<close>: the callbacks it makes for the bytes.
\<close>

section \<open>Results\<close>

definition gamestream_ok :: int where "gamestream_ok = 0"
definition gamestream_failed :: int where "gamestream_failed = - 1"
definition out_of_memory :: int where "out_of_memory = - 2"
definition gamestream_invalid :: int where "gamestream_invalid = - 3"
definition wrong_state :: int where "wrong_state = - 4"
definition io_error :: int where "io_error = - 5"
definition unsupported_version :: int where "unsupported_version = - 7"
definition app_conflict :: int where "app_conflict = - 8"
definition not_paired :: int where "not_paired = - 9"
definition security_error :: int where "security_error = - 10"
definition gamestream_cancelled :: int where "gamestream_cancelled = - 11"
definition internal_error :: int where "internal_error = - 12"
definition incorrect_pin :: int where "incorrect_pin = - 13"
definition quit_failed :: int where "quit_failed = - 14"

lemmas result_defs = gamestream_ok_def gamestream_failed_def out_of_memory_def gamestream_invalid_def wrong_state_def io_error_def
  unsupported_version_def app_conflict_def not_paired_def security_error_def gamestream_cancelled_def internal_error_def
  incorrect_pin_def quit_failed_def

section \<open>Looking up an element\<close>

text \<open>The length of the output and the output are one string here. The capacity is never 0.\<close>

record find_context =
  fc_target :: string
  fc_output :: string
  fc_capacity :: nat
  fc_depth :: nat
  fc_found :: bool

definition xml_find_start :: "string \<Rightarrow> find_context \<Rightarrow> find_context" where
  "xml_find_start name ctx =
     (if fc_depth ctx = 0 \<and> name = fc_target ctx then ctx\<lparr>fc_depth := 1, fc_output := []\<rparr>
      else if fc_depth ctx > 0 then ctx\<lparr>fc_depth := fc_depth ctx + 1\<rparr> else ctx)"

definition xml_find_end :: "string \<Rightarrow> find_context \<Rightarrow> find_context" where
  "xml_find_end name ctx =
     (if fc_depth ctx > 0 then
        let ctx = ctx\<lparr>fc_depth := fc_depth ctx - 1\<rparr>
        in if fc_depth ctx = 0 \<and> name = fc_target ctx then ctx\<lparr>fc_found := True\<rparr> else ctx
      else ctx)"

definition xml_find_text :: "string \<Rightarrow> find_context \<Rightarrow> find_context" where
  "xml_find_text data ctx =
     (if fc_depth ctx \<noteq> 1 \<or> fc_found ctx then ctx
      else ctx\<lparr>fc_output := fc_output ctx @ take (fc_capacity ctx - 1 - length (fc_output ctx)) data\<rparr>)"

fun find_handle :: "sax \<Rightarrow> find_context \<Rightarrow> find_context" where
  "find_handle (StartElement name attrs) ctx = xml_find_start name ctx"
| "find_handle (CharacterData data) ctx = xml_find_text data ctx"
| "find_handle (EndElement name) ctx = xml_find_end name ctx"
| "find_handle Doctype ctx = ctx"

definition xml_find_value :: "expat \<Rightarrow> string \<Rightarrow> string \<Rightarrow> nat \<Rightarrow> int \<times> string" where
  "xml_find_value expat data target output_size =
     (if output_size = 0 then (gamestream_invalid, [])
      else case expat data of
        None \<Rightarrow> (out_of_memory, [])
      | Some (sax, parsed) \<Rightarrow>
          let ctx = fold find_handle sax
                \<lparr>fc_target = target, fc_output = [], fc_capacity = output_size, fc_depth = 0, fc_found = False\<rparr>
          in (if \<not> parsed then gamestream_invalid else if fc_found ctx then gamestream_ok else gamestream_invalid, fc_output ctx))"

section \<open>The status of a response\<close>

record status_context =
  st_status :: int
  st_message :: string

text \<open>A message that does not fit loses its last bytes, but no part of a code point.\<close>

fun message_cut :: "string \<Rightarrow> nat \<Rightarrow> nat" where
  "message_cut s 0 = 0"
| "message_cut s (Suc n) = (if byte_of (s ! Suc n) AND 0xC0 = 0x80 then message_cut s n else Suc n)"

definition status_message :: "string \<Rightarrow> string" where
  "status_message s = (if length s \<ge> 256 then take (message_cut s 255) s else s)"

definition status_attribute :: "string \<times> string \<Rightarrow> status_context \<Rightarrow> status_context" where
  "status_attribute a ctx =
     (if fst a = ''status_code'' then ctx\<lparr>st_status := atoi (snd a)\<rparr>
      else if fst a = ''status_message'' then ctx\<lparr>st_message := status_message (snd a)\<rparr> else ctx)"

fun status_handle :: "sax \<Rightarrow> status_context \<Rightarrow> status_context" where
  "status_handle (StartElement name attrs) ctx = (if name \<noteq> ''root'' then ctx else fold status_attribute attrs ctx)"
| "status_handle _ ctx = ctx"

record pairing_error =
  pe_status_code :: int
  pe_status_message :: string

definition no_pairing_error :: pairing_error where
  "no_pairing_error = \<lparr>pe_status_code = 0, pe_status_message = []\<rparr>"

definition xml_status_ok :: "expat \<Rightarrow> string \<Rightarrow> int \<times> pairing_error" where
  "xml_status_ok expat data =
     (case expat data of
        None \<Rightarrow> (out_of_memory, no_pairing_error)
      | Some (sax, parsed) \<Rightarrow>
          let ctx = fold status_handle sax \<lparr>st_status = 0, st_message = []\<rparr>
          in if \<not> parsed then (gamestream_invalid, no_pairing_error)
             else if st_status ctx \<noteq> 200 then
               (if st_status ctx = 401 then not_paired else gamestream_failed,
                \<lparr>pe_status_code = st_status ctx, pe_status_message = st_message ctx\<rparr>)
             else (gamestream_ok, no_pairing_error))"

text \<open>A step of the pairing: its status, its \<open>paired\<close> element and, when a field is asked for, the text of it.\<close>

definition read_pairing_response :: "expat \<Rightarrow> string \<Rightarrow> string option \<Rightarrow> nat \<Rightarrow> int \<times> string \<times> pairing_error" where
  "read_pairing_response expat data field output_size =
     (case xml_status_ok expat data of (result, error) \<Rightarrow>
        if result \<noteq> gamestream_ok then (result, [], error)
        else case xml_find_value expat data ''paired'' 8 of (result, paired) \<Rightarrow>
          if result \<noteq> gamestream_ok then (result, [], error)
          else if paired \<noteq> ''1'' then (gamestream_failed, [], error)
          else case field of
            None \<Rightarrow> (gamestream_ok, [], error)
          | Some name \<Rightarrow> case xml_find_value expat data name output_size of (result, value) \<Rightarrow> (result, value, error))"

section \<open>Numbers\<close>

text \<open>\<open>strtol\<close> in base 10: the number and what follows it; the number is 0 and nothing is consumed when there are no digits.\<close>

definition is_decimal :: "char \<Rightarrow> bool" where
  "is_decimal c \<longleftrightarrow> 48 \<le> (of_char c :: int) \<and> (of_char c :: int) \<le> 57"

definition decimal_value :: "string \<Rightarrow> int" where
  "decimal_value s = foldl (\<lambda>n c. n * 10 + (of_char c - 48)) 0 s"

definition strtol_text :: "string \<Rightarrow> (int \<times> string) option" where
  "strtol_text s =
     (let t = dropWhile isspace s;
          (negative, u) = (case t of c # u \<Rightarrow> if c = CHR ''-'' then (True, u) else if c = CHR ''+'' then (False, u) else (False, t)
                           | [] \<Rightarrow> (False, []));
          digits = takeWhile is_decimal u
      in if digits = [] then None
         else Some ((if negative then - decimal_value digits else decimal_value digits), dropWhile is_decimal u))"

text \<open>
  The text of \<open>currentgame\<close>. A value that does not fit a long sets \<open>ERANGE\<close>; with 32 bits those are the ones the
  comparison with \<open>INT_MAX\<close> also refuses.
\<close>

definition current_game_of :: "string \<Rightarrow> int option" where
  "current_game_of s =
     (case strtol_text s of None \<Rightarrow> None
      | Some (n, rest) \<Rightarrow> if dropWhile is_space rest \<noteq> [] \<or> n < 0 \<or> n > int_max then None else Some n)"

section \<open>Hexadecimal text\<close>

definition hex_digit :: "nat \<Rightarrow> char" where
  "hex_digit n = (if n < 10 then char_of (48 + n) else char_of (87 + n))"

definition byte_hex :: "u8 \<Rightarrow> string" where
  "byte_hex b = [hex_digit (unat b div 16), hex_digit (unat b mod 16)]"

definition bytes_to_hex :: "u8 list \<Rightarrow> string" where
  "bytes_to_hex bs = concat (map byte_hex bs)"

text \<open>The identifier of a request; the result of the random generator is not looked at.\<close>

definition uuid_bytes :: "u8 list \<Rightarrow> u8 list" where
  "uuid_bytes r = (let u = r[6 := (r ! 6 AND 0x0F) OR 0x40] in u[8 := (u ! 8 AND 0x3F) OR 0x80])"

definition generate_uuid :: "u8 list \<Rightarrow> string" where
  "generate_uuid r =
     (let h = map byte_hex (uuid_bytes r)
      in concat (take 4 h) @ ''-'' @ concat (take 2 (drop 4 h)) @ ''-'' @ concat (take 2 (drop 6 h)) @ ''-'' @
         concat (take 2 (drop 8 h)) @ ''-'' @ concat (take 6 (drop 10 h)))"

text \<open>
  \<open>sscanf\<close> with \<open>%2x\<close>: blanks are skipped, then at most two characters are read as a hexadecimal number, which may have a sign or
  be the prefix \<open>0x\<close> alone; without a digit the byte stays 0.
\<close>

definition hex_value :: "char \<Rightarrow> nat option" where
  "hex_value c = (let n = of_char c :: nat in
     if 48 \<le> n \<and> n \<le> 57 then Some (n - 48) else if 97 \<le> n \<and> n \<le> 102 then Some (n - 87)
     else if 65 \<le> n \<and> n \<le> 70 then Some (n - 55) else None)"

definition scan_hex2 :: "string \<Rightarrow> u8" where
  "scan_hex2 s =
     (case take 2 (dropWhile isspace s) of
        [] \<Rightarrow> 0
      | [c] \<Rightarrow> (case hex_value c of Some n \<Rightarrow> of_nat n | None \<Rightarrow> 0)
      | c # d # _ \<Rightarrow>
          (case (hex_value c, hex_value d) of
             (Some n, Some m) \<Rightarrow> of_nat (16 * n + m)
           | (Some n, None) \<Rightarrow> of_nat n
           | (None, Some m) \<Rightarrow> if c = CHR ''-'' then - of_nat m else if c = CHR ''+'' then of_nat m else 0
           | (None, None) \<Rightarrow> 0))"

text \<open>\<open>n\<close> bytes from the text, two characters each.\<close>

definition hex_to_bytes :: "nat \<Rightarrow> string \<Rightarrow> u8 list" where
  "hex_to_bytes n s = map (\<lambda>i. scan_hex2 (drop (2 * i) s)) [0..<n]"

section \<open>The lookup on document trees\<close>

text \<open>The outermost elements of a name, in document order, with their children, and the text directly in an element.\<close>

fun named_elements :: "string \<Rightarrow> node \<Rightarrow> node list list" where
  "named_elements target (Elem name attrs children) =
     (if name = target then [children] else concat (map (named_elements target) children))"
| "named_elements target (Text s) = []"

definition direct_text :: "node list \<Rightarrow> string" where
  "direct_text ns = concat (map (case_node (\<lambda>_ _ _. []) id) ns)"

lemma find_nested: "0 < fc_depth ctx \<Longrightarrow> fold find_handle (events (Elem name attrs ns)) ctx = ctx"
  and find_deep: "1 < fc_depth ctx \<Longrightarrow> fold find_handle (events n) ctx = ctx"
proof -
  have deep: "1 < fc_depth ctx \<Longrightarrow> fold find_handle (events n) ctx = ctx" for n ctx
  proof (induction n arbitrary: ctx)
    case (Elem name attrs ns)
    have "fold find_handle (concat (map events ms)) (ctx\<lparr>fc_depth := Suc (fc_depth ctx)\<rparr>) = ctx\<lparr>fc_depth := Suc (fc_depth ctx)\<rparr>"
      if "set ms \<subseteq> set ns" for ms
      using that Elem by (induction ms) auto
    from this [of ns] show ?case
      using Elem.prems by (simp add: xml_find_start_def xml_find_end_def Let_def)
  next
    case (Text s)
    then show ?case by (simp add: xml_find_text_def)
  qed
  then show "1 < fc_depth ctx \<Longrightarrow> fold find_handle (events n) ctx = ctx" .
  show "0 < fc_depth ctx \<Longrightarrow> fold find_handle (events (Elem name attrs ns)) ctx = ctx"
  proof -
    assume d: "0 < fc_depth ctx"
    have "fold find_handle (concat (map events ms)) (ctx\<lparr>fc_depth := Suc (fc_depth ctx)\<rparr>) = ctx\<lparr>fc_depth := Suc (fc_depth ctx)\<rparr>" for ms
      using deep d by (induction ms) auto
    then show ?thesis
      using d by (simp add: xml_find_start_def xml_find_end_def Let_def)
  qed
qed

lemma take_cut: "take m (take m xs @ ys) = take m (xs @ ys)"
  by (cases "length xs \<le> m") simp_all

lemma find_children:
  assumes "fc_depth ctx = 1" "length (fc_output ctx) \<le> fc_capacity ctx - 1"
  shows "fold find_handle (concat (map events ns)) ctx =
    (if fc_found ctx then ctx else ctx\<lparr>fc_output := take (fc_capacity ctx - 1) (fc_output ctx @ direct_text ns)\<rparr>)"
  using assms
proof (induction ns arbitrary: ctx)
  case Nil
  then show ?case by (simp add: direct_text_def)
next
  case (Cons n ns)
  show ?case
  proof (cases n)
    case (Elem name attrs ms)
    then have "fold find_handle (events n) ctx = ctx"
      using find_nested Cons.prems(1) by simp
    then show ?thesis
      using Cons.IH [OF Cons.prems] Elem by (simp add: direct_text_def)
  next
    case (Text s)
    have out: "fc_output ctx @ take (fc_capacity ctx - 1 - length (fc_output ctx)) s = take (fc_capacity ctx - 1) (fc_output ctx @ s)"
      using Cons.prems(2) by simp
    define seen where "seen = take (fc_capacity ctx - 1) (fc_output ctx @ s)"
    have handled: "xml_find_text s ctx = (if fc_found ctx then ctx else ctx\<lparr>fc_output := seen\<rparr>)"
      using Cons.prems(1) unfolding xml_find_text_def out seen_def by simp
    have "take (fc_capacity ctx - 1) (seen @ direct_text ns) = take (fc_capacity ctx - 1) (fc_output ctx @ direct_text (n # ns))"
      unfolding seen_def take_cut using Text by (simp add: direct_text_def)
    moreover have "length seen \<le> fc_capacity ctx - 1"
      by (simp add: seen_def)
    ultimately show ?thesis
      using Cons.IH [of ctx] Cons.IH [of "ctx\<lparr>fc_output := seen\<rparr>"] Cons.prems Text handled
      by (cases "fc_found ctx") (simp_all del: take_append)
  qed
qed

text \<open>What an outermost element does: the first leaves its text, and each later one clears it.\<close>

definition see_element :: "node list \<Rightarrow> find_context \<Rightarrow> find_context" where
  "see_element ns ctx =
     (if fc_found ctx then ctx\<lparr>fc_output := []\<rparr>
      else ctx\<lparr>fc_output := take (fc_capacity ctx - 1) (direct_text ns), fc_found := True\<rparr>)"

lemma see_element_frame [simp]:
  "fc_depth (see_element ns ctx) = fc_depth ctx" "fc_target (see_element ns ctx) = fc_target ctx"
  "fc_capacity (see_element ns ctx) = fc_capacity ctx" "fc_found (see_element ns ctx)"
  by (simp_all add: see_element_def)

lemma see_elements_frame:
  "fc_depth (fold see_element es ctx) = fc_depth ctx" "fc_target (fold see_element es ctx) = fc_target ctx"
  by (induction es arbitrary: ctx) simp_all

lemma find_events:
  "fc_depth ctx = 0 \<Longrightarrow> fold find_handle (events n) ctx = fold see_element (named_elements (fc_target ctx) n) ctx"
proof (induction n arbitrary: ctx)
  case (Elem name attrs ns)
  show ?case
  proof (cases "name = fc_target ctx")
    case True
    then show ?thesis
      using Elem.prems find_children [of "ctx\<lparr>fc_depth := Suc 0, fc_output := []\<rparr>" ns]
      by (simp add: xml_find_start_def xml_find_end_def see_element_def Let_def)
  next
    case False
    have "fold find_handle (concat (map events ms)) c = fold see_element (concat (map (named_elements (fc_target c)) ms)) c"
      if "set ms \<subseteq> set ns" "fc_depth c = 0" for ms c
      using that
    proof (induction ms arbitrary: c)
      case (Cons m ms)
      then show ?case
        using Elem.IH [of m c] by (simp add: see_elements_frame)
    qed simp
    from this [of ns ctx] show ?thesis
      using False Elem.prems by (simp add: xml_find_start_def xml_find_end_def see_elements_frame)
  qed
qed (simp add: xml_find_text_def)

lemma see_later: "fc_found ctx \<Longrightarrow> es \<noteq> [] \<Longrightarrow> fc_found (fold see_element es ctx) \<and> fc_output (fold see_element es ctx) = []"
  by (induction es arbitrary: ctx rule: induct_list012) (auto simp: see_element_def)

text \<open>
  Property C39: on a well-formed document the lookup finds the outermost elements of the name. One such element gives the text directly in
  it, cut to the capacity; none is an error. With several, the lookup succeeds with an empty text: each later one clears what was found.
\<close>

theorem xml_find_value_tree:
  assumes "reads expat data doc" "0 < n"
  shows "xml_find_value expat data target n =
    (case named_elements target doc of
       [] \<Rightarrow> (gamestream_invalid, [])
     | [ns] \<Rightarrow> (gamestream_ok, take (n - 1) (direct_text ns))
     | _ \<Rightarrow> (gamestream_ok, []))"
proof -
  let ?ctx = "\<lparr>fc_target = target, fc_output = [], fc_capacity = n, fc_depth = 0, fc_found = False\<rparr>"
  have "fold find_handle (events doc) ?ctx = fold see_element (named_elements target doc) ?ctx"
    using find_events [of ?ctx doc] by simp
  then show ?thesis
    using assms see_later [of "see_element (hd (named_elements target doc)) ?ctx" "tl (named_elements target doc)"]
    by (auto simp: xml_find_value_def reads_def Let_def see_element_def split: list.split)
qed

definition sample_info :: node where
  "sample_info = Elem ''root'' [(''status_code'', ''200'')] [Elem ''paired'' [] [Text ''1''], Elem ''mac'' [] [Text ''00:11'']]"

lemma xml_find_value_tree_witness:
  "xml_find_value (\<lambda>_. Some (events sample_info, True)) ''x'' ''paired'' 8 = (gamestream_ok, ''1'')"
  using xml_find_value_tree [of "\<lambda>_. Some (events sample_info, True)" "''x''" sample_info 8 "''paired''"]
  by (simp add: reads_def int_max_def sample_info_def direct_text_def)

section \<open>Text and bytes\<close>

lemma hex_value_digit: "n < 16 \<Longrightarrow> hex_value (hex_digit n) = Some n"
  by (auto simp: hex_value_def hex_digit_def Let_def)

lemma hex_digit_space: "n < 16 \<Longrightarrow> \<not> isspace (hex_digit n)"
proof -
  have "list_all (\<lambda>n. \<not> isspace (hex_digit n)) [0..<16]" by code_simp
  then show "n < 16 \<Longrightarrow> ?thesis" by (auto simp: list_all_iff)
qed

lemma scan_byte_hex: "scan_hex2 (byte_hex b @ s) = b"
proof -
  have "unat b div 16 < 16" "unat b mod 16 < 16"
    using unat_u8_less [of b] by (simp_all add: less_mult_imp_div_less)
  moreover have "16 * (unat b div 16) + unat b mod 16 = unat b" by simp
  ultimately show ?thesis
    by (simp add: scan_hex2_def byte_hex_def hex_value_digit hex_digit_space del: of_nat_add of_nat_mult)
qed

lemma length_bytes_to_hex [simp]: "length (bytes_to_hex bs) = 2 * length bs"
  by (induction bs) (simp_all add: bytes_to_hex_def byte_hex_def)

text \<open>Bytes survive as hexadecimal text, whatever follows the text.\<close>

theorem hex_roundtrip: "hex_to_bytes (length bs) (bytes_to_hex bs @ s) = bs"
proof (induction bs)
  case (Cons b bs)
  have "bytes_to_hex (b # bs) = byte_hex b @ bytes_to_hex bs" "length (byte_hex b) = 2"
    by (simp_all add: bytes_to_hex_def byte_hex_def)
  then have "hex_to_bytes (Suc n) (bytes_to_hex (b # bs) @ s) = b # hex_to_bytes n (bytes_to_hex bs @ s)" for n
    unfolding hex_to_bytes_def by (simp add: upt_conv_Cons scan_byte_hex map_Suc_upt [symmetric] del: upt_Suc)
  then show ?case using Cons by simp
qed (simp add: hex_to_bytes_def)

lemma uuid_length: "length r = 16 \<Longrightarrow> length (generate_uuid r) = 36"
  by (simp add: generate_uuid_def uuid_bytes_def Let_def length_concat byte_hex_def take_map drop_map comp_def sum_list_triv)

lemma current_game_range: "current_game_of s = Some n \<Longrightarrow> 0 \<le> n \<and> n \<le> int_max"
  by (auto simp: current_game_of_def split: option.splits prod.splits if_splits)

end
