(* ===== verification/Calls.thy ===== *)
theory Calls imports Prelude "HOL-Library.State_Monad" begin

text \<open>
  Code that drives something outside the program: the firmware, the network library, threads. What
  the other side answers is a parameter, a function from the calls so far and the next call to the answer, so
  that every theorem holds for all of its behaviours, failures included. A run leaves a log of the calls
  with their answers.

  What the other side demands of its client (nothing is freed twice, nothing is used after it was freed,
  what depends on something else goes first) is a partial function on a state that follows the log:
  \<open>accept\<close> is \<open>None\<close> from the first call that breaks the rules. The locale \<open>client\<close> is the contract between
  the operations of a component and these rules; its theorem carries one operation's obedience to all
  sequences of operations.

  Longer operations are written in the state monad, over the component's variables and the log:
  \<open>ask\<close> calls, \<open>look\<close> reads a variable and \<open>modify\<close> writes one. \<open>safe rule start s w f Q\<close> says that the
  program \<open>f\<close>, started with the variables \<open>s\<close> after a log that leaves the rules in state \<open>w\<close>, breaks no rule and
  ends where \<open>Q\<close> holds of its result, the variables and the state of the rules. The rules \<open>safe_intro\<close> run a program
  symbolically.
\<close>

type_synonym ('c, 'a) calls = "('c \<times> 'a) list"
type_synonym ('c, 'a) env = "('c, 'a) calls \<Rightarrow> 'c \<Rightarrow> 'a"

definition call :: "('c, 'a) env \<Rightarrow> 'c \<Rightarrow> ('c, 'a) calls \<Rightarrow> 'a \<times> ('c, 'a) calls" where
  "call env c log = (let a = env log c in (a, log @ [(c, a)]))"

fun accept :: "('w \<Rightarrow> 'c \<Rightarrow> 'a \<Rightarrow> 'w option) \<Rightarrow> 'w \<Rightarrow> ('c, 'a) calls \<Rightarrow> 'w option" where
  "accept rule w [] = Some w"
| "accept rule w ((c, a) # log) = (case rule w c a of None \<Rightarrow> None | Some w' \<Rightarrow> accept rule w' log)"

lemma accept_append:
  "accept rule w (xs @ ys) = (case accept rule w xs of None \<Rightarrow> None | Some w' \<Rightarrow> accept rule w' ys)"
  by (induction xs arbitrary: w) (auto split: option.splits)

lemma accept_snoc:
  "accept rule w (log @ [(c, a)]) = (case accept rule w log of None \<Rightarrow> None | Some w' \<Rightarrow> rule w' c a)"
  by (simp add: accept_append split: option.split)

lemma accept_prefix: "accept rule w (xs @ ys) \<noteq> None \<Longrightarrow> accept rule w xs \<noteq> None"
  by (auto simp: accept_append split: option.splits)

text \<open>One call keeps the rules when the state they follow allows it.\<close>

lemma call_allowed:
  "accept rule w log = Some v \<Longrightarrow> call env c log = (a, log') \<Longrightarrow> accept rule w log' = rule v c a"
  by (auto simp: call_def Let_def accept_snoc)

lemma call_answer: "call env c log = (a, log') \<Longrightarrow> a = env log c \<and> log' = log @ [(c, a)]"
  by (auto simp: call_def Let_def)

section \<open>Operations that keep the rules\<close>

fun perform :: "('s \<Rightarrow> 'o \<Rightarrow> ('c, 'a) calls \<Rightarrow> 's \<times> ('c, 'a) calls) \<Rightarrow> 's \<Rightarrow> 'o list \<Rightarrow>
    ('c, 'a) calls \<Rightarrow> 's \<times> ('c, 'a) calls" where
  "perform act s [] log = (s, log)"
| "perform act s (x # xs) log = (case act s x log of (s', log') \<Rightarrow> perform act s' xs log')"

lemma perform_append:
  "perform act s (xs @ ys) log = (case perform act s xs log of (s', log') \<Rightarrow> perform act s' ys log')"
  by (induction xs arbitrary: s log) (auto split: prod.splits)

text \<open>What the caller of the operations has to see to, for the operations that need it.\<close>

fun allowed :: "('s \<Rightarrow> 'o \<Rightarrow> ('c, 'a) calls \<Rightarrow> 's \<times> ('c, 'a) calls) \<Rightarrow> ('s \<Rightarrow> 'o \<Rightarrow> bool) \<Rightarrow> 's \<Rightarrow> 'o list \<Rightarrow>
    ('c, 'a) calls \<Rightarrow> bool" where
  "allowed act ok s [] log \<longleftrightarrow> True"
| "allowed act ok s (x # xs) log \<longleftrightarrow> ok s x \<and> (case act s x log of (s', log') \<Rightarrow> allowed act ok s' xs log')"

lemma allowed_True [simp]: "allowed act (\<lambda>_ _. True) s xs log"
  by (induction xs arbitrary: s log) (auto split: prod.split)

lemma allowed_append:
  "allowed act ok s (xs @ ys) log \<longleftrightarrow>
     allowed act ok s xs log \<and> (case perform act s xs log of (s', log') \<Rightarrow> allowed act ok s' ys log')"
  by (induction xs arbitrary: s log) (auto split: prod.splits)

locale client =
  fixes act :: "'s \<Rightarrow> 'o \<Rightarrow> ('c, 'a) calls \<Rightarrow> 's \<times> ('c, 'a) calls"
    and rule :: "'w \<Rightarrow> 'c \<Rightarrow> 'a \<Rightarrow> 'w option"
    and start :: 'w
    and rel :: "'s \<Rightarrow> 'w \<Rightarrow> bool"
    and ok :: "'s \<Rightarrow> 'o \<Rightarrow> bool"
  assumes act_obeys: "accept rule start log = Some w \<Longrightarrow> rel s w \<Longrightarrow> ok s x \<Longrightarrow> act s x log = (s', log') \<Longrightarrow>
    \<exists>w'. accept rule start log' = Some w' \<and> rel s' w'"
begin

lemma perform_obeys:
  "accept rule start log = Some w \<Longrightarrow> rel s w \<Longrightarrow> allowed act ok s xs log \<Longrightarrow>
     case perform act s xs log of (s', log') \<Rightarrow> \<exists>w'. accept rule start log' = Some w' \<and> rel s' w'"
proof (induction xs arbitrary: s log w)
  case (Cons x xs)
  obtain s' log' where step: "act s x log = (s', log')" by fastforce
  then obtain w' where "accept rule start log' = Some w'" "rel s' w'"
    using act_obeys [OF Cons.prems(1,2) _ step] Cons.prems(3) by auto
  then show ?case using Cons.IH step Cons.prems(3) by simp
qed simp

lemma run_obeys:
  "rel s start \<Longrightarrow> allowed act ok s xs [] \<Longrightarrow>
     case perform act s xs [] of (s', log) \<Rightarrow> \<exists>w. accept rule start log = Some w \<and> rel s' w"
  by (rule perform_obeys) simp_all

end

section \<open>Programs\<close>

type_synonym ('s, 'c, 'a, 'x) prog = "('s \<times> ('c, 'a) calls, 'x) state"

definition ask :: "('c, 'a) env \<Rightarrow> 'c \<Rightarrow> ('s, 'c, 'a, 'a) prog" where
  "ask env c = State (\<lambda>(s, log). case call env c log of (a, log') \<Rightarrow> (a, (s, log')))"

definition look :: "('s \<Rightarrow> 'x) \<Rightarrow> ('s, 'c, 'a, 'x) prog" where
  "look f = State (\<lambda>(s, log). (f s, (s, log)))"

definition modify :: "('s \<Rightarrow> 's) \<Rightarrow> ('s, 'c, 'a, unit) prog" where
  "modify f = State (\<lambda>(s, log). ((), (f s, log)))"

abbreviation skip :: "('s, 'c, 'a, unit) prog" where
  "skip \<equiv> State_Monad.return ()"

lemma run_ask [simp]: "run_state (ask env c) (s, log) = (env log c, (s, log @ [(c, env log c)]))"
  by (simp add: ask_def call_def Let_def)

lemma run_look [simp]: "run_state (look f) (s, log) = (f s, (s, log))"
  by (simp add: look_def)

lemma run_modify [simp]: "run_state (modify f) (s, log) = ((), (f s, log))"
  by (simp add: modify_def)

definition safe :: "('w \<Rightarrow> 'c \<Rightarrow> 'a \<Rightarrow> 'w option) \<Rightarrow> 'w \<Rightarrow> 's \<Rightarrow> 'w \<Rightarrow> ('s, 'c, 'a, 'x) prog \<Rightarrow>
    ('x \<Rightarrow> 's \<Rightarrow> 'w \<Rightarrow> bool) \<Rightarrow> bool" where
  "safe rule start s w f Q \<longleftrightarrow> (\<forall>log x s' log'.
     accept rule start log = Some w \<longrightarrow> run_state f (s, log) = (x, (s', log')) \<longrightarrow>
     (\<exists>w'. accept rule start log' = Some w' \<and> Q x s' w'))"

lemma safeD:
  "safe rule start s w f Q \<Longrightarrow> accept rule start log = Some w \<Longrightarrow>
     run_state f (s, log) = (x, (s', log')) \<Longrightarrow> \<exists>w'. accept rule start log' = Some w' \<and> Q x s' w'"
  unfolding safe_def by blast

named_theorems safe_intro \<open>symbolic execution\<close>

lemma safe_return [safe_intro]: "Q x s w \<Longrightarrow> safe rule start s w (State_Monad.return x) Q"
  by (simp add: safe_def)

lemma safe_bind:
  assumes "safe rule start s w f R" "\<And>x s' w'. R x s' w' \<Longrightarrow> safe rule start s' w' (g x) Q"
  shows "safe rule start s w (State_Monad.bind f g) Q"
  unfolding safe_def
proof (intro allI impI)
  fix log x s' log'
  assume acc: "accept rule start log = Some w"
    and run: "run_state (State_Monad.bind f g) (s, log) = (x, (s', log'))"
  obtain y s1 log1 where f: "run_state f (s, log) = (y, (s1, log1))"
    by (metis prod_cases3)
  obtain w1 where "accept rule start log1 = Some w1" "R y s1 w1"
    using safeD [OF assms(1) acc f] by blast
  then show "\<exists>w'. accept rule start log' = Some w' \<and> Q x s' w'"
    using safeD [OF assms(2)] run f by fastforce
qed

lemma safe_ask [safe_intro]:
  assumes "\<And>a. \<exists>w'. rule w c a = Some w' \<and> safe rule start s w' (g a) Q"
  shows "safe rule start s w (State_Monad.bind (ask env c) g) Q"
proof (rule safe_bind [where R = "\<lambda>a s' w'. s' = s \<and> rule w c a = Some w'"])
  show "safe rule start s w (ask env c) (\<lambda>a s' w'. s' = s \<and> rule w c a = Some w')"
    using assms by (fastforce simp: safe_def accept_snoc)
  show "safe rule start s' w' (g a) Q" if "s' = s \<and> rule w c a = Some w'" for a s' w'
    using assms [of a] that by auto
qed

text \<open>A call whose answers are known to satisfy something.\<close>

lemma safe_ask_when:
  assumes "\<And>log. P (env log c)" "\<And>a. P a \<Longrightarrow> \<exists>w'. rule w c a = Some w' \<and> safe rule start s w' (g a) Q"
  shows "safe rule start s w (State_Monad.bind (ask env c) g) Q"
proof (rule safe_bind [where R = "\<lambda>a s' w'. s' = s \<and> rule w c a = Some w' \<and> P a"])
  show "safe rule start s w (ask env c) (\<lambda>a s' w'. s' = s \<and> rule w c a = Some w' \<and> P a)"
    using assms by (fastforce simp: safe_def accept_snoc)
  show "safe rule start s' w' (g a) Q" if "s' = s \<and> rule w c a = Some w' \<and> P a" for a s' w'
    using assms(2) [of a] that by auto
qed

lemma safe_modify [safe_intro]:
  "safe rule start (f s) w (g ()) Q \<Longrightarrow> safe rule start s w (State_Monad.bind (modify f) g) Q"
  by (rule safe_bind [where R = "\<lambda>_ s' w'. s' = f s \<and> w' = w"]) (auto simp: safe_def)

lemma safe_look [safe_intro]:
  "safe rule start s w (g (f s)) Q \<Longrightarrow> safe rule start s w (State_Monad.bind (look f) g) Q"
  by (rule safe_bind [where R = "\<lambda>x s' w'. x = f s \<and> s' = s \<and> w' = w"]) (auto simp: safe_def)

lemma safe_modify_last [safe_intro]: "Q () (f s) w \<Longrightarrow> safe rule start s w (modify f) Q"
  by (simp add: safe_def)

lemma safe_look_last [safe_intro]: "Q (f s) s w \<Longrightarrow> safe rule start s w (look f) Q"
  by (simp add: safe_def)

lemma safe_ask_last [safe_intro]:
  "(\<And>a. \<exists>w'. rule w c a = Some w' \<and> Q a s w') \<Longrightarrow> safe rule start s w (ask env c) Q"
  by (simp add: safe_def accept_snoc)

lemma safe_if [safe_intro]:
  "(b \<Longrightarrow> safe rule start s w f Q) \<Longrightarrow> (\<not> b \<Longrightarrow> safe rule start s w g Q) \<Longrightarrow>
     safe rule start s w (if b then f else g) Q"
  by simp

lemma safe_if_bind [safe_intro]:
  "(b \<Longrightarrow> safe rule start s w (State_Monad.bind f h) Q) \<Longrightarrow> (\<not> b \<Longrightarrow> safe rule start s w (State_Monad.bind g h) Q) \<Longrightarrow>
     safe rule start s w (State_Monad.bind (if b then f else g) h) Q"
  by simp

lemma safe_return_bind [safe_intro]:
  "safe rule start s w (g x) Q \<Longrightarrow> safe rule start s w (State_Monad.bind (State_Monad.return x) g) Q"
  by simp

lemma safe_assoc [safe_intro]:
  "safe rule start s w (State_Monad.bind f (\<lambda>x. State_Monad.bind (g x) h)) Q \<Longrightarrow>
     safe rule start s w (State_Monad.bind (State_Monad.bind f g) h) Q"
  by simp

lemma safe_option:
  "(x = None \<Longrightarrow> safe rule start s w f Q) \<Longrightarrow> (\<And>y. x = Some y \<Longrightarrow> safe rule start s w (g y) Q) \<Longrightarrow>
     safe rule start s w (case x of None \<Rightarrow> f | Some y \<Rightarrow> g y) Q"
  by (simp split: option.split)

lemma safe_sum:
  "(\<And>a. x = Inl a \<Longrightarrow> safe rule start s w (f a) Q) \<Longrightarrow> (\<And>b. x = Inr b \<Longrightarrow> safe rule start s w (g b) Q) \<Longrightarrow>
     safe rule start s w (case x of Inl a \<Rightarrow> f a | Inr b \<Rightarrow> g b) Q"
  by (simp split: sum.split)

text \<open>A call that the rules do not look at.\<close>

lemma safe_ask_same:
  "(\<And>a. rule w c a = Some w) \<Longrightarrow> (\<And>a. safe rule start s w (g a) Q) \<Longrightarrow> safe rule start s w (State_Monad.bind (ask env c) g) Q"
  by (rule safe_ask) auto

lemma safe_pair:
  "(\<And>a b. p = (a, b) \<Longrightarrow> safe rule start s w (f a b) Q) \<Longrightarrow> safe rule start s w (case p of (a, b) \<Rightarrow> f a b) Q"
  by (simp split: prod.split)

lemma safe_weaken:
  "safe rule start s w f R \<Longrightarrow> (\<And>x s w. R x s w \<Longrightarrow> Q x s w) \<Longrightarrow> safe rule start s w f Q"
  unfolding safe_def by blast

text \<open>A program that is safe from everywhere where \<open>rel\<close> holds keeps \<open>rel\<close>.\<close>

definition execute :: "('s, 'c, 'a, 'x) prog \<Rightarrow> 's \<Rightarrow> ('c, 'a) calls \<Rightarrow> 's \<times> ('c, 'a) calls" where
  "execute f s log = snd (run_state f (s, log))"

lemma execute_obeys:
  "safe rule start s w f (\<lambda>_. rel) \<Longrightarrow> accept rule start log = Some w \<Longrightarrow> execute f s log = (s', log') \<Longrightarrow>
     \<exists>w'. accept rule start log' = Some w' \<and> rel s' w'"
  unfolding execute_def by (metis prod.collapse safeD)

end
