(* ===== verification/GameStream.thy ===== *)
theory GameStream imports ServerInfo Calls begin

text \<open>
  The GameStream client up to the pairing (\<open>src/backend/legacy/legacy_gamestream.c\<close>): one request to a server, the authenticated requests of the other
  modules, the server information, quitting the running application, and the pinned certificate of the server.

  libcurl, OpenSSL, expat, the files and the random generator are on the other side of the calls; a certificate is a value of a type that the
  model knows nothing about. A \<open>Perform\<close> carries the certificate that the TLS callback will compare with, because the callback reads it from the server
  structure while the transfer runs. The texts of errors are left out, and so are the mutexes: the operations of this
  file run on worker threads that the API lets in one at a time.
\<close>

section \<open>Data\<close>

record 'x server =
  gs_address :: string
  gs_unique_id :: string
  gs_http_port :: u16
  gs_https_port :: u16
  gs_major_version :: int
  gs_app_version :: string
  gs_gfe_version :: string
  gs_session_url :: string
  gs_codec_support :: int
  gs_current_game :: int
  gs_paired :: bool
  gs_unsupported :: bool
  gs_mac :: string
  gs_certificate_path :: string
  gs_certificate :: "'x option"
  gs_curl :: bool

definition server_zero :: "'x server" where
  "server_zero = \<lparr>gs_address = [], gs_unique_id = [], gs_http_port = 0, gs_https_port = 0, gs_major_version = 0, gs_app_version = [],
     gs_gfe_version = [], gs_session_url = [], gs_codec_support = 0, gs_current_game = 0, gs_paired = False, gs_unsupported = False,
     gs_mac = [], gs_certificate_path = [], gs_certificate = None, gs_curl = False\<rparr>"

text \<open>The variables of the file; the certificate and the key of the client come and go together.\<close>

record ('x, 'k) gs_client =
  gc_server :: "'x server"
  gc_last_http :: int
  gc_unique_id :: string
  gc_certificate :: "'x option"
  gc_key :: "'k option"
  gc_cert_hex :: string
  gc_curl_initialized :: bool

text \<open>What random bytes are for.\<close>

datatype purpose = For_uuid | For_salt | For_challenge | For_secret | For_id | For_remote_key | For_remote_iv

datatype 'x gs_call =
    Is_cancelled
  | Random purpose
  | Allocate_buffer
  | Set_up_transfer
  | Perform string nat "'x option"
  | Open_pin string
  | Read_pin string
  | Create_file string
  | Write_certificate string 'x
  | Rename string string
  | Remove string
  | Make_directories string
  | Read_id string
  | Write_id string string
  | Load_credentials string
  | Curl_global_init
  | Curl_new
  | Curl_configure string
  | Curl_delete
  | Curl_global_cleanup
  | Start_worker
  | Delay

text \<open>\<open>ga_code\<close> is the result of curl, \<open>ga_status\<close> the one of HTTP.\<close>

record ('x, 'k) gs_answer =
  ga_ok :: bool
  ga_code :: int
  ga_status :: int
  ga_body :: string
  ga_bytes :: "u8 list"
  ga_certificate :: "'x option"
  ga_key :: "'k option"

type_synonym ('x, 'k) gs_env = "('x gs_call, ('x, 'k) gs_answer) env"
type_synonym ('x, 'k, 'r) gs_prog = "(('x, 'k) gs_client, 'x gs_call, ('x, 'k) gs_answer, 'r) prog"

definition modify_server :: "('x server \<Rightarrow> 'x server) \<Rightarrow> ('x, 'k, unit) gs_prog" where
  "modify_server f = modify (\<lambda>s. s\<lparr>gc_server := f (gc_server s)\<rparr>)"

text \<open>The results of libcurl that the file looks at.\<close>

definition curle_http_returned_error :: int where "curle_http_returned_error = 22"
definition curle_out_of_memory :: int where "curle_out_of_memory = 27"
definition curle_peer_failed :: int where "curle_peer_failed = 60"

section \<open>One request\<close>

definition is_cancelled :: "('x, 'k) gs_env \<Rightarrow> bool \<Rightarrow> ('x, 'k, bool) gs_prog" where
  "is_cancelled env cancellable =
     (if cancellable then do { a \<leftarrow> ask env Is_cancelled; State_Monad.return (ga_ok a) } else State_Monad.return False)"

definition is_https :: "string \<Rightarrow> bool" where
  "is_https url \<longleftrightarrow> take 8 url = ''https://''"

text \<open>What a transfer that ended with an error of curl means.\<close>

definition transfer_error :: "('x, 'k) gs_answer \<Rightarrow> int" where
  "transfer_error a =
     (if \<not> ga_ok a \<or> ga_code a = curle_out_of_memory then out_of_memory
      else if ga_code a = curle_peer_failed then security_error
      else if ga_code a = curle_http_returned_error \<and> ga_status a = 401 then not_paired else gamestream_failed)"

definition transfer_result :: "('x, 'k) gs_answer \<Rightarrow> int \<times> string" where
  "transfer_result a = (if ga_code a \<noteq> 0 then (transfer_error a, []) else (gamestream_ok, ga_body a))"

definition transfer :: "('x, 'k) gs_env \<Rightarrow> string \<Rightarrow> nat \<Rightarrow> 'x option \<Rightarrow> bool \<Rightarrow> ('x, 'k, int \<times> string) gs_prog" where
  "transfer env url timeout pinned cancellable = do {
     a \<leftarrow> ask env (Perform url timeout pinned);
     _ \<leftarrow> modify (\<lambda>s. s\<lparr>gc_last_http := ga_code a\<rparr>);
     cancelled \<leftarrow> is_cancelled env cancellable;
     State_Monad.return (if cancelled then (gamestream_cancelled, []) else transfer_result a)
   }"

text \<open>\<open>ga_ok\<close> says whether there was memory for the response. The body is empty where the code gives none.\<close>

definition http_request :: "('x, 'k) gs_env \<Rightarrow> string \<Rightarrow> nat \<Rightarrow> bool \<Rightarrow> ('x, 'k, int \<times> string) gs_prog" where
  "http_request env url timeout cancellable = do {
     cancelled \<leftarrow> is_cancelled env cancellable;
     if cancelled then State_Monad.return (gamestream_cancelled, [])
     else do {
       curl \<leftarrow> look (gs_curl \<circ> gc_server);
       if \<not> curl then State_Monad.return (gamestream_invalid, [])
       else do {
         cancelled \<leftarrow> is_cancelled env cancellable;
         if cancelled then State_Monad.return (gamestream_cancelled, [])
         else do {
           pinned \<leftarrow> look (gs_certificate \<circ> gc_server);
           if is_https url \<and> pinned = None then do {
             _ \<leftarrow> modify (\<lambda>s. s\<lparr>gc_last_http := curle_peer_failed\<rparr>);
             State_Monad.return (security_error, [])
           }
           else do {
             memory \<leftarrow> ask env Allocate_buffer;
             if \<not> ga_ok memory then State_Monad.return (out_of_memory, [])
             else do {
               setup \<leftarrow> ask env Set_up_transfer;
               if \<not> ga_ok setup then State_Monad.return (internal_error, [])
               else transfer env url timeout pinned cancellable
             }
           }
         }
       }
     }
   }"

definition number_text :: "u16 \<Rightarrow> string" where
  "number_text n = decimal_text (unat n)"

definition request_url :: "('x, 'k) gs_client \<Rightarrow> string \<Rightarrow> string \<Rightarrow> string \<Rightarrow> string" where
  "request_url s endpoint uuid query =
     (let port = gs_https_port (gc_server s)
      in ''https://'' @ gs_address (gc_server s) @ '':'' @ number_text (if port \<noteq> 0 then port else 47984) @ ''/'' @ endpoint @
         ''?uniqueid='' @ gc_unique_id s @ ''&uuid='' @ uuid @ (if query \<noteq> [] then ''&'' else []) @ query)"

text \<open>A request of another module. An URL that does not fit is refused.\<close>

definition gamestream_request :: "('x, 'k) gs_env \<Rightarrow> string \<Rightarrow> string \<Rightarrow> nat \<Rightarrow> ('x, 'k, int \<times> string) gs_prog" where
  "gamestream_request env endpoint query timeout =
     (if timeout = 0 then State_Monad.return (gamestream_invalid, [])
      else do {
        r \<leftarrow> ask env (Random For_uuid);
        memory \<leftarrow> ask env Allocate_buffer;
        if \<not> ga_ok memory then State_Monad.return (out_of_memory, [])
        else do {
          url \<leftarrow> look (\<lambda>s. request_url s endpoint (generate_uuid (ga_bytes r)) query);
          if length url \<ge> 8192 then State_Monad.return (gamestream_invalid, [])
          else do {
            _ \<leftarrow> ask env Allocate_buffer;
            http_request env url timeout False
          }
        }
      })"

section \<open>The server information\<close>

definition has_suffix :: "string \<Rightarrow> string \<Rightarrow> bool" where
  "has_suffix tail s \<longleftrightarrow> length tail \<le> length s \<and> drop (length s - length tail) s = tail"

text \<open>
  What is read from a response. The order matters where a response is refused in the middle: the identity, the port and the address of the
  adapter are written before the running application is looked at.
\<close>

definition identity_of :: "(string \<Rightarrow> nat \<Rightarrow> int \<times> string) \<Rightarrow> 'x server \<Rightarrow> 'x server" where
  "identity_of get sv =
     (let (u, unique_id) = get ''uniqueid'' 64;
          sv = (if u = gamestream_ok then sv\<lparr>gs_unique_id := unique_id\<rparr> else sv);
          (p, port) = get ''HttpsPort'' 16;
          sv = (if p = gamestream_ok then sv\<lparr>gs_https_port := of_int (atoi port)\<rparr> else sv);
          sv = (if gs_https_port sv = 0 then sv\<lparr>gs_https_port := 47984\<rparr> else sv);
          (m, mac) = get ''mac'' 64
      in sv\<lparr>gs_mac := (if m = gamestream_ok then bounded_copy 18 mac else [])\<rparr>)"

definition apply_server_info :: "expat \<Rightarrow> bool \<Rightarrow> string \<Rightarrow> 'x server \<Rightarrow> int \<times> 'x server" where
  "apply_server_info expat https body sv =
     (let get = xml_find_value expat body;
          (g, current_game) = get ''currentgame'' 32;
          (p, paired) = get ''PairStatus'' 16;
          (v, app_version) = get ''appversion'' 64;
          (t, state) = get ''state'' 256
      in if g \<noteq> gamestream_ok \<or> p \<noteq> gamestream_ok \<or> v \<noteq> gamestream_ok \<or> t \<noteq> gamestream_ok then (gamestream_invalid, sv)
         else let sv = identity_of get sv
         in case current_game_of current_game of
              None \<Rightarrow> (gamestream_invalid, sv)
            | Some game \<Rightarrow>
                let (f, gfe_version) = get ''GfeVersion'' 64;
                    (c, codec) = get ''ServerCodecModeSupport'' 32
                in (gamestream_ok,
                    sv\<lparr>gs_paired := (https \<and> gs_certificate sv \<noteq> None \<and> paired = ''1''),
                       gs_current_game := (if has_suffix ''_SERVER_BUSY'' state then game else 0),
                       gs_app_version := app_version,
                       gs_gfe_version := (if f = gamestream_ok then gfe_version else gs_gfe_version sv),
                       gs_codec_support := (if c = gamestream_ok then atoi codec else 1),
                       gs_major_version := atoi app_version\<rparr>))"

definition server_info_url :: "bool \<Rightarrow> ('x, 'k) gs_client \<Rightarrow> string \<Rightarrow> string" where
  "server_info_url https s uuid = bounded_copy 2048
     ((if https then ''https'' else ''http'') @ ''://'' @ gs_address (gc_server s) @ '':'' @
      number_text (if https then gs_https_port (gc_server s) else gs_http_port (gc_server s)) @
      ''/serverinfo?uniqueid='' @ gc_unique_id s @ ''&uuid='' @ uuid)"

definition read_server_info :: "expat \<Rightarrow> bool \<Rightarrow> int \<times> string \<Rightarrow> ('x, 'k, int) gs_prog" where
  "read_server_info expat https response =
     (if fst response \<noteq> gamestream_ok then State_Monad.return (fst response)
      else if fst (xml_status_ok expat (snd response)) \<noteq> gamestream_ok then
        State_Monad.return (fst (xml_status_ok expat (snd response)))
      else do {
        result \<leftarrow> look (\<lambda>s. fst (apply_server_info expat https (snd response) (gc_server s)));
        _ \<leftarrow> modify_server (\<lambda>sv. snd (apply_server_info expat https (snd response) sv));
        State_Monad.return result
      })"

definition load_server_info :: "expat \<Rightarrow> ('x, 'k) gs_env \<Rightarrow> bool \<Rightarrow> bool \<Rightarrow> ('x, 'k, int) gs_prog" where
  "load_server_info expat env https cancellable = do {
     r \<leftarrow> ask env (Random For_uuid);
     url \<leftarrow> look (\<lambda>s. server_info_url https s (generate_uuid (ga_bytes r)));
     memory \<leftarrow> ask env Allocate_buffer;
     if \<not> ga_ok memory then State_Monad.return out_of_memory
     else do {
       response \<leftarrow> http_request env url 15 cancellable;
       read_server_info expat https response
     }
   }"

definition refresh_server_info :: "expat \<Rightarrow> ('x, 'k) gs_env \<Rightarrow> ('x, 'k, int) gs_prog" where
  "refresh_server_info expat env = do {
     ready \<leftarrow> look (\<lambda>s. gs_curl (gc_server s) \<and> gs_paired (gc_server s));
     if \<not> ready then State_Monad.return wrong_state
     else do {
       result \<leftarrow> load_server_info expat env True False;
       paired \<leftarrow> look (gs_paired \<circ> gc_server);
       State_Monad.return (if result = gamestream_ok \<and> \<not> paired then wrong_state else result)
     }
   }"

text \<open>What a response to the request to quit is worth.\<close>

definition quit_response :: "expat \<Rightarrow> string \<Rightarrow> int" where
  "quit_response expat body =
     (case xml_parse_cancel expat (Some body) True of (result, response) \<Rightarrow>
        if result = XmlOk then gamestream_ok
        else if result = XmlOutOfMemory then out_of_memory
        else if result = XmlServerError then
          (if map_option rs_status_code response = Some 401 then not_paired else gamestream_failed)
        else gamestream_invalid)"

definition quit_app :: "expat \<Rightarrow> ('x, 'k) gs_env \<Rightarrow> ('x, 'k, int) gs_prog" where
  "quit_app expat env = do {
     ready \<leftarrow> look (\<lambda>s. gs_curl (gc_server s) \<and> gs_paired (gc_server s) \<and> gs_certificate (gc_server s) \<noteq> None);
     if \<not> ready then State_Monad.return wrong_state
     else do {
       response \<leftarrow> gamestream_request env ''cancel'' [] 30;
       if fst response \<noteq> gamestream_ok then State_Monad.return (fst response)
       else if quit_response expat (snd response) \<noteq> gamestream_ok then State_Monad.return (quit_response expat (snd response))
       else do {
         result \<leftarrow> refresh_server_info expat env;
         game \<leftarrow> look (gs_current_game \<circ> gc_server);
         State_Monad.return (if result \<noteq> gamestream_ok then result else if game \<noteq> 0 then quit_failed else gamestream_ok)
       }
     }
   }"

definition version_supported :: "'x server \<Rightarrow> bool" where
  "version_supported sv \<longleftrightarrow> gs_unsupported sv \<or> 3 \<le> gs_major_version sv \<and> gs_major_version sv \<le> 7"

text \<open>
  The state of a server when a connection begins. The plain request serves to find the encrypted port, and to read the state of a server
  that has just refused the client over an authenticated connection.
\<close>

definition load_server_status :: "expat \<Rightarrow> ('x, 'k) gs_env \<Rightarrow> ('x, 'k, int) gs_prog" where
  "load_server_status expat env = do {
     port \<leftarrow> look (gs_https_port \<circ> gc_server);
     first \<leftarrow> (if port = 0 then load_server_info expat env False False else State_Monad.return gamestream_ok);
     if first \<noteq> gamestream_ok then State_Monad.return first
     else do {
       pinned \<leftarrow> look (gs_certificate \<circ> gc_server);
       result \<leftarrow> (if pinned \<noteq> None then do {
           secure \<leftarrow> load_server_info expat env True False;
           if secure = not_paired then load_server_info expat env False False else State_Monad.return secure
         } else do {
           _ \<leftarrow> modify_server (\<lambda>sv. sv\<lparr>gs_paired := False\<rparr>);
           State_Monad.return gamestream_ok
         });
       supported \<leftarrow> look (version_supported \<circ> gc_server);
       State_Monad.return (if result = gamestream_ok \<and> \<not> supported then unsupported_version else result)
     }
   }"

section \<open>The certificate of the server\<close>

definition set_certificate_path :: "string \<Rightarrow> ('x, 'k, int) gs_prog" where
  "set_certificate_path path =
     (if length path \<ge> 512 then State_Monad.return gamestream_invalid
      else do { _ \<leftarrow> modify_server (\<lambda>sv. sv\<lparr>gs_certificate_path := path\<rparr>); State_Monad.return gamestream_ok })"

text \<open>\<open>Open_pin\<close> answers with \<open>ga_code\<close> 0, or with \<open>ENOENT\<close> (2) when there is no file.\<close>

definition load_pinned_certificate :: "('x, 'k) gs_env \<Rightarrow> ('x, 'k, int) gs_prog" where
  "load_pinned_certificate env = do {
     path \<leftarrow> look (gs_certificate_path \<circ> gc_server);
     if path = [] then State_Monad.return gamestream_ok
     else do {
       f \<leftarrow> ask env (Open_pin path);
       if ga_code f \<noteq> 0 then State_Monad.return (if ga_code f = 2 then gamestream_ok else io_error)
       else do {
         c \<leftarrow> ask env (Read_pin path);
         _ \<leftarrow> modify_server (\<lambda>sv. sv\<lparr>gs_certificate := ga_certificate c\<rparr>);
         State_Monad.return (if ga_certificate c = None then security_error else gamestream_ok)
       }
     }
   }"

text \<open>The new file takes the place of the old one only when it has been written completely.\<close>

definition save_pinned_certificate :: "('x, 'k) gs_env \<Rightarrow> ('x, 'k, int) gs_prog" where
  "save_pinned_certificate env = do {
     path \<leftarrow> look (gs_certificate_path \<circ> gc_server);
     certificate \<leftarrow> look (gs_certificate \<circ> gc_server);
     case certificate of None \<Rightarrow> State_Monad.return io_error
     | Some x \<Rightarrow>
         if path = [] then State_Monad.return io_error
         else do {
           f \<leftarrow> ask env (Create_file (path @ ''.tmp''));
           if \<not> ga_ok f then State_Monad.return io_error
           else do {
             w \<leftarrow> ask env (Write_certificate (path @ ''.tmp'') x);
             renamed \<leftarrow> (if ga_ok w then do { a \<leftarrow> ask env (Rename (path @ ''.tmp'') path); State_Monad.return (ga_ok a) }
                       else State_Monad.return False);
             if \<not> renamed then do { _ \<leftarrow> ask env (Remove (path @ ''.tmp'')); State_Monad.return io_error }
             else State_Monad.return gamestream_ok
           }
         }
   }"

section \<open>Beginning and end\<close>

text \<open>The identifier of the client: sixteen characters from its file, or a new one that is written there.\<close>

definition load_unique_id :: "('x, 'k) gs_env \<Rightarrow> string \<Rightarrow> ('x, 'k, int) gs_prog" where
  "load_unique_id env directory = do {
     f \<leftarrow> ask env (Read_id (bounded_copy 1024 (directory @ ''/uniqueid.dat'')));
     if ga_ok f \<and> length (ga_body f) = 16 then do {
       _ \<leftarrow> modify (\<lambda>s. s\<lparr>gc_unique_id := ga_body f\<rparr>);
       State_Monad.return gamestream_ok
     }
     else do {
       r \<leftarrow> ask env (Random For_id);
       if \<not> ga_ok r then State_Monad.return gamestream_failed
       else do {
         _ \<leftarrow> modify (\<lambda>s. s\<lparr>gc_unique_id := bytes_to_hex (ga_bytes r)\<rparr>);
         w \<leftarrow> ask env (Write_id (bounded_copy 1024 (directory @ ''/uniqueid.dat'')) (bytes_to_hex (ga_bytes r)));
         State_Monad.return (if ga_ok w then gamestream_ok else gamestream_failed)
       }
     }
   }"

definition gamestream_shutdown :: "('x, 'k) gs_env \<Rightarrow> ('x, 'k, unit) gs_prog" where
  "gamestream_shutdown env = do {
     curl \<leftarrow> look (gs_curl \<circ> gc_server);
     _ \<leftarrow> (if curl then do { _ \<leftarrow> ask env Curl_delete; modify_server (\<lambda>sv. sv\<lparr>gs_curl := False\<rparr>) } else skip);
     _ \<leftarrow> modify_server (\<lambda>sv. sv\<lparr>gs_certificate := None, gs_paired := False\<rparr>);
     _ \<leftarrow> modify (\<lambda>s. s\<lparr>gc_certificate := None, gc_key := None, gc_cert_hex := [], gc_unique_id := []\<rparr>);
     initialized \<leftarrow> look gc_curl_initialized;
     if initialized then do { _ \<leftarrow> ask env Curl_global_cleanup; modify (\<lambda>s. s\<lparr>gc_curl_initialized := False\<rparr>) } else skip
   }"

text \<open>The handle of curl, with the callback that compares the certificate of the server, and then the state of the server.\<close>

definition init_connection :: "expat \<Rightarrow> ('x, 'k) gs_env \<Rightarrow> string \<Rightarrow> ('x, 'k, int) gs_prog" where
  "init_connection expat env directory = do {
     c \<leftarrow> ask env Curl_new;
     if \<not> ga_ok c then State_Monad.return out_of_memory
     else do {
       f \<leftarrow> ask env (Curl_configure directory);
       if ga_code f \<noteq> 0 then do { _ \<leftarrow> ask env Curl_delete; State_Monad.return (ga_code f) }
       else do {
         _ \<leftarrow> modify_server (\<lambda>sv. sv\<lparr>gs_curl := True\<rparr>);
         pin \<leftarrow> load_pinned_certificate env;
         if pin \<noteq> gamestream_ok then State_Monad.return pin else load_server_status expat env
       }
     }
   }"

definition init_worker :: "expat \<Rightarrow> ('x, 'k) gs_env \<Rightarrow> string \<Rightarrow> u16 \<Rightarrow> string \<Rightarrow> string \<Rightarrow> bool \<Rightarrow> ('x, 'k, int) gs_prog" where
  "init_worker expat env address port directory path unsupported = do {
     _ \<leftarrow> modify_server (\<lambda>_. server_zero\<lparr>gs_address := bounded_copy 256 address, gs_http_port := (if port = 0 then 47989 else port),
            gs_unsupported := unsupported\<rparr>);
     set \<leftarrow> set_certificate_path path;
     if set \<noteq> gamestream_ok then State_Monad.return gamestream_invalid
     else do {
       d \<leftarrow> ask env (Make_directories directory);
       if \<not> ga_ok d then State_Monad.return gamestream_failed
       else do {
         uid \<leftarrow> load_unique_id env directory;
         if uid \<noteq> gamestream_ok then State_Monad.return gamestream_failed
         else do {
           c \<leftarrow> ask env (Load_credentials directory);
           if \<not> ga_ok c then State_Monad.return gamestream_failed
           else do {
             _ \<leftarrow> modify (\<lambda>s. s\<lparr>gc_certificate := ga_certificate c, gc_key := ga_key c, gc_cert_hex := ga_body c\<rparr>);
             initialized \<leftarrow> look gc_curl_initialized;
             ready \<leftarrow> (if initialized then State_Monad.return True else do {
                 g \<leftarrow> ask env Curl_global_init;
                 _ \<leftarrow> modify (\<lambda>s. s\<lparr>gc_curl_initialized := ga_ok g\<rparr>);
                 State_Monad.return (ga_ok g)
               });
             if \<not> ready then State_Monad.return gamestream_failed else init_connection expat env directory
           }
         }
       }
     }
   }"

text \<open>Long work runs on a thread with a stack that is large enough; without one it fails.\<close>

definition run_on_worker :: "('x, 'k) gs_env \<Rightarrow> ('x, 'k, int) gs_prog \<Rightarrow> ('x, 'k, int) gs_prog" where
  "run_on_worker env work = do {
     t \<leftarrow> ask env Start_worker;
     if ga_ok t then work else State_Monad.return internal_error
   }"

definition gamestream_init :: "expat \<Rightarrow> ('x, 'k) gs_env \<Rightarrow> string \<Rightarrow> u16 \<Rightarrow> string \<Rightarrow> string \<Rightarrow> bool \<Rightarrow> ('x, 'k, int) gs_prog" where
  "gamestream_init expat env address port directory path unsupported =
     (if address = [] \<or> directory = [] then State_Monad.return gamestream_invalid
      else do {
        result \<leftarrow> run_on_worker env (init_worker expat env address port directory path unsupported);
        _ \<leftarrow> (if result \<noteq> gamestream_ok then gamestream_shutdown env else skip);
        State_Monad.return result
      })"

section \<open>Symbolic execution\<close>

text \<open>Rules that only look at random bytes, transfers and the pin that is read.\<close>

definition gs_calm :: "('w \<Rightarrow> 'x gs_call \<Rightarrow> ('x, 'k) gs_answer \<Rightarrow> 'w option) \<Rightarrow> bool" where
  "gs_calm rule \<longleftrightarrow>
     (\<forall>w c a. (case c of Perform url t x \<Rightarrow> False | Random p \<Rightarrow> p = For_uuid | Read_pin path \<Rightarrow> False | Curl_global_init \<Rightarrow> False
         | Curl_new \<Rightarrow> False | Curl_configure p \<Rightarrow> False | Curl_delete \<Rightarrow> False | Curl_global_cleanup \<Rightarrow> False
         | Start_worker \<Rightarrow> False | Is_cancelled \<Rightarrow> False | _ \<Rightarrow> True) \<longrightarrow>
       rule w c a = Some w)"

definition gs_quiet :: "('w \<Rightarrow> 'x gs_call \<Rightarrow> ('x, 'k) gs_answer \<Rightarrow> 'w option) \<Rightarrow> bool" where
  "gs_quiet rule \<longleftrightarrow> gs_calm rule \<and> (\<forall>w a. rule w Is_cancelled a = Some w)"

lemma gs_calmD:
  assumes "gs_calm rule"
  shows "rule w Allocate_buffer a = Some w" "rule w Set_up_transfer a = Some w"
    "rule w (Open_pin p) a = Some w" "rule w (Create_file p) a = Some w" "rule w (Write_certificate p x) a = Some w"
    "rule w (Rename p q) a = Some w" "rule w (Remove p) a = Some w" "rule w (Make_directories p) a = Some w"
    "rule w (Read_id p) a = Some w" "rule w (Write_id p i) a = Some w" "rule w (Load_credentials p) a = Some w"
    "rule w Delay a = Some w" "rule w (Random For_uuid) a = Some w"
  using assms by (simp_all add: gs_calm_def)

lemmas gs_quietD = gs_calmD [OF conjunct1 [OF gs_quiet_def [THEN iffD1]]]

lemma gs_quiet_calm: "gs_quiet rule \<Longrightarrow> gs_calm rule"
  by (simp add: gs_quiet_def)

text \<open>A look at the cancellation, where there is one.\<close>

lemma is_cancelled_calm:
  "(c \<Longrightarrow> \<forall>w a. rule w Is_cancelled a = Some w) \<Longrightarrow> (\<And>b. safe rule start s w (g b) Q) \<Longrightarrow>
     safe rule start s w (State_Monad.bind (is_cancelled env c) g) Q"
  unfolding is_cancelled_def by (auto intro!: safe_intro)

lemma is_cancelled_rule:
  "gs_quiet rule \<Longrightarrow> (\<And>b. safe rule start s w (g b) Q) \<Longrightarrow> safe rule start s w (State_Monad.bind (is_cancelled env c) g) Q"
  by (rule is_cancelled_calm) (auto simp: gs_quiet_def)

lemma last_http_same [simp]: "s\<lparr>gc_last_http := gc_last_http s\<rparr> = s"
  by simp

lemma transfer_error_not_ok [simp]: "transfer_error a \<noteq> gamestream_ok"
  by (simp add: transfer_error_def result_defs)

lemma codes_not_ok [simp]:
  "gamestream_cancelled \<noteq> gamestream_ok" "gamestream_invalid \<noteq> gamestream_ok" "security_error \<noteq> gamestream_ok"
  "out_of_memory \<noteq> gamestream_ok" "internal_error \<noteq> gamestream_ok" "gamestream_failed \<noteq> gamestream_ok" "wrong_state \<noteq> gamestream_ok"
  "incorrect_pin \<noteq> gamestream_ok" "unsupported_version \<noteq> gamestream_ok" "not_paired \<noteq> gamestream_ok" "quit_failed \<noteq> gamestream_ok"
  "io_error \<noteq> gamestream_ok"
  by (simp_all add: result_defs)

text \<open>A request fails before its transfer, or makes one, with the pinned certificate if it is encrypted.\<close>

lemma transfer_rule:
  assumes "gs_calm rule" "c \<Longrightarrow> \<forall>w a. rule w Is_cancelled a = Some w"
    "\<And>a. \<exists>w'. rule w (Perform url timeout pinned) a = Some w' \<and>
        (\<forall>n r. r = (gamestream_cancelled, []) \<or> r = transfer_result a \<longrightarrow>
           safe rule start (s\<lparr>gc_last_http := n\<rparr>) w' (g r) Q)"
  shows "safe rule start s w (State_Monad.bind (transfer env url timeout pinned c) g) Q"
  unfolding transfer_def
proof (intro safe_assoc safe_ask)
  fix a
  obtain w' where w': "rule w (Perform url timeout pinned) a = Some w'"
    "\<And>n r. r = (gamestream_cancelled, []) \<or> r = transfer_result a \<Longrightarrow>
           safe rule start (s\<lparr>gc_last_http := n\<rparr>) w' (g r) Q"
    using assms(3) [of a] by blast
  show "\<exists>w'. rule w (Perform url timeout pinned) a = Some w' \<and>
      safe rule start s w' (State_Monad.bind (State_Monad.bind (modify (\<lambda>s. s\<lparr>gc_last_http := ga_code a\<rparr>)) (\<lambda>_. do {
        cancelled \<leftarrow> is_cancelled env c;
        State_Monad.return (if cancelled then (gamestream_cancelled, []) else transfer_result a)
      })) g) Q"
    by (intro exI [of _ w'] conjI w'(1) safe_assoc safe_modify is_cancelled_calm assms(2) safe_return_bind) (auto intro!: w'(2))
qed

lemma http_request_calm:
  assumes "gs_calm rule" "c \<Longrightarrow> \<forall>w a. rule w Is_cancelled a = Some w"
    "\<And>n code. code \<noteq> gamestream_ok \<Longrightarrow> safe rule start (s\<lparr>gc_last_http := n\<rparr>) w (g (code, [])) Q"
    "\<And>a. gs_curl (gc_server s) \<Longrightarrow> (is_https url \<Longrightarrow> gs_certificate (gc_server s) \<noteq> None) \<Longrightarrow>
      \<exists>w'. rule w (Perform url timeout (gs_certificate (gc_server s))) a = Some w' \<and>
        (\<forall>n r. r = (gamestream_cancelled, []) \<or> r = transfer_result a \<longrightarrow>
           safe rule start (s\<lparr>gc_last_http := n\<rparr>) w' (g r) Q)"
  shows "safe rule start s w (State_Monad.bind (http_request env url timeout c) g) Q"
proof -
  have early: "safe rule start s w (g (code, [])) Q" if "code \<noteq> gamestream_ok" for code
    using assms(3) [OF that, of "gc_last_http s"] by simp
  have late: "safe rule start s w (State_Monad.bind (transfer env url timeout (gs_certificate (gc_server s)) c) g) Q"
    if "gs_curl (gc_server s)" "is_https url \<Longrightarrow> gs_certificate (gc_server s) \<noteq> None"
    by (rule transfer_rule [OF assms(1)], rule assms(2), assumption, rule assms(4) [OF that])
  have late_some: "safe rule start s w (State_Monad.bind (transfer env url timeout (Some y) c) g) Q"
    if "gs_curl (gc_server s)" "gs_certificate (gc_server s) = Some y" for y
    using late that by simp
  show ?thesis
    unfolding http_request_def
    by (auto intro!: safe_assoc safe_look safe_modify is_cancelled_calm safe_if_bind safe_return_bind safe_ask early late late_some assms(2,3)
        simp: gs_calmD [OF assms(1)])
qed

lemma http_request_rule:
  assumes "gs_quiet rule"
    "\<And>n code. code \<noteq> gamestream_ok \<Longrightarrow> safe rule start (s\<lparr>gc_last_http := n\<rparr>) w (g (code, [])) Q"
    "\<And>a. gs_curl (gc_server s) \<Longrightarrow> (is_https url \<Longrightarrow> gs_certificate (gc_server s) \<noteq> None) \<Longrightarrow>
      \<exists>w'. rule w (Perform url timeout (gs_certificate (gc_server s))) a = Some w' \<and>
        (\<forall>n r. r = (gamestream_cancelled, []) \<or> r = transfer_result a \<longrightarrow>
           safe rule start (s\<lparr>gc_last_http := n\<rparr>) w' (g r) Q)"
  shows "safe rule start s w (State_Monad.bind (http_request env url timeout c) g) Q"
  by (rule http_request_calm) (use assms in \<open>auto simp: gs_quiet_def\<close>)

lemma transfer_result_ok [simp]: "fst (transfer_result a) = gamestream_ok \<longleftrightarrow> ga_code a = 0"
  by (simp add: transfer_result_def)

text \<open>The code 401 of HTTP is the only failure of a transfer that means that the client is not paired.\<close>

lemma transfer_not_paired:
  "fst (transfer_result a) = not_paired \<Longrightarrow> ga_code a = curle_http_returned_error \<and> ga_status a = 401"
  by (auto simp: transfer_result_def transfer_error_def result_defs split: if_splits)

lemma server_info_url_https: "is_https (server_info_url https s uuid) = https"
  by (simp add: server_info_url_def is_https_def bounded_copy_def)

lemma request_url_https: "is_https (request_url s endpoint uuid query)"
  by (simp add: request_url_def is_https_def Let_def)

section \<open>Trust\<close>

text \<open>
  The rules that a run is held against. The library is initialized before a handle is made and cleaned up when there is none,
  a handle is used and deleted while there is one; an encrypted request carries a certificate; and a request in the clear does not follow an encrypted one
  that has failed, unless the server had answered that it does not know the client. They keep the certificates of the servers that have been authenticated.
\<close>

record 'x trust =
  tr_global :: bool
  tr_handle :: bool
  tr_seen :: "'x set"
  tr_failed :: bool

definition trust_start :: "'x trust" where
  "trust_start = \<lparr>tr_global = False, tr_handle = False, tr_seen = {}, tr_failed = False\<rparr>"

fun trust_rule :: "'x trust \<Rightarrow> 'x gs_call \<Rightarrow> ('x, 'k) gs_answer \<Rightarrow> 'x trust option" where
  "trust_rule w c a =
     (case c of
        Perform url t x \<Rightarrow>
          if \<not> tr_handle w then None
          else if is_https url then
            (case x of None \<Rightarrow> None
             | Some y \<Rightarrow> Some (w\<lparr>tr_seen := (if ga_code a = 0 then insert y (tr_seen w) else tr_seen w),
                 tr_failed := (ga_code a \<noteq> 0 \<and> \<not> (ga_code a = curle_http_returned_error \<and> ga_status a = 401))\<rparr>))
          else if tr_failed w then None else Some w
      | Start_worker \<Rightarrow> Some (w\<lparr>tr_failed := False\<rparr>)
      | Curl_global_init \<Rightarrow> if tr_global w then None else Some (w\<lparr>tr_global := ga_ok a\<rparr>)
      | Curl_new \<Rightarrow> if \<not> tr_global w \<or> tr_handle w then None else Some (w\<lparr>tr_handle := ga_ok a\<rparr>)
      | Curl_configure directory \<Rightarrow> if tr_handle w then Some w else None
      | Curl_delete \<Rightarrow> if tr_handle w then Some (w\<lparr>tr_handle := False\<rparr>) else None
      | Curl_global_cleanup \<Rightarrow> if tr_global w \<and> \<not> tr_handle w then Some (w\<lparr>tr_global := False\<rparr>) else None
      | _ \<Rightarrow> Some w)"

lemma trust_quiet: "gs_quiet (trust_rule :: 'x trust \<Rightarrow> 'x gs_call \<Rightarrow> ('x, 'k) gs_answer \<Rightarrow> 'x trust option)"
  by (auto simp: gs_quiet_def gs_calm_def split: gs_call.splits)

text \<open>What the variables of the client say of the run: a server counts as paired only with an authenticated certificate.\<close>

definition trusted :: "('x, 'k) gs_client \<Rightarrow> 'x trust \<Rightarrow> bool" where
  "trusted s w \<longleftrightarrow> gc_curl_initialized s = tr_global w \<and> gs_curl (gc_server s) = tr_handle w \<and> (tr_handle w \<longrightarrow> tr_global w) \<and>
     (gs_paired (gc_server s) \<longrightarrow> (\<exists>x \<in> tr_seen w. gs_certificate (gc_server s) = Some x))"

lemma identity_of_frame [simp]:
  "gs_curl (identity_of get sv) = gs_curl sv" "gs_certificate (identity_of get sv) = gs_certificate sv"
  "gs_paired (identity_of get sv) = gs_paired sv"
  by (simp_all add: identity_of_def Let_def split: prod.split)

lemma apply_server_info_frame:
  assumes "apply_server_info expat https body sv = (r, sv')"
  shows "gs_curl sv' = gs_curl sv" "gs_certificate sv' = gs_certificate sv"
    "gs_paired sv' \<Longrightarrow> gs_paired sv \<or> https \<and> gs_certificate sv \<noteq> None"
  using assms by (auto simp: apply_server_info_def Let_def split: prod.splits if_splits option.splits)

text \<open>Reading the information about the server.\<close>

lemma trusted_last [simp]: "trusted (s\<lparr>gc_last_http := n\<rparr>) w = trusted s w"
  by (simp add: trusted_def)

lemma trusted_failed [simp]: "trusted s (w\<lparr>tr_failed := b\<rparr>) = trusted s w"
  by (simp add: trusted_def)

lemma trusted_more: "trusted s w \<Longrightarrow> trusted s (w\<lparr>tr_seen := insert x (tr_seen w)\<rparr>)"
  by (auto simp: trusted_def)

definition info_post :: "('x, 'k) gs_client \<Rightarrow> 'x trust \<Rightarrow> bool \<Rightarrow> int \<Rightarrow> ('x, 'k) gs_client \<Rightarrow> 'x trust \<Rightarrow> bool" where
  "info_post s w https r s' w' \<longleftrightarrow> trusted s' w' \<and> tr_handle w' = tr_handle w \<and> tr_global w' = tr_global w \<and>
     gs_certificate (gc_server s') = gs_certificate (gc_server s) \<and>
     (\<not> https \<longrightarrow> tr_failed w' = tr_failed w) \<and> (r = not_paired \<longrightarrow> \<not> tr_failed w \<longrightarrow> \<not> tr_failed w') \<and>
     (r = gamestream_ok \<longrightarrow> \<not> tr_failed w \<longrightarrow> \<not> tr_failed w')"

lemma info_post_same: "trusted s w \<Longrightarrow> info_post s w https r (s\<lparr>gc_last_http := n\<rparr>) w"
  by (simp add: info_post_def)

lemma info_post_clear: "trusted s w \<Longrightarrow> \<not> https \<Longrightarrow> apply_server_info expat https body (gc_server s) = (r, sv') \<Longrightarrow>
    info_post s w https r' (s\<lparr>gc_last_http := n, gc_server := sv'\<rparr>) w"
  using apply_server_info_frame [of expat https body "gc_server s" r sv'] by (auto simp: info_post_def trusted_def)

lemma info_post_secure: "trusted s w \<Longrightarrow> https \<Longrightarrow> gs_certificate (gc_server s) = Some x \<Longrightarrow>
    apply_server_info expat https body (gc_server s) = (r, sv') \<Longrightarrow>
    info_post s w https r' (s\<lparr>gc_last_http := n, gc_server := sv'\<rparr>) (w\<lparr>tr_seen := insert x (tr_seen w), tr_failed := False\<rparr>)"
  using apply_server_info_frame [of expat https body "gc_server s" r sv'] by (auto simp: info_post_def trusted_def)

lemma info_post_refused: "trusted s w \<Longrightarrow> https \<Longrightarrow> (r = not_paired \<or> r = gamestream_ok \<Longrightarrow> \<not> b) \<Longrightarrow>
    seen = tr_seen w \<or> seen = insert x (tr_seen w) \<Longrightarrow>
    info_post s w https r (s\<lparr>gc_last_http := n\<rparr>) (w\<lparr>tr_seen := seen, tr_failed := b\<rparr>)"
  by (auto simp: info_post_def trusted_def)

text \<open>What a transfer leaves, before the response is read.\<close>

lemma load_server_info_trust:
  fixes env :: "('x, 'k) gs_env"
  assumes "trusted s w" "https \<or> \<not> tr_failed w"
  shows "safe trust_rule trust_start s w (load_server_info expat env https c) (info_post s w https)"
proof -
  note quiet = trust_quiet [where ?'x = 'x and ?'k = 'k]
  have tail: "safe trust_rule trust_start (s\<lparr>gc_last_http := n\<rparr>) w' (read_server_info expat https r) (info_post s w https)"
    if "\<And>code. fst r \<noteq> gamestream_ok \<Longrightarrow> code = fst r \<Longrightarrow> info_post s w https code (s\<lparr>gc_last_http := n\<rparr>) w'"
      "\<And>code. fst r = gamestream_ok \<Longrightarrow> info_post s w https code (s\<lparr>gc_last_http := n\<rparr>) w'"
      "\<And>code r' sv'. fst r = gamestream_ok \<Longrightarrow> apply_server_info expat https (snd r) (gc_server s) = (r', sv') \<Longrightarrow>
         info_post s w https code (s\<lparr>gc_last_http := n, gc_server := sv'\<rparr>) w'" for n r w'
    unfolding read_server_info_def modify_server_def
    by (intro safe_intro) (auto intro: that simp: that(3) [OF _ surjective_pairing])
  have request: "safe trust_rule trust_start s w (State_Monad.bind (http_request env url 15 c) (read_server_info expat https)) (info_post s w https)" if url: "is_https url = https" for url
  proof (rule http_request_rule [OF quiet], goal_cases)
    case (1 n code)
    then show ?case by (intro tail) (auto intro: info_post_same assms(1))
  next
    case (2 a)
    show ?case
    proof (cases https)
      case True
      then obtain x where x: "gs_certificate (gc_server s) = Some x" using 2 url by auto
      let ?seen = "if ga_code a = 0 then insert x (tr_seen w) else tr_seen w"
      let ?failed = "ga_code a \<noteq> 0 \<and> \<not> (ga_code a = curle_http_returned_error \<and> ga_status a = 401)"
      let ?w = "w\<lparr>tr_seen := ?seen, tr_failed := ?failed\<rparr>"
      have "safe trust_rule trust_start (s\<lparr>gc_last_http := n\<rparr>) ?w (read_server_info expat https r) (info_post s w https)" if r: "r = (gamestream_cancelled, []) \<or> r = transfer_result a" for n r
      proof (rule tail)
        have cancelled: "gamestream_cancelled \<noteq> not_paired" by (simp add: result_defs)
        show "info_post s w https code (s\<lparr>gc_last_http := n\<rparr>) ?w" if "fst r \<noteq> gamestream_ok" "code = fst r" for code
          using r that cancelled by (intro info_post_refused [where x = x] assms(1) True) (auto dest: transfer_not_paired)
        show "info_post s w https code (s\<lparr>gc_last_http := n\<rparr>) ?w" if "fst r = gamestream_ok" for code
          using r that by (intro info_post_refused [where x = x] assms(1) True) auto
        show "info_post s w https code (s\<lparr>gc_last_http := n, gc_server := sv'\<rparr>) ?w"
          if "fst r = gamestream_ok" "apply_server_info expat https (snd r) (gc_server s) = (r', sv')" for code r' sv'
          using r that info_post_secure [OF assms(1) True x that(2)] by auto
      qed
      moreover have "trust_rule w (Perform url 15 (gs_certificate (gc_server s))) a = Some ?w"
        using 2 url x True assms(1) by (simp add: trusted_def)
      ultimately show ?thesis by blast
    next
      case False
      then have "trust_rule w (Perform url 15 (gs_certificate (gc_server s))) a = Some w"
        using 2 url assms by (simp add: trusted_def)
      moreover have "info_post s w https code (s\<lparr>gc_last_http := n\<rparr>) w" for code n
        using info_post_same [OF assms(1)] .
      ultimately show ?thesis
        using info_post_clear [OF assms(1) False] by (auto intro!: tail)
    qed
  qed
  have "info_post s w https code s w" for code
    using info_post_same [OF assms(1), of https code "gc_last_http s"] by simp
  then show ?thesis
    unfolding load_server_info_def
    by (auto intro!: safe_ask safe_look safe_if safe_return request simp: gs_quietD [OF quiet] server_info_url_https)
qed

lemma load_server_info_bind:
  assumes "trusted s w" "https \<or> \<not> tr_failed w"
    "\<And>r s' w'. info_post s w https r s' w' \<Longrightarrow> safe trust_rule trust_start s' w' (g r) Q"
  shows "safe trust_rule trust_start s w (State_Monad.bind (load_server_info expat env https c) g) Q"
  by (rule safe_bind [OF load_server_info_trust [OF assms(1,2)] assms(3)])

lemma info_post_trusted: "info_post s w https r s' w' \<Longrightarrow> trusted s' w'"
  by (simp add: info_post_def)

lemma refresh_server_info_trust:
  "trusted s w \<Longrightarrow> safe trust_rule trust_start s w (refresh_server_info expat env) (\<lambda>_. trusted)"
  unfolding refresh_server_info_def
  by (auto intro!: safe_look safe_if safe_return load_server_info_bind dest: info_post_trusted)

lemma gamestream_request_trust:
  fixes env :: "('x, 'k) gs_env"
  assumes "trusted s w"
  shows "safe trust_rule trust_start s w (gamestream_request env endpoint query timeout) (\<lambda>_. trusted)"
proof -
  note quiet = trust_quiet [where ?'x = 'x and ?'k = 'k]
  have request: "safe trust_rule trust_start s w (http_request env url timeout False) (\<lambda>_. trusted)" if url: "is_https url" for url
  proof -
    have "safe trust_rule trust_start s w (State_Monad.bind (http_request env url timeout False) State_Monad.return) (\<lambda>_. trusted)"
    proof (rule http_request_rule [OF quiet], goal_cases)
      case (2 a)
      then obtain x where "gs_certificate (gc_server s) = Some x" using url by auto
      then show ?case using 2 assms url by (auto intro!: safe_return simp: trusted_more) (auto simp: trusted_def)
    qed (auto intro!: safe_return simp: assms)
    then show ?thesis by simp
  qed
  show ?thesis
    unfolding gamestream_request_def
    by (auto intro!: safe_if safe_return safe_ask safe_look request simp: gs_quietD [OF quiet] assms request_url_https)
qed

lemma quit_app_trust:
  "trusted s w \<Longrightarrow> safe trust_rule trust_start s w (quit_app expat env) (\<lambda>_. trusted)"
  unfolding quit_app_def
  by (intro safe_look safe_if safe_return safe_bind [OF gamestream_request_trust] safe_bind [OF refresh_server_info_trust]) auto

lemma trusted_unpaired: "trusted s w \<Longrightarrow> trusted (s\<lparr>gc_server := (gc_server s)\<lparr>gs_paired := False\<rparr>\<rparr>) w"
  by (simp add: trusted_def)

lemma load_server_status_trust:
  assumes "trusted s w" "\<not> tr_failed w"
  shows "safe trust_rule trust_start s w (load_server_status expat env) (\<lambda>_ s' w'. trusted s' w' \<and> tr_handle w' = tr_handle w)"
  unfolding load_server_status_def modify_server_def using assms
  by (intro safe_look safe_if_bind safe_if safe_return safe_return_bind load_server_info_bind safe_assoc safe_modify)
    (auto simp: info_post_def intro: trusted_unpaired)

text \<open>Beginning: what the server is known to be is forgotten, and a handle is left only where its creation succeeded.\<close>

lemma load_pinned_certificate_trust:
  fixes env :: "('x, 'k) gs_env"
  assumes "trusted s w" "\<not> gs_paired (gc_server s)"
  shows "safe trust_rule trust_start s w (load_pinned_certificate env)
    (\<lambda>_ s' w'. trusted s' w' \<and> w' = w \<and> gs_curl (gc_server s') = gs_curl (gc_server s))"
  unfolding load_pinned_certificate_def modify_server_def
  using assms by (auto intro!: safe_intro simp: trusted_def)

lemma load_unique_id_trust:
  fixes env :: "('x, 'k) gs_env"
  assumes "trusted s w"
  shows "safe trust_rule trust_start s w (load_unique_id env directory)
    (\<lambda>_ s' w'. trusted s' w' \<and> w' = w \<and> gc_server s' = gc_server s)"
  unfolding load_unique_id_def
  using assms by (auto intro!: safe_intro simp: trusted_def)

lemma gamestream_shutdown_trust:
  "trusted s w \<Longrightarrow> safe trust_rule trust_start s w (gamestream_shutdown env)
     (\<lambda>_ s' w'. trusted s' w' \<and> \<not> tr_handle w' \<and> \<not> tr_global w' \<and> \<not> gs_paired (gc_server s') \<and> gs_certificate (gc_server s') = None)"
  unfolding gamestream_shutdown_def modify_server_def
  by (auto intro!: safe_intro simp: trusted_def)

lemma init_connection_trust:
  assumes "trusted s w" "\<not> tr_failed w" "\<not> gs_paired (gc_server s)" "tr_global w" "\<not> tr_handle w"
  shows "safe trust_rule trust_start s w (init_connection expat env directory) (\<lambda>_. trusted)"
proof -
  let ?s = "s\<lparr>gc_server := (gc_server s)\<lparr>gs_curl := True\<rparr>\<rparr>" and ?w = "w\<lparr>tr_handle := True\<rparr>"
  have connected: "safe trust_rule trust_start ?s ?w (do {
      pin \<leftarrow> load_pinned_certificate env;
      if pin \<noteq> gamestream_ok then State_Monad.return pin else load_server_status expat env
    }) (\<lambda>_. trusted)"
  proof (rule safe_bind [OF load_pinned_certificate_trust])
    show "trusted ?s ?w" "\<not> gs_paired (gc_server ?s)" using assms by (simp_all add: trusted_def)
    show "safe trust_rule trust_start s' w' (if pin \<noteq> gamestream_ok then State_Monad.return pin else load_server_status expat env)
        (\<lambda>_. trusted)" if "trusted s' w' \<and> w' = ?w \<and> gs_curl (gc_server s') = gs_curl (gc_server ?s)" for pin s' w'
      using that assms(2) by (auto intro!: safe_if safe_return safe_weaken [OF load_server_status_trust])
  qed
  have same: "w\<lparr>tr_handle := False\<rparr> = w" using assms(5) by (cases w) simp
  show ?thesis
    unfolding init_connection_def modify_server_def using assms connected
    by (auto intro!: safe_ask safe_if safe_return safe_assoc safe_modify simp: same)
qed

lemma init_worker_trust:
  assumes "trusted s w" "\<not> tr_failed w" "\<not> tr_handle w"
  shows "safe trust_rule trust_start s w (init_worker expat env address port directory path unsupported) (\<lambda>_. trusted)"
proof -
  define fresh where "fresh s' w' \<longleftrightarrow> trusted s' w' \<and> w' = w \<and> \<not> gs_paired (gc_server s')" for s' :: "('a, 'b) gs_client" and w'
  have zeroed: "trusted (s\<lparr>gc_server := server_zero\<lparr>gs_address := a, gs_http_port := p, gs_unsupported := u\<rparr>\<rparr>) w" for a p u
    using assms by (simp add: trusted_def server_zero_def)
  have unpaired: "\<not> gs_paired (server_zero :: 'a server)" by (simp add: server_zero_def)
  have path: "safe trust_rule trust_start s' w' (set_certificate_path path) (\<lambda>_. fresh)" if "fresh s' w'" for s' w'
    unfolding set_certificate_path_def modify_server_def using that by (auto intro!: safe_intro simp: fresh_def trusted_def)
  have id: "safe trust_rule trust_start s' w' (load_unique_id env directory) (\<lambda>_. fresh)" if "fresh s' w'" for s' w'
  proof -
    have f: "trusted s' w'" "w' = w" "\<not> gs_paired (gc_server s')" using that unfolding fresh_def by blast+
    show ?thesis by (rule safe_weaken [OF load_unique_id_trust [OF f(1)]]) (use f in \<open>auto simp: fresh_def\<close>)
  qed
  have credentials: "fresh (s'\<lparr>gc_certificate := x, gc_key := k, gc_cert_hex := h\<rparr>) w'" if "fresh s' w'" for s' w' x k h
    using that unfolding fresh_def by (elim conjE) (simp add: trusted_def)
  have connect: "safe trust_rule trust_start s' w' (do {
      initialized \<leftarrow> look gc_curl_initialized;
      ready \<leftarrow> (if initialized then State_Monad.return True else do {
          g \<leftarrow> ask env Curl_global_init;
          _ \<leftarrow> modify (\<lambda>s. s\<lparr>gc_curl_initialized := ga_ok g\<rparr>);
          State_Monad.return (ga_ok g)
        });
      if \<not> ready then State_Monad.return gamestream_failed else init_connection expat env directory
    }) (\<lambda>_. trusted)" if f: "fresh s' w'" for s' w'
  proof -
    have w': "w' = w" using f by (simp add: fresh_def)
    have t: "trusted s' w" using f by (simp add: fresh_def w')
    have s': "trusted s' w" "w' = w" "\<not> gs_paired (gc_server s')" "gc_curl_initialized s' = tr_global w"
      using f t w' by (simp_all add: fresh_def trusted_def)
    have on: "trusted (s'\<lparr>gc_curl_initialized := b\<rparr>) (w\<lparr>tr_global := b\<rparr>)" for b
      using s' assms(3) by (simp add: trusted_def)
    show ?thesis
      using s' assms on by (auto intro!: safe_look safe_if_bind safe_if safe_return_bind safe_return safe_assoc safe_ask safe_modify init_connection_trust)
  qed
  show ?thesis
    unfolding init_worker_def modify_server_def
    by (auto intro!: safe_modify safe_bind [OF path] safe_bind [OF id] connect credentials safe_ask safe_if safe_return zeroed unpaired simp: fresh_def)
qed

lemma run_on_worker_trust:
  assumes "\<And>w'. w' = w\<lparr>tr_failed := False\<rparr> \<Longrightarrow> safe trust_rule trust_start s w' work (\<lambda>_. trusted)" "trusted s w"
  shows "safe trust_rule trust_start s w (run_on_worker env work) (\<lambda>_. trusted)"
  unfolding run_on_worker_def using assms by (auto intro!: safe_ask safe_if safe_return)

text \<open>A client that is not connected, and only such a one, may be initialized; a failure leaves nothing open.\<close>

lemma gamestream_init_trust:
  assumes "trusted s w" "\<not> gs_curl (gc_server s)"
  shows "safe trust_rule trust_start s w (gamestream_init expat env address port directory path unsupported) (\<lambda>_. trusted)"
proof -
  have worker: "safe trust_rule trust_start s w
      (run_on_worker env (init_worker expat env address port directory path unsupported)) (\<lambda>_. trusted)"
    using assms by (intro run_on_worker_trust init_worker_trust) (auto simp: trusted_def)
  have shutdown: "safe trust_rule trust_start s' w' (gamestream_shutdown env) (\<lambda>_. trusted)" if "trusted s' w'" for s' :: "('a, 'b) gs_client" and w'
    by (rule safe_weaken [OF gamestream_shutdown_trust [OF that]]) simp
  show ?thesis
    unfolding gamestream_init_def using assms
    by (auto intro!: safe_if safe_return safe_bind [OF worker] safe_if_bind safe_return_bind safe_bind [OF shutdown])
qed

end
