(* ===== verification/StreamLaunch.thy ===== *)
theory StreamLaunch imports GameStream begin

text \<open>
  How a stream is started on the server (\<open>load_launch_session\<close>, \<open>make_hex\<close> and the first part of \<open>run_stream_session\<close> in
  \<open>src/moonlight/stream_session.cpp\<close>), over the GameStream client: the fresh information about the server, the running application that is quit only
  with approval, the request that launches or resumes, and what the connection library is then called with.

  The owner of the session runs this code; its looks at the cancellation are the calls \<open>Is_cancelled\<close>. The connection library (a submodule) is a
  record: the audio information and the query text it asks for, and the codec that stands for an unknown one. A result is an \<open>int\<close> as in the code,
  where the results of the response parser share the numbers.
\<close>

section \<open>Definitions\<close>

record launch_settings =
  ls_width :: int
  ls_height :: int
  ls_fps :: int
  ls_bitrate :: int
  ls_sops :: int
  ls_localaudio :: int
  ls_remote_optimization :: bool

record connection_library =
  cn_surround_info :: nat
  cn_query :: string
  cn_h264 :: int

definition signed_text :: "int \<Rightarrow> string" where
  "signed_text i = (if i < 0 then ''-'' @ decimal_text (nat (- i)) else decimal_text (nat i))"

text \<open>\<open>None\<close> when the output is too small.\<close>

definition make_hex :: "u8 list \<Rightarrow> nat \<Rightarrow> string option" where
  "make_hex bytes output_size = (if output_size < length bytes * 2 + 1 then None else Some (bytes_to_hex bytes))"

text \<open>The number of the key is made of the first four bytes of the vector, the most significant first.\<close>

definition rikey_id :: "u8 list \<Rightarrow> u32" where
  "rikey_id iv = word_rcat (take 4 iv)"

definition launch_query :: "connection_library \<Rightarrow> int \<Rightarrow> launch_settings \<Rightarrow> string \<Rightarrow> u8 list \<Rightarrow> string" where
  "launch_query cn app ls rikey_hex iv = bounded_copy 4096
     (''appid='' @ signed_text app @ ''&mode='' @ signed_text (ls_width ls) @ ''x'' @ signed_text (ls_height ls) @ ''x'' @ signed_text (ls_fps ls) @
      ''&additionalStates=1&sops='' @ signed_text (ls_sops ls) @ ''&rikey='' @ rikey_hex @ ''&rikeyid='' @ decimal_text (unat (rikey_id iv)) @
      ''&localAudioPlayMode='' @ signed_text (ls_localaudio ls) @ ''&surroundAudioInfo='' @ decimal_text (cn_surround_info cn) @
      ''&remoteControllersBitmap=1&gcmap=1'' @ cn_query cn)"

text \<open>The address of the session from the response, or the default one; \<open>None\<close> when it does not fit the buffer.\<close>

definition session_url :: "nat \<Rightarrow> string \<Rightarrow> response \<Rightarrow> string option" where
  "session_url room address response =
     (let url = (if rs_session_url_present response then rs_session_url response else ''rtsp://'' @ address @ '':48010'')
      in if length url \<ge> room then None else Some url)"

text \<open>What is done with the response to the request that launches.\<close>

definition accept_launch :: "expat \<Rightarrow> bool \<Rightarrow> int \<Rightarrow> nat \<Rightarrow> string \<Rightarrow> ('x, 'k, int + string) gs_prog" where
  "accept_launch expat resume app room body =
     (case xml_parse_launch expat (Some body) resume True of (result, response) \<Rightarrow>
        if result \<noteq> XmlOk then State_Monad.return (Inl (xml_code result))
        else do {
          url \<leftarrow> look (\<lambda>s. session_url room (gs_address (gc_server s)) (the response));
          case url of None \<Rightarrow> State_Monad.return (Inl (- 6))
          | Some url \<Rightarrow> do {
              _ \<leftarrow> modify_server (\<lambda>sv. sv\<lparr>gs_session_url := bounded_copy 256 url, gs_current_game := app\<rparr>);
              State_Monad.return (Inr url)
            }
        })"

text \<open>The application that runs on the server: none of its own, or quit with approval; \<open>Inr\<close> says whether there is one to resume.\<close>

definition settle_running_app :: "expat \<Rightarrow> ('x, 'k) gs_env \<Rightarrow> int \<Rightarrow> int \<Rightarrow> ('x, 'k, int) gs_prog" where
  "settle_running_app expat env app quit_app_id = do {
     game \<leftarrow> look (gs_current_game \<circ> gc_server);
     if game \<noteq> 0 \<and> game \<noteq> app then
       (if quit_app_id \<noteq> game then State_Monad.return app_conflict else quit_app expat env)
     else State_Monad.return gamestream_ok
   }"

definition stream_cancelled :: "('x, 'k) gs_env \<Rightarrow> ('x, 'k, bool) gs_prog" where
  "stream_cancelled env = do { a \<leftarrow> ask env Is_cancelled; State_Monad.return (ga_ok a) }"

text \<open>The request, with fresh keys; \<open>Inr\<close> with the address of the session, the key and the vector.\<close>

definition request_launch :: "expat \<Rightarrow> connection_library \<Rightarrow> ('x, 'k) gs_env \<Rightarrow> int \<Rightarrow> launch_settings \<Rightarrow> nat \<Rightarrow>
    ('x, 'k, int + (string \<times> u8 list \<times> u8 list)) gs_prog" where
  "request_launch expat cn env app ls room = do {
     resume \<leftarrow> look (\<lambda>s. gs_current_game (gc_server s) \<noteq> 0);
     key \<leftarrow> ask env (Random For_remote_key);
     if \<not> ga_ok key then State_Monad.return (Inl (- 3))
     else do {
       iv \<leftarrow> ask env (Random For_remote_iv);
       if \<not> ga_ok iv then State_Monad.return (Inl (- 3))
       else case make_hex (ga_bytes key) 33 of
         None \<Rightarrow> State_Monad.return (Inl (- 3))
       | Some hex \<Rightarrow> do {
           response \<leftarrow> gamestream_request env (if resume then ''resume'' else ''launch'') (launch_query cn app ls hex (ga_bytes iv)) 20;
           if fst response \<noteq> gamestream_ok then State_Monad.return (Inl (fst response))
           else do {
             url \<leftarrow> accept_launch expat resume app room (snd response);
             State_Monad.return (case url of Inl code \<Rightarrow> Inl code
               | Inr url \<Rightarrow> Inr (url, ga_bytes key, take 4 (ga_bytes iv) @ replicate 12 0))
           }
         }
     }
   }"

definition load_launch_session :: "expat \<Rightarrow> connection_library \<Rightarrow> ('x, 'k) gs_env \<Rightarrow> int \<Rightarrow> int \<Rightarrow> launch_settings \<Rightarrow> nat \<Rightarrow>
    ('x, 'k, int + (string \<times> u8 list \<times> u8 list)) gs_prog" where
  "load_launch_session expat cn env app quit_app_id ls room = do {
     curl \<leftarrow> look (gs_curl \<circ> gc_server);
     if \<not> curl \<or> room = 0 then State_Monad.return (Inl (- 1))
     else do {
       cancelled \<leftarrow> stream_cancelled env;
       if cancelled then State_Monad.return (Inl (- 7))
       else do {
         result \<leftarrow> refresh_server_info expat env;
         if result \<noteq> gamestream_ok then State_Monad.return (Inl result)
         else do {
           cancelled \<leftarrow> stream_cancelled env;
           if cancelled then State_Monad.return (Inl (- 7))
           else do {
             result \<leftarrow> settle_running_app expat env app quit_app_id;
             if result \<noteq> gamestream_ok then State_Monad.return (Inl result)
             else do {
               cancelled \<leftarrow> stream_cancelled env;
               if cancelled then State_Monad.return (Inl (- 7)) else request_launch expat cn env app ls room
             }
           }
         }
       }
     }
   }"

text \<open>What the connection library is called with.\<close>

record connection =
  co_width :: int
  co_height :: int
  co_fps :: int
  co_bitrate :: int
  co_packet_size :: nat
  co_automatic :: bool
  co_key :: "u8 list"
  co_iv :: "u8 list"
  co_address :: string
  co_app_version :: string
  co_gfe_version :: "string option"
  co_session_url :: string
  co_codec :: int

definition connection_of :: "connection_library \<Rightarrow> launch_settings \<Rightarrow> 'x server \<Rightarrow> u8 list \<Rightarrow> u8 list \<Rightarrow> connection" where
  "connection_of cn ls sv key iv =
     \<lparr>co_width = ls_width ls, co_height = ls_height ls, co_fps = ls_fps ls, co_bitrate = ls_bitrate ls, co_packet_size = 1024,
      co_automatic = ls_remote_optimization ls, co_key = key, co_iv = iv, co_address = gs_address sv,
      co_app_version = (if gs_app_version sv \<noteq> [] then gs_app_version sv else ''7.1.431.0''),
      co_gfe_version = (if gs_gfe_version sv \<noteq> [] then Some (gs_gfe_version sv) else None),
      co_session_url = gs_session_url sv, co_codec = (if gs_codec_support sv \<noteq> 0 then gs_codec_support sv else cn_h264 cn)\<rparr>"

text \<open>The session up to the call of the library, with the three looks at the cancellation that are left.\<close>

definition run_stream_session :: "expat \<Rightarrow> connection_library \<Rightarrow> ('x, 'k) gs_env \<Rightarrow> int \<Rightarrow> int \<Rightarrow> launch_settings \<Rightarrow> ('x, 'k, int + connection) gs_prog" where
  "run_stream_session expat cn env app quit_app_id ls = do {
     launched \<leftarrow> load_launch_session expat cn env app quit_app_id ls 256;
     case launched of
       Inl code \<Rightarrow> State_Monad.return (Inl code)
     | Inr (url, key, iv) \<Rightarrow> do {
         cancelled \<leftarrow> stream_cancelled env;
         if cancelled then State_Monad.return (Inl (- 7))
         else do {
           connection \<leftarrow> look (\<lambda>s. connection_of cn ls (gc_server s) key iv);
           cancelled \<leftarrow> stream_cancelled env;
           if cancelled then State_Monad.return (Inl (- 7))
           else do {
             cancelled \<leftarrow> stream_cancelled env;
             State_Monad.return (if cancelled then Inl (- 7) else Inr connection)
           }
         }
       }
   }"

section \<open>What the server is asked\<close>

text \<open>The endpoint of a request: the text between the first slash behind the scheme and the question mark.\<close>

definition endpoint_of :: "string \<Rightarrow> string" where
  "endpoint_of url = takeWhile (\<lambda>c. c \<noteq> CHR ''?'') (tl (dropWhile (\<lambda>c. c \<noteq> CHR ''/'') (drop 8 url)))"

definition plain_address :: "string \<Rightarrow> bool" where
  "plain_address address \<longleftrightarrow> CHR ''/'' \<notin> set address \<and> length address < 256"

lemma decimal_no_slash: "CHR ''/'' \<notin> set (decimal_text n)"
  using decimal_text_digits [of n] by (auto simp: list_all_iff digit_def)

lemma dropWhile_until: "c \<notin> set xs \<Longrightarrow> dropWhile (\<lambda>x. x \<noteq> c) (xs @ c # ys) = c # ys"
  by (induction xs) auto

lemma takeWhile_until: "c \<notin> set xs \<Longrightarrow> takeWhile (\<lambda>x. x \<noteq> c) (xs @ c # ys) = xs"
  by (induction xs) auto

lemma endpoint_path:
  assumes "CHR ''/'' \<notin> set address" "CHR ''/'' \<notin> set port" "CHR ''?'' \<notin> set endpoint"
  shows "endpoint_of (''https://'' @ address @ '':'' @ port @ ''/'' @ endpoint @ ''?'' @ rest) = endpoint"
proof -
  have "dropWhile (\<lambda>c. c \<noteq> CHR ''/'') (address @ '':'' @ port @ ''/'' @ endpoint @ ''?'' @ rest) = ''/'' @ endpoint @ ''?'' @ rest"
    using assms(1,2) dropWhile_until [of "CHR ''/''" "address @ '':'' @ port" "endpoint @ ''?'' @ rest"] by simp
  moreover have "takeWhile (\<lambda>c. c \<noteq> CHR ''?'') (endpoint @ CHR ''?'' # rest) = endpoint"
    using assms(3) by (rule takeWhile_until)
  ultimately show ?thesis by (simp add: endpoint_of_def)
qed

lemma endpoint_request:
  "plain_address (gs_address (gc_server s)) \<Longrightarrow> CHR ''?'' \<notin> set endpoint \<Longrightarrow> endpoint_of (request_url s endpoint uuid query) = endpoint"
  using endpoint_path [of "gs_address (gc_server s)" "number_text (if gs_https_port (gc_server s) \<noteq> 0 then gs_https_port (gc_server s) else 47984)" endpoint]
  by (simp add: request_url_def Let_def plain_address_def number_text_def decimal_no_slash)

lemma take_head: "length xs < n \<Longrightarrow> take n (xs @ ys) = xs @ take (n - length xs) ys"
  by simp

lemma endpoint_server_info:
  assumes "plain_address (gs_address (gc_server s))"
  shows "endpoint_of (server_info_url True s uuid) = ''serverinfo''"
proof -
  let ?port = "number_text (gs_https_port (gc_server s))"
  let ?head = "''https://'' @ gs_address (gc_server s) @ '':'' @ ?port @ ''/'' @ ''serverinfo'' @ ''?''"
  let ?tail = "''uniqueid='' @ gc_unique_id s @ ''&uuid='' @ uuid"
  have port: "length ?port \<le> 5"
    using length_decimal_text [of "unat (gs_https_port (gc_server s))" 4] unsigned_less [of "gs_https_port (gc_server s)", where 'a = nat]
    by (simp add: number_text_def)
  have "length ?head < 2047" using assms port by (simp add: plain_address_def)
  then have "take 2047 (?head @ ?tail) = ?head @ take (2047 - length ?head) ?tail"
    by (rule take_head)
  moreover have "server_info_url True s uuid = take 2047 (?head @ ?tail)"
    by (simp add: server_info_url_def bounded_copy_def)
  ultimately have "server_info_url True s uuid =
      ''https://'' @ gs_address (gc_server s) @ '':'' @ ?port @ ''/'' @ ''serverinfo'' @ ''?'' @ take (2047 - length ?head) ?tail" by (simp only: append_assoc)
  then show ?thesis
    using endpoint_path [of "gs_address (gc_server s)" ?port "''serverinfo''" "take (2047 - length ?head) ?tail"] assms
    by (simp add: plain_address_def number_text_def decimal_no_slash)
qed

text \<open>The application that a response about the server reports.\<close>

definition reported_game :: "expat \<Rightarrow> string \<Rightarrow> int option" where
  "reported_game expat body =
     (case apply_server_info expat True body (server_zero :: unit server) of (result, sv) \<Rightarrow>
        if result = gamestream_ok then Some (gs_current_game sv) else None)"

lemma reported_game:
  assumes "apply_server_info expat https body sv = (gamestream_ok, sv')"
  shows "reported_game expat body = Some (gs_current_game sv')"
  using assms by (auto simp: reported_game_def apply_server_info_def Let_def split: prod.splits if_splits option.splits)

lemma apply_server_info_address: "gs_address (snd (apply_server_info expat https body sv)) = gs_address sv"
  by (auto simp: apply_server_info_def identity_of_def Let_def split: prod.splits if_splits option.splits)

text \<open>
  A run is watched with the application that the last information reported. The application is quit only when it is the one whose end was approved;
  a launch follows a report that nothing runs and a resumption one that the selected application runs; they are the last request, and
  there is none after a look that found the session cancelled. Every request is encrypted.
\<close>

record launch_watch =
  lw_game :: "int option"
  lw_launched :: bool
  lw_cancelled :: bool

definition launch_start :: launch_watch where
  "launch_start = \<lparr>lw_game = None, lw_launched = False, lw_cancelled = False\<rparr>"

definition launch_request :: "expat \<Rightarrow> int \<Rightarrow> int \<Rightarrow> launch_watch \<Rightarrow> string \<Rightarrow> ('x, 'k) gs_answer \<Rightarrow> launch_watch option" where
  "launch_request expat app approved w endpoint a =
     (if lw_launched w \<or> lw_cancelled w then None
      else if endpoint = ''serverinfo'' then Some (w\<lparr>lw_game := (if ga_code a = 0 then reported_game expat (ga_body a) else None)\<rparr>)
      else if endpoint = ''cancel'' \<and> lw_game w = Some approved \<and> approved \<noteq> 0 \<and> approved \<noteq> app then Some (w\<lparr>lw_game := None\<rparr>)
      else if endpoint = ''launch'' \<and> lw_game w = Some 0 \<or> endpoint = ''resume'' \<and> lw_game w = Some app \<and> app \<noteq> 0
      then Some (w\<lparr>lw_launched := True\<rparr>)
      else None)"

fun launch_rule :: "expat \<Rightarrow> int \<Rightarrow> int \<Rightarrow> launch_watch \<Rightarrow> 'x gs_call \<Rightarrow> ('x, 'k) gs_answer \<Rightarrow> launch_watch option" where
  "launch_rule expat app approved w c a =
     (case c of Perform url t x \<Rightarrow> if is_https url then launch_request expat app approved w (endpoint_of url) a else None
      | Is_cancelled \<Rightarrow> Some (w\<lparr>lw_cancelled := (lw_cancelled w \<or> ga_ok a)\<rparr>)
      | _ \<Rightarrow> Some w)"

declare launch_rule.simps [simp del]

lemma launch_calm: "gs_calm (launch_rule expat app approved :: launch_watch \<Rightarrow> 'x gs_call \<Rightarrow> ('x, 'k) gs_answer \<Rightarrow> launch_watch option)"
  by (auto simp: gs_calm_def launch_rule.simps split: gs_call.splits)

definition same_host :: "('x, 'k) gs_client \<Rightarrow> ('x, 'k) gs_client \<Rightarrow> bool" where
  "same_host s s' \<longleftrightarrow> gs_address (gc_server s') = gs_address (gc_server s)"

lemma refresh_launch:
  fixes env :: "('x, 'k) gs_env"
  assumes "plain_address (gs_address (gc_server s))" "\<not> lw_launched w" "\<not> lw_cancelled w"
  shows "safe (launch_rule expat app approved) start s w (refresh_server_info expat env)
    (\<lambda>r s' w'. same_host s s' \<and> \<not> lw_launched w' \<and> \<not> lw_cancelled w' \<and>
       (r = gamestream_ok \<longrightarrow> lw_game w' = Some (gs_current_game (gc_server s'))))"
proof -
  note calm = launch_calm [where ?'x = 'x and ?'k = 'k]
  let ?Q = "\<lambda>r s' w'. same_host s s' \<and> \<not> lw_launched w' \<and> \<not> lw_cancelled w' \<and>
       (r = gamestream_ok \<longrightarrow> lw_game w' = Some (gs_current_game (gc_server s')))"
  have read: "safe (launch_rule expat app approved) start (s\<lparr>gc_last_http := n\<rparr>) w' (read_server_info expat True r) ?Q"
    if "fst r = gamestream_ok \<Longrightarrow> lw_game w' = reported_game expat (snd r)" "\<not> lw_launched w'" "\<not> lw_cancelled w'" for n w' r
  proof -
    obtain code sv' where a: "apply_server_info expat True (snd r) (gc_server s) = (code, sv')" by fastforce
    then have "gs_address sv' = gs_address (gc_server s)"
      using apply_server_info_address [of expat True "snd r" "gc_server s"] by simp
    then show ?thesis
      unfolding read_server_info_def modify_server_def
      using that a reported_game [of expat True "snd r" "gc_server s" sv'] by (auto intro!: safe_intro simp: same_host_def)
  qed
  have request: "safe (launch_rule expat app approved) start s w
      (State_Monad.bind (http_request env url 15 False) (read_server_info expat True)) ?Q"
    if "is_https url" "endpoint_of url = ''serverinfo''" for url
  proof (rule http_request_calm [OF calm], goal_cases)
    case (2 n code)
    then show ?case using assms by (intro read) auto
  next
    case (3 a)
    let ?w = "w\<lparr>lw_game := (if ga_code a = 0 then reported_game expat (ga_body a) else None)\<rparr>"
    have "launch_rule expat app approved w (Perform url 15 (gs_certificate (gc_server s))) a = Some ?w"
      using that assms by (simp add: launch_rule.simps launch_request_def)
    moreover have "safe (launch_rule expat app approved) start (s\<lparr>gc_last_http := n\<rparr>) ?w (read_server_info expat True r) ?Q"
      if "r = (gamestream_cancelled, []) \<or> r = transfer_result a" for n r
      using that assms by (intro read) (auto simp: transfer_result_def split: if_splits)
    ultimately show ?case by blast
  qed simp
  have same: "same_host s s" by (simp add: same_host_def)
  have info: "safe (launch_rule expat app approved) start s w (load_server_info expat env True False) ?Q"
    unfolding load_server_info_def
    using assms same by (auto intro!: safe_ask safe_look safe_if safe_return request
        simp: gs_calmD [OF calm] server_info_url_https endpoint_server_info)
  show ?thesis
    unfolding refresh_server_info_def
    by (intro safe_look safe_if safe_return safe_bind [OF info]) (use assms in \<open>auto simp: same_host_def\<close>)
qed

lemma gamestream_request_launch:
  fixes env :: "('x, 'k) gs_env"
  assumes "plain_address (gs_address (gc_server s))" "CHR ''?'' \<notin> set endpoint"
    "\<And>a :: ('x, 'k) gs_answer. launch_request expat app approved w endpoint a = Some (next_watch a)"
    "\<And>n code. code \<noteq> gamestream_ok \<Longrightarrow> safe (launch_rule expat app approved) start (s\<lparr>gc_last_http := n\<rparr>) w (g (code, [])) Q"
    "\<And>n r a. r = (gamestream_cancelled, []) \<or> r = transfer_result a \<Longrightarrow>
       safe (launch_rule expat app approved) start (s\<lparr>gc_last_http := n\<rparr>) (next_watch a) (g r) Q"
  shows "safe (launch_rule expat app approved) start s w (State_Monad.bind (gamestream_request env endpoint query timeout) g) Q"
proof -
  note calm = launch_calm [where ?'x = 'x and ?'k = 'k]
  have request: "safe (launch_rule expat app approved) start s w (State_Monad.bind (http_request env url timeout False) g) Q"
    if "is_https url" "endpoint_of url = endpoint" for url
    by (rule http_request_calm [OF calm]) (use that assms in \<open>auto simp: launch_rule.simps\<close>)
  have early: "safe (launch_rule expat app approved) start s w (g (code, [])) Q" if "code \<noteq> gamestream_ok" for code
    using assms(4) [OF that, of "gc_last_http s"] by simp
  show ?thesis
    unfolding gamestream_request_def
    by (auto intro!: safe_ask safe_look safe_assoc safe_if_bind safe_return_bind request early
        simp: gs_calmD [OF calm] request_url_https endpoint_request [OF assms(1,2)])
qed

definition settled :: "('x, 'k) gs_client \<Rightarrow> int \<Rightarrow> int \<Rightarrow> ('x, 'k) gs_client \<Rightarrow> launch_watch \<Rightarrow> bool" where
  "settled s app r s' w' \<longleftrightarrow> same_host s s' \<and> \<not> lw_launched w' \<and> \<not> lw_cancelled w' \<and>
     (r = gamestream_ok \<longrightarrow> lw_game w' = Some (gs_current_game (gc_server s')) \<and> gs_current_game (gc_server s') \<in> {0, app})"

lemma quit_app_launch:
  fixes env :: "('x, 'k) gs_env"
  assumes address: "plain_address (gs_address (gc_server s))" and w: "\<not> lw_launched w" "\<not> lw_cancelled w"
    and approved: "lw_game w = Some approved" "approved \<noteq> 0" "approved \<noteq> app"
  shows "safe (launch_rule expat app approved) start s w (quit_app expat env) (settled s app)"
proof -
  let ?next = "\<lambda>_ :: ('x, 'k) gs_answer. w\<lparr>lw_game := None\<rparr>"
  have same: "settled s app code (s\<lparr>gc_last_http := n\<rparr>) w'" "settled s app code s w'"
    if "code \<noteq> gamestream_ok" "\<not> lw_launched w'" "\<not> lw_cancelled w'" for code n w'
    using that by (simp_all add: settled_def same_host_def)
  have refreshed: "safe (launch_rule expat app approved) start (s\<lparr>gc_last_http := n\<rparr>) (?next a) (do {
         result \<leftarrow> refresh_server_info expat env;
         game \<leftarrow> look (gs_current_game \<circ> gc_server);
         State_Monad.return (if result \<noteq> gamestream_ok then result else if game \<noteq> 0 then quit_failed else gamestream_ok)
       }) (settled s app)" for n a
    by (rule safe_bind [OF refresh_launch]) (use address w in \<open>auto intro!: safe_look safe_return simp: settled_def same_host_def\<close>)
  show ?thesis
    unfolding quit_app_def
    by (intro safe_look safe_if safe_return gamestream_request_launch [where next_watch = ?next] refreshed)
      (use address w approved in \<open>auto simp: launch_request_def intro: same\<close>)
qed

lemma settle_running_app_launch:
  fixes env :: "('x, 'k) gs_env"
  assumes "plain_address (gs_address (gc_server s))" "\<not> lw_launched w" "\<not> lw_cancelled w" "lw_game w = Some (gs_current_game (gc_server s))"
  shows "safe (launch_rule expat app approved) start s w (settle_running_app expat env app approved) (settled s app)"
proof -
  have conflict: "app_conflict \<noteq> gamestream_ok" by (simp add: result_defs)
  have quit: "safe (launch_rule expat app approved) start s w (quit_app expat env) (settled s app)"
    if "gs_current_game (gc_server s) \<noteq> 0" "gs_current_game (gc_server s) \<noteq> app" "approved = gs_current_game (gc_server s)"
    using that assms quit_app_launch [of s w approved app expat start env] by simp
  show ?thesis
    unfolding settle_running_app_def
    by (intro safe_look safe_if safe_return) (use assms conflict quit in \<open>auto simp: settled_def same_host_def\<close>)
qed

lemma stream_cancelled_launch:
  assumes "\<not> lw_cancelled w" "safe (launch_rule expat app approved) start s (w\<lparr>lw_cancelled := True\<rparr>) (g True) Q"
    "safe (launch_rule expat app approved) start s w (g False) Q"
  shows "safe (launch_rule expat app approved) start s w (State_Monad.bind (stream_cancelled env) g) Q"
  unfolding stream_cancelled_def
proof (intro safe_assoc safe_ask)
  have kept: "w\<lparr>lw_cancelled := False\<rparr> = w" using assms(1) by (cases w) simp
  have same: "safe (launch_rule expat app approved) start s (w\<lparr>lw_cancelled := False\<rparr>) (g False) Q"
    unfolding kept by (rule assms(3))
  show "\<exists>w'. launch_rule expat app approved w Is_cancelled a = Some w' \<and>
      safe (launch_rule expat app approved) start s w' (State_Monad.bind (State_Monad.return (ga_ok a)) g) Q" for a
    using assms(1,2) same by (cases "ga_ok a") (simp_all add: launch_rule.simps)
qed

text \<open>The request that launches, and the whole way to the connection library.\<close>

definition launch_post :: "int \<Rightarrow> (int + 'c) \<Rightarrow> ('x, 'k) gs_client \<Rightarrow> launch_watch \<Rightarrow> bool" where
  "launch_post app r s' w' \<longleftrightarrow>
     (case r of Inl code \<Rightarrow> code \<noteq> 0
      | Inr _ \<Rightarrow> lw_launched w' \<and> \<not> lw_cancelled w' \<and> gs_current_game (gc_server s') = app \<and> length (gs_session_url (gc_server s')) < 256)"

lemma launch_post_failed [simp]: "launch_post app (Inl code) s' w' \<longleftrightarrow> code \<noteq> 0"
  by (simp add: launch_post_def)

lemma accept_launch_safe:
  assumes "lw_launched w" "\<not> lw_cancelled w"
  shows "safe rule start s w (accept_launch expat resume app 256 body) (launch_post app)"
proof -
  obtain result response where parsed: "xml_parse_launch expat (Some body) resume True = (result, response)" by fastforce
  have url: "length url < 256" if "session_url 256 address r = Some url" for address r url
    using that by (auto simp: session_url_def Let_def split: if_splits)
  show ?thesis
    unfolding accept_launch_def modify_server_def parsed using assms
    by (auto intro!: safe_intro safe_option simp: launch_post_def xml_code_def bounded_copy_id split: xml_result.split dest: url)
qed

lemma request_launch_safe:
  fixes env :: "('x, 'k) gs_env"
  assumes address: "plain_address (gs_address (gc_server s))" and w: "\<not> lw_launched w" "\<not> lw_cancelled w"
    and game: "lw_game w = Some (gs_current_game (gc_server s))" "gs_current_game (gc_server s) \<in> {0, app}"
  shows "safe (launch_rule expat app approved) start s w (request_launch expat cn env app ls 256) (launch_post app)"
proof -
  let ?endpoint = "if gs_current_game (gc_server s) \<noteq> 0 then ''resume'' else ''launch''"
  let ?next = "\<lambda>_ :: ('x, 'k) gs_answer. w\<lparr>lw_launched := True\<rparr>"
  have next_watch: "launch_request expat app approved w ?endpoint a = Some (?next a)" for a :: "('x, 'k) gs_answer"
    using w game by (auto simp: launch_request_def)
  have accept: "safe (launch_rule expat app approved) start s' (?next a) (do {
       url \<leftarrow> accept_launch expat resume app 256 body;
       State_Monad.return (case url of Inl code \<Rightarrow> Inl code | Inr url \<Rightarrow> Inr (url, k, iv))
     }) (launch_post app)" for s' :: "('x, 'k) gs_client" and a resume body and k iv :: "u8 list"
    by (rule safe_bind [OF accept_launch_safe]) (use w in \<open>auto intro!: safe_return simp: launch_post_def split: sum.splits\<close>)
  have zero: "code \<noteq> gamestream_ok \<Longrightarrow> code \<noteq> 0" for code by (simp add: gamestream_ok_def)
  have random: "launch_rule expat app approved w (Random p) a = Some w" for p and a :: "('x, 'k) gs_answer" by (simp add: launch_rule.simps)
  have request: "safe (launch_rule expat app approved) start s w (State_Monad.bind
      (gamestream_request env ?endpoint query 20) (\<lambda>response.
           if fst response \<noteq> gamestream_ok then State_Monad.return (Inl (fst response))
           else do {
             url \<leftarrow> accept_launch expat resume app 256 (snd response);
             State_Monad.return (case url of Inl code \<Rightarrow> Inl code | Inr url \<Rightarrow> Inr (url, k, iv))
           })) (launch_post app)" for query resume and k iv :: "u8 list"
    by (rule gamestream_request_launch [OF address _ next_watch]) (auto intro!: safe_if safe_return accept dest: zero)
  show ?thesis
    unfolding request_launch_def
    by (intro safe_look safe_ask_same random safe_if safe_return safe_option request) simp_all
qed

lemma load_launch_session_safe:
  fixes env :: "('x, 'k) gs_env"
  assumes "plain_address (gs_address (gc_server s))"
  shows "safe (launch_rule expat app approved) start s launch_start (load_launch_session expat cn env app approved ls 256) (launch_post app)"
proof -
  have zero: "code \<noteq> gamestream_ok \<Longrightarrow> code \<noteq> 0" for code by (simp add: gamestream_ok_def)
  have start: "\<not> lw_launched launch_start" "\<not> lw_cancelled launch_start" by (simp_all add: launch_start_def)
  show ?thesis
    unfolding load_launch_session_def
    by (auto intro!: safe_look safe_if safe_return stream_cancelled_launch safe_bind [OF refresh_launch]
        safe_bind [OF settle_running_app_launch] request_launch_safe dest: zero simp: assms start settled_def same_host_def)
qed

text \<open>
  Property C5: on its way to the connection library a session, whatever the server answers and whenever it is cancelled, sends only encrypted
  requests; it quits the application that runs only if that is the one whose end was approved and not the one selected; it launches only after
  the server reported that nothing runs, and resumes only the selected application; that request is sent at most once, and nothing is sent after a
  look found the session cancelled. The library is called only when it was accepted, never after a cancellation, with
  the address of the session that fits its buffer.
\<close>

theorem launch_respects_host:
  assumes "plain_address (gs_address (gc_server s))"
    "run_state (run_stream_session expat cn env app approved ls) (s, []) = (r, (s', log))"
  shows "\<exists>w. accept (launch_rule expat app approved) launch_start log = Some w \<and>
    (case r of Inl code \<Rightarrow> code \<noteq> 0
     | Inr c \<Rightarrow> lw_launched w \<and> \<not> lw_cancelled w \<and> gs_current_game (gc_server s') = app \<and>
         co_session_url c = gs_session_url (gc_server s') \<and> length (co_session_url c) < 256)"
proof -
  let ?Q = "\<lambda>r s' w. case r of Inl code \<Rightarrow> code \<noteq> 0
     | Inr c \<Rightarrow> lw_launched w \<and> \<not> lw_cancelled w \<and> gs_current_game (gc_server s') = app \<and>
         co_session_url c = gs_session_url (gc_server s') \<and> length (co_session_url c) < 256"
  have "safe (launch_rule expat app approved) launch_start s launch_start (run_stream_session expat cn env app approved ls) ?Q"
    unfolding run_stream_session_def
    by (rule safe_bind [OF load_launch_session_safe [OF assms(1)]])
      (auto intro!: safe_sum safe_pair safe_return safe_look stream_cancelled_launch simp: launch_post_def connection_of_def split: sum.splits)
  then show ?thesis
    using safeD [OF _ _ assms(2)] by fastforce
qed

text \<open>A server at an address whose pinned certificate is known, and calls that all succeed with empty bodies.\<close>

definition launch_client :: "(unit, unit) gs_client" where
  "launch_client = \<lparr>gc_server = server_zero\<lparr>gs_address := ''10.0.0.1'', gs_curl := True, gs_paired := True, gs_certificate := Some ()\<rparr>,
     gc_last_http = 0, gc_unique_id = [], gc_certificate = None, gc_key = None, gc_cert_hex = [], gc_curl_initialized = True\<rparr>"

definition launch_env :: "(unit, unit) gs_env" where
  "launch_env calls c = \<lparr>ga_ok = (c \<noteq> Is_cancelled), ga_code = 0, ga_status = 200, ga_body = [], ga_bytes = replicate 16 7,
     ga_certificate = None, ga_key = None\<rparr>"

theorem launch_respects_host_witness:
  "\<exists>w. accept (launch_rule (\<lambda>_. None) 7 9) launch_start (snd (snd (run_state
     (run_stream_session (\<lambda>_. None) \<lparr>cn_surround_info = 2, cn_query = [], cn_h264 = 1\<rparr> launch_env 7 9
        \<lparr>ls_width = 960, ls_height = 544, ls_fps = 60, ls_bitrate = 10000, ls_sops = 1, ls_localaudio = 0, ls_remote_optimization = False\<rparr>)
     (launch_client, [])))) = Some w"
proof -
  have "plain_address (gs_address (gc_server launch_client))" by (simp add: plain_address_def launch_client_def)
  moreover obtain r s' log where run: "run_state (run_stream_session (\<lambda>_. None) \<lparr>cn_surround_info = 2, cn_query = [], cn_h264 = 1\<rparr> launch_env 7 9
        \<lparr>ls_width = 960, ls_height = 544, ls_fps = 60, ls_bitrate = 10000, ls_sops = 1, ls_localaudio = 0, ls_remote_optimization = False\<rparr>)
     (launch_client, []) = (r, (s', log))"
    by (rule prod_cases3)
  ultimately show ?thesis
    using launch_respects_host [OF _ run] by auto
qed

end
