(* ===== verification/ConnectionService.thy ===== *)
theory ConnectionService imports EventQueue Calls begin

text \<open>
  The foreground operation of the user interface (\<open>src/services/connection_service.cpp\<close>): one operation at a time owns the busy dialog, its
  end comes as an event that is held back until the worker has returned, errors are shown one at a time, and an application that
  runs on the server is quit only after a question.

  The dialogs of the system, the list of main thread tasks, the job queue and the backend are on the other side of the calls. The log also notes the
  events that are delivered. Everything but the result of the worker is written by the main thread; that result is
  published with one atomic store, which is an operation of its own here.
\<close>

section \<open>State and calls\<close>

datatype operation = Operation_None | Operation_Connect | Operation_Applications | Operation_Launch

record connection_service =
  cs_slot :: int
  cs_dialog_open :: bool
  cs_pending :: bool
  cs_confirm_app :: int
  cs_confirm_running :: int
  cs_registered :: bool
  cs_operation :: operation
  cs_worker_done :: bool
  cs_worker_result :: int
  cs_address :: string
  cs_message :: string

datatype service_call =
    Delivered event
  | Stop_host_search
  | Cancel_availability
  | Application_plugin
  | Module_loaded
  | Load_module
  | Show_busy string
  | Close_busy int
  | Register_task
  | Unregister_task
  | Message_init bool string
  | Message_status
  | Message_result
  | Message_term
  | Message_abort
  | Cancel_pairing
  | Job_queue
  | Enqueue_connect string
  | Start_application int int

text \<open>\<open>sa_yes\<close> is the button of the message dialog, \<open>sa_finished\<close> whether it has ended; \<open>sa_busy\<close> tells the error that the dialogs are in use.\<close>

record service_answer =
  sa_result :: int
  sa_ok :: bool
  sa_yes :: bool
  sa_finished :: bool
  sa_busy :: bool

type_synonym service_env = "(service_call, service_answer) env"
type_synonym 'r service_prog = "(connection_service, service_call, service_answer, 'r) prog"

definition service_new :: connection_service where
  "service_new = \<lparr>cs_slot = - 1, cs_dialog_open = False, cs_pending = False, cs_confirm_app = 0, cs_confirm_running = 0, cs_registered = False,
     cs_operation = Operation_None, cs_worker_done = False, cs_worker_result = 0, cs_address = [], cs_message = []\<rparr>"

section \<open>Operations\<close>

definition completes_operation :: "operation \<Rightarrow> event_type \<Rightarrow> bool" where
  "completes_operation operation type =
     (case operation of
        Operation_Connect \<Rightarrow> type = EvConnectionReady \<or> type = EvConnectionFailed
      | Operation_Applications \<Rightarrow> type = EvApplicationsReady \<or> type = EvApplicationsFailed
      | Operation_Launch \<Rightarrow> type = EvStreamStarted \<or> type = EvStreamFailed \<or> type = EvStreamStopped
      | Operation_None \<Rightarrow> False)"

definition is_busy :: "connection_service \<Rightarrow> bool" where
  "is_busy s \<longleftrightarrow> cs_operation s \<noteq> Operation_None \<or> cs_slot s \<ge> 0 \<or> cs_dialog_open s \<or> cs_pending s"

definition busy_message :: "operation \<Rightarrow> string option" where
  "busy_message operation =
     (case operation of
        Operation_Connect \<Rightarrow> Some ''Connecting to PC...''
      | Operation_Applications \<Rightarrow> Some ''Loading applications...''
      | Operation_Launch \<Rightarrow> Some ''Starting stream...''
      | Operation_None \<Rightarrow> None)"

definition register_task :: "service_env \<Rightarrow> unit service_prog" where
  "register_task env = do {
     registered \<leftarrow> look cs_registered;
     if registered then skip else do { _ \<leftarrow> ask env Register_task; modify (\<lambda>s. s\<lparr>cs_registered := True\<rparr>) }
   }"

definition show_busy :: "service_env \<Rightarrow> string \<Rightarrow> int service_prog" where
  "show_busy env message = do {
     a \<leftarrow> ask env (Show_busy message);
     if sa_result a < 0 then State_Monad.return (sa_result a)
     else do {
       _ \<leftarrow> modify (\<lambda>s. s\<lparr>cs_slot := sa_result a\<rparr>);
       _ \<leftarrow> register_task env;
       State_Monad.return 0
     }
   }"

definition start_wait_dialog :: "service_env \<Rightarrow> int service_prog" where
  "start_wait_dialog env = do {
     plugin \<leftarrow> ask env Application_plugin;
     operation \<leftarrow> look cs_operation;
     if \<not> sa_ok plugin then State_Monad.return (- 1)
     else case busy_message operation of
       None \<Rightarrow> State_Monad.return (- 1)
     | Some message \<Rightarrow> do {
         loaded \<leftarrow> ask env Module_loaded;
         if sa_ok loaded then show_busy env message
         else do {
           m \<leftarrow> ask env Load_module;
           if sa_result m < 0 then State_Monad.return (sa_result m) else show_busy env message
         }
       }
   }"

definition close_wait_dialog :: "service_env \<Rightarrow> unit service_prog" where
  "close_wait_dialog env = do {
     slot \<leftarrow> look cs_slot;
     if slot < 0 then skip
     else do { _ \<leftarrow> ask env (Close_busy slot); modify (\<lambda>s. s\<lparr>cs_slot := - 1\<rparr>) }
   }"

definition begin_operation :: "service_env \<Rightarrow> operation \<Rightarrow> int service_prog" where
  "begin_operation env operation = do {
     busy \<leftarrow> look is_busy;
     if operation = Operation_None \<or> busy then State_Monad.return (- 1)
     else do {
       _ \<leftarrow> ask env Stop_host_search;
       _ \<leftarrow> ask env Cancel_availability;
       _ \<leftarrow> modify (\<lambda>s. s\<lparr>cs_operation := operation, cs_worker_done := False, cs_worker_result := 0\<rparr>);
       result \<leftarrow> start_wait_dialog env;
       if result < 0 then do { _ \<leftarrow> modify (\<lambda>s. s\<lparr>cs_operation := Operation_None\<rparr>); State_Monad.return result }
       else State_Monad.return 0
     }
   }"

definition upper_digit :: "nat \<Rightarrow> char" where
  "upper_digit n = char_of (if n < 10 then 48 + n else 55 + n)"

text \<open>\<open>%08X\<close> of the bits of an \<open>int\<close>.\<close>

definition hex_text :: "int \<Rightarrow> string" where
  "hex_text i = map (\<lambda>k. upper_digit (unat (word_of_int i :: u32) div 16 ^ k mod 16)) (rev [0..<8])"

text \<open>What is shown stays as it is; another error meanwhile is only written to the debug output.\<close>

definition show_error :: "service_env \<Rightarrow> string \<Rightarrow> int \<Rightarrow> unit service_prog" where
  "show_error env message result = do {
     shown \<leftarrow> look (\<lambda>s. cs_pending s \<or> cs_dialog_open s);
     if shown then skip
     else do {
       _ \<leftarrow> modify (\<lambda>s. s\<lparr>cs_message := bounded_copy 512 (if result \<noteq> 0 then message @ '' (0x'' @ hex_text result @ '')'' else message),
              cs_pending := True\<rparr>);
       register_task env
     }
   }"

definition show_connection_error :: "service_env \<Rightarrow> unit service_prog" where
  "show_connection_error env = show_error env ''Unable to connect to PC. Check the address, network connection and Sunshine.'' 0"

definition confirm_quit_and_start :: "service_env \<Rightarrow> int \<Rightarrow> int \<Rightarrow> unit service_prog" where
  "confirm_quit_and_start env app running = do {
     busy \<leftarrow> look is_busy;
     if app \<le> 0 \<or> running \<le> 0 \<or> app = running \<or> busy then
       show_error env ''Another application is running on the PC. Close it and try again.'' 0
     else do {
       _ \<leftarrow> show_error env (''Another application is running on the PC. Quit it and start the selected application? '' @
              ''Any unsaved progress will be lost. This also ends other streaming sessions.'') 0;
       modify (\<lambda>s. s\<lparr>cs_confirm_app := app, cs_confirm_running := running\<rparr>)
     }
   }"

definition try_show_error :: "service_env \<Rightarrow> unit service_prog" where
  "try_show_error env = do {
     ready \<leftarrow> look (\<lambda>s. cs_pending s \<and> cs_slot s < 0 \<and> \<not> cs_dialog_open s);
     if \<not> ready then skip
     else do {
       question \<leftarrow> look (\<lambda>s. cs_confirm_app s > 0);
       message \<leftarrow> look cs_message;
       a \<leftarrow> ask env (Message_init question message);
       if sa_result a < 0 then
         (if \<not> sa_busy a then modify (\<lambda>s. s\<lparr>cs_pending := False, cs_confirm_app := 0, cs_confirm_running := 0\<rparr>) else skip)
       else modify (\<lambda>s. s\<lparr>cs_pending := False, cs_dialog_open := True\<rparr>)
     }
   }"

definition finish_unstarted_operation :: "service_env \<Rightarrow> unit service_prog" where
  "finish_unstarted_operation env = do {
     operation \<leftarrow> look cs_operation;
     _ \<leftarrow> close_wait_dialog env;
     _ \<leftarrow> modify (\<lambda>s. s\<lparr>cs_operation := Operation_None\<rparr>);
     if operation = Operation_Connect then show_connection_error env else skip
   }"

definition stream_app_conflict :: int where "stream_app_conflict = - 8"
definition stream_quit_failed :: int where "stream_quit_failed = - 14"

definition report_completion :: "service_env \<Rightarrow> operation \<Rightarrow> event \<Rightarrow> unit service_prog" where
  "report_completion env operation e =
     (if operation = Operation_Connect \<and> ev_type e = EvConnectionFailed then show_connection_error env
      else if operation = Operation_Launch \<and> ev_type e = EvStreamFailed then
        (if ev_result e = stream_app_conflict \<and> ev_running_application_id e > 0 \<and> ev_running_application_id e \<noteq> ev_application_id e
         then confirm_quit_and_start env (ev_application_id e) (ev_running_application_id e)
         else if ev_result e = stream_quit_failed then
           show_error env (''Unable to quit the running application. Close it on the PC or '' @
             ''from the device that started it, then try again.'') (ev_result e)
         else show_error env ''Unable to start stream.'' (ev_result e))
      else skip)"

text \<open>Whether the event may be dispatched; one that ends the operation waits for the worker.\<close>

definition prepare_completion :: "service_env \<Rightarrow> event \<Rightarrow> bool service_prog" where
  "prepare_completion env e = do {
     _ \<leftarrow> ask env (Delivered e);
     operation \<leftarrow> look cs_operation;
     finished \<leftarrow> look cs_worker_done;
     if \<not> completes_operation operation (ev_type e) then State_Monad.return True
     else if operation \<noteq> Operation_Launch \<and> \<not> finished then State_Monad.return False
     else do {
       _ \<leftarrow> close_wait_dialog env;
       _ \<leftarrow> modify (\<lambda>s. s\<lparr>cs_operation := Operation_None\<rparr>);
       _ \<leftarrow> report_completion env operation e;
       State_Monad.return True
     }
   }"

definition record_worker_result :: "int \<Rightarrow> connection_service \<Rightarrow> connection_service" where
  "record_worker_result result s = s\<lparr>cs_worker_result := result, cs_worker_done := True\<rparr>"

text \<open>The event that stands for the end of a job whose own event was lost: its type, result and address.\<close>

definition completed_job_event :: "connection_service \<Rightarrow> (event_type \<times> int \<times> string option) option" where
  "completed_job_event s =
     (if (cs_operation s \<noteq> Operation_Connect \<and> cs_operation s \<noteq> Operation_Applications) \<or> \<not> cs_worker_done s then None
      else if cs_operation s = Operation_Connect then
        Some (if cs_worker_result s = 0 then EvConnectionReady else EvConnectionFailed, cs_worker_result s, Some (cs_address s))
      else Some (if cs_worker_result s \<ge> 0 then EvApplicationsReady else EvApplicationsFailed, cs_worker_result s, None))"

definition start_confirmed :: "service_env \<Rightarrow> int \<Rightarrow> int \<Rightarrow> int service_prog" where
  "start_confirmed env app quit = do {
     begun \<leftarrow> begin_operation env Operation_Launch;
     if begun \<noteq> 0 then State_Monad.return begun
     else do {
       a \<leftarrow> ask env (Start_application app quit);
       _ \<leftarrow> (if sa_result a \<noteq> 0 then finish_unstarted_operation env else skip);
       State_Monad.return (sa_result a)
     }
   }"

text \<open>What the user answered, when the dialog is over.\<close>

definition take_answer :: "service_env \<Rightarrow> bool \<Rightarrow> unit service_prog" where
  "take_answer env yes = do {
     app \<leftarrow> look cs_confirm_app;
     running \<leftarrow> look cs_confirm_running;
     _ \<leftarrow> modify (\<lambda>s. s\<lparr>cs_dialog_open := False, cs_message := [], cs_confirm_app := 0, cs_confirm_running := 0\<rparr>);
     if yes \<and> app > 0 then do {
       result \<leftarrow> start_confirmed env app running;
       if result \<noteq> 0 then show_error env ''Unable to start stream.'' result else skip
     }
     else skip
   }"

definition unregister_idle_task :: "service_env \<Rightarrow> unit service_prog" where
  "unregister_idle_task env = do {
     idle \<leftarrow> look (\<lambda>s. cs_slot s < 0 \<and> \<not> cs_pending s \<and> \<not> cs_dialog_open s \<and> cs_registered s);
     if idle then do { _ \<leftarrow> ask env Unregister_task; modify (\<lambda>s. s\<lparr>cs_registered := False\<rparr>) } else skip
   }"

definition dialog_poll_task :: "service_env \<Rightarrow> unit service_prog" where
  "dialog_poll_task env = do {
     _ \<leftarrow> try_show_error env;
     shown \<leftarrow> look cs_dialog_open;
     if shown then do {
       status \<leftarrow> ask env Message_status;
       if \<not> sa_finished status then skip
       else do {
         r \<leftarrow> ask env Message_result;
         t \<leftarrow> ask env Message_term;
         if sa_result t < 0 then skip
         else do { _ \<leftarrow> take_answer env (sa_result r \<ge> 0 \<and> sa_ok r \<and> sa_yes r); unregister_idle_task env }
       }
     }
     else unregister_idle_task env
   }"

definition service_shutdown :: "service_env \<Rightarrow> unit service_prog" where
  "service_shutdown env = do {
     _ \<leftarrow> close_wait_dialog env;
     shown \<leftarrow> look cs_dialog_open;
     _ \<leftarrow> (if shown then do {
         _ \<leftarrow> ask env Message_abort;
         status \<leftarrow> ask env Message_status;
         _ \<leftarrow> (if sa_finished status then do { _ \<leftarrow> ask env Message_term; skip } else skip);
         modify (\<lambda>s. s\<lparr>cs_dialog_open := False\<rparr>)
       } else skip);
     _ \<leftarrow> modify (\<lambda>s. s\<lparr>cs_pending := False, cs_confirm_app := 0, cs_confirm_running := 0, cs_operation := Operation_None, cs_message := []\<rparr>);
     registered \<leftarrow> look cs_registered;
     if registered then do { _ \<leftarrow> ask env Unregister_task; modify (\<lambda>s. s\<lparr>cs_registered := False\<rparr>) } else skip
   }"

definition connect :: "service_env \<Rightarrow> string \<Rightarrow> int service_prog" where
  "connect env address =
     (if address = [] then do { _ \<leftarrow> show_connection_error env; State_Monad.return (- 1) }
      else do {
        begun \<leftarrow> begin_operation env Operation_Connect;
        if begun \<noteq> 0 then do {
          busy \<leftarrow> look is_busy;
          _ \<leftarrow> (if \<not> busy then show_error env ''Unable to open the progress dialog.'' begun else skip);
          State_Monad.return begun
        }
        else do {
          _ \<leftarrow> modify (\<lambda>s. s\<lparr>cs_address := bounded_copy 256 address\<rparr>);
          _ \<leftarrow> ask env Cancel_pairing;
          queue \<leftarrow> ask env Job_queue;
          if \<not> sa_ok queue then do { _ \<leftarrow> finish_unstarted_operation env; State_Monad.return (- 1) }
          else do {
            a \<leftarrow> ask env (Enqueue_connect address);
            _ \<leftarrow> (if sa_result a \<noteq> 0 then finish_unstarted_operation env else skip);
            State_Monad.return (sa_result a)
          }
        }
      })"

section \<open>What the dialogs and the user demand\<close>

text \<open>
  A busy dialog is opened when there is none and closed once, a message dialog opens when nothing else is open, and is asked
  about and ended while it is there; the task is registered and unregistered in turn. An application that runs on the server is quit only after
  the server had refused this very launch because of it, and after the user said yes to the question that was shown last; one yes counts for one start.
  A dialog that was aborted is left to the system.
\<close>

record dialog_watch =
  dw_slot :: "int option"
  dw_message :: "bool option"
  dw_aborted :: bool
  dw_registered :: bool
  dw_conflicts :: "(int \<times> int) set"
  dw_yes :: bool

definition watch_start :: dialog_watch where
  "watch_start = \<lparr>dw_slot = None, dw_message = None, dw_aborted = False, dw_registered = False, dw_conflicts = {}, dw_yes = False\<rparr>"

definition is_conflict :: "event \<Rightarrow> bool" where
  "is_conflict e \<longleftrightarrow> ev_type e = EvStreamFailed \<and> ev_result e = stream_app_conflict \<and> ev_running_application_id e > 0 \<and>
     ev_running_application_id e \<noteq> ev_application_id e"

definition dialog_rule :: "dialog_watch \<Rightarrow> service_call \<Rightarrow> service_answer \<Rightarrow> dialog_watch option" where
  "dialog_rule w c a =
     (case c of
        Delivered e \<Rightarrow>
          Some (if is_conflict e then w\<lparr>dw_conflicts := insert (ev_application_id e, ev_running_application_id e) (dw_conflicts w)\<rparr> else w)
      | Show_busy message \<Rightarrow>
          if dw_slot w \<noteq> None \<or> dw_message w \<noteq> None then None
          else Some (w\<lparr>dw_slot := (if sa_result a < 0 then None else Some (sa_result a))\<rparr>)
      | Close_busy slot \<Rightarrow> if dw_slot w = Some slot then Some (w\<lparr>dw_slot := None\<rparr>) else None
      | Register_task \<Rightarrow> if dw_registered w then None else Some (w\<lparr>dw_registered := True\<rparr>)
      | Unregister_task \<Rightarrow> if dw_registered w then Some (w\<lparr>dw_registered := False\<rparr>) else None
      | Message_init question message \<Rightarrow>
          if dw_slot w \<noteq> None \<or> dw_message w \<noteq> None then None
          else Some (w\<lparr>dw_message := (if sa_result a < 0 then None else Some question), dw_aborted := False, dw_yes := False\<rparr>)
      | Message_status \<Rightarrow> if dw_message w \<noteq> None \<or> dw_aborted w then Some w else None
      | Message_result \<Rightarrow>
          (case dw_message w of None \<Rightarrow> None
           | Some question \<Rightarrow> Some (w\<lparr>dw_yes := (question \<and> sa_result a \<ge> 0 \<and> sa_ok a \<and> sa_yes a)\<rparr>))
      | Message_term \<Rightarrow>
          if dw_message w = None \<and> \<not> dw_aborted w then None
          else Some (if sa_result a < 0 then w else w\<lparr>dw_message := None, dw_aborted := False\<rparr>)
      | Message_abort \<Rightarrow> if dw_message w = None then None else Some (w\<lparr>dw_message := None, dw_aborted := True\<rparr>)
      | Start_application app quit \<Rightarrow>
          if dw_slot w \<noteq> None \<and> (quit = 0 \<or> (app, quit) \<in> dw_conflicts w \<and> dw_yes w) then Some (w\<lparr>dw_yes := False\<rparr>) else None
      | _ \<Rightarrow> Some w)"

definition service_core :: "connection_service \<Rightarrow> dialog_watch \<Rightarrow> bool" where
  "service_core s w \<longleftrightarrow>
     dw_slot w = (if cs_slot s < 0 then None else Some (cs_slot s)) \<and>
     dw_message w = (if cs_dialog_open s then Some (cs_confirm_app s > 0) else None) \<and> dw_registered w = cs_registered s \<and>
     (cs_slot s \<ge> 0 \<longrightarrow> \<not> cs_dialog_open s) \<and>
     (cs_confirm_app s > 0 \<longrightarrow> (cs_confirm_app s, cs_confirm_running s) \<in> dw_conflicts w \<and> (cs_pending s \<or> cs_dialog_open s))"

definition service_ok :: "connection_service \<Rightarrow> dialog_watch \<Rightarrow> bool" where
  "service_ok s w \<longleftrightarrow> service_core s w \<and> (cs_slot s \<ge> 0 \<or> cs_dialog_open s \<or> cs_pending s \<longrightarrow> cs_registered s)"

lemma operation_ok [simp]:
  "service_ok (s\<lparr>cs_operation := operation\<rparr>) w = service_ok s w" "service_ok (s\<lparr>cs_worker_done := b\<rparr>) w = service_ok s w"
  "service_ok (s\<lparr>cs_worker_result := r\<rparr>) w = service_ok s w" "service_ok (s\<lparr>cs_address := t\<rparr>) w = service_ok s w"
  "service_ok s (w\<lparr>dw_yes := b\<rparr>) = service_ok s w" "service_core s (w\<lparr>dw_yes := b\<rparr>) = service_core s w"
  by (auto simp: service_ok_def service_core_def)

text \<open>Calls that only the task list or nobody looks at.\<close>

lemma dialog_rule_plain:
  "dialog_rule w Stop_host_search a = Some w" "dialog_rule w Cancel_availability a = Some w" "dialog_rule w Application_plugin a = Some w"
  "dialog_rule w Module_loaded a = Some w" "dialog_rule w Load_module a = Some w" "dialog_rule w Cancel_pairing a = Some w"
  "dialog_rule w Job_queue a = Some w" "dialog_rule w (Enqueue_connect t) a = Some w"
  by (simp_all add: dialog_rule_def)

lemma register_task_ok:
  assumes "service_core s w"
  shows "safe dialog_rule watch_start s w (register_task env) (\<lambda>_ s' w'. s' = s\<lparr>cs_registered := True\<rparr> \<and> w' = w\<lparr>dw_registered := True\<rparr> \<and> service_ok s' w')"
proof -
  have same: "s\<lparr>cs_registered := True\<rparr> = s" "w\<lparr>dw_registered := True\<rparr> = w" if "cs_registered s"
  proof -
    have w: "dw_registered w" using that assms by (simp add: service_core_def)
    show "s\<lparr>cs_registered := True\<rparr> = s" using that by (cases s) simp
    show "w\<lparr>dw_registered := True\<rparr> = w" using w by (cases w) simp
  qed
  have "service_ok (s\<lparr>cs_registered := True\<rparr>) (w\<lparr>dw_registered := True\<rparr>)"
    using assms by (simp add: service_ok_def service_core_def)
  moreover have "\<not> dw_registered w" if "\<not> cs_registered s" using assms that by (simp add: service_core_def)
  ultimately show ?thesis
    unfolding register_task_def by (auto intro!: safe_intro simp: dialog_rule_def same)
qed

text \<open>The pieces. What they leave is said relative to what was there.\<close>

definition same_dialog :: "connection_service \<Rightarrow> connection_service \<Rightarrow> bool" where
  "same_dialog s s' \<longleftrightarrow> cs_slot s' = cs_slot s \<and> cs_dialog_open s' = cs_dialog_open s \<and> cs_confirm_app s' = cs_confirm_app s \<and>
     cs_confirm_running s' = cs_confirm_running s \<and> cs_operation s' = cs_operation s"

lemma show_error_ok:
  assumes "service_ok s w"
  shows "safe dialog_rule watch_start s w (show_error env message result) (\<lambda>_ s' w'. service_ok s' w' \<and> same_dialog s s' \<and>
    dw_conflicts w' = dw_conflicts w \<and> (cs_pending s' \<or> cs_dialog_open s'))"
proof -
  have "service_core (s\<lparr>cs_message := m, cs_pending := True\<rparr>) w" for m
    using assms by (auto simp: service_ok_def service_core_def)
  then show ?thesis
    unfolding show_error_def using assms
    by (auto intro!: safe_look safe_if safe_return safe_modify safe_weaken [OF register_task_ok] simp: same_dialog_def)
qed

lemma close_wait_dialog_ok:
  assumes "service_ok s w"
  shows "safe dialog_rule watch_start s w (close_wait_dialog env) (\<lambda>_ s' w'. service_ok s' w' \<and> s' = s\<lparr>cs_slot := cs_slot s'\<rparr> \<and> cs_slot s' < 0 \<and>
    dw_conflicts w' = dw_conflicts w)"
  unfolding close_wait_dialog_def using assms
  by (auto intro!: safe_intro simp: dialog_rule_def service_ok_def service_core_def)

text \<open>The dialog is free for the next operation.\<close>

definition free_dialog :: "connection_service \<Rightarrow> bool" where
  "free_dialog s \<longleftrightarrow> cs_slot s < 0 \<and> \<not> cs_dialog_open s \<and> \<not> cs_pending s"

definition begun :: "dialog_watch \<Rightarrow> int \<Rightarrow> connection_service \<Rightarrow> dialog_watch \<Rightarrow> bool" where
  "begun w r s' w' \<longleftrightarrow> service_ok s' w' \<and> dw_conflicts w' = dw_conflicts w \<and> dw_yes w' = dw_yes w \<and> (0 \<le> r \<longrightarrow> dw_slot w' \<noteq> None)"

lemma show_busy_ok:
  assumes "service_ok s w" "free_dialog s"
  shows "safe dialog_rule watch_start s w (show_busy env message) (begun w)"
proof -
  have w: "dw_slot w = None" "dw_message w = None" "cs_confirm_app s \<le> 0" using assms by (auto simp: service_ok_def service_core_def free_dialog_def)
  have failed: "begun w r s (w\<lparr>dw_slot := None\<rparr>)" if "r < 0" for r
    using that assms w by (cases w) (auto simp: begun_def service_ok_def service_core_def)
  have core: "service_core (s\<lparr>cs_slot := n\<rparr>) (w\<lparr>dw_slot := Some n\<rparr>)" if "\<not> n < 0" for n
    using that assms w by (auto simp: service_ok_def service_core_def free_dialog_def)
  have task: "safe dialog_rule watch_start (s\<lparr>cs_slot := n\<rparr>) (w\<lparr>dw_slot := Some n\<rparr>) (do { _ \<leftarrow> register_task env; State_Monad.return 0 }) (begun w)"
    if "\<not> n < 0" for n
    by (rule safe_bind [OF register_task_ok [OF core [OF that]]]) (auto intro!: safe_return simp: begun_def)
  show ?thesis
    unfolding show_busy_def
  proof (rule safe_ask)
    fix a
    show "\<exists>w'. dialog_rule w (Show_busy message) a = Some w' \<and>
        safe dialog_rule watch_start s w' (if sa_result a < 0 then State_Monad.return (sa_result a)
          else do { _ \<leftarrow> modify (\<lambda>s. s\<lparr>cs_slot := sa_result a\<rparr>); _ \<leftarrow> register_task env; State_Monad.return 0 }) (begun w)"
      using w failed task by (cases "sa_result a < 0") (auto simp: dialog_rule_def intro!: safe_return safe_modify)
  qed
qed

lemma start_wait_dialog_ok:
  assumes "service_ok s w" "free_dialog s"
  shows "safe dialog_rule watch_start s w (start_wait_dialog env) (begun w)"
  unfolding start_wait_dialog_def using assms
  by (auto intro!: safe_ask_same dialog_rule_plain safe_look safe_if safe_return safe_option show_busy_ok simp: begun_def)

lemma begin_operation_ok:
  assumes "service_ok s w"
  shows "safe dialog_rule watch_start s w (begin_operation env operation) (begun w)"
proof -
  let ?s = "s\<lparr>cs_operation := operation, cs_worker_done := False, cs_worker_result := 0\<rparr>"
  have dialog: "safe dialog_rule watch_start ?s w (do {
       result \<leftarrow> start_wait_dialog env;
       if result < 0 then do { _ \<leftarrow> modify (\<lambda>s. s\<lparr>cs_operation := Operation_None\<rparr>); State_Monad.return result }
       else State_Monad.return 0
     }) (begun w)" if "\<not> is_busy s"
    by (rule safe_bind [OF start_wait_dialog_ok]) (use that assms in \<open>auto simp: is_busy_def free_dialog_def begun_def intro!: safe_intro\<close>)
  show ?thesis
    unfolding begin_operation_def using assms dialog
    by (auto intro!: safe_ask_same dialog_rule_plain safe_look safe_if safe_return safe_modify simp: begun_def)
qed

text \<open>The end of an operation.\<close>

definition still_ok :: "dialog_watch \<Rightarrow> connection_service \<Rightarrow> dialog_watch \<Rightarrow> bool" where
  "still_ok w s' w' \<longleftrightarrow> service_ok s' w' \<and> dw_conflicts w' = dw_conflicts w"

lemma begun_still_ok: "begun w r s' w' \<Longrightarrow> still_ok w s' w'"
  by (simp add: begun_def still_ok_def)

lemma show_error_still:
  "service_ok s w \<Longrightarrow> dw_conflicts w = dw_conflicts v \<Longrightarrow> safe dialog_rule watch_start s w (show_error env message result) (\<lambda>_. still_ok v)"
  by (rule safe_weaken [OF show_error_ok]) (simp_all add: still_ok_def)

lemma finish_unstarted_operation_ok:
  assumes "service_ok s w"
  shows "safe dialog_rule watch_start s w (finish_unstarted_operation env) (\<lambda>_. still_ok w)"
  unfolding finish_unstarted_operation_def show_connection_error_def
  by (intro safe_look safe_bind [OF close_wait_dialog_ok [OF assms]] safe_modify safe_if show_error_still safe_return)
    (auto simp: still_ok_def)

lemma confirm_quit_and_start_ok:
  assumes "service_ok s w" "(app, running) \<in> dw_conflicts w"
  shows "safe dialog_rule watch_start s w (confirm_quit_and_start env app running) (\<lambda>_. still_ok w)"
proof -
  have confirmed: "still_ok w (s'\<lparr>cs_confirm_app := app, cs_confirm_running := running\<rparr>) w'"
    if "service_ok s' w' \<and> same_dialog s s' \<and> dw_conflicts w' = dw_conflicts w \<and> (cs_pending s' \<or> cs_dialog_open s')" "\<not> is_busy s" for s' w'
    using that assms(2) by (auto simp: still_ok_def service_ok_def service_core_def same_dialog_def is_busy_def)
  have question: "safe dialog_rule watch_start s w (do {
       _ \<leftarrow> show_error env message 0;
       modify (\<lambda>s. s\<lparr>cs_confirm_app := app, cs_confirm_running := running\<rparr>)
     }) (\<lambda>_. still_ok w)" if "\<not> is_busy s" for message
    by (rule safe_bind [OF show_error_ok [OF assms(1)]]) (use confirmed that in \<open>auto intro!: safe_modify_last\<close>)
  show ?thesis
    unfolding confirm_quit_and_start_def
    using question by (auto intro!: safe_look safe_if show_error_still assms(1))
qed

lemma prepare_completion_ok:
  assumes "service_ok s w"
  shows "safe dialog_rule watch_start s w (prepare_completion env e) (\<lambda>_. service_ok)"
proof -
  define w' where "w' = (if is_conflict e then w\<lparr>dw_conflicts := insert (ev_application_id e, ev_running_application_id e) (dw_conflicts w)\<rparr> else w)"
  have rule: "dialog_rule w (Delivered e) a = Some w'" for a by (simp add: dialog_rule_def w'_def)
  have w': "service_ok s w'" using assms by (auto simp: w'_def service_ok_def service_core_def)
  have conflict: "(ev_application_id e, ev_running_application_id e) \<in> dw_conflicts w'" if "is_conflict e"
    using that by (simp add: w'_def)
  have report: "safe dialog_rule watch_start t v (report_completion env operation e) (\<lambda>_. service_ok)"
    if "service_ok t v" "dw_conflicts v = dw_conflicts w'" for t v operation
  proof -
    have error: "safe dialog_rule watch_start t v (show_error env message result) (\<lambda>_. service_ok)" for message result
      by (rule safe_weaken [OF show_error_ok [OF that(1)]]) simp
    have confirm: "safe dialog_rule watch_start t v (confirm_quit_and_start env (ev_application_id e) (ev_running_application_id e)) (\<lambda>_. service_ok)"
      if "is_conflict e"
      by (rule safe_weaken [OF confirm_quit_and_start_ok]) (use conflict that \<open>service_ok t v\<close> \<open>dw_conflicts v = _\<close> in \<open>auto simp: still_ok_def\<close>)
    show ?thesis
      unfolding report_completion_def show_connection_error_def
      using that error confirm by (auto intro!: safe_if safe_return simp: is_conflict_def)
  qed
  have finish: "safe dialog_rule watch_start s w' (do {
       _ \<leftarrow> close_wait_dialog env;
       _ \<leftarrow> modify (\<lambda>s. s\<lparr>cs_operation := Operation_None\<rparr>);
       _ \<leftarrow> report_completion env operation e;
       State_Monad.return True
     }) (\<lambda>_. service_ok)" for operation
    by (rule safe_bind [OF close_wait_dialog_ok [OF w']]) (auto intro!: safe_modify safe_bind [OF report] safe_return)
  show ?thesis
    unfolding prepare_completion_def
    by (rule safe_ask) (auto simp: rule w' intro!: safe_look safe_if safe_return finish)
qed

text \<open>The task that polls the dialogs.\<close>

lemma try_show_error_ok:
  assumes "service_ok s w"
  shows "safe dialog_rule watch_start s w (try_show_error env) (\<lambda>_. service_ok)"
proof -
  have init: "dialog_rule w (Message_init question message) a =
      Some (w\<lparr>dw_message := (if sa_result a < 0 then None else Some question), dw_aborted := False, dw_yes := False\<rparr>)"
    if "cs_slot s < 0" "\<not> cs_dialog_open s" for question message a
    using that assms by (simp add: dialog_rule_def service_ok_def service_core_def)
  have after: "service_ok s (w\<lparr>dw_message := None, dw_aborted := False\<rparr>)"
    "service_ok (s\<lparr>cs_pending := False, cs_confirm_app := 0, cs_confirm_running := 0\<rparr>) (w\<lparr>dw_message := None, dw_aborted := False\<rparr>)"
    "service_ok (s\<lparr>cs_pending := False, cs_dialog_open := True\<rparr>)
       (w\<lparr>dw_message := Some (0 < cs_confirm_app s), dw_aborted := False\<rparr>)"
    if "cs_pending s" "cs_slot s < 0" "\<not> cs_dialog_open s"
    using that assms by (auto simp: service_ok_def service_core_def)
  show ?thesis
    unfolding try_show_error_def using assms
    by (auto intro!: safe_look safe_if safe_return safe_ask safe_modify_last simp: init after)
qed

lemma start_confirmed_ok:
  assumes "service_ok s w" "quit = 0 \<or> (app, quit) \<in> dw_conflicts w \<and> dw_yes w"
  shows "safe dialog_rule watch_start s w (start_confirmed env app quit) (\<lambda>_. service_ok)"
proof -
  have finish: "safe dialog_rule watch_start s' w' (finish_unstarted_operation env) (\<lambda>_. service_ok)" if "service_ok s' w'" for s' w'
    by (rule safe_weaken [OF finish_unstarted_operation_ok [OF that]]) (simp add: still_ok_def)
  have start: "dialog_rule w' (Start_application app quit) a = Some (w'\<lparr>dw_yes := False\<rparr>)" if "begun w 0 s' w'" for s' w' a
    using that assms(2) by (auto simp: begun_def dialog_rule_def)
  show ?thesis
    unfolding start_confirmed_def
    by (rule safe_bind [OF begin_operation_ok [OF assms(1)]])
      (auto intro!: safe_if safe_return safe_ask safe_if_bind safe_bind [OF finish] safe_return_bind simp: start begun_def)
qed

lemma unregister_idle_task_ok:
  "service_ok s w \<Longrightarrow> safe dialog_rule watch_start s w (unregister_idle_task env) (\<lambda>_. service_ok)"
  unfolding unregister_idle_task_def
  by (auto intro!: safe_intro simp: dialog_rule_def service_ok_def service_core_def)

lemma take_answer_ok:
  assumes "service_core s w" "service_ok (s\<lparr>cs_dialog_open := False, cs_message := [], cs_confirm_app := 0, cs_confirm_running := 0\<rparr>) w'"
    "dw_conflicts w' = dw_conflicts w" "yes \<Longrightarrow> cs_confirm_app s > 0 \<Longrightarrow> dw_yes w'"
  shows "safe dialog_rule watch_start s w' (take_answer env yes) (\<lambda>_. service_ok)"
proof -
  have approved: "(cs_confirm_app s, cs_confirm_running s) \<in> dw_conflicts w'" if "cs_confirm_app s > 0"
    using that assms(1,3) by (simp add: service_core_def)
  have error: "safe dialog_rule watch_start t v (show_error env message result) (\<lambda>_. service_ok)" if "service_ok t v" for t v message result
    by (rule safe_weaken [OF show_error_ok [OF that]]) simp
  show ?thesis
    unfolding take_answer_def using assms(2,4) approved
    by (auto intro!: safe_look safe_modify safe_if safe_return safe_bind [OF start_confirmed_ok] error)
qed

lemma dialog_poll_task_ok:
  assumes "service_ok s w"
  shows "safe dialog_rule watch_start s w (dialog_poll_task env) (\<lambda>_. service_ok)"
proof -
  have answer: "safe dialog_rule watch_start s' w' (do {
         r \<leftarrow> ask env Message_result;
         t \<leftarrow> ask env Message_term;
         if sa_result t < 0 then skip
         else do { _ \<leftarrow> take_answer env (sa_result r \<ge> 0 \<and> sa_ok r \<and> sa_yes r); unregister_idle_task env }
       }) (\<lambda>_. service_ok)" if ok: "service_ok s' w'" and shown: "cs_dialog_open s'" for s' w'
  proof -
    let ?w = "\<lambda>r. w'\<lparr>dw_yes := (cs_confirm_app s' > 0 \<and> sa_result r \<ge> 0 \<and> sa_ok r \<and> sa_yes r)\<rparr>"
    have w': "dw_message w' = Some (cs_confirm_app s' > 0)" using ok shown by (simp add: service_ok_def service_core_def)
    have result: "dialog_rule w' Message_result r = Some (?w r)" for r by (simp add: dialog_rule_def w')
    have ended: "dialog_rule (?w r) Message_term t = Some (if sa_result t < 0 then ?w r else (?w r)\<lparr>dw_message := None, dw_aborted := False\<rparr>)" for r t
      by (simp add: dialog_rule_def w')
    have over: "service_ok (s'\<lparr>cs_dialog_open := False, cs_message := [], cs_confirm_app := 0, cs_confirm_running := 0\<rparr>)
        ((?w r)\<lparr>dw_message := None, dw_aborted := False\<rparr>)" for r
      using ok by (auto simp: service_ok_def service_core_def)
    have core: "service_core s' w'" using ok by (simp add: service_ok_def)
    have take: "safe dialog_rule watch_start s' ((?w r)\<lparr>dw_message := None, dw_aborted := False\<rparr>)
        (take_answer env (sa_result r \<ge> 0 \<and> sa_ok r \<and> sa_yes r)) (\<lambda>_. service_ok)" for r
      by (rule take_answer_ok [OF core over]) simp_all
    show ?thesis
    proof (rule safe_ask, intro exI conjI, rule result, rule safe_ask, intro exI conjI, rule ended)
      show "safe dialog_rule watch_start s' (if sa_result t < 0 then ?w r else (?w r)\<lparr>dw_message := None, dw_aborted := False\<rparr>)
         (if sa_result t < 0 then skip
          else do { _ \<leftarrow> take_answer env (sa_result r \<ge> 0 \<and> sa_ok r \<and> sa_yes r); unregister_idle_task env }) (\<lambda>_. service_ok)" for r t
        using ok by (auto intro!: safe_return safe_bind [OF take] unregister_idle_task_ok)
    qed
  qed
  have status: "dialog_rule w' Message_status a = Some w'" if "service_ok s' w'" "cs_dialog_open s'" for s' w' a
    using that by (simp add: dialog_rule_def service_ok_def service_core_def)
  show ?thesis
    unfolding dialog_poll_task_def
    by (rule safe_bind [OF try_show_error_ok [OF assms]])
      (auto intro!: safe_look safe_if safe_ask_same status safe_return answer unregister_idle_task_ok)
qed

lemma service_shutdown_ok:
  assumes "service_ok s w"
  shows "safe dialog_rule watch_start s w (service_shutdown env) (\<lambda>_. service_ok)"
  unfolding service_shutdown_def
  by (rule safe_bind [OF close_wait_dialog_ok [OF assms]])
    (auto intro!: safe_intro simp: dialog_rule_def service_ok_def service_core_def split: if_splits)

lemma connect_ok:
  assumes "service_ok s w"
  shows "safe dialog_rule watch_start s w (connect env address) (\<lambda>_. service_ok)"
proof -
  have finish: "safe dialog_rule watch_start s' w' (finish_unstarted_operation env) (\<lambda>_. service_ok)" if "service_ok s' w'" for s' w'
    by (rule safe_weaken [OF finish_unstarted_operation_ok [OF that]]) (simp add: still_ok_def)
  have error: "safe dialog_rule watch_start t v (show_error env message result) (\<lambda>_. service_ok)" if "service_ok t v" for t v message result
    by (rule safe_weaken [OF show_error_ok [OF that]]) simp
  show ?thesis
    unfolding connect_def show_connection_error_def using assms
    by (auto intro!: safe_if safe_look safe_modify safe_return safe_return_bind safe_if_bind safe_ask_same dialog_rule_plain
        safe_bind [OF error] safe_bind [OF begin_operation_ok] safe_bind [OF finish] simp: begun_def)
qed

section \<open>Properties\<close>

datatype service_operation =
    Sv_connect string
  | Sv_begin operation
  | Sv_unstarted
  | Sv_event event
  | Sv_error string int
  | Sv_poll
  | Sv_start int
  | Sv_worker int
  | Sv_shutdown

fun service_act :: "service_env \<Rightarrow> connection_service \<Rightarrow> service_operation \<Rightarrow> (service_call, service_answer) calls \<Rightarrow>
    connection_service \<times> (service_call, service_answer) calls" where
  "service_act env s (Sv_connect address) log = execute (connect env address) s log"
| "service_act env s (Sv_begin operation) log = execute (begin_operation env operation) s log"
| "service_act env s Sv_unstarted log = execute (finish_unstarted_operation env) s log"
| "service_act env s (Sv_event e) log = execute (prepare_completion env e) s log"
| "service_act env s (Sv_error message result) log = execute (show_error env message result) s log"
| "service_act env s Sv_poll log = execute (dialog_poll_task env) s log"
| "service_act env s (Sv_start app) log = execute (start_confirmed env app 0) s log"
| "service_act env s (Sv_worker result) log = (record_worker_result result s, log)"
| "service_act env s Sv_shutdown log = execute (service_shutdown env) s log"

lemma service_act_ok:
  assumes "accept dialog_rule watch_start log = Some w" "service_ok s w" "service_act env s x log = (s', log')"
  shows "\<exists>w'. accept dialog_rule watch_start log' = Some w' \<and> service_ok s' w'"
proof -
  have begins: "safe dialog_rule watch_start s w (begin_operation env operation) (\<lambda>_. service_ok)" for operation
    by (rule safe_weaken [OF begin_operation_ok [OF assms(2)]]) (simp add: begun_def)
  have ends: "safe dialog_rule watch_start s w (finish_unstarted_operation env) (\<lambda>_. service_ok)"
    by (rule safe_weaken [OF finish_unstarted_operation_ok [OF assms(2)]]) (simp add: still_ok_def)
  have error: "safe dialog_rule watch_start s w (show_error env message result) (\<lambda>_. service_ok)" for message result
    by (rule safe_weaken [OF show_error_ok [OF assms(2)]]) simp
  show ?thesis
  proof (cases x)
    case (Sv_connect a)
    show ?thesis by (rule execute_obeys [OF connect_ok [OF assms(2)] assms(1)]) (use assms(3) Sv_connect in simp)
  next
    case (Sv_begin a)
    show ?thesis by (rule execute_obeys [OF begins assms(1)]) (use assms(3) Sv_begin in simp)
  next
    case (Sv_event a)
    show ?thesis by (rule execute_obeys [OF prepare_completion_ok [OF assms(2)] assms(1)]) (use assms(3) Sv_event in simp)
  next
    case (Sv_error a b)
    show ?thesis by (rule execute_obeys [OF error assms(1)]) (use assms(3) Sv_error in simp)
  next
    case (Sv_start a)
    show ?thesis by (rule execute_obeys [OF start_confirmed_ok [OF assms(2) disjI1 [OF refl]] assms(1)]) (use assms(3) Sv_start in simp)
  next
    case Sv_unstarted
    show ?thesis by (rule execute_obeys [OF ends assms(1)]) (use assms(3) Sv_unstarted in simp)
  next
    case Sv_poll
    show ?thesis by (rule execute_obeys [OF dialog_poll_task_ok [OF assms(2)] assms(1)]) (use assms(3) Sv_poll in simp)
  next
    case Sv_shutdown
    show ?thesis by (rule execute_obeys [OF service_shutdown_ok [OF assms(2)] assms(1)]) (use assms(3) Sv_shutdown in simp)
  next
    case (Sv_worker result)
    then show ?thesis using assms by (auto simp: record_worker_result_def)
  qed
qed

interpretation service: client "service_act env" dialog_rule watch_start service_ok "\<lambda>_ _. True"
  by unfold_locales (rule service_act_ok)

lemma service_new_ok: "service_ok service_new watch_start"
  by (simp add: service_ok_def service_core_def service_new_def watch_start_def)

text \<open>
  Property C8: over all operations, events, answers of the dialogs and results of workers, there is at most one dialog at a time, each is opened and ended in
  turn, the task is registered while anything is shown, and an application is quit on the server only when the server had refused the very launch because of
  it and the user answered the question that was shown last with yes.
\<close>

theorem service_quits_with_consent:
  "case perform (service_act env) service_new ops [] of (s, log) \<Rightarrow>
     \<exists>w. accept dialog_rule watch_start log = Some w \<and> (cs_slot s < 0 \<longleftrightarrow> dw_slot w = None) \<and> (cs_dialog_open s \<longleftrightarrow> dw_message w \<noteq> None) \<and>
       (cs_registered s \<longleftrightarrow> dw_registered w)"
  using service.run_obeys [OF service_new_ok, of env ops] by (auto simp: service_ok_def service_core_def split: if_splits)

text \<open>A launch that is refused because another application runs, the question, the answer yes, and the launch with approval.\<close>

definition conflict_event :: event where
  "conflict_event = \<lparr>ev_type = EvStreamFailed, ev_result = - 8, ev_host_id = 1, ev_application_id = 7, ev_address = None, ev_pairing_pin = [],
     ev_server_status_code = 0, ev_server_status_message = [], ev_running_application_id = 9, ev_discovery_generation = 0\<rparr>"

definition consenting :: service_env where
  "consenting calls c = \<lparr>sa_result = 0, sa_ok = True, sa_yes = True, sa_finished = True, sa_busy = False\<rparr>"

lemma quit_after_yes:
  "map fst (snd (perform (service_act consenting) service_new [Sv_start 7, Sv_event conflict_event, Sv_poll] [])) =
     [Stop_host_search, Cancel_availability, Application_plugin, Module_loaded, Show_busy ''Starting stream...'', Register_task, Start_application 7 0,
      Delivered conflict_event, Close_busy 0,
      Message_init True (''Another application is running on the PC. Quit it and start the selected application? '' @
        ''Any unsaved progress will be lost. This also ends other streaming sessions.''),
      Message_status, Message_result, Message_term,
      Stop_host_search, Cancel_availability, Application_plugin, Module_loaded, Show_busy ''Starting stream...'', Start_application 7 9]"
  by code_simp

end
