(* ===== verification/ConnectionApi.thy ===== *)
theory ConnectionApi imports StreamSession ServerInfo Calls begin

text \<open>
  The selected host of the program (\<open>src/moonlight/api.cpp\<close>) and the mirror of its state in the backend (\<open>src/backend/legacy_moonlight_adapter.cpp\<close>): a
  request takes the host only when no other request, no disconnect and no shutdown has it; it drives the GameStream client and the stream session and
  tells the program by events, from which the adapter learns the state.

  The GameStream client, the known devices, the settings and the threads are on the other side of the calls. Of the server structure the model has
  the fields this file reads, replaced by what the client left in them. The stream session is the phase of \<open>StreamSession\<close>: its moves come with
  the answers of calls, because the session runs beside the request, or between the requests, and its events arrive on its own
  thread, without the mutex of the host. A request is otherwise one step: another one that meets it is refused without effect.
\<close>

section \<open>State and calls\<close>

datatype connection_state = Disconnected | Ready | Paired | Connection_streaming | Paused

record server_view =
  sv_paired :: bool
  sv_mac :: string
  sv_unique_id :: string
  sv_path :: string
  sv_game :: int
  sv_curl :: bool

definition view_zero :: server_view where
  "view_zero = \<lparr>sv_paired = False, sv_mac = [], sv_unique_id = [], sv_path = [], sv_game = 0, sv_curl = False\<rparr>"

record selected_host =
  ah_id :: int
  ah_host_id :: string
  ah_internal :: string
  ah_mac :: string
  ah_port :: u16
  ah_paired :: bool

definition no_host :: selected_host where
  "no_host = \<lparr>ah_id = 0, ah_host_id = [], ah_internal = [], ah_mac = [], ah_port = 0, ah_paired = False\<rparr>"

text \<open>The thread that cleans up after a disconnect, and the shutdown: both end up with the mutex of the host.\<close>

datatype cleanup_worker = No_worker | Scheduled | Waiting
datatype closing = Open | Closing | Holding

record adapter =
  ad_state :: connection_state
  ad_host :: bool

record api =
  ap_callback :: bool
  ap_host :: selected_host
  ap_has_host :: bool
  ap_state :: connection_state
  ap_server :: server_view
  ap_initialized :: bool
  ap_apps :: "application list"
  ap_app_count :: int
  ap_apps_valid :: bool
  ap_stream_app :: int
  ap_active :: bool
  ap_pending :: bool
  ap_disconnect_pending :: bool
  ap_worker :: cleanup_worker
  ap_closing :: closing
  ap_session :: phase
  ap_adapter :: adapter

text \<open>What the session does beside a call: it starts to stream, it is over (with its result and the game of the server), its owner is gone.\<close>

datatype session_move = Session_started | Session_over int int | Session_gone

datatype api_call =
    Discovery_init
  | Discovery_shutdown
  | Settings_init
  | Settings_read
  | Settings_shutdown
  | Store_init
  | Client_directory
  | Unique_id_path
  | Certificate_path selected_host
  | Set_host_id selected_host string
  | Mark_paired selected_host
  | Gs_init string u16 string
  | Gs_shutdown
  | Gs_certificate_path string
  | Gs_pair string
  | Gs_applist
  | Gs_last_http
  | Cancelled
  | Random_pin
  | Stream_start int int
  | Stream_stop
  | Create_worker
  | Session_moved session_move
  | Emit event

record api_answer =
  aa_result :: int
  aa_ok :: bool
  aa_number :: nat
  aa_string :: string
  aa_server :: server_view
  aa_moves :: "session_move list"

type_synonym api_env = "(api_call, api_answer) env"
type_synonym 'r api_prog = "(api, api_call, api_answer, 'r) prog"

definition max_applications :: nat where "max_applications = 64"

definition api_boot :: api where
  "api_boot = \<lparr>ap_callback = False, ap_host = no_host, ap_has_host = False, ap_state = Disconnected, ap_server = view_zero,
     ap_initialized = False, ap_apps = replicate max_applications \<lparr>app_id = 0, app_name = []\<rparr>, ap_app_count = 0, ap_apps_valid = False,
     ap_stream_app = - 1, ap_active = False, ap_pending = False, ap_disconnect_pending = False, ap_worker = No_worker, ap_closing = Open,
     ap_session = Free, ap_adapter = \<lparr>ad_state = Disconnected, ad_host = False\<rparr>\<rparr>"

section \<open>Events\<close>

text \<open>What the adapter learns from an event; \<open>state\<close> is the answer of \<open>moonlight_api_get_connection_state\<close>.\<close>

definition forward_event :: "event_type \<Rightarrow> connection_state \<Rightarrow> adapter \<Rightarrow> adapter" where
  "forward_event type state ad =
     (case type of
        EvConnectionReady \<Rightarrow> ad\<lparr>ad_state := state, ad_host := True\<rparr>
      | EvPairingFinished \<Rightarrow> ad\<lparr>ad_state := Paired\<rparr>
      | EvStreamStarted \<Rightarrow> ad\<lparr>ad_state := Connection_streaming\<rparr>
      | EvStreamStopped \<Rightarrow> ad\<lparr>ad_state := Paired\<rparr>
      | EvConnectionClosed \<Rightarrow> ad\<lparr>ad_state := Disconnected, ad_host := False\<rparr>
      | EvConnectionFailed \<Rightarrow> ad\<lparr>ad_state := Disconnected, ad_host := False\<rparr>
      | EvPairingFailed \<Rightarrow> if ad_host ad then ad\<lparr>ad_state := Ready\<rparr> else ad
      | EvStreamFailed \<Rightarrow> if ad_host ad then ad\<lparr>ad_state := Paired\<rparr> else ad
      | _ \<Rightarrow> ad)"

definition event_for :: "event_type \<Rightarrow> int \<Rightarrow> int \<Rightarrow> int \<Rightarrow> string \<Rightarrow> event" where
  "event_for type result host app address =
     \<lparr>ev_type = type, ev_result = result, ev_host_id = host, ev_application_id = app, ev_address = Some address, ev_pairing_pin = [],
      ev_server_status_code = 0, ev_server_status_message = [], ev_running_application_id = 0, ev_discovery_generation = 0\<rparr>"

definition emit_event :: "api_env \<Rightarrow> event \<Rightarrow> unit api_prog" where
  "emit_event env e = do {
     callback \<leftarrow> look ap_callback;
     if callback then do {
       _ \<leftarrow> ask env (Emit e);
       modify (\<lambda>s. s\<lparr>ap_adapter := forward_event (ev_type e) (ap_state s) (ap_adapter s)\<rparr>)
     }
     else skip
   }"

text \<open>An event about the selected host, without an application.\<close>

definition emit_host :: "api_env \<Rightarrow> event_type \<Rightarrow> int \<Rightarrow> unit api_prog" where
  "emit_host env type result = do {
     h \<leftarrow> look ap_host;
     emit_event env (event_for type result (ah_id h) (- 1) (ah_internal h))
   }"

definition on_stream_event :: "api_env \<Rightarrow> event_type \<Rightarrow> int \<Rightarrow> unit api_prog" where
  "on_stream_event env type result = do {
     _ \<leftarrow> modify (\<lambda>s.
       if type = EvStreamStarted then s\<lparr>ap_pending := False, ap_active := True, ap_state := Connection_streaming\<rparr>
       else if type = EvStreamStopped \<or> type = EvStreamFailed then s\<lparr>ap_pending := False, ap_active := False, ap_state := Paired\<rparr>
       else s);
     e \<leftarrow> look (\<lambda>s. (event_for type result (ah_id (ap_host s)) (ap_stream_app s) (ah_internal (ap_host s)))
       \<lparr>ev_running_application_id :=
          (if type = EvStreamFailed \<and> result = app_conflict \<and> sv_game (ap_server s) \<noteq> ap_stream_app s then sv_game (ap_server s) else 0)\<rparr>);
     _ \<leftarrow> emit_event env e;
     modify (\<lambda>s. if type = EvStreamStopped \<or> type = EvStreamFailed then s\<lparr>ap_stream_app := - 1\<rparr> else s)
   }"

definition session_moved :: "api_env \<Rightarrow> session_move \<Rightarrow> unit api_prog" where
  "session_moved env m = do {
     phase \<leftarrow> look ap_session;
     case (m, phase) of
       (Session_started, Pending) \<Rightarrow> do {
         _ \<leftarrow> ask env (Session_moved m);
         _ \<leftarrow> modify (\<lambda>s. s\<lparr>ap_session := Streaming\<rparr>);
         on_stream_event env EvStreamStarted 0
       }
     | (Session_over result game, Pending) \<Rightarrow> do {
         _ \<leftarrow> ask env (Session_moved m);
         _ \<leftarrow> modify (\<lambda>s. s\<lparr>ap_session := Closed, ap_server := (ap_server s)\<lparr>sv_game := game\<rparr>\<rparr>);
         on_stream_event env EvStreamFailed result
       }
     | (Session_over result game, Streaming) \<Rightarrow> do {
         _ \<leftarrow> ask env (Session_moved m);
         _ \<leftarrow> modify (\<lambda>s. s\<lparr>ap_session := Closed, ap_server := (ap_server s)\<lparr>sv_game := game\<rparr>\<rparr>);
         on_stream_event env EvStreamStopped result
       }
     | (Session_gone, Closed) \<Rightarrow> do {
         _ \<leftarrow> ask env (Session_moved m);
         modify (\<lambda>s. s\<lparr>ap_session := Free\<rparr>)
       }
     | _ \<Rightarrow> skip
   }"

fun session_moves :: "api_env \<Rightarrow> session_move list \<Rightarrow> unit api_prog" where
  "session_moves env [] = skip"
| "session_moves env (m # ms) = do { _ \<leftarrow> session_moved env m; session_moves env ms }"

text \<open>A call beside which the session may move.\<close>

definition ask_beside :: "api_env \<Rightarrow> api_call \<Rightarrow> api_answer api_prog" where
  "ask_beside env c = do { a \<leftarrow> ask env c; _ \<leftarrow> session_moves env (aa_moves a); State_Monad.return a }"

section \<open>Requests\<close>

definition admitted :: "bool \<Rightarrow> api \<Rightarrow> bool" where
  "admitted for_disconnect s \<longleftrightarrow> ap_worker s \<noteq> Waiting \<and> ap_closing s \<noteq> Holding \<and> (for_disconnect \<or> \<not> ap_disconnect_pending s)"

definition stream_running :: "api \<Rightarrow> bool" where
  "stream_running s \<longleftrightarrow> ap_session s \<noteq> Free"

definition invalidate_applications :: "api \<Rightarrow> api" where
  "invalidate_applications s = s\<lparr>ap_apps_valid := False, ap_app_count := 0\<rparr>"

definition network_errors :: "int set" where "network_errors = {28, 7, 6, 56, 55, 52, 35}"

definition classify_pairing_error :: "int \<Rightarrow> int \<Rightarrow> int" where
  "classify_pairing_error result http =
     (if result = gamestream_ok then 0
      else if result = incorrect_pin then - 1001
      else if result = security_error then - 1004
      else if result = out_of_memory \<or> result = internal_error \<or> http = 27 then - 1005
      else if http \<in> network_errors then - 1002
      else - 1003)"

definition update_host_from_server :: "api \<Rightarrow> api" where
  "update_host_from_server s =
     (let h = (ap_host s)\<lparr>ah_paired := sv_paired (ap_server s)\<rparr>
      in s\<lparr>ap_host := (if sv_mac (ap_server s) \<noteq> [] then h\<lparr>ah_mac := bounded_copy 18 (sv_mac (ap_server s))\<rparr> else h)\<rparr>)"

definition shut_client :: "api_env \<Rightarrow> unit api_prog" where
  "shut_client env = do {
     initialized \<leftarrow> look ap_initialized;
     if initialized then do {
       a \<leftarrow> ask env Gs_shutdown;
       modify (\<lambda>s. s\<lparr>ap_initialized := False, ap_server := aa_server a\<rparr>)
     }
     else skip
   }"

text \<open>The client for the host; \<open>Inl\<close> the result when it could not be begun. The certificate path is looked up before anything was said to the server.\<close>

definition begin_client :: "api_env \<Rightarrow> selected_host \<Rightarrow> int api_prog" where
  "begin_client env h = do {
     path \<leftarrow> ask env (Certificate_path h);
     a \<leftarrow> ask env (Gs_init (ah_internal h) (ah_port h) (if aa_result path = 0 then aa_string path else []));
     _ \<leftarrow> modify (\<lambda>s. s\<lparr>ap_server := aa_server a\<rparr>);
     if aa_result a = gamestream_ok \<and> sv_unique_id (aa_server a) \<noteq> [] then do {
       _ \<leftarrow> ask env (Set_host_id h (sv_unique_id (aa_server a)));
       _ \<leftarrow> (if sv_path (aa_server a) = [] then do {
           path \<leftarrow> ask env (Certificate_path h);
           if aa_result path = 0 then do {
             b \<leftarrow> ask env (Gs_certificate_path (aa_string path));
             modify (\<lambda>s. s\<lparr>ap_server := aa_server b\<rparr>)
           }
           else skip
         }
         else skip);
       State_Monad.return (aa_result a)
     }
     else State_Monad.return (aa_result a)
   }"

definition select_host :: "selected_host \<Rightarrow> api \<Rightarrow> api" where
  "select_host h s =
     (let sv = ap_server s;
          named = (if sv_unique_id sv \<noteq> [] then h\<lparr>ah_host_id := bounded_copy 33 (sv_unique_id sv)\<rparr> else h)
      in (update_host_from_server (s\<lparr>ap_initialized := True, ap_host := named\<rparr>))
           \<lparr>ap_has_host := True, ap_state := (if sv_paired sv then Paired else Ready)\<rparr>)"

definition connect_client :: "api_env \<Rightarrow> selected_host \<Rightarrow> int api_prog" where
  "connect_client env h = do {
     _ \<leftarrow> modify invalidate_applications;
     _ \<leftarrow> shut_client env;
     result \<leftarrow> begin_client env h;
     if result \<noteq> gamestream_ok then do {
       _ \<leftarrow> modify (\<lambda>s. s\<lparr>ap_state := Disconnected, ap_has_host := False\<rparr>);
       _ \<leftarrow> emit_event env (event_for EvConnectionFailed result (ah_id h) (- 1) (ah_internal h));
       State_Monad.return result
     }
     else do {
       _ \<leftarrow> modify (select_host h);
       _ \<leftarrow> emit_host env EvConnectionReady 0;
       State_Monad.return 0
     }
   }"

definition connect_host :: "api_env \<Rightarrow> selected_host \<Rightarrow> int api_prog" where
  "connect_host env h = do {
     free \<leftarrow> look (\<lambda>s. admitted False s \<and> \<not> ap_disconnect_pending s \<and> ap_worker s = No_worker \<and> \<not> stream_running s);
     if \<not> free \<or> ah_internal h = [] then State_Monad.return (- 1)
     else do {
       a \<leftarrow> ask env Client_directory;
       if aa_result a \<noteq> 0 then do {
         _ \<leftarrow> emit_event env (event_for EvConnectionFailed (- 1) (ah_id h) (- 1) (ah_internal h));
         State_Monad.return (- 1)
       }
       else connect_client env h
     }
   }"

definition unpaired :: "api \<Rightarrow> bool" where
  "unpaired s \<longleftrightarrow> ap_has_host s \<and> ap_state s = Ready \<and> ap_initialized s"

definition pin_digit :: "nat \<Rightarrow> char" where "pin_digit n = char_of (48 + n mod 10)"

definition pin_text :: "nat \<Rightarrow> string" where
  "pin_text n = [pin_digit (n div 1000), pin_digit (n div 100), pin_digit (n div 10), pin_digit n]"

text \<open>The result and the PIN that was made.\<close>

definition prepare_pairing :: "api_env \<Rightarrow> (int \<times> string option) api_prog" where
  "prepare_pairing env = do {
     ready \<leftarrow> look (\<lambda>s. admitted False s \<and> unpaired s);
     paired \<leftarrow> look (sv_paired \<circ> ap_server);
     if \<not> ready then State_Monad.return (- 1, None)
     else if paired then do {
       _ \<leftarrow> modify (\<lambda>s. s\<lparr>ap_state := Paired\<rparr>);
       State_Monad.return (wrong_state, None)
     }
     else do {
       a \<leftarrow> ask env Random_pin;
       if aa_result a < 0 then State_Monad.return (- 1, None)
       else do {
         h \<leftarrow> look ap_host;
         let pin = pin_text (aa_number a mod 10000);
         _ \<leftarrow> emit_event env ((event_for EvPairingRequired 0 (ah_id h) (- 1) (ah_internal h))\<lparr>ev_pairing_pin := pin\<rparr>);
         State_Monad.return (0, Some pin)
       }
     }
   }"

definition pairing_cancelled :: int where "pairing_cancelled = - 1006"

definition pairing_failed :: "api_env \<Rightarrow> int \<Rightarrow> int \<Rightarrow> string \<Rightarrow> int api_prog" where
  "pairing_failed env result status message = do {
     http \<leftarrow> ask env Gs_last_http;
     h \<leftarrow> look ap_host;
     let code = classify_pairing_error result (aa_result http);
     _ \<leftarrow> emit_event env ((event_for EvPairingFailed code (ah_id h) (- 1) (ah_internal h))
       \<lparr>ev_server_status_code := status, ev_server_status_message := bounded_copy 256 message\<rparr>);
     State_Monad.return code
   }"

definition pairing_finished :: "api_env \<Rightarrow> int api_prog" where
  "pairing_finished env = do {
     _ \<leftarrow> modify (\<lambda>s. (update_host_from_server s)\<lparr>ap_state := Paired\<rparr>);
     h \<leftarrow> look ap_host;
     _ \<leftarrow> ask env (Mark_paired h);
     _ \<leftarrow> emit_host env EvPairingFinished 0;
     State_Monad.return 0
   }"

definition pair_current_host :: "api_env \<Rightarrow> string \<Rightarrow> int api_prog" where
  "pair_current_host env pin = do {
     ready \<leftarrow> look (\<lambda>s. admitted False s \<and> unpaired s);
     if \<not> ready then State_Monad.return (- 1)
     else do {
       cancelled \<leftarrow> ask env Cancelled;
       if aa_ok cancelled then State_Monad.return pairing_cancelled
       else do {
         a \<leftarrow> ask env (Gs_pair pin);
         _ \<leftarrow> modify (\<lambda>s. s\<lparr>ap_server := aa_server a\<rparr>);
         cancelled \<leftarrow> ask env Cancelled;
         disconnecting \<leftarrow> look ap_disconnect_pending;
         if aa_ok cancelled \<or> aa_result a = gamestream_cancelled then State_Monad.return pairing_cancelled
         else if disconnecting then State_Monad.return (- 1)
         else if aa_result a \<noteq> gamestream_ok then pairing_failed env (aa_result a) (int (aa_number a)) (aa_string a)
         else pairing_finished env
       }
     }
   }"

text \<open>With a buffer the applications that are known; \<open>capacity\<close> is its capacity.\<close>

definition cached_applications :: "nat \<Rightarrow> api \<Rightarrow> int \<times> application list" where
  "cached_applications capacity s =
     (if \<not> admitted False s \<or> \<not> ap_apps_valid s then (- 1, [])
      else (let n = min (ap_app_count s) (int capacity) in (n, take (nat n) (ap_apps s))))"

definition applications_failed :: "api_env \<Rightarrow> int \<Rightarrow> int api_prog" where
  "applications_failed env result = do {
     _ \<leftarrow> modify invalidate_applications;
     _ \<leftarrow> emit_host env EvApplicationsFailed result;
     State_Monad.return result
   }"

definition read_applications :: "expat \<Rightarrow> string \<Rightarrow> api \<Rightarrow> int \<times> api" where
  "read_applications expat body s =
     (case xml_parse_applications expat (Some body) (Some (ap_apps s)) (int max_applications) True True of
        (result, apps, count, _) \<Rightarrow> (xml_code result, s\<lparr>ap_apps := apps, ap_app_count := count\<rparr>))"

definition load_applications :: "expat \<Rightarrow> api_env \<Rightarrow> int api_prog" where
  "load_applications expat env = do {
     free \<leftarrow> look (admitted False);
     if \<not> free then State_Monad.return (- 1)
     else do {
       ready \<leftarrow> look (\<lambda>s. ap_has_host s \<and> ap_initialized s \<and> \<not> ap_disconnect_pending s \<and> \<not> ap_pending s \<and> \<not> stream_running s \<and> ap_state s = Paired);
       if \<not> ready then do { _ \<leftarrow> emit_host env EvApplicationsFailed (- 1); State_Monad.return (- 1) }
       else do {
         _ \<leftarrow> modify invalidate_applications;
         a \<leftarrow> ask_beside env Gs_applist;
         parsed \<leftarrow> look (read_applications expat (aa_string a));
         _ \<leftarrow> (if aa_result a = gamestream_ok then modify (\<lambda>_. snd parsed) else skip);
         lost \<leftarrow> look (\<lambda>s. ap_disconnect_pending s \<or> ap_state s \<noteq> Paired);
         let result = (if lost then - 1 else if aa_result a = gamestream_ok then fst parsed else aa_result a);
         if result \<noteq> 0 then applications_failed env result
         else do {
           _ \<leftarrow> modify (\<lambda>s. s\<lparr>ap_apps_valid := True\<rparr>);
           n \<leftarrow> look ap_app_count;
           _ \<leftarrow> emit_host env EvApplicationsReady n;
           State_Monad.return n
         }
       }
     }
   }"

text \<open>\<open>moonlight_stream_start\<close> admits nobody while there is an owner.\<close>

definition stream_start :: "api_env \<Rightarrow> int \<Rightarrow> int \<Rightarrow> int api_prog" where
  "stream_start env app quit = do {
     running \<leftarrow> look stream_running;
     a \<leftarrow> ask env (Stream_start app quit);
     let result = (if running \<and> aa_result a = 0 then - 2 else aa_result a);
     _ \<leftarrow> modify (\<lambda>s. if result = 0 then s\<lparr>ap_session := Pending\<rparr> else s);
     _ \<leftarrow> session_moves env (aa_moves a);
     State_Monad.return result
   }"

definition start_application :: "api_env \<Rightarrow> int \<Rightarrow> int \<Rightarrow> int api_prog" where
  "start_application env app quit = do {
     ready \<leftarrow> look (\<lambda>s. admitted False s \<and> ap_has_host s \<and> ap_initialized s \<and> sv_curl (ap_server s) \<and> ap_state s = Paired \<and>
       \<not> ap_pending s \<and> \<not> ap_active s);
     if \<not> ready then State_Monad.return (- 1)
     else do {
       a \<leftarrow> ask env Settings_init;
       if aa_result a \<noteq> 0 then State_Monad.return (- 2)
       else do {
         b \<leftarrow> ask env Settings_read;
         if aa_result b \<noteq> 0 then State_Monad.return (- 2)
         else do {
           c \<leftarrow> ask env Unique_id_path;
           if aa_result c \<noteq> 0 then State_Monad.return (- 1)
           else do {
             _ \<leftarrow> modify (\<lambda>s. s\<lparr>ap_stream_app := app, ap_pending := True\<rparr>);
             result \<leftarrow> stream_start env app quit;
             _ \<leftarrow> (if result \<noteq> 0 then modify (\<lambda>s. s\<lparr>ap_pending := False, ap_stream_app := - 1,
                 ap_state := (if \<not> ap_active s then Paired else ap_state s)\<rparr>) else skip);
             State_Monad.return result
           }
         }
       }
     }
   }"

definition stop_application :: "api_env \<Rightarrow> int api_prog" where
  "stop_application env = do {
     running \<leftarrow> look (\<lambda>s. admitted False s \<and> ap_has_host s \<and> (ap_active s \<or> ap_pending s));
     if \<not> running then State_Monad.return (- 1)
     else do { a \<leftarrow> ask_beside env Stream_stop; State_Monad.return (aa_result a) }
   }"

section \<open>Disconnecting and the end\<close>

definition begin_disconnect_cleanup :: "api_env \<Rightarrow> int api_prog" where
  "begin_disconnect_cleanup env = do {
     running \<leftarrow> look (\<lambda>s. ap_worker s \<noteq> No_worker);
     if running then State_Monad.return 0
     else do {
       a \<leftarrow> ask env Create_worker;
       _ \<leftarrow> (if aa_result a = 0 then modify (\<lambda>s. s\<lparr>ap_worker := Scheduled, ap_disconnect_pending := True\<rparr>) else skip);
       State_Monad.return (aa_result a)
     }
   }"

definition disconnect_host :: "api_env \<Rightarrow> int api_prog" where
  "disconnect_host env = do {
     free \<leftarrow> look (admitted True);
     waiting \<leftarrow> look ap_disconnect_pending;
     host \<leftarrow> look ap_has_host;
     if \<not> free then State_Monad.return (if waiting then 0 else - 1)
     else if \<not> host \<or> waiting then State_Monad.return 0
     else do {
       _ \<leftarrow> modify invalidate_applications;
       streams \<leftarrow> look (\<lambda>s. ap_active s \<or> ap_pending s \<or> stream_running s);
       stopped \<leftarrow> (if streams then do { a \<leftarrow> ask_beside env Stream_stop; State_Monad.return (aa_result a) } else State_Monad.return 0);
       if stopped \<noteq> 0 then do { _ \<leftarrow> modify (\<lambda>s. s\<lparr>ap_disconnect_pending := False\<rparr>); State_Monad.return stopped }
       else do {
         result \<leftarrow> begin_disconnect_cleanup env;
         _ \<leftarrow> (if result \<noteq> 0 then modify (\<lambda>s. s\<lparr>ap_disconnect_pending := False\<rparr>) else skip);
         State_Monad.return result
       }
     }
   }"

text \<open>The cleanup worker: it gets the mutex, and each look at the session finds it running or ends the connection.\<close>

definition worker_lock :: "api \<Rightarrow> api" where
  "worker_lock s = (if ap_worker s = Scheduled \<and> ap_closing s \<noteq> Holding then s\<lparr>ap_worker := Waiting\<rparr> else s)"

definition worker_round :: "api_env \<Rightarrow> unit api_prog" where
  "worker_round env = do {
     over \<leftarrow> look (\<lambda>s. ap_worker s = Waiting \<and> \<not> stream_running s);
     if over then do {
       _ \<leftarrow> shut_client env;
       _ \<leftarrow> modify (\<lambda>s. s\<lparr>ap_pending := False, ap_active := False, ap_stream_app := - 1, ap_state := Disconnected, ap_has_host := False\<rparr>);
       _ \<leftarrow> emit_host env EvConnectionClosed 0;
       modify (\<lambda>s. s\<lparr>ap_worker := No_worker, ap_disconnect_pending := False\<rparr>)
     }
     else skip
   }"

text \<open>\<open>SetEventCallback(NULL, NULL)\<close> and the settings, before the shutdown of the API.\<close>

definition adapter_shutdown_begin :: "api_env \<Rightarrow> unit api_prog" where
  "adapter_shutdown_begin env = do {
     _ \<leftarrow> modify (\<lambda>s. s\<lparr>ap_callback := False, ap_closing := (if ap_closing s = Open then Closing else ap_closing s)\<rparr>);
     _ \<leftarrow> ask env Settings_shutdown;
     skip
   }"

text \<open>A round of the loop that takes the mutex when no cleanup is left, and stops the stream.\<close>

definition shutdown_lock :: "api_env \<Rightarrow> unit api_prog" where
  "shutdown_lock env = do {
     free \<leftarrow> look (\<lambda>s. ap_closing s = Closing \<and> ap_worker s = No_worker);
     if free then do {
       _ \<leftarrow> modify (\<lambda>s. s\<lparr>ap_closing := Holding\<rparr>);
       streams \<leftarrow> look (\<lambda>s. ap_active s \<or> ap_pending s \<or> stream_running s);
       if streams then do { _ \<leftarrow> ask_beside env Stream_stop; skip } else skip
     }
     else skip
   }"

text \<open>Once the session is gone: the rest of the shutdown, and the fields of the adapter.\<close>

definition shutdown_round :: "api_env \<Rightarrow> unit api_prog" where
  "shutdown_round env = do {
     over \<leftarrow> look (\<lambda>s. ap_closing s = Holding \<and> \<not> stream_running s);
     if over then do {
       _ \<leftarrow> shut_client env;
       _ \<leftarrow> ask env Discovery_shutdown;
       modify (\<lambda>s. (invalidate_applications s)\<lparr>ap_state := Disconnected, ap_has_host := False, ap_active := False, ap_pending := False,
         ap_stream_app := - 1, ap_disconnect_pending := False, ap_worker := No_worker, ap_server := view_zero, ap_host := no_host,
         ap_callback := False, ap_closing := Open, ap_adapter := \<lparr>ad_state = Disconnected, ad_host = False\<rparr>\<rparr>)
     }
     else skip
   }"

section \<open>The backend\<close>

definition api_init :: "api_env \<Rightarrow> int api_prog" where
  "api_init env = do {
     _ \<leftarrow> modify (\<lambda>s. (invalidate_applications s)\<lparr>ap_state := Disconnected, ap_has_host := False, ap_initialized := False, ap_server := view_zero\<rparr>);
     a \<leftarrow> ask env Discovery_init;
     State_Monad.return (aa_result a)
   }"

definition adapter_initialize :: "api_env \<Rightarrow> int api_prog" where
  "adapter_initialize env = do {
     _ \<leftarrow> modify (\<lambda>s. s\<lparr>ap_adapter := \<lparr>ad_state = Disconnected, ad_host = False\<rparr>\<rparr>);
     a \<leftarrow> ask env Settings_init;
     if aa_result a \<noteq> 0 then State_Monad.return (aa_result a)
     else do {
       b \<leftarrow> ask env Store_init;
       if aa_result b \<noteq> 0 then State_Monad.return (aa_result b) else api_init env
     }
   }"

text \<open>With the callback of the program, as \<open>MoonlightApp::Initialize\<close> sets it once the backend is there.\<close>

definition backend_start :: "api_env \<Rightarrow> int api_prog" where
  "backend_start env = do {
     result \<leftarrow> adapter_initialize env;
     _ \<leftarrow> (if result = 0 then modify (\<lambda>s. s\<lparr>ap_callback := True\<rparr>) else skip);
     State_Monad.return result
   }"

text \<open>A request that needs a host, as far as the adapter knows of one.\<close>

definition with_host :: "'r \<Rightarrow> 'r api_prog \<Rightarrow> 'r api_prog" where
  "with_host refusal request = do { host \<leftarrow> look (ad_host \<circ> ap_adapter); if host then request else State_Monad.return refusal }"

definition adapter_connect :: "api_env \<Rightarrow> selected_host \<Rightarrow> int api_prog" where
  "adapter_connect env h = (if ah_internal h = [] then State_Monad.return (- 1) else connect_host env h)"

definition adapter_prepare_pairing :: "api_env \<Rightarrow> (int \<times> string option) api_prog" where
  "adapter_prepare_pairing env = with_host (- 1, None) (prepare_pairing env)"

definition adapter_pair :: "api_env \<Rightarrow> string \<Rightarrow> int api_prog" where
  "adapter_pair env pin = with_host (- 1) (pair_current_host env pin)"

definition adapter_start :: "api_env \<Rightarrow> int \<Rightarrow> int \<Rightarrow> int api_prog" where
  "adapter_start env app quit = with_host (- 1) (start_application env app quit)"

definition adapter_stop :: "api_env \<Rightarrow> int api_prog" where
  "adapter_stop env = with_host (- 1) (stop_application env)"

section \<open>The order of the calls\<close>

text \<open>
  The client is begun only when none is there and ended only when it is, both while no session uses the server; pairing and the application list need
  it and a server of their own. A session is started only on a client. An event says what is so: a connection is ready when the client is there,
  closed when it is gone and no session is left, and failed when there is no client, or else when the directory of the client could not be made.

  Two things the program is not told, and the watch notes them: \<open>aw_stray\<close>, a client is there although a connection was reported as failed last, and
  \<open>aw_unheard\<close>, a pairing left a paired server and its end was not reported.
\<close>

record api_watch =
  aw_connected :: bool
  aw_phase :: phase
  aw_directory :: bool
  aw_stray :: bool
  aw_unheard :: bool

definition api_watch_start :: api_watch where
  "api_watch_start = \<lparr>aw_connected = False, aw_phase = Free, aw_directory = False, aw_stray = False, aw_unheard = False\<rparr>"

definition event_true :: "event_type \<Rightarrow> api_watch \<Rightarrow> bool" where
  "event_true type w =
     (case type of
        EvConnectionReady \<Rightarrow> aw_connected w \<and> aw_phase w = Free
      | EvPairingRequired \<Rightarrow> aw_connected w \<and> aw_phase w = Free
      | EvPairingFinished \<Rightarrow> aw_connected w \<and> aw_phase w = Free
      | EvPairingFailed \<Rightarrow> aw_connected w \<and> aw_phase w = Free
      | EvApplicationsReady \<Rightarrow> aw_connected w \<and> aw_phase w = Free
      | EvConnectionClosed \<Rightarrow> \<not> aw_connected w \<and> aw_phase w = Free
      | EvConnectionFailed \<Rightarrow> aw_phase w = Free \<and> (aw_connected w \<longrightarrow> aw_directory w)
      | EvStreamStarted \<Rightarrow> aw_phase w = Streaming
      | EvStreamStopped \<Rightarrow> aw_phase w = Closed
      | EvStreamFailed \<Rightarrow> aw_phase w = Closed
      | _ \<Rightarrow> True)"

text \<open>What the watch notes of an event.\<close>

definition event_noted :: "event_type \<Rightarrow> api_watch \<Rightarrow> api_watch" where
  "event_noted type w =
     (if type \<in> {EvConnectionReady, EvConnectionClosed} then w\<lparr>aw_stray := False, aw_unheard := False\<rparr>
      else if type = EvConnectionFailed then w\<lparr>aw_stray := aw_connected w\<rparr>
      else if type = EvPairingFinished then w\<lparr>aw_unheard := False\<rparr>
      else w)"

fun phase_after :: "session_move \<Rightarrow> phase \<Rightarrow> phase option" where
  "phase_after Session_started Pending = Some Streaming"
| "phase_after (Session_over _ _) Pending = Some Closed"
| "phase_after (Session_over _ _) Streaming = Some Closed"
| "phase_after Session_gone Closed = Some Free"
| "phase_after _ _ = None"

fun api_rule :: "api_watch \<Rightarrow> api_call \<Rightarrow> api_answer \<Rightarrow> api_watch option" where
  "api_rule w (Gs_init _ _ _) a = guard (\<not> aw_connected w \<and> aw_phase w = Free) (w\<lparr>aw_connected := (aa_result a = gamestream_ok)\<rparr>)"
| "api_rule w Gs_shutdown a = guard (aw_connected w \<and> aw_phase w = Free) (w\<lparr>aw_connected := False\<rparr>)"
| "api_rule w (Gs_certificate_path _) a = guard (aw_connected w \<and> aw_phase w = Free) w"
| "api_rule w (Gs_pair _) a = guard (aw_connected w \<and> aw_phase w = Free) (w\<lparr>aw_unheard := sv_paired (aa_server a)\<rparr>)"
| "api_rule w Gs_applist a = guard (aw_connected w \<and> aw_phase w = Free) w"
| "api_rule w (Stream_start _ _) a =
     guard (aw_connected w) (if aw_phase w = Free \<and> aa_result a = 0 then w\<lparr>aw_phase := Pending\<rparr> else w)"
| "api_rule w (Session_moved m) a = map_option (\<lambda>p. w\<lparr>aw_phase := p\<rparr>) (phase_after m (aw_phase w))"
| "api_rule w (Emit e) a = guard (event_true (ev_type e) w) (event_noted (ev_type e) w)"
| "api_rule w Client_directory a = Some (w\<lparr>aw_directory := (aa_result a \<noteq> 0)\<rparr>)"
| "api_rule w _ a = Some w"

text \<open>The adapter is where the API is, but for what the watch has noted.\<close>

definition mirrored :: "api \<Rightarrow> api_watch \<Rightarrow> bool" where
  "mirrored s w \<longleftrightarrow> (ap_state s = Ready \<and> sv_paired (ap_server s) \<longrightarrow> aw_unheard w) \<and> (ap_callback s \<longrightarrow>
     (if ad_host (ap_adapter s)
      then ap_has_host s \<and> (ad_state (ap_adapter s) = ap_state s \<or> aw_unheard w \<and> ad_state (ap_adapter s) = Ready \<and> ap_state s = Paired)
      else ad_state (ap_adapter s) = Disconnected \<and> ap_session s = Free \<and> (ap_has_host s \<longrightarrow> aw_stray w)))"

definition consistent :: "api \<Rightarrow> bool" where
  "consistent s \<longleftrightarrow> (ap_has_host s \<longleftrightarrow> ap_initialized s) \<and> (ap_session s \<noteq> Free \<longrightarrow> ap_initialized s) \<and>
     (ap_session s = Pending \<longrightarrow> ap_pending s) \<and> (ap_session s = Streaming \<longrightarrow> ap_active s) \<and> (ap_state s = Ready \<longrightarrow> ap_session s = Free) \<and>
     (\<not> ap_has_host s \<longrightarrow> ap_state s = Disconnected) \<and> (ap_disconnect_pending s \<longleftrightarrow> ap_worker s \<noteq> No_worker) \<and>
     (ap_closing s = Holding \<longrightarrow> ap_worker s = No_worker)"

definition watched :: "api \<Rightarrow> api_watch \<Rightarrow> bool" where
  "watched s w \<longleftrightarrow> aw_connected w = ap_initialized s \<and> aw_phase w = ap_session s"

definition api_ok :: "api \<Rightarrow> api_watch \<Rightarrow> bool" where
  "api_ok s w \<longleftrightarrow> watched s w \<and> consistent s \<and> mirrored s w"

lemmas api_defs = api_ok_def watched_def consistent_def mirrored_def

abbreviation api_safe :: "api \<Rightarrow> api_watch \<Rightarrow> 'r api_prog \<Rightarrow> ('r \<Rightarrow> api \<Rightarrow> api_watch \<Rightarrow> bool) \<Rightarrow> bool" where
  "api_safe \<equiv> safe api_rule api_watch_start"

text \<open>What the adapter knows after an event.\<close>

definition told :: "event_type \<Rightarrow> api \<Rightarrow> api" where
  "told type s = (if ap_callback s then s\<lparr>ap_adapter := forward_event type (ap_state s) (ap_adapter s)\<rparr> else s)"

definition heard :: "event_type \<Rightarrow> api \<Rightarrow> api_watch \<Rightarrow> api_watch" where
  "heard type s w = (if ap_callback s then event_noted type w else w)"

lemma heard_other [simp]:
  "type \<notin> {EvConnectionReady, EvConnectionClosed, EvConnectionFailed, EvPairingFinished} \<Longrightarrow> heard type s w = w"
  by (simp add: heard_def event_noted_def)

lemma heard_frame [simp]: "aw_connected (heard type s w) = aw_connected w" "aw_phase (heard type s w) = aw_phase w"
  by (simp_all add: heard_def event_noted_def)

lemma type_event_for [simp]: "ev_type (event_for type result host app address) = type"
  by (simp add: event_for_def)

lemma emit_event_safe:
  "event_true (ev_type e) w \<Longrightarrow> Q () (told (ev_type e) s) (heard (ev_type e) s w) \<Longrightarrow> api_safe s w (emit_event env e) Q"
  unfolding emit_event_def told_def heard_def by (auto intro!: safe_intro)

lemma emit_host_safe:
  "event_true type w \<Longrightarrow> Q () (told type s) (heard type s w) \<Longrightarrow> api_safe s w (emit_host env type result) Q"
  unfolding emit_host_def by (auto intro!: safe_look emit_event_safe)

lemma emit_event_bind:
  "event_true (ev_type e) w \<Longrightarrow> api_safe (told (ev_type e) s) (heard (ev_type e) s w) (f ()) Q \<Longrightarrow> api_safe s w (State_Monad.bind (emit_event env e) f) Q"
  by (rule safe_bind [OF emit_event_safe, where R = "\<lambda>_ s' w'. s' = told (ev_type e) s \<and> w' = heard (ev_type e) s w"]) auto

lemma emit_host_bind:
  "event_true type w \<Longrightarrow> api_safe (told type s) (heard type s w) (f ()) Q \<Longrightarrow> api_safe s w (State_Monad.bind (emit_host env type result) f) Q"
  by (rule safe_bind [OF emit_host_safe, where R = "\<lambda>_ s' w'. s' = told type s \<and> w' = heard type s w"]) auto

section \<open>The session beside the requests\<close>

definition stream_flags :: "event_type \<Rightarrow> api \<Rightarrow> api" where
  "stream_flags type s =
     (if type = EvStreamStarted then s\<lparr>ap_pending := False, ap_active := True, ap_state := Connection_streaming\<rparr>
      else s\<lparr>ap_pending := False, ap_active := False, ap_state := Paired\<rparr>)"

definition stream_told :: "event_type \<Rightarrow> api \<Rightarrow> api" where
  "stream_told type s =
     (let s' = told type (stream_flags type s) in if type = EvStreamStarted then s' else s'\<lparr>ap_stream_app := - 1\<rparr>)"

lemma on_stream_event_safe:
  assumes "type \<in> {EvStreamStarted, EvStreamStopped, EvStreamFailed}" "event_true type w" "Q () (stream_told type s) w"
  shows "api_safe s w (on_stream_event env type result) Q"
  unfolding on_stream_event_def
  by (intro safe_modify safe_look safe_bind [OF emit_event_safe, where R = "\<lambda>_ s' w'. s' = told type (stream_flags type s) \<and> w' = w"] safe_modify_last)
    (use assms in \<open>auto simp: stream_flags_def stream_told_def Let_def\<close>)

definition same_request :: "api \<Rightarrow> api \<Rightarrow> bool" where
  "same_request s s' \<longleftrightarrow> ap_worker s' = ap_worker s \<and> ap_disconnect_pending s' = ap_disconnect_pending s \<and> ap_closing s' = ap_closing s \<and>
     ap_callback s' = ap_callback s \<and> ap_initialized s' = ap_initialized s \<and> ap_has_host s' = ap_has_host s"

text \<open>What the session may do to the state while a request waits.\<close>

definition beside :: "api \<Rightarrow> api \<Rightarrow> bool" where
  "beside s s' \<longleftrightarrow> same_request s s' \<and> (ap_session s \<in> {Free, Closed} \<longrightarrow> s' = s \<or> s' = s\<lparr>ap_session := Free\<rparr>)"

lemma beside_refl: "beside s s"
  by (simp add: beside_def same_request_def)

lemma beside_trans: "beside s t \<Longrightarrow> beside t u \<Longrightarrow> beside s u"
  unfolding beside_def same_request_def by (cases "ap_session s") auto

lemma stream_told_ok:
  assumes "api_ok s w" "(type, p) \<in> {(EvStreamStarted, Streaming), (EvStreamFailed, Closed), (EvStreamStopped, Closed)}"
    "ap_session s \<in> {Pending, Streaming}"
  shows "api_ok (stream_told type (s\<lparr>ap_session := p, ap_server := v\<rparr>)) (w\<lparr>aw_phase := p\<rparr>)"
    "beside s (stream_told type (s\<lparr>ap_session := p, ap_server := v\<rparr>))"
proof -
  note defs = api_defs stream_told_def stream_flags_def told_def forward_event_def
  have host: "ap_initialized s" "ap_has_host s" "ap_callback s \<Longrightarrow> ad_host (ap_adapter s)" "aw_connected w"
    "ap_disconnect_pending s = (ap_worker s \<noteq> No_worker)" "ap_closing s = Holding \<Longrightarrow> ap_worker s = No_worker"
  proof -
    have parts: "watched s w" "consistent s" "mirrored s w" using assms(1) by (simp_all add: api_ok_def)
    have busy: "ap_session s \<noteq> Free" using assms(3) by auto
    show "ap_initialized s" "ap_has_host s" "ap_disconnect_pending s = (ap_worker s \<noteq> No_worker)" "ap_closing s = Holding \<Longrightarrow> ap_worker s = No_worker"
      using parts(2) busy by (simp_all add: consistent_def)
    then show "aw_connected w" using parts(1) by (simp add: watched_def)
    show "ap_callback s \<Longrightarrow> ad_host (ap_adapter s)" using parts(3) busy by (simp add: mirrored_def split: if_splits)
  qed
  consider "type = EvStreamStarted" "p = Streaming" | "type = EvStreamFailed" "p = Closed" | "type = EvStreamStopped" "p = Closed"
    using assms(2) by auto
  then show "api_ok (stream_told type (s\<lparr>ap_session := p, ap_server := v\<rparr>)) (w\<lparr>aw_phase := p\<rparr>)"
    by cases (cases "ap_callback s"; simp add: defs host; simp add: host)+
  show "beside s (stream_told type (s\<lparr>ap_session := p, ap_server := v\<rparr>))"
    using assms(3) by (cases "ap_callback s") (auto simp: beside_def same_request_def stream_told_def stream_flags_def told_def Let_def)
qed

lemma session_gone_ok: "api_ok s w \<Longrightarrow> ap_session s = Closed \<Longrightarrow> api_ok (s\<lparr>ap_session := Free\<rparr>) (w\<lparr>aw_phase := Free\<rparr>)"
  by (simp add: api_ok_def watched_def consistent_def) (simp add: mirrored_def split: if_splits)

lemma session_moved_ok:
  assumes "api_ok s w"
  shows "api_safe s w (session_moved env m) (\<lambda>_ s' w'. api_ok s' w' \<and> beside s s')"
proof -
  have phase: "aw_phase w = ap_session s" using assms by (simp add: api_defs)
  have same: "s\<lparr>ap_session := Streaming\<rparr> = s\<lparr>ap_session := Streaming, ap_server := ap_server s\<rparr>" by (cases s) simp
  note ok = stream_told_ok [OF assms]
  show ?thesis
  proof (cases "phase_after m (ap_session s)")
    case None
    then show ?thesis
      using assms unfolding session_moved_def
      by (cases m; cases "ap_session s") (auto intro!: safe_look safe_return simp: beside_refl)
  next
    case (Some p)
    then show ?thesis
    proof (cases "(m, ap_session s)" rule: phase_after.cases)
      case 1
      then show ?thesis
        unfolding session_moved_def using ok [of EvStreamStarted Streaming "ap_server s"] phase
        by (auto intro!: safe_look safe_ask safe_modify on_stream_event_safe simp: event_true_def same [symmetric])
    next
      case (2 r g)
      then show ?thesis
        unfolding session_moved_def using ok [of EvStreamFailed Closed] phase
        by (auto intro!: safe_look safe_ask safe_modify on_stream_event_safe simp: event_true_def)
    next
      case (3 r g)
      then show ?thesis
        unfolding session_moved_def using ok [of EvStreamStopped Closed] phase
        by (auto intro!: safe_look safe_ask safe_modify on_stream_event_safe simp: event_true_def)
    next
      case 4
      then show ?thesis
        unfolding session_moved_def using phase assms
        by (auto intro!: safe_look safe_ask safe_modify_last session_gone_ok simp: beside_def same_request_def)
    qed auto
  qed
qed

lemma session_moves_ok:
  "api_ok s w \<Longrightarrow> api_safe s w (session_moves env ms) (\<lambda>_ s' w'. api_ok s' w' \<and> beside s s')"
proof (induction ms arbitrary: s w)
  case Nil
  then show ?case by (auto intro!: safe_return simp: beside_refl)
next
  case (Cons m ms)
  have step: "api_safe s' w' (session_moves env ms) (\<lambda>_ t v. api_ok t v \<and> beside s t)" if "api_ok s' w'" "beside s s'" for s' w'
    by (rule safe_weaken [OF Cons.IH [OF that(1)]]) (blast intro: beside_trans that(2))
  show ?case by (auto intro!: safe_bind [OF session_moved_ok [OF Cons.prems]] step)
qed

lemma ask_beside_ok:
  assumes "\<And>a. \<exists>w'. api_rule w c a = Some w' \<and> api_ok s w'"
  shows "api_safe s w (ask_beside env c) (\<lambda>_ s' w'. api_ok s' w' \<and> beside s s')"
  unfolding ask_beside_def
proof (rule safe_ask)
  fix a
  obtain w' where w': "api_rule w c a = Some w'" "api_ok s w'" using assms by blast
  show "\<exists>w'. api_rule w c a = Some w' \<and> api_safe s w' (do { _ \<leftarrow> session_moves env (aa_moves a); State_Monad.return a })
      (\<lambda>_ s' w'. api_ok s' w' \<and> beside s s')"
    using w' by (auto intro!: safe_bind [OF session_moves_ok [OF w'(2)]] safe_return)
qed

section \<open>The requests keep the state consistent\<close>

lemma api_okD:
  assumes "api_ok s w"
  shows "aw_connected w = ap_initialized s" "aw_phase w = ap_session s" "ap_has_host s = ap_initialized s"
    "ap_session s \<noteq> Free \<Longrightarrow> ap_initialized s" "ap_session s = Pending \<Longrightarrow> ap_pending s" "ap_session s = Streaming \<Longrightarrow> ap_active s"
    "ap_state s = Ready \<Longrightarrow> ap_session s = Free" "\<not> ap_initialized s \<Longrightarrow> ap_state s = Disconnected"
    "ap_disconnect_pending s = (ap_worker s \<noteq> No_worker)" "ap_closing s = Holding \<Longrightarrow> ap_worker s = No_worker"
  using assms by (auto simp: api_defs)

lemma told_simps [simp]:
  "ap_host (told type s) = ap_host s" "ap_has_host (told type s) = ap_has_host s" "ap_state (told type s) = ap_state s"
  "ap_initialized (told type s) = ap_initialized s" "ap_session (told type s) = ap_session s" "ap_worker (told type s) = ap_worker s"
  "ap_disconnect_pending (told type s) = ap_disconnect_pending s" "ap_closing (told type s) = ap_closing s" "ap_pending (told type s) = ap_pending s"
  "ap_active (told type s) = ap_active s" "ap_server (told type s) = ap_server s" "ap_callback (told type s) = ap_callback s" "ap_app_count (told type s) = ap_app_count s"
  by (simp_all add: told_def)

lemma adapter_only [simp]:
  "watched (s\<lparr>ap_adapter := ad\<rparr>) w = watched s w" "consistent (s\<lparr>ap_adapter := ad\<rparr>) = consistent s"
  by (simp_all add: watched_def consistent_def)

lemma api_ok_told:
  "api_ok (told type s) w \<longleftrightarrow> watched s w \<and> consistent s \<and> mirrored (told type s) w"
  by (simp add: api_ok_def watched_def consistent_def)

lemma api_ok_fields [simp]:
  "api_ok (s\<lparr>ap_apps_valid := b\<rparr>) w = api_ok s w" "api_ok (s\<lparr>ap_app_count := n\<rparr>) w = api_ok s w" "api_ok (s\<lparr>ap_apps := xs\<rparr>) w = api_ok s w"
  "api_ok (s\<lparr>ap_stream_app := i\<rparr>) w = api_ok s w" "api_ok (s\<lparr>ap_host := h\<rparr>) w = api_ok s w"
  "api_ok (invalidate_applications s) w = api_ok s w" "api_ok (update_host_from_server s) w = api_ok s w"
  by (simp_all add: api_defs invalidate_applications_def update_host_from_server_def Let_def)

lemma invalidate_simps [simp]:
  "ap_session (invalidate_applications s) = ap_session s" "ap_initialized (invalidate_applications s) = ap_initialized s"
  "ap_worker (invalidate_applications s) = ap_worker s" "ap_callback (invalidate_applications s) = ap_callback s"
  "ap_closing (invalidate_applications s) = ap_closing s" "ap_disconnect_pending (invalidate_applications s) = ap_disconnect_pending s"
  "ap_state (invalidate_applications s) = ap_state s" "ap_adapter (invalidate_applications s) = ap_adapter s"
  "ap_pending (invalidate_applications s) = ap_pending s" "ap_active (invalidate_applications s) = ap_active s"
  "ap_has_host (invalidate_applications s) = ap_has_host s"
  by (simp_all add: invalidate_applications_def)

lemma shut_client_safe:
  assumes "watched s w" "ap_session s = Free"
  shows "api_safe s w (shut_client env) (\<lambda>_ s' w'. watched s' w' \<and> (\<exists>v. s' = s\<lparr>ap_initialized := False, ap_server := v\<rparr>))"
proof -
  have same: "\<exists>v. s = s\<lparr>ap_initialized := False, ap_server := v\<rparr>" if "\<not> ap_initialized s"
    using that by (intro exI [of _ "ap_server s"]) (cases s, simp)
  show ?thesis
    unfolding shut_client_def using assms same
    by (auto intro!: safe_look safe_if safe_ask safe_return safe_modify_last simp: watched_def)
qed

lemma server_only [simp]:
  "\<exists>v. s\<lparr>ap_server := x\<rparr> = s\<lparr>ap_server := v\<rparr>"
  by (rule exI, rule refl)

lemma begin_client_safe:
  assumes "watched s w" "ap_session s = Free" "\<not> ap_initialized s"
  shows "api_safe s w (begin_client env h)
    (\<lambda>r s' w'. w' = w\<lparr>aw_connected := (r = gamestream_ok)\<rparr> \<and> (\<exists>v. s' = s\<lparr>ap_server := v\<rparr>))"
  unfolding begin_client_def using assms
  by (auto intro!: safe_intro simp: watched_def)

lemma select_host_ok:
  assumes "ap_session s = Free" "ap_worker s = No_worker" "\<not> ap_disconnect_pending s" "aw_phase w = Free" "aw_connected w"
  shows "api_ok (told EvConnectionReady (select_host h s)) (heard EvConnectionReady (select_host h s) w)"
  using assms by (simp add: api_defs select_host_def update_host_from_server_def told_def heard_def event_noted_def forward_event_def Let_def)

lemma connect_failed_ok:
  assumes "ap_session s = Free" "ap_worker s = No_worker" "\<not> ap_disconnect_pending s" "aw_phase w = Free" "\<not> aw_connected w" "\<not> ap_initialized s"
  shows "api_ok (told EvConnectionFailed (s\<lparr>ap_state := Disconnected, ap_has_host := False\<rparr>))
    (heard EvConnectionFailed (s\<lparr>ap_state := Disconnected, ap_has_host := False\<rparr>) w)"
  using assms by (simp add: api_defs told_def heard_def event_noted_def forward_event_def)

lemma connect_client_ok:
  assumes "api_ok s w" "ap_session s = Free" "ap_worker s = No_worker"
  shows "api_safe s w (connect_client env h) (\<lambda>_. api_ok)"
proof -
  have quiet: "\<not> ap_disconnect_pending s" "watched s w" using api_okD [OF assms(1)] assms(3) by (simp_all add: watched_def)
  let ?s = "invalidate_applications s"
  have begun: "api_safe s' w' (begin_client env h)
      (\<lambda>r t v. v = w'\<lparr>aw_connected := (r = gamestream_ok)\<rparr> \<and> aw_phase w' = Free \<and> ap_session t = Free \<and> ap_worker t = No_worker \<and>
         \<not> ap_disconnect_pending t \<and> \<not> ap_initialized t)"
    if "watched s' w'" "\<exists>v. s' = ?s\<lparr>ap_initialized := False, ap_server := v\<rparr>" for s' w'
    by (rule safe_weaken [OF begin_client_safe])
      (use that assms(2,3) quiet in \<open>auto simp: watched_def\<close>)
  show ?thesis
    unfolding connect_client_def
    by (intro safe_modify safe_bind [OF shut_client_safe])
      (use quiet assms(2) in \<open>auto intro!: safe_bind [OF begun] safe_if safe_modify safe_return emit_event_bind
          emit_host_bind connect_failed_ok select_host_ok simp: watched_def event_true_def\<close>)
qed

lemma api_ok_directory [simp]: "api_ok s (w\<lparr>aw_directory := b\<rparr>) = api_ok s w"
  by (simp add: api_defs)

lemma connect_refused_ok:
  assumes "api_ok s w" "ap_session s = Free"
  shows "api_ok (told EvConnectionFailed s) (heard EvConnectionFailed s w)"
proof -
  have parts: "watched s w" "consistent s" "mirrored s w" using assms(1) by (simp_all add: api_ok_def)
  have "mirrored (told EvConnectionFailed s) (heard EvConnectionFailed s w)"
    using assms(2) parts by (cases "ap_callback s") (auto simp: mirrored_def told_def heard_def event_noted_def forward_event_def watched_def consistent_def)
  then show ?thesis using parts by (simp add: api_ok_told watched_def)
qed

lemma connect_host_ok:
  assumes "api_ok s w"
  shows "api_safe s w (connect_host env h) (\<lambda>_. api_ok)"
  unfolding connect_host_def using assms
  by (auto intro!: safe_look safe_if safe_return safe_ask emit_event_bind connect_refused_ok connect_client_ok
      simp: event_true_def stream_running_def api_okD(2) [OF assms])

lemma told_other:
  assumes "api_ok s w" "type \<notin> {EvConnectionReady, EvPairingFinished, EvStreamStarted, EvStreamStopped, EvConnectionClosed, EvConnectionFailed,
    EvPairingFailed, EvStreamFailed}"
  shows "api_ok (told type s) w"
proof -
  have "told type s = s" using assms(2) by (cases type) (simp_all add: told_def forward_event_def)
  then show ?thesis using assms(1) by simp
qed

lemma unpaired_phase:
  "api_ok s w \<Longrightarrow> unpaired s \<Longrightarrow> ap_session s = Free \<and> aw_phase w = Free \<and> aw_connected w \<and> ap_initialized s \<and> ap_state s = Ready"
  by (auto simp: api_defs unpaired_def)

lemma paired_server_ok:
  "api_ok s w \<Longrightarrow> unpaired s \<Longrightarrow> api_ok (s\<lparr>ap_server := v\<rparr>) (w\<lparr>aw_unheard := sv_paired v\<rparr>)"
  by (simp add: api_ok_def watched_def consistent_def unpaired_def) (simp add: mirrored_def split: if_splits)

lemma now_paired_ok:
  "api_ok s w \<Longrightarrow> unpaired s \<Longrightarrow> sv_paired (ap_server s) \<Longrightarrow> api_ok (s\<lparr>ap_state := Paired\<rparr>) w"
  by (auto simp: api_defs unpaired_def split: if_splits)

lemma prepare_pairing_ok:
  assumes "api_ok s w"
  shows "api_safe s w (prepare_pairing env) (\<lambda>_. api_ok)"
  unfolding prepare_pairing_def using assms unpaired_phase [OF assms]
  by (auto intro!: safe_look safe_if safe_return safe_ask_same safe_modify emit_event_bind told_other now_paired_ok simp: event_true_def Let_def)

lemma pairing_failed_ok:
  assumes "api_ok s w" "unpaired s"
  shows "api_safe s w (pairing_failed env result status message) (\<lambda>_. api_ok)"
proof -
  have "api_ok (told EvPairingFailed s) w"
    using assms by (auto simp: api_ok_told api_ok_def mirrored_def told_def forward_event_def unpaired_def split: if_splits)
  then show ?thesis
    unfolding pairing_failed_def using unpaired_phase [OF assms]
    by (auto intro!: safe_look safe_return safe_ask_same emit_event_bind simp: event_true_def Let_def)
qed

lemma pairing_finished_ok:
  assumes "api_ok s w" "unpaired s" "ap_callback s \<Longrightarrow> ad_host (ap_adapter s)"
  shows "api_safe s w (pairing_finished env) (\<lambda>_. api_ok)"
proof -
  let ?s = "(update_host_from_server s)\<lparr>ap_state := Paired\<rparr>"
  have parts: "watched s w" "consistent s" "mirrored s w" using assms(1) by (simp_all add: api_ok_def)
  have frame: "ap_adapter ?s = ap_adapter s" "ap_callback ?s = ap_callback s" "ap_has_host ?s = ap_has_host s" "ap_session ?s = ap_session s"
    by (simp_all add: update_host_from_server_def Let_def)
  have "watched ?s w" "consistent ?s"
    using parts assms(2) by (simp_all add: watched_def consistent_def unpaired_def update_host_from_server_def Let_def)
  moreover have "mirrored (told EvPairingFinished ?s) (heard EvPairingFinished ?s w)"
    using assms(2,3) frame by (cases "ap_callback s") (simp_all add: mirrored_def told_def forward_event_def unpaired_def)
  ultimately have "api_ok (told EvPairingFinished ?s) (heard EvPairingFinished ?s w)"
    by (simp add: api_ok_told watched_def)
  then show ?thesis
    unfolding pairing_finished_def using unpaired_phase [OF assms(1,2)]
    by (auto intro!: safe_look safe_modify safe_return safe_ask_same emit_host_bind simp: event_true_def Let_def)
qed

lemma pair_current_host_ok:
  assumes "api_ok s w" "ap_callback s \<Longrightarrow> ad_host (ap_adapter s)"
  shows "api_safe s w (pair_current_host env pin) (\<lambda>_. api_ok)"
proof -
  have paired: "\<exists>w'. api_rule w (Gs_pair pin) a = Some w' \<and> w' = w\<lparr>aw_unheard := sv_paired (aa_server a)\<rparr>" if "unpaired s" for a
    using unpaired_phase [OF assms(1) that] by simp
  have kept: "unpaired (s\<lparr>ap_server := v\<rparr>) = unpaired s" for v
    by (simp add: unpaired_def)
  show ?thesis
    unfolding pair_current_host_def using assms unpaired_phase [OF assms(1)]
    by (auto intro!: safe_look safe_if safe_return safe_ask safe_modify pairing_failed_ok pairing_finished_ok paired_server_ok simp: kept)
qed

lemma applications_failed_ok:
  assumes "api_ok s w"
  shows "api_safe s w (applications_failed env result) (\<lambda>_. api_ok)"
  unfolding applications_failed_def using assms
  by (auto intro!: safe_modify safe_return emit_host_bind told_other simp: event_true_def)

lemma load_applications_ok:
  assumes "api_ok s w"
  shows "api_safe s w (load_applications expat env) (\<lambda>_. api_ok)"
proof -
  have ready: "api_ok (told EvApplicationsReady (s'\<lparr>ap_apps_valid := True\<rparr>)) w'" if "api_ok s' w'" for s' w'
    using that by (intro told_other) simp_all
  have read: "api_ok (snd (read_applications expat body s')) w' = api_ok s' w'"
    "ap_session (snd (read_applications expat body s')) = ap_session s'" "ap_initialized (snd (read_applications expat body s')) = ap_initialized s'"
    "ap_state (snd (read_applications expat body s')) = ap_state s'" for body s' w'
    by (simp_all add: read_applications_def split: prod.split)
  have called: "api_safe s' w (ask_beside env Gs_applist) (\<lambda>_ t v. api_ok t v \<and> aw_phase v = Free \<and> aw_connected v)"
    if "api_ok s' w" "ap_session s' = Free" "ap_initialized s'" for s'
    by (rule safe_weaken [OF ask_beside_ok])
      (use that api_okD [OF that(1)] in \<open>auto simp: beside_def same_request_def dest: api_okD(1,2)\<close>)
  show ?thesis
    unfolding load_applications_def using assms api_okD [OF assms]
    by (auto intro!: safe_look safe_if safe_if_bind safe_return safe_return_bind safe_modify safe_bind [OF called] emit_host_bind told_other applications_failed_ok
        simp: event_true_def stream_running_def Let_def read)
qed

lemma start_rejected_ok:
  assumes "api_ok s w" "ap_session s \<noteq> Pending" "ap_state s = Paired"
  shows "api_ok (s\<lparr>ap_pending := False, ap_stream_app := - 1, ap_state := Paired\<rparr>) w"
    "api_ok (s\<lparr>ap_pending := False, ap_stream_app := - 1\<rparr>) w"
  using assms by (auto simp: api_defs)

lemma session_pending_ok:
  assumes "api_ok s w" "ap_session s = Free" "ap_pending s" "ap_initialized s" "ap_state s \<noteq> Ready" "ap_callback s \<Longrightarrow> ad_host (ap_adapter s)"
  shows "api_ok (s\<lparr>ap_session := Pending\<rparr>) (w\<lparr>aw_phase := Pending\<rparr>)"
  using assms by (auto simp: api_defs)

lemma stream_start_ok:
  assumes "api_ok s w" "ap_pending s" "ap_initialized s" "ap_session s \<in> {Free, Closed}" "ap_state s = Paired"
    "ap_callback s \<Longrightarrow> ad_host (ap_adapter s)"
  shows "api_safe s w (stream_start env app quit)
    (\<lambda>r s' w'. api_ok s' w' \<and> (r \<noteq> 0 \<longrightarrow> ap_session s' \<noteq> Pending \<and> ap_state s' = Paired))"
proof -
  have moved: "api_safe t v (session_moves env ms)
      (\<lambda>_ s' w'. api_ok s' w' \<and> (r \<noteq> 0 \<longrightarrow> ap_session s' \<noteq> Pending \<and> ap_state s' = Paired))"
    if "api_ok t v" "r \<noteq> 0 \<Longrightarrow> t = s" for t v ms and r :: int
    by (rule safe_weaken [OF session_moves_ok [OF that(1)]])
      (use that(2) assms(4,5) in \<open>auto simp: beside_def\<close>)
  note w = api_okD(1,2) [OF assms(1)]
  have pending: "api_ok (s\<lparr>ap_session := Pending\<rparr>) (w\<lparr>aw_phase := Pending\<rparr>)" if "ap_session s = Free"
    by (rule session_pending_ok [OF assms(1) that]) (use assms in simp_all)
  show ?thesis
    unfolding stream_start_def Let_def using assms w pending
    by (auto intro!: safe_look safe_ask safe_modify safe_bind [OF moved] safe_return simp: stream_running_def)
qed

lemma start_application_ok:
  assumes "api_ok s w" "ap_callback s \<Longrightarrow> ad_host (ap_adapter s)"
  shows "api_safe s w (start_application env app quit) (\<lambda>_. api_ok)"
proof -
  let ?s = "s\<lparr>ap_stream_app := app, ap_pending := True\<rparr>"
  have ready: "api_ok ?s w" using assms(1) by (auto simp: api_defs)
  have start: "api_safe ?s w (stream_start env app quit)
      (\<lambda>r s' w'. api_ok s' w' \<and> (r \<noteq> 0 \<longrightarrow> ap_session s' \<noteq> Pending \<and> ap_state s' = Paired))"
    if "ap_initialized s" "ap_state s = Paired" "\<not> ap_pending s" "\<not> ap_active s"
    by (rule stream_start_ok [OF ready]) (use that assms(2) api_okD [OF assms(1)] in \<open>cases "ap_session s"; simp\<close>)+
  show ?thesis
    unfolding start_application_def using assms
    by (auto intro!: safe_look safe_if safe_if_bind safe_return safe_return_bind safe_modify safe_ask_same safe_bind [OF start] start_rejected_ok)
qed

lemma stop_beside:
  "api_ok s w \<Longrightarrow> api_safe s w (ask_beside env Stream_stop) (\<lambda>_ s' w'. api_ok s' w' \<and> beside s s')"
  by (rule ask_beside_ok) simp

lemma stop_application_ok:
  assumes "api_ok s w"
  shows "api_safe s w (stop_application env) (\<lambda>_. api_ok)"
  unfolding stop_application_def using assms
  by (auto intro!: safe_look safe_if safe_return safe_bind [OF stop_beside])

lemma scheduled_ok:
  "api_ok s w \<Longrightarrow> ap_closing s \<noteq> Holding \<Longrightarrow> api_ok (s\<lparr>ap_worker := Scheduled, ap_disconnect_pending := True\<rparr>) w"
  by (auto simp: api_defs)

lemma not_pending_ok: "api_ok s w \<Longrightarrow> \<not> ap_disconnect_pending s \<Longrightarrow> api_ok (s\<lparr>ap_disconnect_pending := False\<rparr>) w"
  by (cases s) simp

lemma begin_disconnect_cleanup_ok:
  assumes "api_ok s w" "\<not> ap_disconnect_pending s" "ap_closing s \<noteq> Holding"
  shows "api_safe s w (begin_disconnect_cleanup env) (\<lambda>r s' w'. api_ok s' w' \<and> (r \<noteq> 0 \<longrightarrow> \<not> ap_disconnect_pending s'))"
  unfolding begin_disconnect_cleanup_def using assms
  by (auto intro!: safe_look safe_if safe_if_bind safe_return safe_return_bind safe_modify safe_ask_same scheduled_ok)

lemma disconnect_host_ok:
  assumes "api_ok s w"
  shows "api_safe s w (disconnect_host env) (\<lambda>_. api_ok)"
proof -
  let ?s = "invalidate_applications s"
  have stop: "api_safe ?s w (ask_beside env Stream_stop)
      (\<lambda>_ s' w'. api_ok s' w' \<and> ap_disconnect_pending s' = ap_disconnect_pending s \<and> ap_closing s' = ap_closing s)"
    by (rule safe_weaken [OF stop_beside]) (use assms in \<open>simp_all add: beside_def same_request_def\<close>)
  show ?thesis
    unfolding disconnect_host_def using assms
    by (auto intro!: safe_look safe_if safe_if_bind safe_return safe_return_bind safe_modify safe_modify_last safe_assoc safe_bind [OF stop]
        safe_bind [OF begin_disconnect_cleanup_ok] not_pending_ok simp: admitted_def)
qed

lemma worker_lock_ok: "api_ok s w \<Longrightarrow> api_ok (worker_lock s) w"
  by (auto simp: worker_lock_def api_defs)

lemma worker_round_ok:
  assumes "api_ok s w"
  shows "api_safe s w (worker_round env) (\<lambda>_. api_ok)"
proof -
  let ?over = "\<lambda>t. t\<lparr>ap_pending := False, ap_active := False, ap_stream_app := - 1, ap_state := Disconnected, ap_has_host := False\<rparr>"
  have closed: "api_ok ((told EvConnectionClosed (?over s'))\<lparr>ap_worker := No_worker, ap_disconnect_pending := False\<rparr>)
      (heard EvConnectionClosed (?over s') w')" if "watched s' w'" "ap_session s' = Free" "\<not> ap_initialized s'" for s' w'
    using that by (simp add: api_defs told_def heard_def event_noted_def forward_event_def)
  have ended: "api_safe s' w' (do {
       _ \<leftarrow> modify ?over;
       _ \<leftarrow> emit_host env EvConnectionClosed 0;
       modify (\<lambda>s. s\<lparr>ap_worker := No_worker, ap_disconnect_pending := False\<rparr>)
     }) (\<lambda>_. api_ok)" if "watched s' w' \<and> (\<exists>v. s' = s\<lparr>ap_initialized := False, ap_server := v\<rparr>)" "ap_session s = Free" for s' w'
  proof -
    have free: "ap_session s' = Free" "\<not> ap_initialized s'" "watched s' w'" using that by auto
    then have "event_true EvConnectionClosed w'" by (simp add: event_true_def watched_def)
    then show ?thesis using closed [OF free(3,1,2)] by (intro safe_modify emit_host_bind safe_modify_last)
  qed
  have "watched s w" using assms by (simp add: api_ok_def)
  then show ?thesis
    unfolding worker_round_def using assms
    by (intro safe_look safe_if safe_return safe_bind [OF shut_client_safe] ended) (simp_all add: stream_running_def)
qed

lemma shutdown_begun_ok:
  assumes "api_ok s w"
  shows "api_ok (s\<lparr>ap_callback := False, ap_closing := (if ap_closing s = Open then Closing else ap_closing s)\<rparr>) w"
proof -
  have "mirrored (s\<lparr>ap_callback := False, ap_closing := c\<rparr>) w" for c using assms by (simp add: api_ok_def mirrored_def)
  then show ?thesis using assms by (simp add: api_ok_def watched_def consistent_def)
qed

lemma adapter_shutdown_begin_ok:
  "api_ok s w \<Longrightarrow> api_safe s w (adapter_shutdown_begin env) (\<lambda>_. api_ok)"
  unfolding adapter_shutdown_begin_def
  by (intro safe_modify safe_ask_same safe_return shutdown_begun_ok) simp_all

lemma shutdown_lock_ok:
  assumes "api_ok s w"
  shows "api_safe s w (shutdown_lock env) (\<lambda>_. api_ok)"
proof -
  have "api_ok (s\<lparr>ap_closing := Holding\<rparr>) w" if "ap_worker s = No_worker" using assms that by (auto simp: api_defs)
  then show ?thesis
    unfolding shutdown_lock_def using assms
    by (auto intro!: safe_look safe_if safe_return safe_modify safe_bind [OF stop_beside])
qed

lemma shutdown_round_ok:
  assumes "api_ok s w"
  shows "api_safe s w (shutdown_round env) (\<lambda>_. api_ok)"
proof -
  have ended: "api_safe s' w' (do {
       _ \<leftarrow> ask env Discovery_shutdown;
       modify (\<lambda>s. (invalidate_applications s)\<lparr>ap_state := Disconnected, ap_has_host := False, ap_active := False, ap_pending := False,
         ap_stream_app := - 1, ap_disconnect_pending := False, ap_worker := No_worker, ap_server := view_zero, ap_host := no_host,
         ap_callback := False, ap_closing := Open, ap_adapter := \<lparr>ad_state = Disconnected, ad_host = False\<rparr>\<rparr>)
     }) (\<lambda>_. api_ok)" if "watched s' w' \<and> (\<exists>v. s' = s\<lparr>ap_initialized := False, ap_server := v\<rparr>)" "ap_session s = Free" for s' w'
    using that by (intro safe_ask_same safe_modify_last) (auto simp: api_defs invalidate_applications_def)
  have "watched s w" using assms by (simp add: api_ok_def)
  then show ?thesis
    unfolding shutdown_round_def using assms
    by (intro safe_look safe_if safe_return safe_bind [OF shut_client_safe] ended) (simp_all add: stream_running_def)
qed

lemma with_host_ok:
  assumes "api_ok s w" "ad_host (ap_adapter s) \<Longrightarrow> api_safe s w request (\<lambda>_. api_ok)"
  shows "api_safe s w (with_host refusal request) (\<lambda>_. api_ok)"
  unfolding with_host_def using assms by (auto intro!: safe_look safe_if safe_return)

section \<open>Properties\<close>

datatype api_operation =
    Op_connect selected_host
  | Op_prepare
  | Op_pair string
  | Op_applications
  | Op_start int int
  | Op_stop
  | Op_disconnect
  | Op_session session_move
  | Op_worker_lock
  | Op_worker_round
  | Op_shutdown_begin
  | Op_shutdown_lock
  | Op_shutdown_round

fun api_act :: "expat \<Rightarrow> api_env \<Rightarrow> api \<Rightarrow> api_operation \<Rightarrow> (api_call, api_answer) calls \<Rightarrow> api \<times> (api_call, api_answer) calls" where
  "api_act expat env s (Op_connect h) log = execute (adapter_connect env h) s log"
| "api_act expat env s Op_prepare log = execute (adapter_prepare_pairing env) s log"
| "api_act expat env s (Op_pair pin) log = execute (adapter_pair env pin) s log"
| "api_act expat env s Op_applications log = execute (load_applications expat env) s log"
| "api_act expat env s (Op_start app quit) log = execute (adapter_start env app quit) s log"
| "api_act expat env s Op_stop log = execute (adapter_stop env) s log"
| "api_act expat env s Op_disconnect log = execute (disconnect_host env) s log"
| "api_act expat env s (Op_session m) log = execute (session_moved env m) s log"
| "api_act expat env s Op_worker_lock log = (worker_lock s, log)"
| "api_act expat env s Op_worker_round log = execute (worker_round env) s log"
| "api_act expat env s Op_shutdown_begin log = execute (adapter_shutdown_begin env) s log"
| "api_act expat env s Op_shutdown_lock log = execute (shutdown_lock env) s log"
| "api_act expat env s Op_shutdown_round log = execute (shutdown_round env) s log"

lemma adapter_requests_ok:
  assumes "api_ok s w"
  shows "api_safe s w (adapter_connect env h) (\<lambda>_. api_ok)" "api_safe s w (adapter_prepare_pairing env) (\<lambda>_. api_ok)"
    "api_safe s w (adapter_pair env pin) (\<lambda>_. api_ok)" "api_safe s w (adapter_start env app quit) (\<lambda>_. api_ok)"
    "api_safe s w (adapter_stop env) (\<lambda>_. api_ok)"
  unfolding adapter_connect_def adapter_prepare_pairing_def adapter_pair_def adapter_start_def adapter_stop_def
  by (auto intro!: safe_if safe_return with_host_ok connect_host_ok prepare_pairing_ok pair_current_host_ok start_application_ok
      stop_application_ok assms)

lemma session_moved_keeps: "api_ok s w \<Longrightarrow> api_safe s w (session_moved env m) (\<lambda>_. api_ok)"
  by (rule safe_weaken [OF session_moved_ok]) auto

lemma api_act_ok:
  assumes "accept api_rule api_watch_start log = Some w" "api_ok s w" "api_act expat env s x log = (s', log')"
  shows "\<exists>w'. accept api_rule api_watch_start log' = Some w' \<and> api_ok s' w'"
proof -
  have run: "execute f s log = (s', log') \<Longrightarrow> api_safe s w f (\<lambda>_. api_ok) \<Longrightarrow>
      \<exists>w'. accept api_rule api_watch_start log' = Some w' \<and> api_ok s' w'" for f :: "'r api_prog"
    by (rule execute_obeys [OF _ assms(1)])
  note keeps = adapter_requests_ok load_applications_ok disconnect_host_ok session_moved_keeps worker_round_ok adapter_shutdown_begin_ok
    shutdown_lock_ok shutdown_round_ok
  show ?thesis
  proof (cases x)
    case Op_worker_lock
    then show ?thesis using assms worker_lock_ok by auto
  qed (use assms(3) in \<open>auto elim!: run intro: keeps [OF assms(2)]\<close>)
qed

interpretation api: client "api_act expat env" api_rule api_watch_start api_ok "\<lambda>_ _. True" for expat env
  by unfold_locales (rule api_act_ok)



text \<open>The cleanup after a disconnect ends the connection as soon as the session is gone.\<close>

lemma worker_closes:
  assumes "ap_worker s = Waiting" "ap_session s = Free" "execute (worker_round env) s log = (s', log')"
  shows "ap_worker s' = No_worker \<and> \<not> ap_disconnect_pending s' \<and> \<not> ap_has_host s' \<and> \<not> ap_initialized s' \<and> ap_state s' = Disconnected"
  using assms
  by (auto simp: execute_def worker_round_def shut_client_def emit_host_def emit_event_def stream_running_def split: if_splits)

text \<open>An environment in which all succeeds; \<open>paired\<close> is what the server says, and \<open>failing\<close> a call that does not.\<close>

definition sample_server :: "bool \<Rightarrow> server_view" where
  "sample_server paired = \<lparr>sv_paired = paired, sv_mac = [], sv_unique_id = ''id'', sv_path = ''p'', sv_game = 0, sv_curl = True\<rparr>"

definition sample_env :: "bool \<Rightarrow> (api_call \<Rightarrow> nat \<Rightarrow> bool) \<Rightarrow> api_env" where
  "sample_env paired failing calls c = \<lparr>aa_result = (if failing c (length calls) then - 1 else 0), aa_ok = False, aa_number = 42, aa_string = [],
     aa_server = sample_server (paired \<or> c = Gs_pair ''1234''), aa_moves = []\<rparr>"

definition sample_host :: selected_host where
  "sample_host = no_host\<lparr>ah_id := 3, ah_internal := ''host''\<rparr>"

definition sample_run :: "api_env \<Rightarrow> api_operation list \<Rightarrow> api \<times> (api_call, api_answer) calls" where
  "sample_run env ops = (case execute (backend_start env) api_boot [] of (s, log) \<Rightarrow> perform (api_act (\<lambda>_. None) env) s ops log)"

definition told_events :: "(api_call, api_answer) calls \<Rightarrow> (event_type \<times> int) list" where
  "told_events log = concat (map (\<lambda>(c, a). case c of Emit e \<Rightarrow> [(ev_type e, ev_application_id e)] | _ \<Rightarrow> []) log)"

text \<open>A stream and a disconnect in the middle of it.\<close>

lemma disconnect_while_streaming:
  "told_events (snd (sample_run (sample_env True (\<lambda>_ _. False))
     [Op_connect sample_host, Op_start 7 0, Op_session Session_started, Op_disconnect, Op_worker_lock, Op_worker_round, Op_connect sample_host,
      Op_session (Session_over 0 0), Op_session Session_gone, Op_worker_round, Op_connect sample_host])) =
   [(EvConnectionReady, - 1), (EvStreamStarted, 7), (EvStreamStopped, 7), (EvConnectionClosed, - 1), (EvConnectionReady, - 1)]"
  by code_simp

text \<open>
  A connection that fails because the directory of the client cannot be made is reported as failed, but the host before it stays: the adapter has no host,
  the API has one that is paired.
\<close>

lemma directory_failure_keeps_host:
  "case fst (sample_run (sample_env True (\<lambda>c n. c = Client_directory \<and> n > 5)) [Op_connect sample_host, Op_connect sample_host]) of s \<Rightarrow>
     ap_has_host s \<and> ap_state s = Paired \<and> \<not> ad_host (ap_adapter s) \<and> ad_state (ap_adapter s) = Disconnected"
  by code_simp

text \<open>A server whose pairing was cancelled after it had succeeded: the next attempt finds it paired and tells nobody.\<close>

definition cancelling_env :: api_env where
  "cancelling_env calls c = (if c = Cancelled then (sample_env False (\<lambda>_ _. False) calls c)\<lparr>aa_ok := Gs_pair ''1234'' \<in> fst ` set calls\<rparr>
     else sample_env False (\<lambda>_ _. False) calls c)"

lemma paired_without_event:
  "case fst (sample_run cancelling_env [Op_connect sample_host, Op_pair ''1234'', Op_prepare]) of s \<Rightarrow>
     ap_state s = Paired \<and> ad_state (ap_adapter s) = Ready"
  by code_simp

end
