(* ===== verification/HostStore.thy ===== *)
theory HostStore imports DeviceStore begin

text \<open>
  The known hosts as the rest of the program sees them (\<open>src/backend/legacy_device_store.cpp\<close>): finding a stored host for what is known of one,
  adding and changing hosts, and the paths of the client's files and of the pinned certificate, over the device list of \<open>DeviceStore\<close>.

  The state is the device list, the directory it lives in and the files; which directories can be made, whether there is memory and how a
  file is written are parameters of each operation.
\<close>

section \<open>Data\<close>

record stored_host =
  sh_id :: int
  sh_host_id :: string
  sh_name :: string
  sh_internal :: string
  sh_external :: string
  sh_mac :: string
  sh_port :: u16
  sh_paired :: bool
  sh_online :: bool
  sh_prefer_external :: bool

record host_store =
  st_initialized :: bool
  st_key_dir :: string
  st_known :: device_infos
  st_files :: files

text \<open>How things go for one operation; \<open>lk_mkdir\<close> is true for a directory that was made or was there.\<close>

record luck =
  lk_mkdir :: "string \<Rightarrow> bool"
  lk_memory :: bool
  lk_outcome :: file_outcome

section \<open>Hosts and devices\<close>

definition ensure_device_directory :: "luck \<Rightarrow> string \<Rightarrow> string \<Rightarrow> bool" where
  "ensure_device_directory lk key_dir name = lk_mkdir lk (bounded_copy 512 (key_dir @ name))"

definition find_stored_host :: "stored_host \<Rightarrow> device_infos \<Rightarrow> nat option" where
  "find_stored_host h k = first_some
     [if sh_host_id h \<noteq> [] then find_device_by_host_id (sh_host_id h) k else None,
      if sh_mac h \<noteq> [] then find_index (\<lambda>d. dv_mac d \<noteq> [] \<and> dv_mac d = sh_mac h) (ki_devices k) else None,
      if sh_internal h \<noteq> [] then find_device_by_address (sh_internal h) k else None,
      if sh_external h \<noteq> [] then find_device_by_address (sh_external h) k else None,
      if sh_name h \<noteq> [] then find_device (sh_name h) k else None]"

definition fill_host :: "device_info \<Rightarrow> int \<Rightarrow> stored_host" where
  "fill_host d i =
     \<lparr>sh_id = i, sh_host_id = bounded_copy 33 (dv_host_id d), sh_name = bounded_copy 256 (dv_name d),
      sh_internal = bounded_copy 256 (dv_internal d), sh_external = bounded_copy 256 (dv_external d), sh_mac = bounded_copy 18 (dv_mac d),
      sh_port = dv_port d, sh_paired = dv_paired d, sh_online = False, sh_prefer_external = dv_prefer_external d\<rparr>"

definition update_host_metadata :: "device_info \<Rightarrow> stored_host \<Rightarrow> device_info" where
  "update_host_metadata d h =
     d\<lparr>dv_name := (if sh_name h \<noteq> [] then bounded_copy 256 (sh_name h) else dv_name d),
       dv_internal := (if sh_internal h \<noteq> [] then bounded_copy 256 (sh_internal h) else dv_internal d),
       dv_external := (if sh_external h \<noteq> [] then bounded_copy 256 (sh_external h) else dv_external d),
       dv_mac := (if sh_mac h \<noteq> [] then bounded_copy 18 (sh_mac h) else dv_mac d),
       dv_port := (if sh_port h \<noteq> 0 then sh_port h else dv_port d)\<rparr>"

definition host_device :: "stored_host \<Rightarrow> string \<Rightarrow> bool \<Rightarrow> device_info" where
  "host_device h host_id paired =
     (let d = update_host_metadata device_zero h;
          d = (if dv_name d = [] then d\<lparr>dv_name := bounded_copy 256 (sh_internal h)\<rparr> else d);
          d = d\<lparr>dv_host_id := bounded_copy 33 host_id\<rparr>
      in d\<lparr>dv_port := (if dv_port d = 0 then 47989 else dv_port d), dv_prefer_external := sh_prefer_external h, dv_paired := paired\<rparr>)"

definition append_host :: "luck \<Rightarrow> stored_host \<Rightarrow> string \<Rightarrow> bool \<Rightarrow> device_infos \<Rightarrow> nat option \<times> device_infos" where
  "append_host lk h host_id paired k = append_device (lk_memory lk) (host_device h host_id paired) k"

definition save_host :: "luck \<Rightarrow> nat option \<Rightarrow> host_store \<Rightarrow> int \<times> host_store" where
  "save_host lk stored s =
     (case stored of
        None \<Rightarrow> (- 1, s)
      | Some i \<Rightarrow>
          let d = ki_devices (st_known s) ! i in
          if \<not> ensure_device_directory lk (st_key_dir s) (if dv_storage_name d \<noteq> [] then dv_storage_name d else dv_name d) then (- 1, s)
          else case save_device_info (st_key_dir s) (lk_outcome lk) d (st_files s) of (r, files) \<Rightarrow> (r, s\<lparr>st_files := files\<rparr>))"

definition update_device :: "nat \<Rightarrow> (device_info \<Rightarrow> device_info) \<Rightarrow> host_store \<Rightarrow> host_store" where
  "update_device i f s = s\<lparr>st_known := (st_known s)\<lparr>ki_devices := (ki_devices (st_known s))[i := f (ki_devices (st_known s) ! i)]\<rparr>\<rparr>"

section \<open>Operations\<close>

definition store_paths :: "string list" where
  "store_paths = [''ux0:data/moonlight/'', ''ux0:moonlight/'', ''uma0:data/moonlight/'']"

text \<open>The first directory that is there or can be made; \<open>load\<close> is what \<open>load_all_known_devices\<close> makes of it.\<close>

fun store_init_from :: "luck \<Rightarrow> (string \<Rightarrow> device_infos \<Rightarrow> files \<Rightarrow> device_infos \<times> files) \<Rightarrow> string list \<Rightarrow> host_store \<Rightarrow> int \<times> host_store" where
  "store_init_from lk load [] s = (- 1, s)"
| "store_init_from lk load (p # ps) s =
     (if \<not> lk_mkdir lk p then store_init_from lk load ps s
      else case load p (st_known s) (st_files s) of (k, files) \<Rightarrow>
        (0, s\<lparr>st_initialized := True, st_key_dir := p, st_known := k, st_files := files\<rparr>))"

definition store_init :: "luck \<Rightarrow> (nat \<Rightarrow> bool) \<Rightarrow> (device_info \<Rightarrow> file_outcome) \<Rightarrow> (string \<Rightarrow> (string \<times> bool) list option) \<Rightarrow>
    host_store \<Rightarrow> int \<times> host_store" where
  "store_init lk memory outcomes listing s =
     (if st_initialized s then (0, s)
      else store_init_from lk (\<lambda>p. load_all_known_devices p memory outcomes (listing p)) store_paths s)"

text \<open>The hosts that are copied out, with the count; \<open>out\<close> says whether there is a buffer.\<close>

definition store_get_hosts :: "bool \<Rightarrow> int \<Rightarrow> host_store \<Rightarrow> int \<times> stored_host list" where
  "store_get_hosts out capacity s =
     (let ds = ki_devices (st_known s) in
      if \<not> st_initialized s \<or> capacity < 0 then (- 1, [])
      else if capacity = 0 then (int (length ds), [])
      else if \<not> out then (- 1, [])
      else (let n = min (length ds) (nat capacity) in (int n, map (\<lambda>i. fill_host (ds ! i) (int i)) [0..<n])))"

text \<open>A device that the user typed in.\<close>

definition manual_device :: "string \<Rightarrow> u16 \<Rightarrow> string \<Rightarrow> device_info" where
  "manual_device address port name = device_zero
     \<lparr>dv_name := bounded_copy 256 (if name \<noteq> [] then name else address), dv_internal := bounded_copy 256 address, dv_port := port\<rparr>"

definition store_add_host :: "luck \<Rightarrow> string \<Rightarrow> u16 \<Rightarrow> string \<Rightarrow> host_store \<Rightarrow> int \<times> host_store" where
  "store_add_host lk address port name s =
     (if \<not> st_initialized s \<or> address = [] then (- 1, s)
      else let k = st_known s;
               port = (if port \<noteq> 0 then port else 47989)
           in case first_some [find_device_by_address address k, if name \<noteq> [] then find_device name k else None] of
                Some i \<Rightarrow>
                  save_host lk (Some i) (update_device i (\<lambda>d. d
                    \<lparr>dv_name := (if name \<noteq> [] \<and> dv_name d \<noteq> name then bounded_copy 256 name else dv_name d),
                     dv_internal := bounded_copy 256 address, dv_port := port\<rparr>) s)
              | None \<Rightarrow>
                  (case append_device (lk_memory lk) (manual_device address port name) k of
                     (stored, k') \<Rightarrow> save_host lk stored (s\<lparr>st_known := k'\<rparr>)))"

definition store_mark_paired :: "luck \<Rightarrow> stored_host \<Rightarrow> host_store \<Rightarrow> int \<times> host_store" where
  "store_mark_paired lk h s =
     (if \<not> st_initialized s \<or> sh_internal h = [] then (- 1, s)
      else case find_stored_host h (st_known s) of
        None \<Rightarrow> (case append_host lk h (sh_host_id h) True (st_known s) of (stored, k') \<Rightarrow> save_host lk stored (s\<lparr>st_known := k'\<rparr>))
      | Some i \<Rightarrow>
          save_host lk (Some i) (update_device i (\<lambda>d. let d = update_host_metadata d h in d
            \<lparr>dv_host_id := (if sh_host_id h \<noteq> [] \<and> dv_host_id d = [] then bounded_copy 33 (sh_host_id h) else dv_host_id d),
             dv_prefer_external := sh_prefer_external h, dv_paired := True\<rparr>) s))"

definition store_set_host_id :: "luck \<Rightarrow> stored_host \<Rightarrow> string \<Rightarrow> host_store \<Rightarrow> int \<times> host_store" where
  "store_set_host_id lk h host_id s =
     (if \<not> st_initialized s \<or> host_id = [] then (- 1, s)
      else case find_stored_host h (st_known s) of
        None \<Rightarrow> (case append_host lk h host_id False (st_known s) of (stored, k') \<Rightarrow> save_host lk stored (s\<lparr>st_known := k'\<rparr>))
      | Some i \<Rightarrow> save_host lk (Some i) (update_device i (\<lambda>d. update_host_metadata (d\<lparr>dv_host_id := bounded_copy 33 host_id\<rparr>) h) s))"

definition store_delete_host :: "string list option \<Rightarrow> stored_host \<Rightarrow> host_store \<Rightarrow> int \<times> host_store" where
  "store_delete_host listing h s =
     (if \<not> st_initialized s then (- 1, s)
      else case find_stored_host h (st_known s) of
        None \<Rightarrow> (- 1, s)
      | Some i \<Rightarrow> (case remove_device_by_info (st_key_dir s) listing (Some i) (st_known s) (st_files s) of
          (removed, k', files) \<Rightarrow> (if removed then 0 else - 1, s\<lparr>st_known := k', st_files := files\<rparr>)))"

section \<open>Paths\<close>

definition path_in :: "nat \<Rightarrow> string \<Rightarrow> string option" where
  "path_in capacity path = (if length path \<ge> capacity then None else Some path)"

definition client_directory :: "luck \<Rightarrow> nat \<Rightarrow> host_store \<Rightarrow> string option" where
  "client_directory lk capacity s =
     (if \<not> st_initialized s \<or> capacity = 0 then None
      else case path_in capacity (st_key_dir s @ ''client'') of
        None \<Rightarrow> None
      | Some p \<Rightarrow> if ensure_device_directory lk (st_key_dir s) ''client'' then Some p else None)"


definition client_unique_id_path :: "luck \<Rightarrow> nat \<Rightarrow> host_store \<Rightarrow> string option" where
  "client_unique_id_path lk capacity s =
     (case client_directory lk 512 s of
        None \<Rightarrow> None
      | Some p \<Rightarrow> if capacity = 0 then None else path_in capacity (p @ ''/uniqueid.dat''))"

section \<open>The directory of a host\<close>











lemma save_host_known: "st_known (snd (save_host lk stored s)) = st_known s"
  by (simp add: save_host_def Let_def split: option.splits prod.splits)







datatype store_operation = Add_host string u16 string | Pair_host stored_host | Name_host stored_host string

fun store_act :: "luck \<times> store_operation \<Rightarrow> host_store \<Rightarrow> host_store" where
  "store_act (lk, Add_host address port name) s = snd (store_add_host lk address port name s)"
| "store_act (lk, Pair_host h) s = snd (store_mark_paired lk h s)"
| "store_act (lk, Name_host h host_id) s = snd (store_set_host_id lk h host_id s)"




section \<open>A host that was paired\<close>







lemma save_host_keeps: "st_key_dir (snd (save_host lk stored s)) = st_key_dir s" "st_initialized (snd (save_host lk stored s)) = st_initialized s"
  by (simp_all add: save_host_def Let_def split: option.splits prod.splits)





definition sample_store :: host_store where
  "sample_store = \<lparr>st_initialized = True, st_key_dir = ''ux0:/'', st_known = sample_known, st_files = Map.empty\<rparr>"

definition good_luck :: luck where
  "good_luck = \<lparr>lk_mkdir = (\<lambda>_. True), lk_memory = True, lk_outcome = Written\<rparr>"

definition paired_host :: stored_host where
  "paired_host = \<lparr>sh_id = 0, sh_host_id = ''uid'', sh_name = ''New'', sh_internal = ''10.0.0.9'', sh_external = [], sh_mac = [], sh_port = 0,
     sh_paired = True, sh_online = True, sh_prefer_external = False\<rparr>"


text \<open>
  Two computers of one name are one device: connecting to the second, of which only the name was known before, gives the device of the first the identity
  and the address of the second, and with them the pinned certificate of the first.
\<close>

definition namesake :: stored_host where
  "namesake = paired_host\<lparr>sh_host_id := [], sh_name := ''My PC'', sh_internal := ''10.0.0.77''\<rparr>"

lemma namesake_takes_device:
  "map (\<lambda>d. (dv_storage_name d, dv_host_id d, dv_internal d)) (ki_devices (st_known sample_store)) = [(''My PC'', dv_host_id sample_device, dv_internal sample_device)] \<and>
   map (\<lambda>d. (dv_storage_name d, dv_host_id d, dv_internal d))
     (ki_devices (st_known (snd (store_set_host_id good_luck namesake ''other'' sample_store)))) = [(''My PC'', ''other'', ''10.0.0.77'')]"
proof -
  have found: "find_stored_host namesake sample_known = Some 0" by code_simp
  have "ki_devices (st_known (snd (store_set_host_id good_luck namesake ''other'' sample_store))) =
      [update_host_metadata (sample_device\<lparr>dv_host_id := bounded_copy 33 ''other''\<rparr>) namesake]"
    using found by (simp add: store_set_host_id_def save_host_known update_device_def sample_store_def) (simp add: sample_known_def)
  moreover have "dv_storage_name sample_device = ''My PC''" by (simp add: sample_device_def)
  ultimately show ?thesis
    by (simp add: update_host_metadata_def namesake_def paired_host_def sample_store_def sample_known_def bounded_copy_def)
qed

text \<open>
  What the search goes by first is the identity of a host, and an operation on another one may give that to another device: here the computer of the first
  device is found to answer with the identity of the second. From then on the paired host has the certificate of the first.
\<close>

definition moved_host :: stored_host where
  "moved_host = paired_host\<lparr>sh_host_id := [], sh_name := [], sh_internal := dv_internal sample_device\<rparr>"

lemma certificate_moves:
  fixes s defines "s \<equiv> snd (store_mark_paired good_luck paired_host sample_store)"
  shows "find_stored_host paired_host (st_known s) = Some 1"
    "find_stored_host paired_host (st_known (store_act (good_luck, Name_host moved_host ''uid'') s)) = Some 0"
proof -
  let ?k = "snd (append_host good_luck paired_host ''uid'' True sample_known)"
  let ?moved = "\<lambda>d. update_host_metadata (d\<lparr>dv_host_id := bounded_copy 33 ''uid''\<rparr>) moved_host"
  have "find_stored_host paired_host sample_known = None" "find_stored_host paired_host ?k = Some 1"
    "find_stored_host moved_host ?k = Some 0"
    "find_stored_host paired_host (?k\<lparr>ki_devices := (ki_devices ?k)[0 := ?moved (ki_devices ?k ! 0)]\<rparr>) = Some 0"
    by code_simp+
  moreover from this(1) have "st_known s = ?k" "st_initialized s"
    by (simp_all add: s_def store_mark_paired_def save_host_known save_host_keeps sample_store_def paired_host_def split: prod.split)
  ultimately show "find_stored_host paired_host (st_known s) = Some 1"
    "find_stored_host paired_host (st_known (store_act (good_luck, Name_host moved_host ''uid'') s)) = Some 0"
    by (simp_all add: store_set_host_id_def save_host_known update_device_def)
qed

end
