(* ===== verification/HostAvailability.thy ===== *)
theory HostAvailability imports HostStore begin

text \<open>
  Which of the known hosts answer (\<open>src/services/host_service.cpp\<close>): scans that probe one host after the other on a queue with one worker, the
  result that is shown while a scan repeats, and the barrier behind which a connection waits until no probe runs.

  The scans are a list, so that a pointer to one is a position; a scan that nobody holds any more stays in it. The worker's steps and the operations of the
  main thread are actions in any order; a probe and the clock are parameters of the steps. The record of the probes that were made is only for the theorems.
\<close>

section \<open>Scans\<close>

record scan_entry =
  se_host :: stored_host
  se_result :: int
  se_checked_at :: u64
  se_previous_checked_at :: u64
  se_previous_available :: bool
  se_displayed :: bool

text \<open>\<open>aj_next\<close> is the position of the worker in the scan and \<open>aj_probing\<close> whether it waits for an answer there.\<close>

record availability_job =
  aj_cancel :: bool
  aj_done :: bool
  aj_started_at :: u64
  aj_entries :: "scan_entry list"
  aj_next :: nat
  aj_probing :: bool

record host_service =
  hs_jobs :: "availability_job list"
  hs_job :: "nat option"
  hs_queue :: bool
  hs_queued :: "nat list"
  hs_owner :: "nat option"
  hs_dirty :: bool
  hs_barrier :: "nat option"
  hs_probes :: "(stored_host \<times> int \<times> u64) list"

definition host_service_new :: host_service where
  "host_service_new = \<lparr>hs_jobs = [], hs_job = None, hs_queue = False, hs_queued = [], hs_owner = None, hs_dirty = False, hs_barrier = None,
     hs_probes = []\<rparr>"

definition same_probe_host :: "stored_host \<Rightarrow> stored_host \<Rightarrow> bool" where
  "same_probe_host a b \<longleftrightarrow> sh_host_id a = sh_host_id b \<and> sh_internal a = sh_internal b \<and> sh_port a = sh_port b"

definition entry_available :: "u64 \<Rightarrow> availability_job \<Rightarrow> scan_entry \<Rightarrow> bool" where
  "entry_available now j e \<longleftrightarrow> \<not> aj_cancel j \<and>
     (if se_result e = 0 then se_previous_available e \<and> now - se_previous_checked_at e < 30000000
      else se_result e = 1 \<and> now - se_checked_at e < 30000000)"

definition refresh_due :: "u64 \<Rightarrow> availability_job \<Rightarrow> bool" where
  "refresh_due now j \<longleftrightarrow> aj_done j \<and> now - aj_started_at j \<ge> 15000000"

definition new_entry :: "u64 \<Rightarrow> (availability_job \<times> scan_entry) option \<Rightarrow> stored_host \<Rightarrow> scan_entry" where
  "new_entry now previous h =
     (let available = (case previous of None \<Rightarrow> False | Some (j, e) \<Rightarrow> entry_available now j e)
      in \<lparr>se_host = h, se_result = 0, se_checked_at = 0,
          se_previous_checked_at = (case previous of Some (j, e) \<Rightarrow> if available then se_checked_at e else 0 | None \<Rightarrow> 0),
          se_previous_available = available, se_displayed = available\<rparr>)"

definition availability_job_new :: "u64 \<Rightarrow> stored_host list \<Rightarrow> availability_job option \<Rightarrow> availability_job" where
  "availability_job_new now hosts previous =
     \<lparr>aj_cancel = False, aj_done = False, aj_started_at = now,
      aj_entries = map (\<lambda>i. new_entry now (map_option (\<lambda>j. (j, aj_entries j ! i)) previous) (hosts ! i)) [0..<length hosts],
      aj_next = 0, aj_probing = False\<rparr>"

section \<open>The main thread\<close>

definition update_job :: "nat \<Rightarrow> (availability_job \<Rightarrow> availability_job) \<Rightarrow> host_service \<Rightarrow> host_service" where
  "update_job i f s = s\<lparr>hs_jobs := (hs_jobs s)[i := f (hs_jobs s ! i)]\<rparr>"

definition cancel_job :: "availability_job \<Rightarrow> availability_job" where
  "cancel_job j = j\<lparr>aj_cancel := True\<rparr>"

definition cancel_availability :: "host_service \<Rightarrow> host_service" where
  "cancel_availability s =
     (case hs_job s of None \<Rightarrow> s | Some i \<Rightarrow> update_job i cancel_job s)\<lparr>hs_owner := None, hs_dirty := True\<rparr>"

definition stop_availability :: "nat \<Rightarrow> host_service \<Rightarrow> host_service" where
  "stop_availability owner s = (if hs_owner s = Some owner then cancel_availability s else s)"

definition unchanged_scan :: "nat \<Rightarrow> stored_host list \<Rightarrow> host_service \<Rightarrow> bool" where
  "unchanged_scan owner hosts s \<longleftrightarrow> hs_owner s = Some owner \<and>
     (case hs_job s of None \<Rightarrow> False
      | Some i \<Rightarrow> list_all2 same_probe_host (map se_host (aj_entries (hs_jobs s ! i))) hosts)"

definition check_availability :: "u64 \<Rightarrow> bool \<Rightarrow> nat \<Rightarrow> stored_host list \<Rightarrow> host_service \<Rightarrow> host_service" where
  "check_availability now enqueued owner hosts s =
     (let unchanged = unchanged_scan owner hosts s;
          old = map_option (\<lambda>i. hs_jobs s ! i) (hs_job s)
      in if hosts = [] then stop_availability owner s
         else if unchanged \<and> \<not> refresh_due now (the old) then s
         else let job = availability_job_new now hosts (if unchanged then old else None);
                  new = length (hs_jobs s);
                  t = cancel_availability (s\<lparr>hs_queue := True\<rparr>);
                  t = t\<lparr>hs_owner := Some owner, hs_job := Some new\<rparr>
              in if enqueued then t\<lparr>hs_jobs := hs_jobs t @ [job], hs_queued := hs_queued t @ [new], hs_barrier := Some new\<rparr>
                 else t\<lparr>hs_jobs := hs_jobs t @ [job\<lparr>aj_cancel := True, aj_done := True\<rparr>]\<rparr>)"

text \<open>Whether an event is due.\<close>

definition poll_availability :: "u64 \<Rightarrow> host_service \<Rightarrow> bool \<times> host_service" where
  "poll_availability now s =
     (case hs_job s of
        None \<Rightarrow> (hs_dirty s, s\<lparr>hs_dirty := False\<rparr>)
      | Some i \<Rightarrow>
          let j = hs_jobs s ! i in
          (hs_dirty s \<or> list_ex (\<lambda>e. entry_available now j e \<noteq> se_displayed e) (aj_entries j),
           update_job i (\<lambda>j. j\<lparr>aj_entries := map (\<lambda>e. e\<lparr>se_displayed := entry_available now j e\<rparr>) (aj_entries j)\<rparr>) (s\<lparr>hs_dirty := False\<rparr>)))"

definition is_available :: "u64 \<Rightarrow> stored_host \<Rightarrow> host_service \<Rightarrow> bool" where
  "is_available now h s =
     (case hs_job s of
        None \<Rightarrow> False
      | Some i \<Rightarrow>
          let j = hs_jobs s ! i in
          (case List.find (\<lambda>e. same_probe_host (se_host e) h) (aj_entries j) of None \<Rightarrow> False | Some e \<Rightarrow> entry_available now j e))"

text \<open>What \<open>WaitForAvailability\<close> waits for.\<close>

definition availability_settled :: "host_service \<Rightarrow> bool" where
  "availability_settled s = (case hs_barrier s of None \<Rightarrow> True | Some i \<Rightarrow> aj_done (hs_jobs s ! i))"

text \<open>After the queue has run empty.\<close>

definition host_service_shutdown :: "host_service \<Rightarrow> host_service" where
  "host_service_shutdown s =
     (let s = cancel_availability s
      in if hs_queued s \<noteq> [] then s else s\<lparr>hs_queue := False, hs_job := None, hs_barrier := None\<rparr>)"

section \<open>The worker\<close>

text \<open>A look at the next host: a probe begins, or the scan is over and the next one comes.\<close>

definition worker_next :: "host_service \<Rightarrow> host_service" where
  "worker_next s =
     (case hs_queued s of
        [] \<Rightarrow> s
      | i # rest \<Rightarrow>
          let j = hs_jobs s ! i in
          if aj_probing j then s
          else if aj_next j < length (aj_entries j) \<and> \<not> aj_cancel j then update_job i (\<lambda>j. j\<lparr>aj_probing := True\<rparr>) s
          else update_job i (\<lambda>j. j\<lparr>aj_done := True\<rparr>) (s\<lparr>hs_queued := rest\<rparr>))"

definition probed_entry :: "int \<Rightarrow> u64 \<Rightarrow> scan_entry \<Rightarrow> scan_entry" where
  "probed_entry result now e = e\<lparr>se_checked_at := now, se_result := (if result = 0 then 2 else result)\<rparr>"

definition worker_probed :: "int \<Rightarrow> u64 \<Rightarrow> host_service \<Rightarrow> host_service" where
  "worker_probed result now s =
     (case hs_queued s of
        [] \<Rightarrow> s
      | i # rest \<Rightarrow>
          let j = hs_jobs s ! i; n = aj_next j in
          if \<not> aj_probing j then s
          else update_job i (\<lambda>j. j\<lparr>aj_entries := (aj_entries j)[n := probed_entry result now (aj_entries j ! n)], aj_next := n + 1, aj_probing := False\<rparr>)
                 (s\<lparr>hs_probes := hs_probes s @ [(se_host (aj_entries j ! n), result, now)]\<rparr>))"

datatype availability_action =
    Check u64 bool nat "stored_host list"
  | Stop_owner nat
  | Cancel_all
  | Poll u64
  | Worker_next
  | Worker_probed int u64
  | Stop_service

fun availability_act :: "availability_action \<Rightarrow> host_service \<Rightarrow> host_service" where
  "availability_act (Check now enqueued owner hosts) s = check_availability now enqueued owner hosts s"
| "availability_act (Stop_owner owner) s = stop_availability owner s"
| "availability_act Cancel_all s = cancel_availability s"
| "availability_act (Poll now) s = snd (poll_availability now s)"
| "availability_act Worker_next s = worker_next s"
| "availability_act (Worker_probed result now) s = worker_probed result now s"
| "availability_act Stop_service s = host_service_shutdown s"

section \<open>What the scans know\<close>

definition probed :: "(stored_host \<times> int \<times> u64) list \<Rightarrow> stored_host \<Rightarrow> u64 \<Rightarrow> bool" where
  "probed ps h t \<longleftrightarrow> (\<exists>h'. (h', 1, t) \<in> set ps \<and> same_probe_host h' h)"

definition entry_ok :: "(stored_host \<times> int \<times> u64) list \<Rightarrow> scan_entry \<Rightarrow> bool" where
  "entry_ok ps e \<longleftrightarrow> (se_result e = 1 \<longrightarrow> probed ps (se_host e) (se_checked_at e)) \<and>
     (se_previous_available e \<longrightarrow> probed ps (se_host e) (se_previous_checked_at e))"

text \<open>A scan that is done and was not cancelled has an answer for every host.\<close>

definition job_ok :: "(stored_host \<times> int \<times> u64) list \<Rightarrow> availability_job \<Rightarrow> bool" where
  "job_ok ps j \<longleftrightarrow> (\<forall>e\<in>set (aj_entries j). entry_ok ps e) \<and> (\<forall>i<aj_next j. se_result (aj_entries j ! i) \<noteq> 0) \<and>
     aj_next j \<le> length (aj_entries j) \<and> (aj_probing j \<longrightarrow> aj_next j < length (aj_entries j) \<and> \<not> aj_done j) \<and>
     (aj_done j \<and> \<not> aj_cancel j \<longrightarrow> aj_next j = length (aj_entries j))"

definition service_fine :: "host_service \<Rightarrow> bool" where
  "service_fine s \<longleftrightarrow> (\<forall>j\<in>set (hs_jobs s). job_ok (hs_probes s) j) \<and> (\<forall>i\<in>set (hs_queued s). i < length (hs_jobs s)) \<and>
     (\<forall>i. hs_job s = Some i \<longrightarrow> i < length (hs_jobs s)) \<and> distinct (hs_queued s) \<and>
     (\<forall>i\<in>set (hs_queued s). \<not> aj_done (hs_jobs s ! i)) \<and>
     (hs_queued s \<noteq> [] \<longrightarrow> hs_barrier s = Some (last (hs_queued s))) \<and>
     (\<forall>i. hs_barrier s = Some i \<longrightarrow> i < length (hs_jobs s))"

lemma probed_mono: "probed ps h t \<Longrightarrow> probed (ps @ qs) h t"
  by (auto simp: probed_def)

lemma entry_ok_mono: "entry_ok ps e \<Longrightarrow> entry_ok (ps @ qs) e"
  by (auto simp: entry_ok_def intro: probed_mono)

lemma job_ok_mono: "job_ok ps j \<Longrightarrow> job_ok (ps @ qs) j"
  by (auto simp: job_ok_def intro: entry_ok_mono)

lemma same_probe_host_trans: "same_probe_host a b \<Longrightarrow> same_probe_host b c \<Longrightarrow> same_probe_host a c"
  by (simp add: same_probe_host_def)

lemma probed_same: "probed ps h t \<Longrightarrow> same_probe_host h h' \<Longrightarrow> probed ps h' t"
  unfolding probed_def by (blast intro: same_probe_host_trans)

lemma entry_available_probed:
  assumes "entry_ok ps e" "entry_available now j e"
  shows "\<exists>t. probed ps (se_host e) t \<and> now - t < 30000000"
  using assms by (auto simp: entry_ok_def entry_available_def split: if_splits)

lemma new_entry_ok:
  assumes "case previous of None \<Rightarrow> True | Some (j, e) \<Rightarrow> entry_ok ps e \<and> same_probe_host (se_host e) h \<and> (aj_cancel j \<or> se_result e \<noteq> 0)"
  shows "entry_ok ps (new_entry now previous h)" "se_result (new_entry now previous h) = 0"
  using assms
  by (auto simp: new_entry_def entry_ok_def entry_available_def Let_def split: option.splits if_splits intro: probed_same)

lemma availability_job_new_ok:
  assumes "case previous of None \<Rightarrow> True
    | Some j \<Rightarrow> job_ok ps j \<and> aj_done j \<and> list_all2 same_probe_host (map se_host (aj_entries j)) hosts"
  shows "job_ok ps (availability_job_new now hosts previous)"
proof -
  have "entry_ok ps (new_entry now (map_option (\<lambda>j. (j, aj_entries j ! i)) previous) (hosts ! i))" if "i < length hosts" for i
  proof (rule new_entry_ok, cases previous)
    case (Some j)
    then have j: "job_ok ps j" "aj_done j" "list_all2 same_probe_host (map se_host (aj_entries j)) hosts" using assms by simp_all
    then have len: "i < length (aj_entries j)" using that list_all2_lengthD [OF j(3)] by simp
    have same: "same_probe_host (se_host (aj_entries j ! i)) (hosts ! i)"
      using list_all2_nthD [OF j(3), of i] len by simp
    have "aj_cancel j \<or> se_result (aj_entries j ! i) \<noteq> 0" using j(1,2) len by (auto simp: job_ok_def)
    then show "case map_option (\<lambda>j. (j, aj_entries j ! i)) previous of None \<Rightarrow> True
      | Some (j, e) \<Rightarrow> entry_ok ps e \<and> same_probe_host (se_host e) (hosts ! i) \<and> (aj_cancel j \<or> se_result e \<noteq> 0)"
      using Some j(1) len same by (simp add: job_ok_def)
  qed simp
  then show ?thesis by (auto simp: job_ok_def availability_job_new_def)
qed

section \<open>The operations keep it\<close>

lemma update_job_ok:
  assumes "service_fine s" "i < length (hs_jobs s)" "job_ok (hs_probes s) (f (hs_jobs s ! i))" "aj_done (f (hs_jobs s ! i)) = aj_done (hs_jobs s ! i)"
  shows "service_fine (update_job i f s)"
  using assms unfolding service_fine_def update_job_def
  by (auto simp: nth_list_update dest!: set_update_subset_insert [THEN subsetD] split: option.splits)

lemma cancel_job_ok: "job_ok ps j \<Longrightarrow> job_ok ps (cancel_job j)"
  by (auto simp: job_ok_def cancel_job_def)

lemma service_fine_fields [simp]:
  "service_fine (s\<lparr>hs_owner := x\<rparr>) = service_fine s" "service_fine (s\<lparr>hs_dirty := b\<rparr>) = service_fine s" "service_fine (s\<lparr>hs_queue := b\<rparr>) = service_fine s"
  by (simp_all add: service_fine_def split: option.split)

lemma service_fineD: "service_fine s \<Longrightarrow> hs_job s = Some i \<Longrightarrow> i < length (hs_jobs s) \<and> job_ok (hs_probes s) (hs_jobs s ! i)"
  by (auto simp: service_fine_def)

lemma cancel_availability_ok:
  assumes "service_fine s"
  shows "service_fine (cancel_availability s)"
  using assms service_fineD [OF assms]
  by (auto simp: cancel_availability_def cancel_job_def intro!: update_job_ok cancel_job_ok [unfolded cancel_job_def] split: option.splits)

lemma cancel_availability_frame:
  "length (hs_jobs (cancel_availability s)) = length (hs_jobs s)" "hs_queued (cancel_availability s) = hs_queued s"
  "hs_probes (cancel_availability s) = hs_probes s" "hs_barrier (cancel_availability s) = hs_barrier s" "hs_job (cancel_availability s) = hs_job s"
  by (simp_all add: cancel_availability_def update_job_def split: option.splits)

lemma add_job_ok:
  assumes "service_fine s" "job_ok (hs_probes s) j" "\<not> aj_done j"
  shows "service_fine (s\<lparr>hs_owner := x, hs_job := Some (length (hs_jobs s)), hs_jobs := hs_jobs s @ [j], hs_queued := hs_queued s @ [length (hs_jobs s)],
    hs_barrier := Some (length (hs_jobs s))\<rparr>)"
  using assms by (auto simp: service_fine_def nth_append)

lemma add_dead_job_ok:
  assumes "service_fine s" "job_ok (hs_probes s) j"
  shows "service_fine (s\<lparr>hs_owner := x, hs_job := Some (length (hs_jobs s)), hs_jobs := hs_jobs s @ [j]\<rparr>)"
  using assms by (auto simp: service_fine_def nth_append split: option.splits)

lemma dead_job_ok: "job_ok ps j \<Longrightarrow> \<not> aj_probing j \<Longrightarrow> job_ok ps (j\<lparr>aj_cancel := True, aj_done := True\<rparr>)"
  by (auto simp: job_ok_def)

lemma check_availability_ok:
  assumes "service_fine s"
  shows "service_fine (check_availability now enqueued owner hosts s)"
proof -
  let ?old = "map_option (\<lambda>i. hs_jobs s ! i) (hs_job s)"
  let ?job = "availability_job_new now hosts (if unchanged_scan owner hosts s then ?old else None)"
  let ?t = "cancel_availability (s\<lparr>hs_queue := True\<rparr>)"
  have job: "job_ok (hs_probes ?t) ?job" if "\<not> (unchanged_scan owner hosts s \<and> \<not> refresh_due now (the ?old))"
    using that service_fineD [OF assms]
    by (auto intro!: availability_job_new_ok simp: unchanged_scan_def refresh_due_def cancel_availability_frame split: option.splits)
  have fine: "service_fine ?t" using assms by (intro cancel_availability_ok) simp
  have new: "\<not> aj_done ?job" "\<not> aj_probing ?job" by (simp_all add: availability_job_new_def)
  note len = cancel_availability_frame(1) [of "s\<lparr>hs_queue := True\<rparr>", simplified]
  show ?thesis
    unfolding check_availability_def Let_def
    using assms job add_job_ok [OF fine _ new(1), of "Some owner"] add_dead_job_ok [OF fine dead_job_ok [OF _ new(2)], of "Some owner"]
    by (auto simp: stop_availability_def cancel_availability_ok len)
qed

lemma poll_availability_ok:
  assumes "service_fine s"
  shows "service_fine (snd (poll_availability now s))"
proof -
  have shown: "job_ok ps (j\<lparr>aj_entries := map (\<lambda>e. e\<lparr>se_displayed := f e\<rparr>) (aj_entries j)\<rparr>)" if "job_ok ps j" for ps j f
    using that by (auto simp: job_ok_def entry_ok_def)
  have "service_fine (s\<lparr>hs_dirty := False\<rparr>)" using assms by simp
  then show ?thesis
    using assms service_fineD [OF assms]
    by (auto simp: poll_availability_def Let_def intro!: update_job_ok shown split: option.splits)
qed

lemma worker_next_ok:
  assumes "service_fine s"
  shows "service_fine (worker_next s)"
proof (cases "hs_queued s")
  case (Cons i rest)
  let ?j = "hs_jobs s ! i"
  have i: "i < length (hs_jobs s)" "job_ok (hs_probes s) ?j" "\<not> aj_done ?j" using assms Cons by (auto simp: service_fine_def)
  show ?thesis
  proof (cases "aj_probing ?j \<or> aj_next ?j < length (aj_entries ?j) \<and> \<not> aj_cancel ?j")
    case True
    then show ?thesis
      using assms i Cons by (auto simp: worker_next_def Let_def job_ok_def intro!: update_job_ok)
  next
    case False
    have "job_ok (hs_probes s) (?j\<lparr>aj_done := True\<rparr>)" using i False by (auto simp: job_ok_def)
    moreover have "i \<notin> set rest" using assms Cons by (simp add: service_fine_def)
    ultimately have "service_fine (update_job i (\<lambda>j. j\<lparr>aj_done := True\<rparr>) (s\<lparr>hs_queued := rest\<rparr>))"
      using assms Cons i(1) unfolding service_fine_def update_job_def
      by (auto simp: nth_list_update dest!: set_update_subset_insert [THEN subsetD] split: option.splits if_splits)
    moreover have "worker_next s = update_job i (\<lambda>j. j\<lparr>aj_done := True\<rparr>) (s\<lparr>hs_queued := rest\<rparr>)"
      using Cons False by (auto simp: worker_next_def Let_def)
    ultimately show ?thesis by simp
  qed
qed (simp add: worker_next_def assms)

lemma probed_job_ok:
  assumes "job_ok ps j" "aj_probing j"
  shows "job_ok (ps @ [(se_host (aj_entries j ! aj_next j), result, now)])
    (j\<lparr>aj_entries := (aj_entries j)[aj_next j := probed_entry result now (aj_entries j ! aj_next j)], aj_next := aj_next j + 1, aj_probing := False\<rparr>)"
proof -
  let ?n = "aj_next j"
  let ?ps = "ps @ [(se_host (aj_entries j ! ?n), result, now)]"
  have n: "?n < length (aj_entries j)" "\<not> aj_done j" using assms by (auto simp: job_ok_def)
  then have "entry_ok ps (aj_entries j ! ?n)" using assms(1) by (simp add: job_ok_def)
  then have "entry_ok ?ps (probed_entry result now (aj_entries j ! ?n))"
    using entry_ok_mono [of ps "aj_entries j ! ?n"] by (auto simp: entry_ok_def probed_entry_def probed_def same_probe_host_def)
  moreover have "entry_ok ?ps e" if "e \<in> set (aj_entries j)" for e
    using assms(1) that by (intro entry_ok_mono) (simp add: job_ok_def)
  ultimately have "\<forall>e\<in>set ((aj_entries j)[?n := probed_entry result now (aj_entries j ! ?n)]). entry_ok ?ps e"
    by (auto dest!: set_update_subset_insert [THEN subsetD])
  then show ?thesis
    using assms(1) n by (auto simp: job_ok_def nth_list_update less_Suc_eq probed_entry_def)
qed

lemma worker_probed_ok:
  assumes "service_fine s"
  shows "service_fine (worker_probed result now s)"
proof (cases "hs_queued s")
  case (Cons i rest)
  let ?j = "hs_jobs s ! i"
  let ?p = "(se_host (aj_entries ?j ! aj_next ?j), result, now)"
  have i: "i < length (hs_jobs s)" "job_ok (hs_probes s) ?j" using assms Cons by (auto simp: service_fine_def)
  have "service_fine (s\<lparr>hs_probes := hs_probes s @ [?p]\<rparr>)"
    using assms by (auto simp: service_fine_def intro: job_ok_mono)
  let ?f = "\<lambda>j. j\<lparr>aj_entries := (aj_entries j)[aj_next ?j := probed_entry result now (aj_entries j ! aj_next ?j)], aj_next := aj_next ?j + 1,
    aj_probing := False\<rparr>"
  have "service_fine (update_job i ?f (s\<lparr>hs_probes := hs_probes s @ [?p]\<rparr>))" if "aj_probing ?j"
    by (rule update_job_ok [OF \<open>service_fine (s\<lparr>hs_probes := hs_probes s @ [?p]\<rparr>)\<close>]) (use i(1) probed_job_ok [OF i(2) that] in simp_all)
  then show ?thesis
    using assms Cons by (auto simp: worker_probed_def Let_def update_job_def)
qed (simp add: worker_probed_def assms)

lemma host_service_shutdown_ok:
  assumes "service_fine s"
  shows "service_fine (host_service_shutdown s)"
  using cancel_availability_ok [OF assms] by (auto simp: host_service_shutdown_def Let_def service_fine_def)

lemma availability_act_ok: "service_fine s \<Longrightarrow> service_fine (availability_act x s)"
  by (cases x) (simp_all add: check_availability_ok stop_availability_def cancel_availability_ok poll_availability_ok worker_next_ok worker_probed_ok
      host_service_shutdown_ok)

lemma availability_run_ok: "service_fine s \<Longrightarrow> service_fine (fold availability_act xs s)"
  by (induction xs arbitrary: s) (simp_all add: availability_act_ok)

section \<open>Properties\<close>

lemma host_service_new_fine: "service_fine host_service_new"
  by (simp add: service_fine_def host_service_new_def)

text \<open>When the barrier is reached the queue is empty, so that no probe runs.\<close>

lemma settled_quiet:
  assumes "service_fine s" "availability_settled s"
  shows "hs_queued s = []"
proof (rule ccontr)
  assume left: "hs_queued s \<noteq> []"
  then have "hs_barrier s = Some (last (hs_queued s))" "\<not> aj_done (hs_jobs s ! last (hs_queued s))"
    using assms(1) last_in_set [OF left] unfolding service_fine_def by blast+
  then show False using assms(2) by (simp add: availability_settled_def)
qed

text \<open>
  Property C22: in every interleaving of the scans' worker with the operations, a host is shown as available only if a probe of that very identity, address
  and port answered so less than thirty seconds ago, be it in this scan or in the one it repeats.
\<close>

theorem availability_is_fresh:
  assumes "is_available now h (fold availability_act xs host_service_new)"
  shows "\<exists>h' t. (h', 1, t) \<in> set (hs_probes (fold availability_act xs host_service_new)) \<and> same_probe_host h' h \<and> now - t < 30000000"
proof -
  let ?s = "fold availability_act xs host_service_new"
  obtain i e where i: "hs_job ?s = Some i" and e: "List.find (\<lambda>e. same_probe_host (se_host e) h) (aj_entries (hs_jobs ?s ! i)) = Some e"
    and available: "entry_available now (hs_jobs ?s ! i) e"
    using assms by (auto simp: is_available_def Let_def split: option.splits)
  have "e \<in> set (aj_entries (hs_jobs ?s ! i))" "same_probe_host (se_host e) h"
    using e by (auto simp: find_Some_iff)
  moreover have "job_ok (hs_probes ?s) (hs_jobs ?s ! i)"
    using service_fineD [OF availability_run_ok [OF host_service_new_fine] i] by blast
  ultimately obtain t where "probed (hs_probes ?s) (se_host e) t" "now - t < 30000000"
    using entry_available_probed [OF _ available, of "hs_probes ?s"] unfolding job_ok_def by blast
  then show ?thesis
    using probed_same [OF _ \<open>same_probe_host (se_host e) h\<close>] unfolding probed_def by blast
qed

text \<open>A scan of one host that answers, shown while the next scan of it waits.\<close>

definition scan_steps :: "availability_action list" where
  "scan_steps = [Check 0 True 1 [paired_host], Worker_next, Worker_probed 1 1000000, Worker_next, Check 16000000 True 1 [paired_host]]"

lemma availability_is_fresh_witness:
  "is_available 20000000 paired_host (fold availability_act scan_steps host_service_new) \<and>
   (\<exists>h' t. (h', 1, t) \<in> set (hs_probes (fold availability_act scan_steps host_service_new)) \<and> same_probe_host h' paired_host \<and>
      20000000 - t < (30000000 :: u64))"
proof -
  have "is_available 20000000 paired_host (fold availability_act scan_steps host_service_new)" by code_simp
  with availability_is_fresh [OF this] show ?thesis by blast
qed

text \<open>The old answer is shown only as long as it is fresh.\<close>

lemma availability_expires: "\<not> is_available 40000000 paired_host (fold availability_act scan_steps host_service_new)"
  by code_simp

end
