(* ===== verification/AppEvents.thy ===== *)
theory AppEvents imports ConnectionService begin

text \<open>
  How events reach the pages (\<open>src/app/moonlight_app.cpp\<close>): they are queued from any thread, and the task of the main thread takes one after the other from the
  queue, asks the connection service whether it may pass, and hands it to the callback. This is where the event queue, the foreground operation
  and the generation of the host search (\<open>src/services/host_discovery_service.cpp\<close>) meet. The network modules the application holds are here too.

  \<open>react\<close> is what the callback does, which is the code of the pages.
\<close>

section \<open>The application\<close>

record app_state =
  am_initialized :: bool
  am_callback :: bool
  am_queue :: event_queue
  am_service :: connection_service

text \<open>\<open>OnMoonlightEvent\<close> and \<open>QueueEvent\<close>.\<close>

definition queue_event :: "event \<Rightarrow> app_state \<Rightarrow> app_state" where
  "queue_event e s =
     (if \<not> am_initialized s \<or> \<not> am_callback s then s else s\<lparr>am_queue := snd (queue_push (am_queue s) e)\<rparr>)"


definition job_event :: "connection_service \<Rightarrow> event option" where
  "job_event s = map_option (\<lambda>(type, result, address).
     \<lparr>ev_type = type, ev_result = result, ev_host_id = - 1, ev_application_id = - 1, ev_address = address, ev_pairing_pin = [],
      ev_server_status_code = 0, ev_server_status_message = [], ev_running_application_id = 0, ev_discovery_generation = 0\<rparr>) (completed_job_event s)"

text \<open>The event to deal with, and whether it is the queue's.\<close>

definition next_event :: "app_state \<Rightarrow> (event \<times> bool) option \<times> app_state" where
  "next_event s =
     (case queue_peek (am_queue s) of
        (Some e, q) \<Rightarrow> (Some (e\<lparr>ev_address := map_option (bounded_copy 256) (ev_address e)\<rparr>, True), s\<lparr>am_queue := q\<rparr>)
      | (None, q) \<Rightarrow> (map_option (\<lambda>e. (e, False)) (job_event (am_service s)), s\<lparr>am_queue := q\<rparr>))"


datatype round = Idle | Held_back | Passed event

definition process_round :: "service_env \<Rightarrow> app_state \<Rightarrow> (service_call, service_answer) calls \<Rightarrow>
    round \<times> app_state \<times> (service_call, service_answer) calls" where
  "process_round env s log =
     (case next_event s of
        (None, s') \<Rightarrow> (Idle, s', log)
      | (Some (e, queued), s') \<Rightarrow>
          (case run_state (prepare_completion env e) (am_service s', log) of
             (ok, service, log') \<Rightarrow>
               let s'' = s'\<lparr>am_service := service\<rparr>
               in if \<not> ok then (Held_back, s'', log')
                  else (Passed e, (if queued then s''\<lparr>am_queue := queue_acknowledge (am_queue s'')\<rparr> else s''), log')))"

text \<open>The loop of \<open>ProcessEventTask\<close>: the events that were handed to the callback, \<open>None\<close> when the fuel is too little.\<close>

fun process_events :: "nat \<Rightarrow> service_env \<Rightarrow> (event \<Rightarrow> bool) \<Rightarrow>
    (event \<Rightarrow> app_state \<times> (service_call, service_answer) calls \<Rightarrow> app_state \<times> (service_call, service_answer) calls) \<Rightarrow>
    app_state \<times> (service_call, service_answer) calls \<Rightarrow>
    (event list \<times> app_state \<times> (service_call, service_answer) calls) option" where
  "process_events 0 env passes react st = None"
| "process_events (Suc n) env passes react (s, log) =
     (case process_round env s log of
        (Passed e, st) \<Rightarrow>
          if passes e then map_option (map_prod ((#) e) id) (process_events n env passes react (if am_callback s then react e st else st))
          else process_events n env passes react st
      | (_, st) \<Rightarrow> Some ([], st))"

section \<open>The network modules\<close>

record network_modules =
  nt_memory :: bool
  nt_net :: bool
  nt_netctl :: bool
  nt_module :: bool

datatype network_call = Load_net | Unload_net | Allocate_net | Free_net | Net_init | Net_term | Netctl_init | Netctl_term

type_synonym network_env = "(network_call, int) env"
type_synonym 'r network_prog = "(network_modules, network_call, int, 'r) prog"

definition network_boot :: network_modules where
  "network_boot = \<lparr>nt_memory = False, nt_net = False, nt_netctl = False, nt_module = False\<rparr>"

definition release_module :: "network_env \<Rightarrow> (network_modules \<Rightarrow> bool) \<Rightarrow> network_call \<Rightarrow> (network_modules \<Rightarrow> network_modules) \<Rightarrow> unit network_prog" where
  "release_module env held c clear = do {
     h \<leftarrow> look held;
     if h then do { _ \<leftarrow> ask env c; modify clear } else skip
   }"

definition shutdown_network :: "network_env \<Rightarrow> unit network_prog" where
  "shutdown_network env = do {
     _ \<leftarrow> release_module env nt_netctl Netctl_term (\<lambda>s. s\<lparr>nt_netctl := False\<rparr>);
     _ \<leftarrow> release_module env nt_net Net_term (\<lambda>s. s\<lparr>nt_net := False\<rparr>);
     _ \<leftarrow> release_module env nt_memory Free_net (\<lambda>s. s\<lparr>nt_memory := False\<rparr>);
     release_module env nt_module Unload_net (\<lambda>s. s\<lparr>nt_module := False\<rparr>)
   }"

definition failed_network :: "network_env \<Rightarrow> int \<Rightarrow> int network_prog" where
  "failed_network env result = do { _ \<leftarrow> shutdown_network env; State_Monad.return result }"

text \<open>An allocation answers with a negative number when there is no memory.\<close>

definition initialize_network :: "network_env \<Rightarrow> int network_prog" where
  "initialize_network env = do {
     up \<leftarrow> look nt_net;
     if up then State_Monad.return 0
     else do {
       module \<leftarrow> ask env Load_net;
       if module < 0 then State_Monad.return module
       else do {
         _ \<leftarrow> modify (\<lambda>s. s\<lparr>nt_module := True\<rparr>);
         memory \<leftarrow> ask env Allocate_net;
         if memory < 0 then failed_network env (- 1)
         else do {
           _ \<leftarrow> modify (\<lambda>s. s\<lparr>nt_memory := True\<rparr>);
           net \<leftarrow> ask env Net_init;
           if net < 0 then failed_network env net
           else do {
             _ \<leftarrow> modify (\<lambda>s. s\<lparr>nt_net := True\<rparr>);
             netctl \<leftarrow> ask env Netctl_init;
             if netctl < 0 then failed_network env netctl
             else do { _ \<leftarrow> modify (\<lambda>s. s\<lparr>nt_netctl := True\<rparr>); State_Monad.return 0 }
           }
         }
       }
     }
   }"

section \<open>One round\<close>

definition ends :: "connection_service \<Rightarrow> event \<Rightarrow> bool" where
  "ends s e \<longleftrightarrow> completes_operation (cs_operation s) (ev_type e)"

text \<open>What a round may not change.\<close>

definition same_job :: "connection_service \<Rightarrow> connection_service \<Rightarrow> bool" where
  "same_job s s' \<longleftrightarrow> cs_worker_done s' = cs_worker_done s \<and> cs_worker_result s' = cs_worker_result s \<and> cs_address s' = cs_address s"

definition shows_only :: "connection_service \<Rightarrow> connection_service \<Rightarrow> bool" where
  "shows_only s s' \<longleftrightarrow> same_job s s' \<and> cs_operation s' = cs_operation s \<and> cs_slot s' = cs_slot s"

lemma shows_only_refl: "shows_only s s"
  by (simp add: shows_only_def same_job_def)

lemma show_error_job:
  "run_state (show_error env message result) (s, log) = (u, (s', log')) \<Longrightarrow> shows_only s s'"
  by (auto simp: show_error_def register_task_def shows_only_def same_job_def split: if_splits)

lemma confirm_shape:
  assumes "run_state (do {
      busy \<leftarrow> look is_busy;
      if P busy then show_error env refusal 0
      else do { _ \<leftarrow> show_error env question 0; modify (\<lambda>s. s\<lparr>cs_confirm_app := app, cs_confirm_running := running\<rparr>) }
    }) (s, log) = (u, (s', log'))"
  shows "shows_only s s'"
proof (cases "P (is_busy s)")
  case True
  then show ?thesis using assms show_error_job by simp
next
  case False
  obtain s1 log1 where shown: "run_state (show_error env question 0) (s, log) = ((), (s1, log1))"
    by (metis old.unit.exhaust prod_cases3)
  show ?thesis
    using assms False shown show_error_job [OF shown] by (auto simp: shows_only_def same_job_def)
qed

lemma confirm_job:
  "run_state (confirm_quit_and_start env app running) (s, log) = (u, (s', log')) \<Longrightarrow> shows_only s s'"
  unfolding confirm_quit_and_start_def by (rule confirm_shape)

lemma report_completion_job:
  "run_state (report_completion env operation e) (s, log) = (u, (s', log')) \<Longrightarrow> shows_only s s'"
  unfolding report_completion_def show_connection_error_def
  by (auto split: if_splits dest: show_error_job confirm_job simp: shows_only_refl)

lemma close_wait_dialog_job:
  assumes "run_state (close_wait_dialog env) (s, log) = (u, (s', log'))"
  shows "same_job s s' \<and> cs_operation s' = cs_operation s \<and> cs_slot s' < 0"
  using assms by (auto simp: close_wait_dialog_def same_job_def split: if_splits)

lemma prepare_completion_passes:
  assumes "cs_operation s \<in> {Operation_Connect, Operation_Applications} \<longrightarrow> cs_worker_done s"
    "run_state (prepare_completion env e) (s, log) = (ok, (s', log'))"
  shows "ok \<and> same_job s s' \<and> cs_operation s' = (if ends s e then Operation_None else cs_operation s) \<and> (ends s e \<or> cs_slot s < 0 \<longrightarrow> cs_slot s' < 0)"
proof (cases "ends s e")
  case False
  then show ?thesis
    using assms(2) by (auto simp: prepare_completion_def ends_def same_job_def)
next
  case True
  then have over: "cs_operation s = Operation_Launch \<or> cs_worker_done s"
    using assms(1) by (cases "cs_operation s") (simp_all add: ends_def completes_operation_def)
  obtain s1 log1 where closed: "run_state (close_wait_dialog env) (s, log @ [(Delivered e, env log (Delivered e))]) = ((), (s1, log1))"
    by (metis old.unit.exhaust prod_cases3)
  obtain s2 log2 where reported: "run_state (report_completion env (cs_operation s) e) (s1\<lparr>cs_operation := Operation_None\<rparr>, log1) = ((), (s2, log2))"
    by (metis old.unit.exhaust prod_cases3)
  have "ok \<and> s' = s2"
    using assms(2) True over closed reported by (auto simp: prepare_completion_def ends_def)
  then show ?thesis
    using True close_wait_dialog_job [OF closed] report_completion_job [OF reported] by (auto simp: same_job_def shows_only_def)
qed

section \<open>The task empties the queue\<close>

text \<open>The events that wait, the one that was held back first.\<close>

definition due :: "event_queue \<Rightarrow> event list" where
  "due q = (if eq_pending_valid q then [q_event (eq_pending q)] else []) @ map q_event (waiting q)"

lemma delivered_address: "delivered e = e\<lparr>ev_address := map_option (bounded_copy 256) (ev_address e)\<rparr>"
  by (simp add: delivered_def)

lemma owned_delivered: "owned x \<Longrightarrow> delivered (q_event x) = q_event x"
  by (cases "ev_address (q_event x)") (auto simp: owned_def delivered_def bounded_copy_id split: option.splits)

lemma peek_due:
  assumes "queue_inv q"
  shows "case due q of
      [] \<Rightarrow> queue_peek q = (None, q)
    | e # es \<Rightarrow> \<exists>q'. queue_peek q = (Some e, q') \<and> queue_inv (queue_acknowledge q') \<and> due (queue_acknowledge q') = es \<and>
        delivered e = e"
proof (cases "eq_pending_valid q")
  case True
  have "owned (eq_pending q)" using assms True by (simp add: queue_inv_def)
  moreover have "due (queue_acknowledge q) = map q_event (waiting q)"
    by (simp add: due_def frame_simps) (simp add: queue_acknowledge_def)
  ultimately show ?thesis
    using True peek_held [OF True] queue_inv_acknowledge [OF assms] by (simp add: due_def owned_delivered)
next
  case False
  from assms False show ?thesis
  proof (cases rule: peek_cases)
    case (due x q')
    have "owned x" using due(2,4,5) by (auto simp: queue_inv_def)
    moreover have "AppEvents.due (queue_acknowledge q') = map q_event (waiting q')"
      by (simp add: AppEvents.due_def frame_simps) (simp add: queue_acknowledge_def)
    ultimately show ?thesis
      using due False queue_inv_acknowledge by (simp add: AppEvents.due_def owned_delivered)
  qed (simp add: due_def False)
qed

text \<open>The job event that stands in for one that did not come.\<close>

definition stand_in :: "connection_service \<Rightarrow> event list \<Rightarrow> event list" where
  "stand_in s es = (if list_ex (ends s) es then [] else case job_event s of None \<Rightarrow> [] | Some e \<Rightarrow> [e])"

definition released :: "connection_service \<Rightarrow> event list \<Rightarrow> operation" where
  "released s es = (if cs_operation s \<in> {Operation_Connect, Operation_Applications} \<or> list_ex (ends s) es then Operation_None else cs_operation s)"

lemma job_event_ends: "job_event s = Some e \<Longrightarrow> ends s e"
  by (cases "cs_operation s") (auto simp: job_event_def completed_job_event_def ends_def completes_operation_def split: if_splits)

lemma job_event_None:
  "cs_operation s \<in> {Operation_Connect, Operation_Applications} \<longrightarrow> cs_worker_done s \<Longrightarrow>
     job_event s = None \<longleftrightarrow> cs_operation s \<notin> {Operation_Connect, Operation_Applications}"
  by (auto simp: job_event_def completed_job_event_def)

lemma not_ends_none: "cs_operation s = Operation_None \<Longrightarrow> \<not> ends s e"
  by (simp add: ends_def completes_operation_def)

lemma job_event_same: "same_job s s' \<Longrightarrow> cs_operation s' = cs_operation s \<Longrightarrow> job_event s' = job_event s"
  by (simp add: job_event_def completed_job_event_def same_job_def)

lemma process_idle:
  assumes "queue_inv (am_queue s)" "due (am_queue s) = []" "job_event (am_service s) = None"
  shows "process_events (Suc n) env passes react (s, log) = Some ([], (s, log))"
  using peek_due [OF assms(1)] assms by (simp add: process_round_def next_event_def)

text \<open>With a callback that does nothing to the application, exactly what is handed over.\<close>

lemma process_events_drain:
  assumes "queue_inv (am_queue s)" "cs_operation (am_service s) \<in> {Operation_Connect, Operation_Applications} \<longrightarrow> cs_worker_done (am_service s)"
    "due (am_queue s) = es" "length es + 1 < n"
  shows "\<exists>s' log'. process_events n env passes (\<lambda>_ st. st) (s, log) = Some (filter passes (es @ stand_in (am_service s) es), (s', log')) \<and>
    queue_inv (am_queue s') \<and> due (am_queue s') = [] \<and> cs_operation (am_service s') = released (am_service s) es \<and>
    (released (am_service s) es \<noteq> cs_operation (am_service s) \<or> cs_slot (am_service s) < 0 \<longrightarrow> cs_slot (am_service s') < 0)"
  using assms
proof (induction es arbitrary: s log n)
  case Nil
  obtain m where n: "n = Suc (Suc m)" using Nil.prems(4) by (cases n; cases "n - 1") auto
  have peek: "queue_peek (am_queue s) = (None, am_queue s)" using peek_due [OF Nil.prems(1)] Nil.prems(3) by simp
  show ?case
  proof (cases "job_event (am_service s)")
    case None
    then have "released (am_service s) [] = cs_operation (am_service s)"
      using job_event_None [OF Nil.prems(2)] by (simp add: released_def)
    then show ?thesis
      using process_idle [OF Nil.prems(1,3) None] None Nil.prems(1,3) by (simp add: n stand_in_def)
  next
    case (Some e)
    let ?v = "am_service s"
    obtain ok v log1 where run: "run_state (prepare_completion env e) (?v, log) = (ok, (v, log1))" by (metis prod_cases3)
    note passed = prepare_completion_passes [OF Nil.prems(2) run]
    have v: "ok" "cs_operation v = Operation_None" "cs_slot v < 0" using passed job_event_ends [OF Some] by auto
    let ?s = "s\<lparr>am_queue := am_queue s, am_service := v\<rparr>"
    have "job_event v = None" using v(2) by (simp add: job_event_def completed_job_event_def)
    then have rest: "process_events (Suc m) env passes (\<lambda>_ st. st) (?s, log1) = Some ([], (?s, log1))"
      by (intro process_idle) (use Nil.prems(1,3) in simp_all)
    have "process_round env s log = (Passed e, ?s, log1)"
      using peek Some run v(1) by (simp add: process_round_def next_event_def)
    then have "process_events n env passes (\<lambda>_ st. st) (s, log) = Some (filter passes [e], (?s, log1))"
      using rest by (simp add: n del: process_events.simps(2)) (simp add: process_events.simps(2) [of "Suc m"] del: process_events.simps(2))
    moreover have "released ?v [] = Operation_None"
      using job_event_None [OF Nil.prems(2)] Some by (simp add: released_def)
    ultimately show ?thesis using v Nil.prems(1,3) Some by (simp add: stand_in_def)
  qed
next
  case (Cons e es)
  let ?v = "am_service s"
  obtain m where n: "n = Suc m" "length es + 1 < m" using Cons.prems(4) by (cases n) auto
  obtain q where peek: "queue_peek (am_queue s) = (Some e, q)" and q: "queue_inv (queue_acknowledge q)" "due (queue_acknowledge q) = es"
    and e: "delivered e = e"
    using peek_due [OF Cons.prems(1)] Cons.prems(3) by auto
  obtain ok v log1 where run: "run_state (prepare_completion env e) (?v, log) = (ok, (v, log1))" by (metis prod_cases3)
  note passed = prepare_completion_passes [OF Cons.prems(2) run]
  let ?s = "s\<lparr>am_queue := queue_acknowledge q, am_service := v\<rparr>"
  have round: "process_round env s log = (Passed e, ?s, log1)"
    using peek run passed e by (simp add: process_round_def next_event_def delivered_address)
  have "\<exists>s' log'. process_events m env passes (\<lambda>_ st. st) (?s, log1) = Some (filter passes (es @ stand_in v es), (s', log')) \<and>
      queue_inv (am_queue s') \<and> due (am_queue s') = [] \<and> cs_operation (am_service s') = released v es \<and>
      (released v es \<noteq> cs_operation v \<or> cs_slot v < 0 \<longrightarrow> cs_slot (am_service s') < 0)"
    using Cons.IH [of ?s m log1] q n(2) Cons.prems(2) passed by (auto simp: same_job_def split: if_splits)
  then obtain s' log' where rest: "process_events m env passes (\<lambda>_ st. st) (?s, log1) = Some (filter passes (es @ stand_in v es), (s', log'))"
    "queue_inv (am_queue s')" "due (am_queue s') = []" "cs_operation (am_service s') = released v es"
    "released v es \<noteq> cs_operation v \<or> cs_slot v < 0 \<longrightarrow> cs_slot (am_service s') < 0" by blast
  have step: "process_events n env passes (\<lambda>_ st. st) (s, log) = Some (filter passes (e # es @ stand_in v es), (s', log'))"
    using round rest(1) by (simp add: n(1))
  show ?case
  proof (cases "ends ?v e")
    case True
    then have v: "cs_operation v = Operation_None" "cs_slot v < 0" using passed by auto
    then have "stand_in v es = []" "released v es = Operation_None"
      by (auto simp: stand_in_def released_def job_event_def completed_job_event_def)
    then show ?thesis
      using step rest True v by (auto simp: stand_in_def released_def)
  next
    case False
    then have v: "cs_operation v = cs_operation ?v" "job_event v = job_event ?v" "ends v = ends ?v" "cs_slot ?v < 0 \<longrightarrow> cs_slot v < 0"
      using passed job_event_same [of ?v v] by (auto simp: ends_def fun_eq_iff)
    then have "stand_in ?v (e # es) = stand_in v es" "released ?v (e # es) = released v es"
      using False by (simp_all add: stand_in_def released_def)
    then show ?thesis using step rest v by auto
  qed
qed

section \<open>The task with callbacks that do something\<close>

text \<open>The load of a list of events, and what waits: the events of the queue, and the one that would stand in.\<close>

definition load :: "(event_type \<Rightarrow> nat) \<Rightarrow> event list \<Rightarrow> nat" where
  "load weight es = sum_list (map (weight \<circ> ev_type) es)"










lemma delivered_type [simp]: "ev_type (delivered e) = ev_type e"
  by (simp add: delivered_def)


lemma load_append [simp]: "load weight (xs @ ys) = load weight xs + load weight ys"
  by (simp add: load_def)

lemma load_simps [simp]: "load weight [] = 0" "load weight (e # es) = weight (ev_type e) + load weight es"
  by (simp_all add: load_def)





















section \<open>The network modules come and go in order\<close>

fun modules_rule :: "network_modules \<Rightarrow> network_call \<Rightarrow> int \<Rightarrow> network_modules option" where
  "modules_rule w Load_net r = (if nt_module w then None else Some (if r \<ge> 0 then w\<lparr>nt_module := True\<rparr> else w))"
| "modules_rule w Allocate_net r = (if \<not> nt_module w \<or> nt_memory w then None else Some (if r \<ge> 0 then w\<lparr>nt_memory := True\<rparr> else w))"
| "modules_rule w Net_init r = (if \<not> nt_memory w \<or> nt_net w then None else Some (if r \<ge> 0 then w\<lparr>nt_net := True\<rparr> else w))"
| "modules_rule w Netctl_init r = (if \<not> nt_net w \<or> nt_netctl w then None else Some (if r \<ge> 0 then w\<lparr>nt_netctl := True\<rparr> else w))"
| "modules_rule w Netctl_term r = (if nt_netctl w then Some (w\<lparr>nt_netctl := False\<rparr>) else None)"
| "modules_rule w Net_term r = (if nt_net w \<and> \<not> nt_netctl w then Some (w\<lparr>nt_net := False\<rparr>) else None)"
| "modules_rule w Free_net r = (if nt_memory w \<and> \<not> nt_net w then Some (w\<lparr>nt_memory := False\<rparr>) else None)"
| "modules_rule w Unload_net r = (if nt_module w \<and> \<not> nt_memory w then Some (w\<lparr>nt_module := False\<rparr>) else None)"

definition network_up :: network_modules where
  "network_up = \<lparr>nt_memory = True, nt_net = True, nt_netctl = True, nt_module = True\<rparr>"

definition network_ok :: "network_modules \<Rightarrow> network_modules \<Rightarrow> bool" where
  "network_ok s w \<longleftrightarrow> w = s \<and> s \<in> {network_boot, network_up}"

definition stacked :: "network_modules \<Rightarrow> bool" where
  "stacked s \<longleftrightarrow> (nt_netctl s \<longrightarrow> nt_net s) \<and> (nt_net s \<longrightarrow> nt_memory s) \<and> (nt_memory s \<longrightarrow> nt_module s)"

abbreviation network_safe :: "network_modules \<Rightarrow> network_modules \<Rightarrow> 'r network_prog \<Rightarrow> ('r \<Rightarrow> network_modules \<Rightarrow> network_modules \<Rightarrow> bool) \<Rightarrow> bool" where
  "network_safe \<equiv> safe modules_rule network_boot"

lemma network_simps [simp]:
  "\<not> nt_module network_boot" "\<not> nt_memory network_boot" "\<not> nt_net network_boot" "\<not> nt_netctl network_boot"
  "nt_module network_up" "nt_memory network_up" "nt_net network_up" "nt_netctl network_up"
  "network_boot\<lparr>nt_module := True, nt_memory := True, nt_net := True, nt_netctl := True\<rparr> = network_up"
  by (simp_all add: network_boot_def network_up_def)

lemma network_ok_simps [simp]: "network_ok network_boot network_boot" "network_ok network_up network_up"
  by (simp_all add: network_ok_def)

lemma release_safe:
  assumes "held s \<Longrightarrow> \<forall>a. modules_rule s c a = Some (clear s)" "\<not> held s \<Longrightarrow> clear s = s"
  shows "network_safe s s (release_module env held c clear) (\<lambda>_ s' w'. s' = clear s \<and> w' = clear s)"
  unfolding release_module_def using assms by (auto intro!: safe_look safe_if safe_ask safe_modify_last safe_return)

lemma release_next:
  assumes "held s \<Longrightarrow> \<forall>a. modules_rule s c a = Some (clear s)" "\<not> held s \<Longrightarrow> clear s = s" "network_safe (clear s) (clear s) (f ()) Q"
  shows "network_safe s s (State_Monad.bind (release_module env held c clear) f) Q"
  by (rule safe_bind [OF release_safe [where held = held and s = s and c = c and clear = clear]]) (use assms in auto)

lemma shutdown_network_ok:
  assumes "stacked s"
  shows "network_safe s s (shutdown_network env) (\<lambda>_ s' w'. s' = network_boot \<and> w' = network_boot)"
  unfolding shutdown_network_def
  by (rule release_next, use assms in \<open>simp add: stacked_def\<close>, simp, rule release_next, use assms in \<open>simp add: stacked_def\<close>, simp,
      rule release_next, use assms in \<open>simp add: stacked_def\<close>, simp, rule safe_weaken [OF release_safe])
    (use assms in \<open>auto simp: stacked_def network_boot_def\<close>)

lemma initialize_network_ok:
  assumes "s \<in> {network_boot, network_up}"
  shows "network_safe s s (initialize_network env) (\<lambda>r s' w'. network_ok s' w' \<and> (r = 0 \<longrightarrow> s' = network_up))"
proof -
  have failed: "network_safe t t (failed_network env r) (\<lambda>r s' w'. network_ok s' w' \<and> (r = 0 \<longrightarrow> s' = network_up))" if "stacked t" "r < 0" for t r
    unfolding failed_network_def
    by (rule safe_bind [OF shutdown_network_ok [OF that(1)]]) (use that(2) in \<open>auto intro!: safe_return\<close>)
  show ?thesis
    unfolding initialize_network_def using assms
    by (auto intro!: safe_look safe_if safe_return safe_ask safe_modify failed simp: stacked_def)
qed

datatype network_operation = Network_initialize | Network_shutdown

fun network_act :: "network_env \<Rightarrow> network_modules \<Rightarrow> network_operation \<Rightarrow> (network_call, int) calls \<Rightarrow> network_modules \<times> (network_call, int) calls" where
  "network_act env s Network_initialize log = execute (initialize_network env) s log"
| "network_act env s Network_shutdown log = execute (shutdown_network env) s log"

lemma network_act_ok:
  assumes "accept modules_rule network_boot log = Some w" "network_ok s w" "network_act env s x log = (s', log')"
  shows "\<exists>w'. accept modules_rule network_boot log' = Some w' \<and> network_ok s' w'"
proof -
  have s: "w = s" "s \<in> {network_boot, network_up}" using assms(2) by (auto simp: network_ok_def)
  then have "stacked s" by (auto simp: stacked_def network_boot_def network_up_def)
  then have keeps: "network_safe s w (initialize_network env) (\<lambda>_. network_ok)" "network_safe s w (shutdown_network env) (\<lambda>_. network_ok)"
    using s by (auto intro: safe_weaken [OF initialize_network_ok] safe_weaken [OF shutdown_network_ok] simp: network_ok_def)
  have run: "execute f s log = (s', log') \<Longrightarrow> network_safe s w f (\<lambda>_. network_ok) \<Longrightarrow>
      \<exists>w'. accept modules_rule network_boot log' = Some w' \<and> network_ok s' w'" for f :: "'r network_prog"
    by (rule execute_obeys [OF _ assms(1)])
  show ?thesis
    by (cases x) (use assms(3) in \<open>auto elim!: run intro: keeps\<close>)
qed

interpretation network_modules: client "network_act env" modules_rule network_boot network_ok "\<lambda>_ _. True" for env
  by unfold_locales (rule network_act_ok)

text \<open>Over all starts and shutdowns the modules are loaded and dropped in order, all of them or none.\<close>

lemma network_in_order:
  "case perform (network_act env) network_boot ops [] of (s, log) \<Rightarrow> accept modules_rule network_boot log = Some s \<and> s \<in> {network_boot, network_up}"
  using network_modules.run_obeys [of network_boot env ops] by (auto simp: network_ok_def)

end
