(* ===== verification/Pairing.thy ===== *)
theory Pairing imports GameStream begin

text \<open>
  The pairing of the client with a server (\<open>pair\<close> in \<open>src/backend/legacy/legacy_gamestream.c\<close>): five exchanges in which both sides prove that they know the
  PIN and own the key of their certificate, before the client pins the certificate of the server.

  The cryptography of OpenSSL is a parameter: a record of functions. A function whose code can fail gives an outcome: the lack of memory,
  an error of the library, the rejection of the data. That encryption can be undone and that an own signature verifies are hypotheses where a
  theorem needs them.
\<close>

section \<open>Cryptography\<close>

datatype 'a outcome = Done 'a | No_memory | Broken | Rejected

record ('x, 'k) crypto =
  cr_sha256 :: "u8 list \<Rightarrow> u8 list"
  cr_sha1 :: "u8 list \<Rightarrow> u8 list"
  cr_encrypt :: "u8 list \<Rightarrow> u8 list \<Rightarrow> u8 list outcome"
  cr_decrypt :: "u8 list \<Rightarrow> u8 list \<Rightarrow> u8 list outcome"
  cr_read_pem :: "string \<Rightarrow> 'x outcome"
  cr_signature :: "'x \<Rightarrow> u8 list"
  cr_verify :: "'x \<Rightarrow> u8 list \<Rightarrow> u8 list \<Rightarrow> unit outcome"
  cr_sign :: "'k \<Rightarrow> u8 list \<Rightarrow> u8 list outcome"

fun outcome_code :: "'a outcome \<Rightarrow> int" where
  "outcome_code (Done x) = gamestream_ok"
| "outcome_code No_memory = out_of_memory"
| "outcome_code Broken = internal_error"
| "outcome_code Rejected = security_error"

fun outcome_then :: "'a outcome \<Rightarrow> ('a \<Rightarrow> 'b outcome) \<Rightarrow> 'b outcome" where
  "outcome_then (Done x) f = f x"
| "outcome_then No_memory f = No_memory"
| "outcome_then Broken f = Broken"
| "outcome_then Rejected f = Rejected"

definition signature_length :: nat where "signature_length = 256"

text \<open>A block cipher in ECB mode without padding takes whole blocks; \<open>Inl\<close> is the code of the failure.\<close>

definition encrypt_ecb :: "('x, 'k) crypto \<Rightarrow> u8 list \<Rightarrow> u8 list \<Rightarrow> int + u8 list" where
  "encrypt_ecb cr key clear =
     (if length clear mod 16 \<noteq> 0 then Inl gamestream_invalid
      else case cr_encrypt cr (take 16 key) clear of Done bs \<Rightarrow> Inr bs | e \<Rightarrow> Inl (outcome_code e))"

definition decrypt_ecb :: "('x, 'k) crypto \<Rightarrow> u8 list \<Rightarrow> u8 list \<Rightarrow> int + u8 list" where
  "decrypt_ecb cr key cipher =
     (if length cipher mod 16 \<noteq> 0 then Inl gamestream_invalid
      else case cr_decrypt cr (take 16 key) cipher of Done bs \<Rightarrow> Inr bs | e \<Rightarrow> Inl (outcome_code e))"

definition certificate_signature :: "('x, 'k) crypto \<Rightarrow> string \<Rightarrow> u8 list outcome" where
  "certificate_signature cr pem = outcome_then (cr_read_pem cr pem)
     (\<lambda>x. if cr_signature cr x = [] \<or> length (cr_signature cr x) > signature_length then Rejected else Done (cr_signature cr x))"

definition verify_signature :: "('x, 'k) crypto \<Rightarrow> u8 list \<Rightarrow> u8 list \<Rightarrow> string \<Rightarrow> unit outcome" where
  "verify_signature cr data signature pem = outcome_then (cr_read_pem cr pem) (\<lambda>x. cr_verify cr x data signature)"

section \<open>The parts of the proof\<close>

definition hash_length :: "'x server \<Rightarrow> nat" where
  "hash_length sv = (if gs_major_version sv \<ge> 7 then 32 else 20)"

definition pairing_hash :: "('x, 'k) crypto \<Rightarrow> 'x server \<Rightarrow> u8 list \<Rightarrow> u8 list" where
  "pairing_hash cr sv bytes = (if hash_length sv = 32 then cr_sha256 cr bytes else cr_sha1 cr bytes)"

text \<open>Buffers of 32 bytes, filled with zeros behind a short hash.\<close>

definition padded_hash :: "('x, 'k) crypto \<Rightarrow> 'x server \<Rightarrow> u8 list \<Rightarrow> u8 list" where
  "padded_hash cr sv bytes = (let h = pairing_hash cr sv bytes in h @ replicate (32 - length h) 0)"

definition pin_bytes :: "string \<Rightarrow> u8 list" where
  "pin_bytes pin = map byte_of pin"

definition pairing_key :: "('x, 'k) crypto \<Rightarrow> 'x server \<Rightarrow> u8 list \<Rightarrow> string \<Rightarrow> u8 list" where
  "pairing_key cr sv salt pin = padded_hash cr sv (salt @ pin_bytes pin)"

text \<open>The certificate as the server sent it, a C string.\<close>

definition plain_certificate :: "string \<Rightarrow> string option" where
  "plain_certificate text =
     (if odd (length text) \<or> length text div 2 \<ge> 8192 then None
      else Some (map char_of_u8 (cstr (hex_to_bytes (length text div 2) text))))"

definition response_length_valid :: "'x server \<Rightarrow> string \<Rightarrow> bool" where
  "response_length_valid sv text \<longleftrightarrow> even (length text) \<and> hash_length sv + 16 \<le> length text div 2 \<and> length text div 2 \<le> 64 \<and>
     length text div 2 mod 16 = 0"

text \<open>What the client hashes: the challenge of the server, the signature of its own certificate and its secret, in a buffer of 288 bytes.\<close>

definition response_input :: "'x server \<Rightarrow> u8 list \<Rightarrow> u8 list \<Rightarrow> u8 list \<Rightarrow> u8 list" where
  "response_input sv response signature secret =
     take 16 (drop (hash_length sv) response) @ signature @ secret @ replicate (signature_length - length signature) 0"

text \<open>The proof that the server knew the PIN when it answered the challenge.\<close>

definition expected_hash :: "('x, 'k) crypto \<Rightarrow> 'x server \<Rightarrow> u8 list \<Rightarrow> u8 list \<Rightarrow> u8 list \<Rightarrow> u8 list" where
  "expected_hash cr sv challenge signature secret = pairing_hash cr sv (challenge @ signature @ take 16 secret)"

section \<open>The exchanges\<close>

type_synonym 'a failing = "(int \<times> pairing_error) + 'a"

definition attempt :: "('x, 'k, 'a failing) gs_prog \<Rightarrow> ('a \<Rightarrow> ('x, 'k, 'b failing) gs_prog) \<Rightarrow> ('x, 'k, 'b failing) gs_prog" where
  "attempt f g = State_Monad.bind f (\<lambda>r. case r of Inl e \<Rightarrow> State_Monad.return (Inl e) | Inr a \<Rightarrow> g a)"

definition fail_with :: "int \<Rightarrow> ('x, 'k, 'a failing) gs_prog" where
  "fail_with code = State_Monad.return (Inl (code, no_pairing_error))"

definition pair_url :: "bool \<Rightarrow> ('x, 'k) gs_client \<Rightarrow> string \<Rightarrow> string \<Rightarrow> string" where
  "pair_url https s uuid rest = bounded_copy 4096
     ((if https then ''https://'' else ''http://'') @ gs_address (gc_server s) @ '':'' @
      number_text (if https then gs_https_port (gc_server s) else gs_http_port (gc_server s)) @
      ''/pair?uniqueid='' @ gc_unique_id s @ ''&uuid='' @ uuid @ ''&devicename=roth&updateState=1&'' @ rest)"

definition pair_step :: "expat \<Rightarrow> ('x, 'k) gs_env \<Rightarrow> bool \<Rightarrow> bool \<Rightarrow> bool \<Rightarrow> nat \<Rightarrow> string \<Rightarrow> string option \<Rightarrow> ('x, 'k, string failing) gs_prog" where
  "pair_step expat env first https cancellable timeout rest field = do {
     r \<leftarrow> ask env (Random For_uuid);
     url \<leftarrow> look (\<lambda>s. pair_url https s (generate_uuid (ga_bytes r)) rest);
     memory \<leftarrow> (if first then do { a \<leftarrow> ask env Allocate_buffer; State_Monad.return (ga_ok a) } else State_Monad.return True);
     if \<not> memory then fail_with out_of_memory
     else do {
       response \<leftarrow> http_request env url timeout cancellable;
       if fst response \<noteq> gamestream_ok then fail_with (fst response)
       else State_Monad.return (case read_pairing_response expat (snd response) field 8192 of (result, value, error) \<Rightarrow>
              if result \<noteq> gamestream_ok then Inl (result, error) else Inr value)
     }
   }"

text \<open>The server sends its certificate when the PIN has been entered there, which may take five minutes.\<close>

definition pair_certificate :: "expat \<Rightarrow> ('x, 'k) gs_env \<Rightarrow> bool \<Rightarrow> u8 list \<Rightarrow> ('x, 'k, string failing) gs_prog" where
  "pair_certificate expat env cancellable salt = do {
     cert_hex \<leftarrow> look gc_cert_hex;
     attempt (pair_step expat env True False cancellable 300
         (''phrase=getservercert&salt='' @ bytes_to_hex salt @ ''&clientcert='' @ cert_hex) (Some ''plaincert''))
       (\<lambda>text. case plain_certificate text of None \<Rightarrow> fail_with gamestream_invalid | Some pem \<Rightarrow> State_Monad.return (Inr pem))
   }"

text \<open>The client sends an encrypted challenge; the answer, decrypted, holds the proof of the server and a challenge of its own.\<close>

definition pair_challenge :: "expat \<Rightarrow> ('x, 'k) crypto \<Rightarrow> ('x, 'k) gs_env \<Rightarrow> bool \<Rightarrow> u8 list \<Rightarrow> ('x, 'k, (u8 list \<times> u8 list) failing) gs_prog" where
  "pair_challenge expat cr env cancellable key = do {
     r \<leftarrow> ask env (Random For_challenge);
     if \<not> ga_ok r then fail_with internal_error
     else case encrypt_ecb cr key (ga_bytes r) of
       Inl code \<Rightarrow> fail_with code
     | Inr cipher \<Rightarrow>
         attempt (pair_step expat env False False cancellable 15 (''clientchallenge='' @ bytes_to_hex cipher) (Some ''challengeresponse''))
           (\<lambda>text. do {
              valid \<leftarrow> look (\<lambda>s. response_length_valid (gc_server s) text);
              if \<not> valid then fail_with gamestream_invalid
              else case decrypt_ecb cr key (hex_to_bytes (length text div 2) text) of
                Inl code \<Rightarrow> fail_with code
              | Inr response \<Rightarrow> State_Monad.return (Inr (ga_bytes r, response))
            })
   }"

text \<open>The client answers the challenge of the server, which reveals its secret with a signature.\<close>

definition pair_response :: "expat \<Rightarrow> ('x, 'k) crypto \<Rightarrow> ('x, 'k) gs_env \<Rightarrow> bool \<Rightarrow> u8 list \<Rightarrow> u8 list \<Rightarrow>
    ('x, 'k, (u8 list \<times> u8 list) failing) gs_prog" where
  "pair_response expat cr env cancellable key response = do {
     r \<leftarrow> ask env (Random For_secret);
     own \<leftarrow> look gc_certificate;
     case own of
       None \<Rightarrow> fail_with internal_error
     | Some x \<Rightarrow>
         if \<not> ga_ok r \<or> length (cr_signature cr x) > signature_length then fail_with internal_error
         else do {
           hash \<leftarrow> look (\<lambda>s. padded_hash cr (gc_server s) (response_input (gc_server s) response (cr_signature cr x) (ga_bytes r)));
           case encrypt_ecb cr key hash of
             Inl code \<Rightarrow> fail_with code
           | Inr cipher \<Rightarrow>
               attempt (pair_step expat env False False cancellable 15 (''serverchallengeresp='' @ bytes_to_hex cipher) (Some ''pairingsecret''))
                 (\<lambda>text. if odd (length text) \<or> length text div 2 \<noteq> 16 + signature_length then fail_with gamestream_invalid
                         else State_Monad.return (Inr (ga_bytes r, hex_to_bytes (16 + signature_length) text)))
         }
   }"

text \<open>The signature is checked first, so that a wrong PIN is reported only about a server that owns its certificate.\<close>

definition check_server :: "('x, 'k) crypto \<Rightarrow> 'x server \<Rightarrow> string \<Rightarrow> u8 list \<Rightarrow> u8 list \<Rightarrow> u8 list \<Rightarrow> int" where
  "check_server cr sv pem challenge response secret =
     (case verify_signature cr (take 16 secret) (drop 16 secret) pem of
        Done _ \<Rightarrow>
          (case certificate_signature cr pem of
             Done signature \<Rightarrow>
               if take (hash_length sv) response \<noteq> expected_hash cr sv challenge signature secret then incorrect_pin else gamestream_ok
           | e \<Rightarrow> outcome_code e)
      | e \<Rightarrow> outcome_code e)"

definition pair_secret :: "expat \<Rightarrow> ('x, 'k) crypto \<Rightarrow> ('x, 'k) gs_env \<Rightarrow> bool \<Rightarrow> u8 list \<Rightarrow> ('x, 'k, string failing) gs_prog" where
  "pair_secret expat cr env cancellable own_secret = do {
     key \<leftarrow> look gc_key;
     case key of
       None \<Rightarrow> fail_with internal_error
     | Some k \<Rightarrow>
         (case cr_sign cr k own_secret of
            Done signature \<Rightarrow>
              if length signature \<noteq> signature_length then fail_with internal_error
              else pair_step expat env False False cancellable 15
                (''clientpairingsecret='' @ bytes_to_hex (own_secret @ signature)) None
          | e \<Rightarrow> fail_with (outcome_code e))
   }"

text \<open>The certificate is tried out on an encrypted exchange, and the old one comes back when that fails.\<close>

definition pair_pin :: "expat \<Rightarrow> ('x, 'k) crypto \<Rightarrow> ('x, 'k) gs_env \<Rightarrow> bool \<Rightarrow> string \<Rightarrow> ('x, 'k, unit failing) gs_prog" where
  "pair_pin expat cr env cancellable pem =
     (case cr_read_pem cr pem of
        Done candidate \<Rightarrow> do {
          previous \<leftarrow> look (gs_certificate \<circ> gc_server);
          _ \<leftarrow> modify_server (\<lambda>sv. sv\<lparr>gs_certificate := Some candidate\<rparr>);
          r \<leftarrow> pair_step expat env False True cancellable 15 ''phrase=pairchallenge'' None;
          case r of
            Inl e \<Rightarrow> do { _ \<leftarrow> modify_server (\<lambda>sv. sv\<lparr>gs_certificate := previous\<rparr>); State_Monad.return (Inl e) }
          | Inr _ \<Rightarrow> do {
              _ \<leftarrow> save_pinned_certificate env;
              _ \<leftarrow> modify_server (\<lambda>sv. sv\<lparr>gs_paired := True\<rparr>);
              State_Monad.return (Inr ())
            }
        }
      | e \<Rightarrow> fail_with (outcome_code e))"

text \<open>The address of the adapter is read in up to three attempts.\<close>

fun pair_finish :: "expat \<Rightarrow> ('x, 'k) gs_env \<Rightarrow> bool \<Rightarrow> nat \<Rightarrow> ('x, 'k, int) gs_prog" where
  "pair_finish expat env cancellable 0 = State_Monad.return gamestream_ok"
| "pair_finish expat env cancellable (Suc n) = do {
     cancelled \<leftarrow> is_cancelled env cancellable;
     if cancelled then State_Monad.return gamestream_cancelled
     else do {
       result \<leftarrow> load_server_info expat env True cancellable;
       mac \<leftarrow> look (gs_mac \<circ> gc_server);
       if result = gamestream_ok \<and> mac \<noteq> [] then State_Monad.return gamestream_ok
       else do { _ \<leftarrow> ask env Delay; pair_finish expat env cancellable n }
     }
   }"

definition pair_exchange :: "expat \<Rightarrow> ('x, 'k) crypto \<Rightarrow> ('x, 'k) gs_env \<Rightarrow> bool \<Rightarrow> string \<Rightarrow> u8 list \<Rightarrow> ('x, 'k, unit failing) gs_prog" where
  "pair_exchange expat cr env cancellable pin salt = do {
     key \<leftarrow> look (\<lambda>s. pairing_key cr (gc_server s) salt pin);
     attempt (pair_certificate expat env cancellable salt) (\<lambda>pem.
     attempt (pair_challenge expat cr env cancellable key) (\<lambda>(challenge, response).
     attempt (pair_response expat cr env cancellable key response) (\<lambda>(own_secret, secret). do {
       checked \<leftarrow> look (\<lambda>s. check_server cr (gc_server s) pem challenge response secret);
       if checked \<noteq> gamestream_ok then fail_with checked
       else attempt (pair_secret expat cr env cancellable own_secret) (\<lambda>_. pair_pin expat cr env cancellable pem)
     })))
   }"

definition pair :: "expat \<Rightarrow> ('x, 'k) crypto \<Rightarrow> ('x, 'k) gs_env \<Rightarrow> bool \<Rightarrow> string \<Rightarrow> ('x, 'k, int \<times> pairing_error) gs_prog" where
  "pair expat cr env cancellable pin = do {
     _ \<leftarrow> modify (\<lambda>s. s\<lparr>gc_last_http := 0\<rparr>);
     paired \<leftarrow> look (gs_paired \<circ> gc_server);
     supported \<leftarrow> look (version_supported \<circ> gc_server);
     if length pin \<noteq> 4 then State_Monad.return (gamestream_invalid, no_pairing_error)
     else if paired then State_Monad.return (wrong_state, no_pairing_error)
     else if \<not> supported then State_Monad.return (unsupported_version, no_pairing_error)
     else do {
       r \<leftarrow> ask env (Random For_salt);
       if \<not> ga_ok r then State_Monad.return (internal_error, no_pairing_error)
       else do {
         result \<leftarrow> pair_exchange expat cr env cancellable pin (ga_bytes r);
         case result of
           Inl e \<Rightarrow> State_Monad.return e
         | Inr _ \<Rightarrow> do { code \<leftarrow> pair_finish expat env cancellable 3; State_Monad.return (code, no_pairing_error) }
       }
     }
   }"

definition gamestream_pair :: "expat \<Rightarrow> ('x, 'k) crypto \<Rightarrow> ('x, 'k) gs_env \<Rightarrow> bool \<Rightarrow> string \<Rightarrow> ('x, 'k, int \<times> pairing_error) gs_prog" where
  "gamestream_pair expat cr env cancellable pin = do {
     t \<leftarrow> ask env Start_worker;
     if ga_ok t then pair expat cr env cancellable pin else State_Monad.return (internal_error, no_pairing_error)
   }"

section \<open>Symbolic execution\<close>

lemma pair_url_https: "is_https (pair_url https s uuid rest) = https"
  by (simp add: pair_url_def is_https_def bounded_copy_def)

text \<open>A step fails without a transfer, or after one, or it has the text of its field.\<close>

lemma pair_step_rule:
  assumes quiet: "gs_quiet rule"
    and early: "\<And>n e. fst e \<noteq> gamestream_ok \<Longrightarrow> safe rule start (s\<lparr>gc_last_http := n\<rparr>) w (g (Inl e)) Q"
    and performed: "\<And>url a. is_https url = https \<Longrightarrow> gs_curl (gc_server s) \<Longrightarrow> (https \<Longrightarrow> gs_certificate (gc_server s) \<noteq> None) \<Longrightarrow>
      \<exists>w'. rule w (Perform url timeout (gs_certificate (gc_server s))) a = Some w' \<and>
        (\<forall>n e. fst e \<noteq> gamestream_ok \<longrightarrow> safe rule start (s\<lparr>gc_last_http := n\<rparr>) w' (g (Inl e)) Q) \<and>
        (\<forall>n v err. ga_code a = 0 \<longrightarrow> read_pairing_response expat (ga_body a) field 8192 = (gamestream_ok, v, err) \<longrightarrow>
           safe rule start (s\<lparr>gc_last_http := n\<rparr>) w' (g (Inr v)) Q)"
  shows "safe rule start s w (State_Monad.bind (pair_step expat env first https c timeout rest field) g) Q"
proof -
  let ?rest = "\<lambda>response. if fst response \<noteq> gamestream_ok then fail_with (fst response)
       else State_Monad.return (case read_pairing_response expat (snd response) field 8192 of (result, value, error) \<Rightarrow>
              if result \<noteq> gamestream_ok then Inl (result, error) else Inr value)"
  have response: "safe rule start s' w' (State_Monad.bind (?rest r) g) Q"
    if "\<And>e. fst e \<noteq> gamestream_ok \<Longrightarrow> safe rule start s' w' (g (Inl e)) Q"
      "\<And>v err. fst r = gamestream_ok \<Longrightarrow> read_pairing_response expat (snd r) field 8192 = (gamestream_ok, v, err) \<Longrightarrow> safe rule start s' w' (g (Inr v)) Q"
    for s' w' r
    using that by (cases "read_pairing_response expat (snd r) field 8192") (auto simp: fail_with_def)
  have request: "safe rule start s w (State_Monad.bind (http_request env url timeout c) (\<lambda>r. State_Monad.bind (?rest r) g)) Q"
    if url: "is_https url = https" for url
  proof (rule http_request_rule [OF quiet], goal_cases)
    case (1 n code)
    then show ?case by (intro response early) auto
  next
    case (2 a)
    obtain w' where w': "rule w (Perform url timeout (gs_certificate (gc_server s))) a = Some w'"
      "\<And>n e. fst e \<noteq> gamestream_ok \<Longrightarrow> safe rule start (s\<lparr>gc_last_http := n\<rparr>) w' (g (Inl e)) Q"
      "\<And>n v err. ga_code a = 0 \<Longrightarrow> read_pairing_response expat (ga_body a) field 8192 = (gamestream_ok, v, err) \<Longrightarrow>
           safe rule start (s\<lparr>gc_last_http := n\<rparr>) w' (g (Inr v)) Q"
      using performed [OF url 2(1), of a] 2(2) url by auto
    have "safe rule start (s\<lparr>gc_last_http := n\<rparr>) w' (State_Monad.bind (?rest r) g) Q"
      if r: "r = (gamestream_cancelled, []) \<or> r = transfer_result a" for n r
    proof (rule response)
      show "safe rule start (s\<lparr>gc_last_http := n\<rparr>) w' (g (Inr v)) Q"
        if "fst r = gamestream_ok" "read_pairing_response expat (snd r) field 8192 = (gamestream_ok, v, err)" for v err
      proof -
        have "r = transfer_result a" "ga_code a = 0" using r that(1) by auto
        then show ?thesis using that(2) w'(3) by (simp add: transfer_result_def)
      qed
    qed (rule w'(2))
    then show ?case using w'(1) by blast
  qed
  have early_same: "safe rule start s w (g (Inl e)) Q" if "fst e \<noteq> gamestream_ok" for e
    using early [OF that, of "gc_last_http s"] by simp
  show ?thesis
    unfolding pair_step_def
    by (auto intro!: safe_assoc safe_ask safe_look safe_if_bind safe_return_bind request early_same
        simp: gs_quietD [OF quiet] pair_url_https fail_with_def)
qed

section \<open>The proof of the server\<close>

text \<open>What a run of the pairing has seen: the random bytes of the client and the bodies of the responses.\<close>

record transcript =
  ts_salt :: "u8 list"
  ts_challenge :: "u8 list"
  ts_bodies :: "string list"

definition transcript_start :: transcript where
  "transcript_start = \<lparr>ts_salt = [], ts_challenge = [], ts_bodies = []\<rparr>"

fun transcript_note :: "'x gs_call \<times> ('x, 'k) gs_answer \<Rightarrow> transcript \<Rightarrow> transcript" where
  "transcript_note (Perform url t x, a) w = w\<lparr>ts_bodies := ts_bodies w @ [ga_body a]\<rparr>"
| "transcript_note (Random For_salt, a) w = w\<lparr>ts_salt := ga_bytes a\<rparr>"
| "transcript_note (Random For_challenge, a) w = w\<lparr>ts_challenge := ga_bytes a\<rparr>"
| "transcript_note _ w = w"

definition transcript_of :: "('x gs_call, ('x, 'k) gs_answer) calls \<Rightarrow> transcript" where
  "transcript_of log = fold transcript_note log transcript_start"

definition transcript_rule :: "transcript \<Rightarrow> 'x gs_call \<Rightarrow> ('x, 'k) gs_answer \<Rightarrow> transcript option" where
  "transcript_rule w c a = Some (transcript_note (c, a) w)"

lemma transcript_accept: "accept transcript_rule w log = Some (fold transcript_note log w)"
  by (induction log arbitrary: w) (auto simp: transcript_rule_def)

lemma transcript_quiet: "gs_quiet (transcript_rule :: transcript \<Rightarrow> 'x gs_call \<Rightarrow> ('x, 'k) gs_answer \<Rightarrow> transcript option)"
  by (auto simp: gs_quiet_def gs_calm_def transcript_rule_def split: gs_call.splits)

definition field_text :: "expat \<Rightarrow> string \<Rightarrow> string \<Rightarrow> string" where
  "field_text expat body name = fst (snd (read_pairing_response expat body (Some name) 8192))"

definition response_field :: "expat \<Rightarrow> transcript \<Rightarrow> nat \<Rightarrow> string \<Rightarrow> string" where
  "response_field expat w i name = field_text expat (ts_bodies w ! i) name"

text \<open>
  A certificate is proved when it is the one that the server sent first, the key of the certificate has signed the secret that the server
  revealed, and the answer to the challenge of the client, decrypted with the PIN, was made from the same secret.
\<close>

definition pairing_proof :: "expat \<Rightarrow> ('x, 'k) crypto \<Rightarrow> 'x server \<Rightarrow> string \<Rightarrow> transcript \<Rightarrow> 'x \<Rightarrow> bool" where
  "pairing_proof expat cr sv pin w x \<longleftrightarrow>
     (\<exists>pem response secret.
        plain_certificate (response_field expat w 0 ''plaincert'') = Some pem \<and> cr_read_pem cr pem = Done x \<and>
        decrypt_ecb cr (pairing_key cr sv (ts_salt w) pin)
          (hex_to_bytes (length (response_field expat w 1 ''challengeresponse'') div 2) (response_field expat w 1 ''challengeresponse'')) =
          Inr response \<and>
        secret = hex_to_bytes (16 + signature_length) (response_field expat w 2 ''pairingsecret'') \<and>
        cr_verify cr x (take 16 secret) (drop 16 secret) = Done () \<and>
        take (hash_length sv) response = pairing_hash cr sv (ts_challenge w @ cr_signature cr x @ take 16 secret))"

lemma check_server_ok:
  assumes "check_server cr sv pem challenge response secret = gamestream_ok"
  shows "\<exists>x. cr_read_pem cr pem = Done x \<and> cr_verify cr x (take 16 secret) (drop 16 secret) = Done () \<and>
    take (hash_length sv) response = pairing_hash cr sv (challenge @ cr_signature cr x @ take 16 secret)"
  using assms unfolding check_server_def verify_signature_def certificate_signature_def expected_hash_def
  by (cases "cr_read_pem cr pem") (auto split: outcome.splits if_splits)

text \<open>The five exchanges: before the last one, nothing but the result of the transfer is written.\<close>

definition more_bodies :: "transcript \<Rightarrow> string list \<Rightarrow> transcript" where
  "more_bodies w bs = w\<lparr>ts_bodies := ts_bodies w @ bs\<rparr>"

lemma more_bodies_simps [simp]:
  "ts_bodies (more_bodies w bs) = ts_bodies w @ bs" "ts_salt (more_bodies w bs) = ts_salt w"
  "ts_challenge (more_bodies w bs) = ts_challenge w" "more_bodies (more_bodies w bs) cs = more_bodies w (bs @ cs)"
  "more_bodies w [] = w"
  by (simp_all add: more_bodies_def)

lemma more_bodies_inj [simp]: "more_bodies w bs = more_bodies w cs \<longleftrightarrow> bs = cs"
  by (metis more_bodies_simps(1) same_append_eq)

lemma transcript_performed: "transcript_rule w (Perform url t x) a = Some (more_bodies w [ga_body a])"
  by (simp add: transcript_rule_def more_bodies_def)

definition step_post :: "('x, 'k) gs_client \<Rightarrow> (transcript \<Rightarrow> 'a \<Rightarrow> bool) \<Rightarrow> 'a failing \<Rightarrow> ('x, 'k) gs_client \<Rightarrow> transcript \<Rightarrow> bool" where
  "step_post s P r s' w' \<longleftrightarrow> (\<exists>n. s' = s\<lparr>gc_last_http := n\<rparr>) \<and>
     (case r of Inl e \<Rightarrow> fst e \<noteq> gamestream_ok | Inr v \<Rightarrow> P w' v)"

lemma step_post_simps [simp]:
  "step_post s P (Inl e) (s\<lparr>gc_last_http := n\<rparr>) w' \<longleftrightarrow> fst e \<noteq> gamestream_ok"
  "step_post s P (Inr v) (s\<lparr>gc_last_http := n\<rparr>) w' \<longleftrightarrow> P w' v"
  "step_post s P (Inl e) s w' \<longleftrightarrow> fst e \<noteq> gamestream_ok"
  by (auto simp: step_post_def intro: exI [of _ "gc_last_http s"])

lemma pair_step_transcript:
  fixes env :: "('x, 'k) gs_env"
  assumes "\<And>n e w'. fst e \<noteq> gamestream_ok \<Longrightarrow> safe transcript_rule start (s\<lparr>gc_last_http := n\<rparr>) w' (g (Inl e)) Q"
    "\<And>n v b err. read_pairing_response expat b field 8192 = (gamestream_ok, v, err) \<Longrightarrow>
       safe transcript_rule start (s\<lparr>gc_last_http := n\<rparr>) (more_bodies w [b]) (g (Inr v)) Q"
  shows "safe transcript_rule start s w (State_Monad.bind (pair_step expat env first https c timeout rest field) g) Q"
  by (rule pair_step_rule [OF transcript_quiet [where ?'x = 'x and ?'k = 'k]]) (use assms in \<open>auto simp: transcript_performed\<close>)

lemma outcome_code_ok [simp]: "outcome_code e = gamestream_ok \<longleftrightarrow> (\<exists>x. e = Done x)"
  by (cases e) auto

lemma ecb_failed [simp]: "encrypt_ecb cr key bytes \<noteq> Inl gamestream_ok" "decrypt_ecb cr key bytes \<noteq> Inl gamestream_ok"
  by (auto simp: encrypt_ecb_def decrypt_ecb_def split: outcome.splits)

lemma field_text_read: "read_pairing_response expat b (Some name) 8192 = (r, v, err) \<Longrightarrow> field_text expat b name = v"
  by (simp add: field_text_def)

lemma pair_certificate_transcript:
  "safe transcript_rule start s w (pair_certificate expat env c salt)
     (step_post s (\<lambda>w' pem. \<exists>b. w' = more_bodies w [b] \<and> plain_certificate (field_text expat b ''plaincert'') = Some pem))"
  unfolding pair_certificate_def attempt_def fail_with_def
  by (intro safe_look pair_step_transcript) (auto intro!: safe_return safe_option dest: field_text_read)

lemma pair_challenge_transcript:
  fixes env :: "('x, 'k) gs_env"
  shows "safe transcript_rule start s w (pair_challenge expat cr env c key)
     (step_post s (\<lambda>w' (ch, response). \<exists>b. w' = more_bodies (w\<lparr>ts_challenge := ch\<rparr>) [b] \<and>
        decrypt_ecb cr key (hex_to_bytes (length (field_text expat b ''challengeresponse'') div 2) (field_text expat b ''challengeresponse'')) = Inr response))"
  unfolding pair_challenge_def attempt_def fail_with_def
  by (auto intro!: safe_ask safe_if safe_return safe_look safe_sum pair_step_transcript
      simp: transcript_rule_def field_text_def)

lemma pair_response_transcript:
  fixes env :: "('x, 'k) gs_env"
  shows "safe transcript_rule start s w (pair_response expat cr env c key response)
     (step_post s (\<lambda>w' (own, secret). \<exists>b. w' = more_bodies w [b] \<and>
        secret = hex_to_bytes (16 + signature_length) (field_text expat b ''pairingsecret'')))"
  unfolding pair_response_def attempt_def fail_with_def
  by (auto intro!: safe_ask safe_if safe_return safe_look safe_sum safe_option pair_step_transcript
      simp: transcript_rule_def field_text_def)

lemma pair_secret_transcript:
  fixes env :: "('x, 'k) gs_env"
  shows "safe transcript_rule start s w (pair_secret expat cr env c own) (step_post s (\<lambda>w' v. \<exists>b. w' = more_bodies w [b]))"
proof -
  have step: "safe transcript_rule start s w (pair_step expat env first https c timeout rest field) (step_post s (\<lambda>w' v. \<exists>b. w' = more_bodies w [b]))"
    for first https timeout rest field
  proof -
    have "safe transcript_rule start s w (State_Monad.bind (pair_step expat env first https c timeout rest field) State_Monad.return)
        (step_post s (\<lambda>w' v. \<exists>b. w' = more_bodies w [b]))"
      by (rule pair_step_transcript) (auto intro!: safe_return)
    then show ?thesis by simp
  qed
  show ?thesis
    unfolding pair_secret_def fail_with_def
    by (auto intro!: safe_if safe_return safe_look safe_option step split: outcome.split)
qed

definition same_trust :: "('x, 'k) gs_client \<Rightarrow> ('x, 'k) gs_client \<Rightarrow> bool" where
  "same_trust s s' \<longleftrightarrow> gs_certificate (gc_server s') = gs_certificate (gc_server s) \<and> gs_paired (gc_server s') = gs_paired (gc_server s)"

definition pin_post :: "('x, 'k) crypto \<Rightarrow> ('x, 'k) gs_client \<Rightarrow> transcript \<Rightarrow> string \<Rightarrow> unit failing \<Rightarrow> ('x, 'k) gs_client \<Rightarrow> transcript \<Rightarrow> bool" where
  "pin_post cr s w pem r s' w' \<longleftrightarrow>
     (case r of Inl e \<Rightarrow> fst e \<noteq> gamestream_ok \<and> same_trust s s'
      | Inr _ \<Rightarrow> (\<exists>x bs. gs_certificate (gc_server s') = Some x \<and> cr_read_pem cr pem = Done x \<and> w' = more_bodies w bs))"

lemma save_pinned_certificate_transcript:
  fixes env :: "('x, 'k) gs_env"
  shows "safe transcript_rule start s w (save_pinned_certificate env) (\<lambda>_ s' w'. s' = s \<and> w' = w)"
  unfolding save_pinned_certificate_def
  by (auto intro!: safe_intro safe_option simp: transcript_rule_def)

lemma pair_pin_transcript:
  fixes env :: "('x, 'k) gs_env"
  shows "safe transcript_rule start s w (pair_pin expat cr env c pem) (pin_post cr s w pem)"
proof (cases "cr_read_pem cr pem")
  case (Done x)
  let ?save = "do {
     _ \<leftarrow> save_pinned_certificate env;
     _ \<leftarrow> modify (\<lambda>s. s\<lparr>gc_server := (gc_server s)\<lparr>gs_paired := True\<rparr>\<rparr>);
     State_Monad.return (Inr ())
   }"
  have save: "safe transcript_rule start s' w' ?save (pin_post cr s w pem)"
    if "gs_certificate (gc_server s') = Some x" "w' = more_bodies w [b]" for s' w' b
    by (rule safe_bind [OF save_pinned_certificate_transcript])
      (use that Done in \<open>auto intro!: safe_modify safe_return simp: pin_post_def\<close>)
  show ?thesis
    unfolding pair_pin_def Done
    by (auto intro!: safe_look safe_modify pair_step_transcript safe_return save
        simp: modify_server_def pin_post_def same_trust_def)
qed (auto simp: pair_pin_def fail_with_def pin_post_def same_trust_def intro!: safe_return)

definition kept_pin :: "('x, 'k) gs_client \<Rightarrow> transcript \<Rightarrow> ('x, 'k) gs_client \<Rightarrow> transcript \<Rightarrow> bool" where
  "kept_pin s w s' w' \<longleftrightarrow> gs_certificate (gc_server s') = gs_certificate (gc_server s) \<and> (\<exists>bs. w' = more_bodies w bs)"

lemma kept_pin_refl: "kept_pin s w (s\<lparr>gc_last_http := n\<rparr>) w" "kept_pin s w s w"
  by (auto simp: kept_pin_def intro: exI [of _ "[]"])

lemma load_server_info_transcript:
  fixes env :: "('x, 'k) gs_env"
  shows "safe transcript_rule start s w (load_server_info expat env https c) (\<lambda>_. kept_pin s w)"
proof -
  note quiet = transcript_quiet [where ?'x = 'x and ?'k = 'k]
  have read: "safe transcript_rule start (s\<lparr>gc_last_http := n\<rparr>) w' (read_server_info expat https r) (\<lambda>_. kept_pin s w)"
    if "w' = more_bodies w bs" for n w' r bs
    using that apply_server_info_frame(2) [of expat https "snd r" "gc_server s", OF surjective_pairing]
    unfolding read_server_info_def modify_server_def
    by (auto intro!: safe_intro simp: kept_pin_def)
  have early: "safe transcript_rule start (s\<lparr>gc_last_http := n\<rparr>) w (read_server_info expat https r) (\<lambda>_. kept_pin s w)" for n r
    by (rule read [of w "[]"]) simp
  have late: "safe transcript_rule start (s\<lparr>gc_last_http := n\<rparr>) (more_bodies w [b]) (read_server_info expat https r) (\<lambda>_. kept_pin s w)" for n r b
    by (rule read) simp
  show ?thesis
    unfolding load_server_info_def
    by (auto intro!: safe_ask safe_look safe_if safe_return http_request_rule [OF quiet] late early
        simp: gs_quietD [OF quiet] transcript_performed kept_pin_refl)
qed

lemma kept_pin_trans: "kept_pin s w s1 w1 \<Longrightarrow> kept_pin s1 w1 s2 w2 \<Longrightarrow> kept_pin s w s2 w2"
  by (auto simp: kept_pin_def)

lemma pair_finish_transcript:
  fixes env :: "('x, 'k) gs_env"
  shows "safe transcript_rule start s w (pair_finish expat env c n)
    (\<lambda>r s' w'. kept_pin s w s' w' \<and> (r = gamestream_ok \<or> r = gamestream_cancelled))"
proof (induction n arbitrary: s w)
  case (Suc n)
  note quiet = transcript_quiet [where ?'x = 'x and ?'k = 'k]
  have again: "safe transcript_rule start s' w' (pair_finish expat env c n)
      (\<lambda>r s' w'. kept_pin s w s' w' \<and> (r = gamestream_ok \<or> r = gamestream_cancelled))" if "kept_pin s w s' w'" for s' w'
    by (rule safe_weaken [OF Suc.IH]) (auto intro: kept_pin_trans [OF that])
  show ?case
    by (auto intro!: is_cancelled_rule quiet safe_if safe_return safe_bind [OF load_server_info_transcript] safe_look safe_ask again
        simp: kept_pin_refl gs_quietD [OF quiet])
qed (auto intro!: safe_return kept_pin_refl)

lemma safe_attempt:
  assumes "safe rule start s w f (step_post s P)"
    "\<And>n e w'. fst e \<noteq> gamestream_ok \<Longrightarrow> Q (Inl e) (s\<lparr>gc_last_http := n\<rparr>) w'"
    "\<And>n v w'. P w' v \<Longrightarrow> safe rule start (s\<lparr>gc_last_http := n\<rparr>) w' (g v) Q"
  shows "safe rule start s w (attempt f g) Q"
  unfolding attempt_def
  by (rule safe_bind [OF assms(1)]) (auto simp: step_post_def intro!: safe_return assms(2,3) split: sum.splits)

definition exchange_post :: "expat \<Rightarrow> ('x, 'k) crypto \<Rightarrow> string \<Rightarrow> ('x, 'k) gs_client \<Rightarrow> unit failing \<Rightarrow> ('x, 'k) gs_client \<Rightarrow> transcript \<Rightarrow> bool" where
  "exchange_post expat cr pin s r s' w' \<longleftrightarrow>
     (case r of Inl e \<Rightarrow> fst e \<noteq> gamestream_ok \<and> same_trust s s'
      | Inr _ \<Rightarrow> 3 \<le> length (ts_bodies w') \<and>
          (\<exists>x. gs_certificate (gc_server s') = Some x \<and> pairing_proof expat cr (gc_server s) pin w' x))"

lemma exchange_failed: "fst e \<noteq> gamestream_ok \<Longrightarrow> exchange_post expat cr pin s (Inl e) (s\<lparr>gc_last_http := n\<rparr>) w"
  by (simp add: exchange_post_def same_trust_def)

lemma transcript_fields [simp]:
  "ts_bodies (w\<lparr>ts_challenge := ch\<rparr>) = ts_bodies w" "ts_salt (w\<lparr>ts_challenge := ch\<rparr>) = ts_salt w"
  by simp_all

text \<open>The end of the exchanges, when the three responses that the proof is about have come.\<close>

lemma exchange_end:
  fixes env :: "('x, 'k) gs_env"
  assumes bodies: "ts_bodies w = [b0, b1, b2]"
    and pem: "plain_certificate (field_text expat b0 ''plaincert'') = Some pem"
    and response: "decrypt_ecb cr (pairing_key cr (gc_server s) (ts_salt w) pin)
        (hex_to_bytes (length (field_text expat b1 ''challengeresponse'') div 2) (field_text expat b1 ''challengeresponse'')) = Inr response"
    and secret: "secret = hex_to_bytes (16 + signature_length) (field_text expat b2 ''pairingsecret'')"
  shows "safe transcript_rule start (s\<lparr>gc_last_http := n\<rparr>) w (do {
       checked \<leftarrow> look (\<lambda>s. check_server cr (gc_server s) pem (ts_challenge w) response secret);
       if checked \<noteq> gamestream_ok then fail_with checked
       else attempt (pair_secret expat cr env c own_secret) (\<lambda>_. pair_pin expat cr env c pem)
     }) (exchange_post expat cr pin s)"
proof (cases "check_server cr (gc_server s) pem (ts_challenge w) response secret = gamestream_ok")
  case False
  then show ?thesis by (auto intro!: safe_look safe_return exchange_failed simp: fail_with_def)
next
  case True
  then obtain x where x: "cr_read_pem cr pem = Done x" "cr_verify cr x (take 16 secret) (drop 16 secret) = Done ()"
    "take (hash_length (gc_server s)) response = pairing_hash cr (gc_server s) (ts_challenge w @ cr_signature cr x @ take 16 secret)"
    using check_server_ok by blast
  have proved: "pairing_proof expat cr (gc_server s) pin (more_bodies w bs) x" for bs
    unfolding pairing_proof_def using x pem response secret bodies by (auto simp: response_field_def)
  have pin_done: "safe transcript_rule start (s\<lparr>gc_last_http := m\<rparr>) w' (pair_pin expat cr env c pem) (exchange_post expat cr pin s)"
    if "w' = more_bodies w [b]" for m w' b
    by (rule safe_weaken [OF pair_pin_transcript])
      (use that proved x(1) bodies in \<open>auto simp: pin_post_def exchange_post_def same_trust_def split: sum.splits\<close>)
  have "safe transcript_rule start (s\<lparr>gc_last_http := n\<rparr>) w
      (attempt (pair_secret expat cr env c own_secret) (\<lambda>_. pair_pin expat cr env c pem)) (exchange_post expat cr pin s)"
    by (rule safe_attempt [OF pair_secret_transcript]) (auto intro: exchange_failed pin_done)
  then show ?thesis using True by (auto intro!: safe_look)
qed

lemma pair_exchange_transcript:
  fixes env :: "('x, 'k) gs_env"
  assumes "ts_bodies w = []"
  shows "safe transcript_rule start s w (pair_exchange expat cr env c pin (ts_salt w)) (exchange_post expat cr pin s)"
  unfolding pair_exchange_def
proof (intro safe_look safe_attempt [OF pair_certificate_transcript], goal_cases)
  case (2 n pem w1)
  then obtain b0 where 1: "w1 = more_bodies w [b0]" "plain_certificate (field_text expat b0 ''plaincert'') = Some pem" by blast
  show ?case
  proof (rule safe_attempt [OF pair_challenge_transcript], goal_cases)
    case (2 m v w2)
    then obtain ch response b1 where v: "v = (ch, response)" and 2: "w2 = more_bodies (w1\<lparr>ts_challenge := ch\<rparr>) [b1]"
      "decrypt_ecb cr (pairing_key cr (gc_server s) (ts_salt w) pin)
        (hex_to_bytes (length (field_text expat b1 ''challengeresponse'') div 2) (field_text expat b1 ''challengeresponse'')) = Inr response"
      by (cases v) auto
    show ?case
      unfolding v prod.case
    proof (rule safe_attempt [OF pair_response_transcript], goal_cases)
      case (2 k u w3)
      then obtain own secret b2 where u: "u = (own, secret)" and 3: "w3 = more_bodies w2 [b2]"
        "secret = hex_to_bytes (16 + signature_length) (field_text expat b2 ''pairingsecret'')"
        by (cases u) auto
      have w3: "ts_bodies w3 = [b0, b1, b2]" "ts_salt w3 = ts_salt w" "ts_challenge w3 = ch"
        using assms 1 \<open>w2 = _\<close> 3 by simp_all
      show ?case
        unfolding u prod.case
        using exchange_end [where n = k and s = s and w = w3 and expat = expat and cr = cr and pin = pin and start = start and env = env and c = c and
            own_secret = own, OF w3(1) 1(2) _ 3(2)] \<open>decrypt_ecb _ _ _ = _\<close> w3(2,3) by simp
    qed (simp add: exchange_failed)
  qed (simp add: exchange_failed)
qed (simp add: exchange_failed)

definition pair_post :: "expat \<Rightarrow> ('x, 'k) crypto \<Rightarrow> string \<Rightarrow> ('x, 'k) gs_client \<Rightarrow> int \<Rightarrow> ('x, 'k) gs_client \<Rightarrow> transcript \<Rightarrow> bool" where
  "pair_post expat cr pin s code s' w' \<longleftrightarrow>
     (let proved = (\<exists>x. gs_certificate (gc_server s') = Some x \<and> pairing_proof expat cr (gc_server s) pin w' x)
      in if code = gamestream_ok then proved else same_trust s s' \<or> code = gamestream_cancelled \<and> proved)"

lemma pairing_proof_more:
  "3 \<le> length (ts_bodies w) \<Longrightarrow> pairing_proof expat cr sv pin (more_bodies w bs) x = pairing_proof expat cr sv pin w x"
  by (cases "ts_bodies w") (auto simp: pairing_proof_def response_field_def nth_append)

lemma gamestream_pair_transcript:
  fixes env :: "('x, 'k) gs_env"
  assumes "ts_bodies w = []"
  shows "safe transcript_rule start s w (gamestream_pair expat cr env c pin) (\<lambda>r. pair_post expat cr pin s (fst r))"
proof -
  let ?s = "s\<lparr>gc_last_http := 0\<rparr>"
  have finish: "safe transcript_rule start s' w' (do { code \<leftarrow> pair_finish expat env c 3; State_Monad.return (code, no_pairing_error) })
      (\<lambda>r. pair_post expat cr pin s (fst r))" if "exchange_post expat cr pin ?s (Inr u) s' w'" for s' w' u
    by (rule safe_bind [OF pair_finish_transcript])
      (use that in \<open>auto intro!: safe_return simp: pair_post_def exchange_post_def kept_pin_def pairing_proof_more\<close>)
  have exchange: "safe transcript_rule start ?s w' (pair_exchange expat cr env c pin salt) (exchange_post expat cr pin ?s)"
    if "w' = w\<lparr>ts_salt := salt\<rparr>" for w' salt
    using pair_exchange_transcript [of w' start ?s expat cr env c pin] that assms by simp
  have failed: "pair_post expat cr pin s (fst e) s' w'" if "exchange_post expat cr pin ?s (Inl e) s' w'" for e s' w'
    using that by (simp add: exchange_post_def pair_post_def same_trust_def)
  have result: "safe transcript_rule start s' w' (case r of Inl e \<Rightarrow> State_Monad.return e
       | Inr _ \<Rightarrow> do { code \<leftarrow> pair_finish expat env c 3; State_Monad.return (code, no_pairing_error) })
      (\<lambda>r. pair_post expat cr pin s (fst r))" if "exchange_post expat cr pin ?s r s' w'" for r s' w'
    using that finish failed by (auto intro!: safe_sum safe_return)
  have refused: "pair_post expat cr pin s code ?s w'" "pair_post expat cr pin s code s w'" if "code \<noteq> gamestream_ok" for code w'
    using that by (simp_all add: pair_post_def same_trust_def)
  show ?thesis
    unfolding gamestream_pair_def pair_def
    by (auto intro!: safe_ask safe_if safe_return safe_modify safe_look safe_bind [OF exchange] result refused
        simp: transcript_rule_def)
qed

text \<open>
  Property C3: a client that ends the pairing with success has pinned a certificate that was proved over this run: the server sent it, its key signed
  the secret that the server revealed, and the answer to the challenge of the client matches that secret under the PIN. Every other ending, whatever
  the server and the network do, leaves the pinned certificate and the paired flag as they were, unless the user cancelled after the
  certificate had been proved.
\<close>

theorem pairing_sound:
  "case run_state (gamestream_pair expat cr env cancellable pin) (s, []) of ((code, err), (s', log)) \<Rightarrow>
     let proved = (\<exists>x. gs_certificate (gc_server s') = Some x \<and> pairing_proof expat cr (gc_server s) pin (transcript_of log) x)
     in if code = gamestream_ok then proved
        else (gs_certificate (gc_server s') = gs_certificate (gc_server s) \<and> gs_paired (gc_server s') = gs_paired (gc_server s)) \<or>
             (code = gamestream_cancelled \<and> proved)"
proof -
  obtain r s' log where run: "run_state (gamestream_pair expat cr env cancellable pin) (s, []) = (r, (s', log))"
    by (metis prod_cases3)
  have "pair_post expat cr pin s (fst r) s' (transcript_of log)"
    using safeD [OF gamestream_pair_transcript [where start = transcript_start] _ run, of transcript_start]
    by (simp add: transcript_accept transcript_of_def transcript_start_def)
  then show ?thesis
    by (cases r) (auto simp: run pair_post_def same_trust_def Let_def split: if_splits)
qed

section \<open>Trust over all operations\<close>


definition step_trusted :: "('x, 'k) gs_client \<Rightarrow> 'x trust \<Rightarrow> 'a failing \<Rightarrow> ('x, 'k) gs_client \<Rightarrow> 'x trust \<Rightarrow> bool" where
  "step_trusted s w r s' w' \<longleftrightarrow> w' = w \<and> (\<exists>n. s' = s\<lparr>gc_last_http := n\<rparr>)"

lemma step_trustedI [simp]: "step_trusted s w r (s\<lparr>gc_last_http := n\<rparr>) w" "step_trusted s w r s w"
  by (auto simp: step_trusted_def intro: exI [of _ "gc_last_http s"])


lemma trusted_certificate: "trusted s w \<Longrightarrow> \<not> gs_paired (gc_server s) \<Longrightarrow>
    trusted (s\<lparr>gc_server := (gc_server s)\<lparr>gs_certificate := x\<rparr>\<rparr>) w"
  by (simp add: trusted_def)











definition client_start :: "('x, 'k) gs_client" where
  "client_start = \<lparr>gc_server = server_zero, gc_last_http = 0, gc_unique_id = [], gc_certificate = None, gc_key = None, gc_cert_hex = [],
     gc_curl_initialized = False\<rparr>"






section \<open>A server that answers\<close>

text \<open>
  An environment in which nothing fails: the random bytes are those of \<open>rnd\<close>, and the transfers bring the bodies one after the
  other. \<open>runs f s k v s' k'\<close> says what a program does after \<open>k\<close> transfers.
\<close>

fun is_transfer :: "'x gs_call \<Rightarrow> bool" where
  "is_transfer (Perform url t x) = True"
| "is_transfer _ = False"

definition performed :: "('x gs_call, ('x, 'k) gs_answer) calls \<Rightarrow> nat" where
  "performed log = length (filter (is_transfer \<circ> fst) log)"

fun helpful_answer :: "(purpose \<Rightarrow> u8 list) \<Rightarrow> string \<Rightarrow> 'x gs_call \<Rightarrow> ('x, 'k) gs_answer \<Rightarrow> bool" where
  "helpful_answer rnd body (Random p) a \<longleftrightarrow> ga_ok a \<and> ga_bytes a = rnd p"
| "helpful_answer rnd body (Perform url t x) a \<longleftrightarrow> ga_ok a \<and> ga_code a = 0 \<and> ga_body a = body"
| "helpful_answer rnd body c a \<longleftrightarrow> ga_ok a"

definition helpful :: "('x, 'k) gs_env \<Rightarrow> (purpose \<Rightarrow> u8 list) \<Rightarrow> (nat \<Rightarrow> string) \<Rightarrow> bool" where
  "helpful env rnd bodies \<longleftrightarrow> (\<forall>log c. helpful_answer rnd (bodies (performed log)) c (env log c))"

definition runs :: "('x, 'k, 'v) gs_prog \<Rightarrow> ('x, 'k) gs_client \<Rightarrow> nat \<Rightarrow> 'v \<Rightarrow> ('x, 'k) gs_client \<Rightarrow> nat \<Rightarrow> bool" where
  "runs f s k v s' k' \<longleftrightarrow> (\<forall>log. performed log = k \<longrightarrow> (\<exists>log'. run_state f (s, log) = (v, (s', log')) \<and> performed log' = k'))"

lemma runs_return: "runs (State_Monad.return v) s k v s k"
  by (simp add: runs_def)

lemma runs_bind: "runs f s k v s1 k1 \<Longrightarrow> runs (g v) s1 k1 u s2 k2 \<Longrightarrow> runs (State_Monad.bind f g) s k u s2 k2"
  unfolding runs_def by fastforce

lemma runs_look: "runs (g (f s)) s k u s2 k2 \<Longrightarrow> runs (State_Monad.bind (look f) g) s k u s2 k2"
  by (simp add: runs_def)

lemma runs_modify: "runs (g ()) (f s) k u s2 k2 \<Longrightarrow> runs (State_Monad.bind (modify f) g) s k u s2 k2"
  by (simp add: runs_def)

lemma runs_assoc:
  "runs (State_Monad.bind f (\<lambda>x. State_Monad.bind (g x) h)) s k u s2 k2 \<Longrightarrow> runs (State_Monad.bind (State_Monad.bind f g) h) s k u s2 k2"
  by simp

lemma runs_ask:
  assumes "helpful env rnd bodies" "\<And>a. helpful_answer rnd (bodies k) c a \<Longrightarrow> runs (g a) s (if is_transfer c then Suc k else k) u s2 k2"
  shows "runs (State_Monad.bind (ask env c) g) s k u s2 k2"
  unfolding runs_def
proof (intro allI impI)
  fix log :: "('a gs_call, ('a, 'b) gs_answer) calls"
  assume k: "performed log = k"
  have "performed (log @ [(c, env log c)]) = (if is_transfer c then Suc k else k)"
    using k by (simp add: performed_def)
  moreover have "helpful_answer rnd (bodies k) c (env log c)" using assms(1) k by (auto simp: helpful_def)
  ultimately show "\<exists>log'. run_state (State_Monad.bind (ask env c) g) (s, log) = (u, (s2, log')) \<and> performed log' = k2"
    using assms(2) by (auto simp: runs_def)
qed

lemma http_request_runs:
  assumes "helpful env rnd bodies" "gs_curl (gc_server s)" "is_https url \<Longrightarrow> gs_certificate (gc_server s) \<noteq> None"
  shows "runs (http_request env url t False) s k (gamestream_ok, bodies k) (s\<lparr>gc_last_http := 0\<rparr>) (Suc k)"
  unfolding http_request_def transfer_def is_cancelled_def transfer_result_def
  using assms(2,3) runs_return [of "(gamestream_ok, bodies k)" "s\<lparr>gc_last_http := 0\<rparr>" "Suc k"]
  by (auto intro!: runs_look runs_ask [OF assms(1)] runs_modify)

lemma pair_step_runs:
  assumes env: "helpful env rnd bodies" and "gs_curl (gc_server s)" "https \<Longrightarrow> gs_certificate (gc_server s) \<noteq> None"
    and "read_pairing_response expat (bodies k) field 8192 = (gamestream_ok, v, err)"
  shows "runs (pair_step expat env first https False t rest field) s k (Inr v) (s\<lparr>gc_last_http := 0\<rparr>) (Suc k)"
  unfolding pair_step_def
  using assms(3,4)
  by (auto intro!: runs_ask [OF env] runs_look runs_assoc runs_return runs_bind [OF http_request_runs [OF env assms(2)]]
      simp: pair_url_https)

lemma runs_attempt:
  "runs f s k (Inr v) s1 k1 \<Longrightarrow> runs (g v) s1 k1 u s2 k2 \<Longrightarrow> runs (attempt f g) s k u s2 k2"
  unfolding attempt_def by (erule runs_bind) simp

text \<open>A server that answers every exchange with success, and whose answers have the lengths that the client expects.\<close>

definition answers :: "expat \<Rightarrow> (nat \<Rightarrow> string) \<Rightarrow> string \<Rightarrow> string \<Rightarrow> string \<Rightarrow> bool" where
  "answers expat bodies certificate challenge secret \<longleftrightarrow>
     (\<exists>e. read_pairing_response expat (bodies 0) (Some ''plaincert'') 8192 = (gamestream_ok, certificate, e)) \<and>
     (\<exists>e. read_pairing_response expat (bodies 1) (Some ''challengeresponse'') 8192 = (gamestream_ok, challenge, e)) \<and>
     (\<exists>e. read_pairing_response expat (bodies 2) (Some ''pairingsecret'') 8192 = (gamestream_ok, secret, e)) \<and>
     (\<exists>v e. read_pairing_response expat (bodies 3) None 8192 = (gamestream_ok, v, e)) \<and>
     (\<exists>v e. read_pairing_response expat (bodies 4) None 8192 = (gamestream_ok, v, e))"

text \<open>A client with an own certificate and key that can be used.\<close>

definition own_credentials :: "('x, 'k) crypto \<Rightarrow> ('x, 'k) gs_client \<Rightarrow> bool" where
  "own_credentials cr s \<longleftrightarrow>
     (\<exists>x k. gc_certificate s = Some x \<and> gc_key s = Some k \<and> length (cr_signature cr x) \<le> signature_length \<and>
        (\<forall>m. \<exists>sig. cr_sign cr k m = Done sig \<and> length sig = signature_length))"

definition encrypts :: "('x, 'k) crypto \<Rightarrow> bool" where
  "encrypts cr \<longleftrightarrow> (\<forall>key bytes. \<exists>cipher. cr_encrypt cr key bytes = Done cipher) \<and>
     (\<forall>bytes. length (cr_sha256 cr bytes) = 32) \<and> (\<forall>bytes. length (cr_sha1 cr bytes) = 20)"

lemma encrypt_blocks:
  assumes "encrypts cr" "length bytes mod 16 = 0"
  shows "\<exists>cipher. encrypt_ecb cr key bytes = Inr cipher"
proof -
  obtain cipher where "cr_encrypt cr (take 16 key) bytes = Done cipher" using assms(1) unfolding encrypts_def by blast
  then show ?thesis using assms(2) by (simp add: encrypt_ecb_def)
qed

lemma padded_hash_length: "encrypts cr \<Longrightarrow> length (padded_hash cr sv bytes) = 32"
  by (simp add: encrypts_def padded_hash_def pairing_hash_def Let_def)

lemma save_pinned_certificate_runs:
  assumes "helpful env rnd bodies"
  shows "\<exists>code. runs (save_pinned_certificate env) s k code s k"
proof (cases "gs_certificate (gc_server s)")
  case None
  then show ?thesis unfolding save_pinned_certificate_def by (auto intro!: exI [of _ io_error] runs_look runs_return)
next
  case (Some x)
  show ?thesis
  proof (cases "gs_certificate_path (gc_server s) = []")
    case True
    then show ?thesis using Some unfolding save_pinned_certificate_def by (auto intro!: exI [of _ io_error] runs_look runs_return)
  next
    case False
    then show ?thesis
      using Some unfolding save_pinned_certificate_def
      by (auto intro!: exI [of _ gamestream_ok] runs_look runs_ask [OF assms] runs_assoc runs_return)
  qed
qed

lemma pair_pin_runs:
  fixes env :: "('x, 'k) gs_env"
  assumes env: "helpful env rnd bodies" and x: "cr_read_pem cr pem = Done x" and "gs_curl (gc_server s)"
    and answer: "read_pairing_response expat (bodies k) None 8192 = (gamestream_ok, v, e)"
  shows "\<exists>s' k'. runs (pair_pin expat cr env False pem) s k (Inr ()) s' k'"
proof -
  let ?s = "s\<lparr>gc_server := (gc_server s)\<lparr>gs_certificate := Some x\<rparr>\<rparr>"
  obtain code where saved: "runs (save_pinned_certificate env) (?s\<lparr>gc_last_http := 0\<rparr>) (Suc k) code (?s\<lparr>gc_last_http := 0\<rparr>) (Suc k)"
    using save_pinned_certificate_runs [OF env] by blast
  have step: "runs (pair_step expat env False True False 15 ''phrase=pairchallenge'' None) ?s k (Inr v) (?s\<lparr>gc_last_http := 0\<rparr>) (Suc k)"
    using assms(3) by (intro pair_step_runs [OF env _ _ answer]) auto
  let ?final = "(?s\<lparr>gc_last_http := 0\<rparr>)\<lparr>gc_server := (gc_server ?s)\<lparr>gs_paired := True\<rparr>\<rparr>"
  have "runs (pair_pin expat cr env False pem) s k (Inr ()) ?final (Suc k)"
    unfolding pair_pin_def x outcome.case modify_server_def
    by (rule runs_look, rule runs_modify, rule runs_bind, rule step, simp only: sum.case, rule runs_bind, rule saved, rule runs_modify)
      (use runs_return [of "Inr ()" ?final "Suc k"] in simp)
  then show ?thesis by blast
qed

lemma pair_exchange_runs:
  fixes env :: "('x, 'k) gs_env"
  assumes env: "helpful env rnd bodies" and curl: "gs_curl (gc_server s)"
    and answers: "answers expat bodies certificate challenge secret"
    and pem: "plain_certificate certificate = Some pem"
    and valid: "response_length_valid (gc_server s) challenge"
    and response: "decrypt_ecb cr (pairing_key cr (gc_server s) salt pin) (hex_to_bytes (length challenge div 2) challenge) = Inr response"
    and secret: "length secret = 2 * (16 + signature_length)"
    and checked: "check_server cr (gc_server s) pem (rnd For_challenge) response (hex_to_bytes (16 + signature_length) secret) = gamestream_ok"
    and x: "cr_read_pem cr pem = Done x"
    and own: "own_credentials cr s" and cr: "encrypts cr" "length (rnd For_challenge) = 16"
  shows "\<exists>s' k'. runs (pair_exchange expat cr env False pin salt) s 0 (Inr ()) s' k'"
proof -
  let ?s = "s\<lparr>gc_last_http := 0\<rparr>"
  let ?key = "pairing_key cr (gc_server s) salt pin"
  obtain ox ok where own: "gc_certificate s = Some ox" "gc_key s = Some ok" "length (cr_signature cr ox) \<le> signature_length"
    "\<And>m. \<exists>sig. cr_sign cr ok m = Done sig \<and> length sig = signature_length"
    using own by (auto simp: own_credentials_def)
  have step: "runs (pair_step expat env first False False t rest field) s' k (Inr v) ?s (Suc k)"
    if "read_pairing_response expat (bodies k) field 8192 = (gamestream_ok, v, e)" "s' = s \<or> s' = ?s" for first t rest field s' k v e
    using pair_step_runs [OF env _ _ that(1), where s = s' and https = False] curl that(2) by auto
  obtain e0 e1 e2 v3 e3 where
    r0: "read_pairing_response expat (bodies 0) (Some ''plaincert'') 8192 = (gamestream_ok, certificate, e0)" and
    r1: "read_pairing_response expat (bodies (Suc 0)) (Some ''challengeresponse'') 8192 = (gamestream_ok, challenge, e1)" and
    r2: "read_pairing_response expat (bodies (Suc (Suc 0))) (Some ''pairingsecret'') 8192 = (gamestream_ok, secret, e2)" and
    r3: "read_pairing_response expat (bodies (Suc (Suc (Suc 0)))) None 8192 = (gamestream_ok, v3, e3)"
    using answers by (auto simp: answers_def numeral_2_eq_2 numeral_3_eq_3)
  have four: "(4 :: nat) = Suc (Suc (Suc (Suc 0)))" by simp
  have 1: "runs (pair_certificate expat env False salt) s 0 (Inr pem) ?s (Suc 0)"
    unfolding pair_certificate_def
    using pem by (auto intro!: runs_look runs_attempt [OF step [OF r0]] runs_return)
  obtain cipher where cipher: "encrypt_ecb cr ?key (rnd For_challenge) = Inr cipher"
    using encrypt_blocks [OF cr(1)] cr(2) by fastforce
  have 2: "runs (pair_challenge expat cr env False ?key) ?s (Suc 0) (Inr (rnd For_challenge, response)) ?s (Suc (Suc 0))"
    unfolding pair_challenge_def
    using valid response cipher
    by (auto intro!: runs_ask [OF env] runs_look runs_attempt [OF step [OF r1]] runs_return)
  have 3: "runs (pair_response expat cr env False ?key response) ?s (Suc (Suc 0)) (Inr (rnd For_secret, hex_to_bytes (16 + signature_length) secret)) ?s (Suc (Suc (Suc 0)))"
  proof -
    obtain c where c: "encrypt_ecb cr ?key (padded_hash cr (gc_server s) (response_input (gc_server s) response (cr_signature cr ox) (rnd For_secret))) = Inr c"
      using encrypt_blocks [OF cr(1)] padded_hash_length [OF cr(1)] by fastforce
    show ?thesis
      unfolding pair_response_def
      using secret own c
      by (auto intro!: runs_ask [OF env] runs_look runs_attempt [OF step [OF r2]] runs_return)
  qed
  have 4: "runs (pair_secret expat cr env False (rnd For_secret)) ?s (Suc (Suc (Suc 0))) (Inr v3) ?s (Suc (Suc (Suc (Suc 0))))"
  proof -
    obtain sig where "cr_sign cr ok (rnd For_secret) = Done sig" "length sig = signature_length" using own(4) by blast
    then show ?thesis
      unfolding pair_secret_def using own(2) step [OF r3, of ?s] by (auto intro!: runs_look)
  qed
  obtain s5 k5 where 5: "runs (pair_pin expat cr env False pem) ?s (Suc (Suc (Suc (Suc 0)))) (Inr ()) s5 k5"
    using pair_pin_runs [OF env x, of ?s expat "Suc (Suc (Suc (Suc 0)))"] curl answers
    by (auto simp: answers_def four)
  have "runs (pair_exchange expat cr env False pin salt) s 0 (Inr ()) s5 k5"
    unfolding pair_exchange_def
    by (rule runs_look, rule runs_attempt [OF 1], rule runs_attempt [OF 2], simp only: prod.case,
        rule runs_attempt [OF 3], simp only: prod.case, rule runs_look)
      (use checked runs_attempt [OF 4 5] in simp)
  then show ?thesis by blast
qed

lemma pair_finish_uncancelled: "fst (run_state (pair_finish expat env False n) (s, log)) = gamestream_ok"
proof (induction n arbitrary: s log)
  case (Suc n)
  obtain r s1 log1 where info: "run_state (load_server_info expat env True False) (s, log) = (r, (s1, log1))" by (metis prod_cases3)
  show ?case using Suc by (simp add: is_cancelled_def info)
qed simp

lemma check_server_complete:
  "cr_read_pem cr pem = Done x \<Longrightarrow> cr_verify cr x (take 16 secret) (drop 16 secret) = Done () \<Longrightarrow>
     cr_signature cr x \<noteq> [] \<Longrightarrow> length (cr_signature cr x) \<le> signature_length \<Longrightarrow>
     take (hash_length sv) response = pairing_hash cr sv (challenge @ cr_signature cr x @ take 16 secret) \<Longrightarrow>
     check_server cr sv pem challenge response secret = gamestream_ok"
  by (simp add: check_server_def verify_signature_def certificate_signature_def expected_hash_def)

text \<open>The transcript of a run in which the bodies come, and what the client demands of it.\<close>

definition offered :: "(purpose \<Rightarrow> u8 list) \<Rightarrow> (nat \<Rightarrow> string) \<Rightarrow> transcript" where
  "offered rnd bodies = \<lparr>ts_salt = rnd For_salt, ts_challenge = rnd For_challenge, ts_bodies = map bodies [0..<5]\<rparr>"

definition honest :: "expat \<Rightarrow> ('x, 'k) crypto \<Rightarrow> 'x server \<Rightarrow> string \<Rightarrow> (purpose \<Rightarrow> u8 list) \<Rightarrow> (nat \<Rightarrow> string) \<Rightarrow> bool" where
  "honest expat cr sv pin rnd bodies \<longleftrightarrow>
     (\<exists>certificate challenge secret x.
        answers expat bodies certificate challenge secret \<and> response_length_valid sv challenge \<and>
        length secret = 2 * (16 + signature_length) \<and> cr_signature cr x \<noteq> [] \<and> length (cr_signature cr x) \<le> signature_length \<and>
        pairing_proof expat cr sv pin (offered rnd bodies) x)"

lemma offered_field:
  "read_pairing_response expat (bodies i) (Some name) 8192 = (r, v, e) \<Longrightarrow> i < 5 \<Longrightarrow> response_field expat (offered rnd bodies) i name = v"
  by (simp add: response_field_def field_text_def offered_def)

text \<open>
  Property C11: the pairing ends with success when nothing around the client fails and the server offers what the client demands: five
  responses with their status, of the right lengths, in which the certificate is proved under the PIN.
\<close>

theorem pairing_completes:
  assumes "helpful env rnd bodies" "honest expat cr (gc_server s) pin rnd bodies"
    "gs_curl (gc_server s)" "\<not> gs_paired (gc_server s)" "version_supported (gc_server s)" "length pin = 4"
    "own_credentials cr s" "encrypts cr" "length (rnd For_challenge) = 16"
  shows "fst (fst (run_state (gamestream_pair expat cr env False pin) (s, []))) = gamestream_ok"
proof -
  let ?s = "s\<lparr>gc_last_http := 0\<rparr>"
  obtain certificate challenge secret x where h: "answers expat bodies certificate challenge secret" "response_length_valid (gc_server s) challenge"
    "length secret = 2 * (16 + signature_length)" "cr_signature cr x \<noteq> []" "length (cr_signature cr x) \<le> signature_length"
    "pairing_proof expat cr (gc_server s) pin (offered rnd bodies) x"
    using assms(2) by (auto simp: honest_def)
  have fields: "response_field expat (offered rnd bodies) 0 ''plaincert'' = certificate"
    "response_field expat (offered rnd bodies) 1 ''challengeresponse'' = challenge"
    "response_field expat (offered rnd bodies) 2 ''pairingsecret'' = secret"
    using h(1) by (auto simp: answers_def intro!: offered_field)
  obtain pem response where p: "plain_certificate certificate = Some pem" "cr_read_pem cr pem = Done x"
    "decrypt_ecb cr (pairing_key cr (gc_server s) (rnd For_salt) pin) (hex_to_bytes (length challenge div 2) challenge) = Inr response"
    "check_server cr (gc_server s) pem (rnd For_challenge) response (hex_to_bytes (16 + signature_length) secret) = gamestream_ok"
    using h(4-6) unfolding pairing_proof_def fields by (auto simp: offered_def intro: check_server_complete)
  have own: "own_credentials cr ?s" using assms(7) by (simp add: own_credentials_def)
  obtain s' k' where runs: "runs (pair_exchange expat cr env False pin (rnd For_salt)) ?s 0 (Inr ()) s' k'"
    using pair_exchange_runs [OF assms(1) _ h(1) p(1) _ _ h(3) _ p(2) own assms(8,9), where pin = pin and response = response and salt = "rnd For_salt"]
      assms(3) h(2) p(3,4) by auto
  have helped: "ga_ok (env log Start_worker)" "ga_ok (env log (Random For_salt))" "ga_bytes (env log (Random For_salt)) = rnd For_salt" for log
    using assms(1) unfolding helpful_def by (metis helpful_answer.simps)+
  have start: "performed [(Start_worker, a), (Random For_salt, b)] = 0" for a b by (simp add: performed_def)
  obtain log' where "run_state (pair_exchange expat cr env False pin (rnd For_salt))
      (?s, [(Start_worker, env [] Start_worker), (Random For_salt, env [(Start_worker, env [] Start_worker)] (Random For_salt))]) = (Inr (), (s', log'))"
    using runs start unfolding runs_def by blast
  moreover obtain code end_state where "run_state (pair_finish expat env False 3) (s', log') = (code, end_state)" by (meson surj_pair)
  ultimately show ?thesis
    using assms(4-6) pair_finish_uncancelled [of expat env 3 s' log'] by (simp add: gamestream_pair_def pair_def helped)
qed

section \<open>A run\<close>

definition demo_expat :: expat where
  "demo_expat bytes = Some (events (Elem ''root'' [(''status_code'', ''200'')]
     [Elem ''paired'' [] [Text ''1''], Elem ''plaincert'' [] [], Elem ''challengeresponse'' [] [Text (replicate 96 CHR ''0'')],
      Elem ''pairingsecret'' [] [Text (replicate 544 CHR ''0'')]]), True)"

definition demo_crypto :: "(char, unit) crypto" where
  "demo_crypto = \<lparr>cr_sha256 = (\<lambda>_. replicate 32 1), cr_sha1 = (\<lambda>_. replicate 20 1), cr_encrypt = (\<lambda>_ bs. Done bs),
     cr_decrypt = (\<lambda>_ _. Done (replicate 48 1)), cr_read_pem = (\<lambda>_. Done CHR ''c''), cr_signature = (\<lambda>_. [9]),
     cr_verify = (\<lambda>_ _ _. Done ()), cr_sign = (\<lambda>_ _. Done (replicate 256 0))\<rparr>"

definition demo_env :: "(char, unit) gs_env" where
  "demo_env calls c = \<lparr>ga_ok = True, ga_code = (case c of Open_pin path \<Rightarrow> 2 | _ \<Rightarrow> 0), ga_status = 200, ga_body = [], ga_bytes = replicate 16 7,
     ga_certificate = Some CHR ''o'', ga_key = Some ()\<rparr>"

definition demo_client :: "(char, unit) gs_client" where
  "demo_client = client_start\<lparr>gc_server := server_zero\<lparr>gs_curl := True, gs_major_version := 7\<rparr>, gc_certificate := Some CHR ''o'', gc_key := Some ()\<rparr>"

lemma demo_helpful: "helpful demo_env (\<lambda>_. replicate 16 7) (\<lambda>_. [])"
  unfolding helpful_def demo_env_def
proof (intro allI)
  show "helpful_answer (\<lambda>_. replicate 16 7) [] c \<lparr>ga_ok = True, ga_code = (case c of Open_pin path \<Rightarrow> 2 | _ \<Rightarrow> 0), ga_status = 200, ga_body = [],
      ga_bytes = replicate 16 7, ga_certificate = Some CHR ''o'', ga_key = Some ()\<rparr>" for c :: "char gs_call"
    by (cases c) simp_all
qed

lemma demo_answers: "answers demo_expat (\<lambda>_. []) [] (replicate 96 CHR ''0'') (replicate 544 CHR ''0'')"
proof -
  have code: "atoi ''200'' = 200" by code_simp
  have "read_pairing_response demo_expat [] (Some ''plaincert'') 8192 = (gamestream_ok, [], no_pairing_error)"
    "read_pairing_response demo_expat [] (Some ''challengeresponse'') 8192 = (gamestream_ok, replicate 96 CHR ''0'', no_pairing_error)"
    "read_pairing_response demo_expat [] (Some ''pairingsecret'') 8192 = (gamestream_ok, replicate 544 CHR ''0'', no_pairing_error)"
    "read_pairing_response demo_expat [] None 8192 = (gamestream_ok, [], no_pairing_error)"
    by (simp_all add: read_pairing_response_def xml_status_ok_def demo_expat_def xml_find_value_def Let_def status_attribute_def code
        xml_find_start_def xml_find_end_def xml_find_text_def gamestream_ok_def)
  then show ?thesis unfolding answers_def by blast
qed

lemma demo_honest: "honest demo_expat demo_crypto (gc_server demo_client) ''1234'' (\<lambda>_. replicate 16 7) (\<lambda>_. [])"
proof -
  let ?w = "offered (\<lambda>_. replicate 16 7) (\<lambda>_. [])"
  have f: "response_field demo_expat ?w 0 ''plaincert'' = []" "response_field demo_expat ?w 1 ''challengeresponse'' = replicate 96 CHR ''0''"
    "response_field demo_expat ?w 2 ''pairingsecret'' = replicate 544 CHR ''0''"
    using demo_answers by (auto simp: answers_def intro!: offered_field)
  have d: "decrypt_ecb demo_crypto key (hex_to_bytes (length (replicate 96 CHR ''0'') div 2) (replicate 96 CHR ''0'')) = Inr (replicate 48 1)" for key
  proof -
    have "length (hex_to_bytes (length (replicate 96 CHR ''0'') div 2) (replicate 96 CHR ''0'')) mod 16 = 0" by code_simp
    then show ?thesis unfolding decrypt_ecb_def by (simp add: demo_crypto_def)
  qed
  have "pairing_proof demo_expat demo_crypto (gc_server demo_client) ''1234'' ?w CHR ''c''"
    unfolding pairing_proof_def f
    by (intro exI [of _ "[]"] exI [of _ "replicate 48 1"] exI conjI d)
      (simp_all add: demo_crypto_def demo_client_def plain_certificate_def hash_length_def pairing_hash_def hex_to_bytes_def)
  moreover have "response_length_valid (gc_server demo_client) (replicate 96 CHR ''0'')"
    by (simp add: response_length_valid_def demo_client_def hash_length_def)
  ultimately show ?thesis
    unfolding honest_def using demo_answers
    by (intro exI [of _ "[]"] exI [of _ "replicate 96 CHR ''0''"] exI [of _ "replicate 544 CHR ''0''"] exI [of _ "CHR ''c''"])
      (simp add: signature_length_def demo_crypto_def)
qed

theorem pairing_completes_witness:
  "fst (fst (run_state (gamestream_pair demo_expat demo_crypto demo_env False ''1234'') (demo_client, []))) = gamestream_ok"
  by (rule pairing_completes [OF demo_helpful demo_honest])
    (simp_all add: demo_client_def server_zero_def version_supported_def own_credentials_def encrypts_def demo_crypto_def signature_length_def)


end
