(* ===== verification/VideoFrame.thy ===== *)
theory VideoFrame imports Prelude begin

text \<open>
  The parts of the video renderer (\<open>src/moonlight/vita_video_renderer.c\<close>) that compute: the size of the surface that the
  decoder writes to, the pacer that drops frames, and the loop that moves the middle of a surface to its start.
\<close>

definition screen_width :: nat where "screen_width = 960"
definition screen_height :: nat where "screen_height = 544"

section \<open>The size of the surface\<close>

definition align_decoder_resolution :: "u64 \<Rightarrow> u32" where
  "align_decoder_resolution v = ucast ((v + 15) AND NOT 15)"

definition divide_round_up :: "u64 \<Rightarrow> u64 \<Rightarrow> u64" where
  "divide_round_up numerator denominator =
     (if denominator = 0 then 0 else (numerator + denominator - 1) div denominator)"

definition calculate_output_size :: "bool \<Rightarrow> u32 \<Rightarrow> u32 \<Rightarrow> u32 \<times> u32" where
  "calculate_output_size center source_width source_height =
     (if source_width = 0 \<or> source_height = 0 then (of_nat screen_width, of_nat screen_height)
      else let source_is_narrower = of_nat screen_width * ucast source_height :: u64;
               screen_is_narrower = of_nat screen_height * ucast source_width :: u64
           in if source_is_narrower = screen_is_narrower then (of_nat screen_width, of_nat screen_height)
              else if (if center then source_is_narrower > screen_is_narrower else source_is_narrower < screen_is_narrower)
              then (of_nat screen_width,
                    align_decoder_resolution (divide_round_up (of_nat screen_width * ucast source_height) (ucast source_width)))
              else (align_decoder_resolution (divide_round_up (of_nat screen_height * ucast source_width) (ucast source_height)),
                    of_nat screen_height))"

text \<open>The alignment to 16, and both steps together, on natural numbers.\<close>

definition up16 :: "nat \<Rightarrow> nat" where
  "up16 n = (n + 15) div 16 * 16"

definition scaled :: "nat \<Rightarrow> nat \<Rightarrow> nat \<Rightarrow> nat" where
  "scaled screen a b = up16 ((screen * a + b - 1) div b)"

lemma unat_align:
  assumes "unat v + 15 < 2 ^ 32"
  shows "unat (align_decoder_resolution v) = up16 (unat v)"
proof -
  have "(15 :: u64) = mask 4"
    by (simp add: mask_eq_exp_minus_1)
  then have "unat ((v + 15) AND NOT 15) = unat (v + 15) div 2 ^ 4 * 2 ^ 4"
    by (metis unat_round_down)
  also have "unat (v + 15) = unat v + 15"
    using assms by (simp add: unat_word_ariths)
  finally have "unat ((v + 15) AND NOT 15) = up16 (unat v)"
    by (simp add: up16_def)
  moreover have "up16 (unat v) < 2 ^ 32"
    unfolding up16_def using assms by (metis div_times_less_eq_dividend le_less_trans)
  ultimately show ?thesis
    by (simp add: align_decoder_resolution_def unsigned_ucast_eq take_bit_nat_eq_self)
qed

lemma unat_scaled:
  assumes "b \<noteq> 0" "screen \<le> 960" "(screen * unat a + unat b - 1) div unat b + 15 < 2 ^ 32"
  shows "unat (align_decoder_resolution (divide_round_up (of_nat screen * ucast (a :: u32)) (ucast (b :: u32)))) =
    scaled screen (unat a) (unat b)"
proof -
  have a: "unat a < 2 ^ 32" and b: "unat b < 2 ^ 32" "0 < unat b"
    using unsigned_less [of a, where 'a = nat] unsigned_less [of b, where 'a = nat] assms(1)
    by (simp_all add: unat_gt_0)
  have "screen * unat a \<le> 960 * 2 ^ 32"
    using assms(2) a by (intro mult_le_mono) simp_all
  then have small: "screen * unat a + unat b < 2 ^ 64"
    using b by simp
  have "unat (of_nat screen :: u64) = screen"
    using assms(2) by (simp add: unsigned_of_nat take_bit_nat_eq_self)
  moreover have "unat (ucast x :: u64) = unat (x :: u32)" for x
    using unsigned_less [of x, where 'a = nat] by (simp add: unsigned_ucast_eq take_bit_nat_eq_self)
  ultimately have "unat (of_nat screen * ucast a + ucast b :: u64) = screen * unat a + unat b"
    using small by (simp add: unat_word_ariths)
  moreover from this have "(1 :: u64) \<le> of_nat screen * ucast a + ucast b"
    using b by (simp add: word_le_nat_alt)
  ultimately have "unat (of_nat screen * ucast a + ucast b - 1 :: u64) = screen * unat a + unat b - 1"
    by (simp add: unat_sub)
  then have "unat (divide_round_up (of_nat screen * ucast a) (ucast b)) = (screen * unat a + unat b - 1) div unat b"
    using \<open>\<And>x. unat (ucast x :: u64) = unat x\<close> b
    by (auto simp: divide_round_up_def unat_div word_unat_eq_iff)
  then show ?thesis
    using unat_align [of "divide_round_up (of_nat screen * ucast a) (ucast b)"] assms(3) by (simp add: scaled_def)
qed

lemma up16_bounds: "n \<le> up16 n" "up16 n \<le> n + 15" "16 dvd up16 n"
proof -
  have "n + 15 = up16 n + (n + 15) mod 16" "(n + 15) mod 16 < 16"
    unfolding up16_def by simp_all
  then show "n \<le> up16 n" "up16 n \<le> n + 15" by linarith+
qed (simp add: up16_def)

lemma up16_mono: "n \<le> m \<Longrightarrow> up16 n \<le> up16 m"
  unfolding up16_def by (intro mult_le_mono1 div_le_mono) simp

lemma ceiling_bounds:
  assumes "0 < (b :: nat)"
  shows "a \<le> (a + b - 1) div b * b" "(a + b - 1) div b * b < a + b"
proof -
  have "a + b - 1 = (a + b - 1) div b * b + (a + b - 1) mod b" "(a + b - 1) mod b < b"
    using assms by simp_all
  then show "a \<le> (a + b - 1) div b * b" "(a + b - 1) div b * b < a + b"
    using assms by linarith+
qed

lemma scaled_bounds:
  assumes "0 < b"
  shows "screen * a \<le> scaled screen a b * b" "scaled screen a b * b < screen * a + 16 * b" "16 dvd scaled screen a b"
proof -
  define c where "c = (screen * a + b - 1) div b"
  have "scaled screen a b = up16 c"
    by (simp add: scaled_def c_def)
  then have "c * b \<le> scaled screen a b * b" "scaled screen a b * b \<le> (c + 15) * b"
    using up16_bounds [of c] by (intro mult_le_mono1; simp)+
  moreover have "(c + 15) * b = c * b + 15 * b"
    by (rule add_mult_distrib)
  ultimately show "screen * a \<le> scaled screen a b * b" "scaled screen a b * b < screen * a + 16 * b"
    using ceiling_bounds [OF assms, of "screen * a"] unfolding c_def [symmetric] by linarith+
qed (simp add: scaled_def up16_bounds)

lemma ceiling_at_most:
  assumes "0 < b" "(N :: nat) \<le> n * b"
  shows "(N + b - 1) div b \<le> n"
proof -
  have "(N + b - 1) div b * b < (n + 1) * b"
    using ceiling_bounds(2) [OF assms(1), of N] assms(2) unfolding add_mult_distrib by linarith
  then show ?thesis
    unfolding mult_less_cancel2 by simp
qed

lemma scaled_at_most:
  assumes "0 < b" "screen * a \<le> n * b" "16 dvd n"
  shows "scaled screen a b \<le> n"
proof -
  have "scaled screen a b \<le> up16 n"
    unfolding scaled_def by (rule up16_mono [OF ceiling_at_most [OF assms(1,2)]])
  moreover have "up16 n = n"
    using assms(3) by (auto simp: up16_def)
  ultimately show ?thesis by simp
qed

lemma scaled_at_least:
  assumes "0 < b" "n * b \<le> screen * a"
  shows "n \<le> scaled screen a b"
proof -
  have "n * b \<le> scaled screen a b * b"
    using scaled_bounds(1) [OF assms(1), of screen a] assms(2) by linarith
  then show ?thesis
    using assms(1) by simp
qed

text \<open>The decision of the code, on natural numbers.\<close>

lemma unat_output_size:
  assumes "w \<noteq> 0" "h \<noteq> 0" "center \<Longrightarrow> unat w \<le> 65535 \<and> unat h \<le> 65535" "calculate_output_size center w h = (fw, fh)"
  defines "a \<equiv> 960 * unat h" and "b \<equiv> 544 * unat w"
  shows "(unat fw, unat fh) =
    (if a = b then (960, 544) else if (if center then a > b else a < b) then (960, scaled 960 (unat h) (unat w))
     else (scaled 544 (unat w) (unat h), 544))"
proof -
  have w: "unat w < 2 ^ 32" "0 < unat w" and h: "unat h < 2 ^ 32" "0 < unat h"
    using unsigned_less [of w, where 'a = nat] unsigned_less [of h, where 'a = nat] assms(1,2)
    by (simp_all add: unat_gt_0)
  have wide: "unat (ucast x :: u64) = unat (x :: u32)" for x
    using unsigned_less [of x, where 'a = nat] by (simp add: unsigned_ucast_eq take_bit_nat_eq_self)
  have "unat (960 * ucast h :: u64) = a" "unat (544 * ucast w :: u64) = b"
    using w h by (simp_all add: unat_word_ariths wide a_def b_def)
  then have compare: "(960 * ucast h :: u64) = 544 * ucast w \<longleftrightarrow> a = b"
    "(960 * ucast h :: u64) > 544 * ucast w \<longleftrightarrow> a > b" "(960 * ucast h :: u64) < 544 * ucast w \<longleftrightarrow> a < b"
    by (simp_all add: word_unat_eq_iff word_less_nat_alt)
  have height: "unat (align_decoder_resolution (divide_round_up (960 * ucast h) (ucast w))) = scaled 960 (unat h) (unat w)"
    if "center \<or> a < b"
  proof -
    have "a \<le> 63000000 * unat w"
    proof (cases center)
      case True
      then have "a \<le> 960 * 65535"
        using assms(3) by (simp add: a_def)
      also have "\<dots> \<le> 63000000 * unat w"
        using w(2) by simp
      finally show ?thesis .
    qed (use that in \<open>simp add: b_def\<close>)
    then have "(a + unat w - 1) div unat w \<le> 63000000"
      by (rule ceiling_at_most [OF w(2)])
    then show ?thesis
      using unat_scaled [of w 960 h] assms(1) by (simp add: a_def)
  qed
  have width: "unat (align_decoder_resolution (divide_round_up (544 * ucast w) (ucast h))) = scaled 544 (unat w) (unat h)"
    if "center \<or> b < a"
  proof -
    have "b \<le> 63000000 * unat h"
    proof (cases center)
      case True
      then have "b \<le> 544 * 65535"
        using assms(3) by (simp add: b_def)
      also have "\<dots> \<le> 63000000 * unat h"
        using h(2) by simp
      finally show ?thesis .
    qed (use that in \<open>simp add: a_def\<close>)
    then have "(b + unat h - 1) div unat h \<le> 63000000"
      by (rule ceiling_at_most [OF h(2)])
    then show ?thesis
      using unat_scaled [of h 544 w] assms(2) by (simp add: b_def)
  qed
  show ?thesis
    using assms(4) assms(1,2) height width
    by (cases center) (auto simp: calculate_output_size_def screen_width_def screen_height_def Let_def compare split: if_splits)
qed

text \<open>
  Property C38. The size of the surface: without the crop it fits on the screen, with the crop it covers the screen; one
  side is that of the screen, both are multiples of 16, and the other side keeps the proportions of the source, rounded up by less
  than 16 pixels. The crop is only claimed for sources of up to 65535 pixels a side: beyond that the code may truncate.
\<close>

theorem output_size_proportions:
  assumes "w \<noteq> 0" "h \<noteq> 0" "center \<Longrightarrow> unat w \<le> 65535 \<and> unat h \<le> 65535"
  shows "case calculate_output_size center w h of (fw, fh) \<Rightarrow>
    (if center then 960 \<le> unat fw \<and> 544 \<le> unat fh else unat fw \<le> 960 \<and> unat fh \<le> 544) \<and>
    16 dvd unat fw \<and> 16 dvd unat fh \<and>
    (unat fw = 960 \<and> 960 * unat h \<le> unat fh * unat w \<and> unat fh * unat w < 960 * unat h + 16 * unat w \<or>
     unat fh = 544 \<and> 544 * unat w \<le> unat fw * unat h \<and> unat fw * unat h < 544 * unat w + 16 * unat h)"
  (is "case _ of (fw, fh) \<Rightarrow> ?P fw fh")
proof -
  obtain fw fh where size: "calculate_output_size center w h = (fw, fh)" by fastforce
  have pos: "0 < unat w" "0 < unat h"
    using assms(1,2) by (simp_all add: unat_gt_0)
  note sizes = unat_output_size [OF assms size]
  note bounds = scaled_bounds [OF pos(1), of 960 "unat h"] scaled_bounds [OF pos(2), of 544 "unat w"]
  consider (same) "960 * unat h = 544 * unat w" | (high) "960 * unat h > 544 * unat w" | (wide) "960 * unat h < 544 * unat w"
    by linarith
  then show ?thesis
    unfolding size prod.case
  proof cases
    case same
    then show "?P fw fh"
      using sizes pos by simp
  next
    case high
    then show "?P fw fh"
      using sizes bounds scaled_at_least [OF pos(1), of 544 960 "unat h"] scaled_at_most [OF pos(2), of 544 "unat w" 960]
      by (cases center) simp_all
  next
    case wide
    then show "?P fw fh"
      using sizes bounds scaled_at_least [OF pos(2), of 960 544 "unat w"] scaled_at_most [OF pos(1), of 960 "unat h" 544]
      by (cases center) simp_all
  qed
qed

theorem output_size_proportions_witness:
  "calculate_output_size True 1280 720 = (976, 544) \<and>
   (case calculate_output_size True 1280 720 of (fw, fh) \<Rightarrow> 960 \<le> unat fw \<and> 544 \<le> unat fh)"
  using output_size_proportions [of 1280 720 True]
  by (simp add: calculate_output_size_def align_decoder_resolution_def divide_round_up_def screen_width_def screen_height_def)

section \<open>The pacer\<close>

record stream_options =
  so_fps :: int
  so_frame_pacer :: bool
  so_vblank_wait :: bool
  so_center :: bool
  so_invalidation :: bool

definition set_stream_options :: "int \<Rightarrow> bool \<Rightarrow> bool \<Rightarrow> bool \<Rightarrow> bool \<Rightarrow> stream_options" where
  "set_stream_options fps pacer vblank center invalidation =
     \<lparr>so_fps = (if fps < 1 then 60 else fps), so_frame_pacer = pacer, so_vblank_wait = vblank, so_center = center,
      so_invalidation = invalidation\<rparr>"

text \<open>The clock is only read when the pacer is on.\<close>

definition pacer_on :: "stream_options \<Rightarrow> bool" where
  "pacer_on o' \<longleftrightarrow> so_frame_pacer o' \<and> so_fps o' > 0"

definition pacer_should_drop :: "stream_options \<Rightarrow> u64 \<Rightarrow> u64 \<Rightarrow> bool" where
  "pacer_should_drop o' present now \<longleftrightarrow> pacer_on o' \<and> present \<noteq> 0 \<and> now - present < 1000000 div of_int (so_fps o')"

section \<open>Moving the middle of a surface to its start\<close>

definition memmove :: "nat \<Rightarrow> nat \<Rightarrow> nat \<Rightarrow> 'a list \<Rightarrow> 'a list" where
  "memmove destination source n memory = overwrite destination (take n (drop source memory)) memory"

definition row_bytes :: nat where "row_bytes = screen_width * 4"

definition crop_source :: "u32 \<Rightarrow> u32 \<Rightarrow> nat \<Rightarrow> nat" where
  "crop_source fw fh row =
     (let crop_x = (fw - of_nat screen_width) div 2; crop_y = (fh - of_nat screen_height) div 2
      in ((row + unat crop_y) * unat fw + unat crop_x) * 4)"

definition crop_frame :: "u32 \<Rightarrow> u32 \<Rightarrow> 'a list \<Rightarrow> 'a list" where
  "crop_frame fw fh buffer =
     (if fw = of_nat screen_width \<and> fh = of_nat screen_height then buffer
      else fold (\<lambda>row. memmove (row * row_bytes) (crop_source fw fh row) row_bytes) [0..<screen_height] buffer)"

text \<open>Rows of equal lengths, one after the other.\<close>

lemma length_rows: "(\<And>r. r < n \<Longrightarrow> length (f r) = c) \<Longrightarrow> length (concat (map f [0..<n])) = n * c"
  by (induction n) auto

lemma nth_rows:
  assumes "\<And>r. r < n \<Longrightarrow> length (f r) = c" "r < n" "k < c"
  shows "concat (map f [0..<n]) ! (r * c + k) = f r ! k"
  using assms
proof (induction n)
  case (Suc n)
  have len: "length (concat (map f [0..<n])) = n * c"
    using Suc.prems by (intro length_rows) simp
  show ?case
  proof (cases "r = n")
    case False
    then have "r < n" using Suc.prems by simp
    then have "Suc r * c \<le> n * c" by (intro mult_le_mono1) simp
    then have "r * c + k < n * c" using Suc.prems by simp
    then show ?thesis
      using Suc \<open>r < n\<close> len by (simp add: nth_append)
  qed (use len in \<open>simp add: nth_append\<close>)
qed simp

text \<open>Rows that are each moved from a place that no earlier row has been moved to.\<close>

lemma move_rows:
  assumes "\<And>r. r < n \<Longrightarrow> r * c \<le> source r \<and> source r + c \<le> length xs"
  shows "fold (\<lambda>r. memmove (r * c) (source r) c) [0..<n] xs =
    concat (map (\<lambda>r. take c (drop (source r) xs)) [0..<n]) @ drop (n * c) xs"
  using assms
proof (induction n)
  case (Suc n)
  let ?rows = "concat (map (\<lambda>r. take c (drop (source r) xs)) [0..<n])"
  have IH: "fold (\<lambda>r. memmove (r * c) (source r) c) [0..<n] xs = ?rows @ drop (n * c) xs"
    using Suc by simp
  have rows: "length ?rows = n * c"
  proof (rule length_rows)
    fix r assume "r < n"
    then have "c \<le> length xs - source r"
      using Suc.prems [of r] by linarith
    then show "length (take c (drop (source r) xs)) = c"
      by simp
  qed
  have source: "n * c \<le> source n" "source n + c \<le> length xs"
    using Suc.prems [of n] by simp_all
  have "drop (source n) (?rows @ drop (n * c) xs) = drop (source n) xs"
    using source rows by simp
  then have "memmove (n * c) (source n) c (?rows @ drop (n * c) xs) =
      ?rows @ take c (drop (source n) xs) @ drop (Suc n * c) xs"
    using source rows by (simp add: memmove_def overwrite_def add.commute [of c] min_absorb2 le_diff_conv2)
  then show ?case
    by (simp add: IH)
qed simp

lemma crop_source_fits:
  assumes "screen_width \<le> unat fw" "screen_height \<le> unat fh" "row < screen_height"
  shows "row * row_bytes \<le> crop_source fw fh row" "crop_source fw fh row + row_bytes \<le> unat fw * unat fh * 4"
proof -
  define x where "x = unat ((fw - of_nat screen_width) div 2)"
  define y where "y = unat ((fh - of_nat screen_height) div 2)"
  have "of_nat screen_width \<le> fw" "of_nat screen_height \<le> fh" "unat (of_nat screen_width :: u32) = screen_width"
    "unat (of_nat screen_height :: u32) = screen_height"
    using assms(1,2) by (simp_all add: screen_width_def screen_height_def word_le_nat_alt)
  then have xy: "x = (unat fw - screen_width) div 2" "y = (unat fh - screen_height) div 2"
    by (simp_all add: x_def y_def unat_div unat_sub)
  have source: "crop_source fw fh row = ((row + y) * unat fw + x) * 4"
    by (simp add: crop_source_def x_def y_def)
  have "row * screen_width \<le> (row + y) * unat fw"
    using assms(1) by (intro mult_le_mono) simp_all
  then show "row * row_bytes \<le> crop_source fw fh row"
    by (simp add: source row_bytes_def)
  have "Suc (row + y) * unat fw \<le> unat fh * unat fw"
    using assms xy by (intro mult_le_mono1) linarith
  moreover have "x + screen_width \<le> unat fw"
    using assms xy by linarith
  ultimately have "(row + y) * unat fw + x + screen_width \<le> unat fw * unat fh"
    by (simp add: mult.commute [of "unat fh"])
  then have "((row + y) * unat fw + x + screen_width) * 4 \<le> unat fw * unat fh * 4"
    by (rule mult_le_mono1)
  then show "crop_source fw fh row + row_bytes \<le> unat fw * unat fh * 4"
    by (simp add: source row_bytes_def)
qed

text \<open>Row by row, what the crop leaves is what its source was.\<close>

lemma crop_frame_rows:
  assumes "screen_width \<le> unat fw" "screen_height \<le> unat fh" "unat fw * unat fh * 4 \<le> length buffer"
  shows "length (crop_frame fw fh buffer) = length buffer \<and>
    (\<forall>row < screen_height. crop_source fw fh row + row_bytes \<le> length buffer \<and>
       (\<forall>k < row_bytes. crop_frame fw fh buffer ! (row * row_bytes + k) = buffer ! (crop_source fw fh row + k))) \<and>
    drop (screen_height * row_bytes) (crop_frame fw fh buffer) = drop (screen_height * row_bytes) buffer"
proof -
  note source = crop_source_fits [OF assms(1,2)]
  have fits: "row * row_bytes \<le> crop_source fw fh row" "crop_source fw fh row + row_bytes \<le> length buffer"
    if "row < screen_height" for row
    using source [OF that] assms(3) by linarith+
  define rows where "rows = concat (map (\<lambda>r. take row_bytes (drop (crop_source fw fh r) buffer)) [0..<screen_height])"
  have len: "length (take row_bytes (drop (crop_source fw fh r) buffer)) = row_bytes" if "r < screen_height" for r
    using fits [OF that] by simp
  then have rows: "length rows = screen_height * row_bytes"
    unfolding rows_def by (rule length_rows)
  have nth: "rows ! (row * row_bytes + k) = buffer ! (crop_source fw fh row + k)" if "row < screen_height" "k < row_bytes" for row k
    unfolding rows_def using nth_rows [OF len that] fits [OF that(1)] that(2) by simp
  have total: "screen_height * row_bytes \<le> length buffer"
    using fits [of "screen_height - 1"] by (simp add: screen_height_def row_bytes_def screen_width_def)
  show ?thesis
  proof (cases "fw = of_nat screen_width \<and> fh = of_nat screen_height")
    case True
    then have "crop_source fw fh row = row * row_bytes" for row
      by (simp add: crop_source_def row_bytes_def screen_width_def screen_height_def)
    then show ?thesis
      using True fits by (simp add: crop_frame_def)
  next
    case False
    then have crop: "crop_frame fw fh buffer = rows @ drop (screen_height * row_bytes) buffer"
      using move_rows [of screen_height row_bytes "crop_source fw fh" buffer] fits
      by (simp only: crop_frame_def False if_False rows_def)
    have "row * row_bytes + k < length rows" if "row < screen_height" "k < row_bytes" for row k
    proof -
      have "Suc row * row_bytes \<le> screen_height * row_bytes"
        using that(1) by (intro mult_le_mono1) simp
      then show ?thesis using that(2) rows by simp
    qed
    then show ?thesis
      using fits nth rows total by (auto simp: crop nth_append)
  qed
qed

text \<open>The source starts as far from the left and the upper edge as from the right and the lower one, but for an odd pixel.\<close>

lemma crop_source_middle:
  assumes "screen_width \<le> unat fw" "screen_height \<le> unat fh"
  shows "crop_source fw fh row =
    ((row + (unat fh - screen_height) div 2) * unat fw + (unat fw - screen_width) div 2) * 4"
proof -
  have "of_nat screen_width \<le> fw" "of_nat screen_height \<le> fh" "unat (of_nat screen_width :: u32) = screen_width"
    "unat (of_nat screen_height :: u32) = screen_height"
    using assms by (simp_all add: screen_width_def screen_height_def word_le_nat_alt)
  then show ?thesis
    by (simp add: crop_source_def unat_div unat_sub)
qed

text \<open>
  Property C37. The crop in place is right: for every surface that covers the screen, each byte \<open>b\<close> of each pixel of the picture of
  960 by 544 at the start of the buffer is the byte of the pixel of the old surface that lies \<open>(fw - 960) div 2\<close> further to
  the right and \<open>(fh - 544) div 2\<close> further down, which is the picture in the middle of the surface, although the rows are
  moved within one buffer; what follows the picture stays as it was. Nothing outside the buffer is read.
\<close>

theorem crop_frame_middle:
  assumes "screen_width \<le> unat fw" "screen_height \<le> unat fh" "unat fw * unat fh * 4 \<le> length buffer"
  shows "length (crop_frame fw fh buffer) = length buffer \<and>
    (\<forall>row < 544. \<forall>column < 960. \<forall>b < 4.
       ((row + (unat fh - 544) div 2) * unat fw + column + (unat fw - 960) div 2) * 4 + b < length buffer \<and>
       crop_frame fw fh buffer ! ((row * 960 + column) * 4 + b) =
         buffer ! (((row + (unat fh - 544) div 2) * unat fw + column + (unat fw - 960) div 2) * 4 + b)) \<and>
    drop (544 * 960 * 4) (crop_frame fw fh buffer) = drop (544 * 960 * 4) buffer"
proof -
  note crop = crop_frame_rows [OF assms]
  have "((row + (unat fh - 544) div 2) * unat fw + column + (unat fw - 960) div 2) * 4 + b < length buffer \<and>
      crop_frame fw fh buffer ! ((row * 960 + column) * 4 + b) =
        buffer ! (((row + (unat fh - 544) div 2) * unat fw + column + (unat fw - 960) div 2) * 4 + b)"
    if in_picture: "row < 544" "column < 960" "b < 4" for row column b :: nat
  proof -
    have k: "column * 4 + b < row_bytes" "row < screen_height"
      using in_picture by (simp_all add: row_bytes_def screen_width_def screen_height_def)
    have "row * row_bytes + (column * 4 + b) = (row * 960 + column) * 4 + b"
      by (simp add: row_bytes_def screen_width_def algebra_simps)
    moreover have "crop_source fw fh row + (column * 4 + b) =
        ((row + (unat fh - 544) div 2) * unat fw + column + (unat fw - 960) div 2) * 4 + b"
      using crop_source_middle [OF assms(1,2)] by (simp add: screen_width_def screen_height_def algebra_simps)
    moreover have "crop_source fw fh row + (column * 4 + b) < length buffer"
      using crop k by (meson add_less_cancel_left order_less_le_trans)
    ultimately show ?thesis
      using crop k by metis
  qed
  then show ?thesis
    using crop by (simp add: row_bytes_def screen_width_def screen_height_def)
qed

theorem crop_frame_middle_witness:
  "crop_frame 976 560 [0..<976 * 560 * 4] ! 0 = (8 * 976 + 8) * 4"
proof -
  have "screen_width \<le> unat (976 :: u32)" "screen_height \<le> unat (560 :: u32)"
    "unat (976 :: u32) * unat (560 :: u32) * 4 \<le> length [0..<976 * 560 * 4]"
    by (simp_all add: screen_width_def screen_height_def del: upt_rec_numeral)
  from crop_frame_middle [OF this, THEN conjunct2, THEN conjunct1, rule_format, of 0 0 0]
  show ?thesis by (simp del: upt_rec_numeral)
qed

end
