(* ===== verification/VideoRenderer.thy ===== *)
theory VideoRenderer imports VideoFrame Calls begin

text \<open>
  The video renderer (\<open>src/moonlight/vita_video_renderer.c\<close>): its setup, which takes a dozen resources and gives them back
  when one of them fails, its cleanup, and the release of the frame buffers, which happens later, when the page that shows them is
  gone.

  The file is compiled for two profiles; \<open>sys\<close> is \<open>MOONLIGHT_SYSTEM_APP\<close>. The allocator, the codec library, the kernel and the
  graphics library are the other side of the calls, and so is the decoder of the system profile, which has a theory of its own
  (\<open>SystemVideo\<close>). Where the C calls name memory by its address, the calls here name the resource too. Messages and the memory
  statistics are left out.
\<close>

section \<open>Data\<close>

definition frame_count :: nat where "frame_count = 3"
definition framebuffer_alignment :: u32 where "framebuffer_alignment = 256 * 1024"

record renderer =
  vr_decoder :: u32
  vr_decoder_block :: int
  vr_frame_blocks :: "nat \<Rightarrow> int"
  vr_frame_buffers :: "nat \<Rightarrow> u32"
  vr_frame_mapped :: "nat \<Rightarrow> bool"
  vr_frame_index :: nat
  vr_pending_release :: bool
  vr_pool_generation :: u32
  vr_init_info :: u32
  vr_decoder_info :: u32
  vr_unit_buffer :: u32
  vr_unit_size :: u32
  vr_frame_width :: u32
  vr_frame_height :: u32
  vr_active :: bool
  vr_decoded :: u32
  vr_options :: stream_options
  vr_last_present :: u64
  vr_stats :: u32
  vr_receive :: u32
  vr_invalidation :: bool

definition renderer_boot :: renderer where
  "renderer_boot = \<lparr>vr_decoder = 0, vr_decoder_block = - 1, vr_frame_blocks = (\<lambda>_. - 1), vr_frame_buffers = (\<lambda>_. 0),
     vr_frame_mapped = (\<lambda>_. False), vr_frame_index = 0, vr_pending_release = False, vr_pool_generation = 0, vr_init_info = 0,
     vr_decoder_info = 0, vr_unit_buffer = 0, vr_unit_size = 0, vr_frame_width = 0, vr_frame_height = 0, vr_active = False,
     vr_decoded = 0, vr_options = \<lparr>so_fps = 60, so_frame_pacer = True, so_vblank_wait = False, so_center = False,
     so_invalidation = False\<rparr>, vr_last_present = 0, vr_stats = 0, vr_receive = 0, vr_invalidation = False\<rparr>"

text \<open>What is allocated on the heap.\<close>

datatype heap_kind = Unit_buffer | Init_info | Decoder_info | Decoder_struct

datatype renderer_call =
    Allocate heap_kind u32
  | Free heap_kind u32
  | Sps_init int int
  | Sps_stop
  | System_create u32 u32
  | System_destroy
  | Init_library u32 u32
  | Term_library
  | Query_decoder u32 u32
  | Alloc_decoder_block u32
  | Decoder_base int
  | Create_codec u32
  | Delete_codec u32
  | Free_decoder_block int
  | Alloc_frame nat u32
  | Frame_base nat int
  | Map_frame nat u32 u32
  | Clear_frame nat u32 u32
  | Unmap_frame nat u32
  | Free_frame nat int
  | Configure_video int int int int
  | Invalidate

record renderer_answer =
  ra_result :: int
  ra_value :: u32
  ra_second :: u32

type_synonym renderer_env = "(renderer_call, renderer_answer) env"
type_synonym 'x renderer_prog = "(renderer, renderer_call, renderer_answer, 'x) prog"

section \<open>Giving back\<close>

definition release_frame :: "renderer_env \<Rightarrow> nat \<Rightarrow> unit renderer_prog" where
  "release_frame env i = do {
     mapped \<leftarrow> look (\<lambda>s. vr_frame_mapped s i \<and> vr_frame_buffers s i \<noteq> 0);
     base \<leftarrow> look (\<lambda>s. vr_frame_buffers s i);
     _ \<leftarrow> (if mapped then do {
             _ \<leftarrow> ask env (Unmap_frame i base);
             modify (\<lambda>s. s\<lparr>vr_frame_mapped := (vr_frame_mapped s)(i := False)\<rparr>)
           } else skip);
     block \<leftarrow> look (\<lambda>s. vr_frame_blocks s i);
     _ \<leftarrow> (if block \<ge> 0 then do {
             _ \<leftarrow> ask env (Free_frame i block);
             modify (\<lambda>s. s\<lparr>vr_frame_blocks := (vr_frame_blocks s)(i := - 1)\<rparr>)
           } else skip);
     modify (\<lambda>s. s\<lparr>vr_frame_buffers := (vr_frame_buffers s)(i := 0)\<rparr>)
   }"

fun release_frames_from :: "renderer_env \<Rightarrow> nat list \<Rightarrow> unit renderer_prog" where
  "release_frames_from env [] = skip"
| "release_frames_from env (i # is) = do { _ \<leftarrow> release_frame env i; release_frames_from env is }"

definition release_frame_buffers :: "renderer_env \<Rightarrow> unit renderer_prog" where
  "release_frame_buffers env = do {
     pending \<leftarrow> look vr_pending_release;
     if \<not> pending then skip
     else do {
       _ \<leftarrow> release_frames_from env [0..<frame_count];
       modify (\<lambda>s. s\<lparr>vr_frame_index := 0, vr_pending_release := False\<rparr>)
     }
   }"

definition free_init_info :: "renderer_env \<Rightarrow> unit renderer_prog" where
  "free_init_info env = do { p \<leftarrow> look vr_init_info; _ \<leftarrow> ask env (Free Init_info p); modify (vr_init_info_update (\<lambda>_. 0)) }"

definition free_decoder_info :: "renderer_env \<Rightarrow> unit renderer_prog" where
  "free_decoder_info env = do { p \<leftarrow> look vr_decoder_info; _ \<leftarrow> ask env (Free Decoder_info p); modify (vr_decoder_info_update (\<lambda>_. 0)) }"

definition free_unit_buffer :: "renderer_env \<Rightarrow> unit renderer_prog" where
  "free_unit_buffer env = do {
     p \<leftarrow> look vr_unit_buffer; _ \<leftarrow> ask env (Free Unit_buffer p);
     modify (\<lambda>s. s\<lparr>vr_unit_buffer := 0, vr_unit_size := 0\<rparr>) }"

definition video_cleanup :: "bool \<Rightarrow> renderer_env \<Rightarrow> unit renderer_prog" where
  "video_cleanup sys env = do {
     _ \<leftarrow> modify (vr_active_update (\<lambda>_. False));
     _ \<leftarrow> ask env Invalidate;
     decoder \<leftarrow> look vr_decoder;
     retained \<leftarrow> (if decoder = 0 then State_Monad.return False
        else if sys then do {
          r \<leftarrow> ask env System_destroy;
          if ra_result r < 0 then State_Monad.return True
          else do { _ \<leftarrow> modify (vr_decoder_update (\<lambda>_. 0)); State_Monad.return False }
        }
        else do {
          _ \<leftarrow> ask env (Delete_codec decoder);
          _ \<leftarrow> modify (vr_decoder_update (\<lambda>_. 0));
          State_Monad.return False
        });
     if retained then skip
     else do {
       _ \<leftarrow> ask env Sps_stop;
       _ \<leftarrow> modify (vr_pending_release_update (\<lambda>_. True));
       block \<leftarrow> look vr_decoder_block;
       _ \<leftarrow> (if \<not> sys \<and> block \<ge> 0 then do {
               _ \<leftarrow> ask env (Free_decoder_block block); modify (vr_decoder_block_update (\<lambda>_. - 1)) } else skip);
       _ \<leftarrow> (if sys then skip else free_decoder_info env);
       _ \<leftarrow> free_init_info env;
       _ \<leftarrow> (if sys then skip else do { _ \<leftarrow> ask env Term_library; skip });
       free_unit_buffer env
     }
   }"

section \<open>Setting up\<close>

text \<open>The labels at the end of the function, from the last to the first; each falls through to the one below it.\<close>

definition setup_fail :: "renderer_env \<Rightarrow> bool renderer_prog" where
  "setup_fail env = do {
     _ \<leftarrow> ask env Sps_stop;
     _ \<leftarrow> free_init_info env;
     _ \<leftarrow> free_unit_buffer env;
     State_Monad.return False
   }"

definition setup_fail_library :: "renderer_env \<Rightarrow> bool renderer_prog" where
  "setup_fail_library env = do { _ \<leftarrow> ask env Term_library; setup_fail env }"

definition setup_fail_info :: "renderer_env \<Rightarrow> bool renderer_prog" where
  "setup_fail_info env = do { _ \<leftarrow> free_decoder_info env; setup_fail_library env }"

definition setup_fail_decoder :: "renderer_env \<Rightarrow> bool renderer_prog" where
  "setup_fail_decoder env = do {
     d \<leftarrow> look vr_decoder;
     _ \<leftarrow> ask env (Free Decoder_struct d);
     _ \<leftarrow> modify (vr_decoder_update (\<lambda>_. 0));
     setup_fail_info env
   }"

definition setup_fail_decoder_memblock :: "renderer_env \<Rightarrow> bool renderer_prog" where
  "setup_fail_decoder_memblock env = do {
     block \<leftarrow> look vr_decoder_block;
     _ \<leftarrow> ask env (Free_decoder_block block);
     _ \<leftarrow> modify (vr_decoder_block_update (\<lambda>_. - 1));
     setup_fail_decoder env
   }"

definition setup_fail_frame_pool :: "bool \<Rightarrow> renderer_env \<Rightarrow> bool renderer_prog" where
  "setup_fail_frame_pool sys env = do {
     _ \<leftarrow> release_frames_from env [0..<frame_count];
     if sys then do {
       _ \<leftarrow> ask env System_destroy;
       _ \<leftarrow> modify (vr_decoder_update (\<lambda>_. 0));
       setup_fail env
     }
     else do {
       d \<leftarrow> look vr_decoder;
       _ \<leftarrow> ask env (Delete_codec d);
       setup_fail_decoder_memblock env
     }
   }"

definition surface_bytes :: "u32 \<Rightarrow> u32 \<Rightarrow> u32" where
  "surface_bytes width height = (width * height * 4 + framebuffer_alignment - 1) AND NOT (framebuffer_alignment - 1)"

text \<open>One of the three buffers: allocated, mapped for the graphics processor and cleared.\<close>

definition setup_frame :: "renderer_env \<Rightarrow> u32 \<Rightarrow> nat \<Rightarrow> bool renderer_prog" where
  "setup_frame env bytes i = do {
     b \<leftarrow> ask env (Alloc_frame i bytes);
     _ \<leftarrow> modify (\<lambda>s. s\<lparr>vr_frame_blocks := (vr_frame_blocks s)(i := ra_result b)\<rparr>);
     if ra_result b < 0 then State_Monad.return False
     else do {
       base \<leftarrow> ask env (Frame_base i (ra_result b));
       _ \<leftarrow> modify (\<lambda>s. s\<lparr>vr_frame_buffers := (vr_frame_buffers s)(i := ra_value base)\<rparr>);
       if ra_result base < 0 then State_Monad.return False
       else do {
         m \<leftarrow> ask env (Map_frame i (ra_value base) bytes);
         if ra_result m < 0 then State_Monad.return False
         else do {
           _ \<leftarrow> modify (\<lambda>s. s\<lparr>vr_frame_mapped := (vr_frame_mapped s)(i := True)\<rparr>);
           _ \<leftarrow> ask env (Clear_frame i (ra_value base) bytes);
           State_Monad.return True
         }
       }
     }
   }"

fun setup_frames :: "renderer_env \<Rightarrow> u32 \<Rightarrow> nat list \<Rightarrow> bool renderer_prog" where
  "setup_frames env bytes [] = State_Monad.return True"
| "setup_frames env bytes (i # is) = do {
     ok \<leftarrow> setup_frame env bytes i;
     if ok then setup_frames env bytes is else State_Monad.return False
   }"

text \<open>What follows when the decoder is there.\<close>

definition setup_surfaces :: "bool \<Rightarrow> renderer_env \<Rightarrow> int \<Rightarrow> int \<Rightarrow> int \<Rightarrow> int \<Rightarrow> bool renderer_prog" where
  "setup_surfaces sys env format width height rate = do {
     bytes \<leftarrow> look (\<lambda>s. surface_bytes (vr_frame_width s) (vr_frame_height s));
     _ \<leftarrow> modify (\<lambda>s. s\<lparr>vr_pool_generation := (if vr_pool_generation s + 1 = 0 then 1 else vr_pool_generation s + 1),
            vr_pending_release := False, vr_frame_index := 0\<rparr>);
     ok \<leftarrow> setup_frames env bytes [0..<frame_count];
     if \<not> ok then setup_fail_frame_pool sys env
     else do {
       _ \<leftarrow> modify (\<lambda>s. s\<lparr>vr_active := True, vr_decoded := 0, vr_last_present := 0\<rparr>);
       t \<leftarrow> ask env (Configure_video format width height rate);
       _ \<leftarrow> modify (\<lambda>s. s\<lparr>vr_stats := ra_value t, vr_receive := ra_second t, vr_invalidation := so_invalidation (vr_options s)\<rparr>);
       State_Monad.return True
     }
   }"

text \<open>The decoder of the standard profile, and what comes after it.\<close>

definition setup_decoder :: "renderer_env \<Rightarrow> u32 \<Rightarrow> u32 \<Rightarrow> bool renderer_prog \<Rightarrow> bool renderer_prog" where
  "setup_decoder env horizontal vertical rest = do {
     l \<leftarrow> ask env (Init_library horizontal vertical);
     if ra_result l < 0 then setup_fail env
     else do {
       i \<leftarrow> ask env (Allocate Decoder_info 0);
       _ \<leftarrow> modify (vr_decoder_info_update (\<lambda>_. ra_value i));
       if ra_value i = 0 then setup_fail_library env
       else do {
         q \<leftarrow> ask env (Query_decoder horizontal vertical);
         if ra_result q < 0 then setup_fail_info env
         else do {
           d \<leftarrow> ask env (Allocate Decoder_struct 0);
           _ \<leftarrow> modify (vr_decoder_update (\<lambda>_. ra_value d));
           if ra_value d = 0 then setup_fail_info env
           else do {
             b \<leftarrow> ask env (Alloc_decoder_block ((ra_value q + 0xFFFFF) AND NOT 0xFFFFF));
             _ \<leftarrow> modify (vr_decoder_block_update (\<lambda>_. ra_result b));
             if ra_result b < 0 then setup_fail_decoder env
             else do {
               base \<leftarrow> ask env (Decoder_base (ra_result b));
               if ra_result base < 0 then setup_fail_decoder_memblock env
               else do {
                 c \<leftarrow> ask env (Create_codec (ra_value d));
                 if ra_result c < 0 then setup_fail_decoder_memblock env else rest
               }
             }
           }
         }
       }
     }
   }"

definition up_to_16 :: "int \<Rightarrow> u32" where
  "up_to_16 n = word_of_int ((n + 15) div 16 * 16)"

definition video_setup :: "bool \<Rightarrow> renderer_env \<Rightarrow> int \<Rightarrow> int \<Rightarrow> int \<Rightarrow> int \<Rightarrow> bool renderer_prog" where
  "video_setup sys env format width height rate = do {
     retained \<leftarrow> look (\<lambda>s. sys \<and> vr_decoder s \<noteq> 0);
     if retained \<or> width \<le> 0 \<or> height \<le> 0 then State_Monad.return False
     else do {
       _ \<leftarrow> modify (\<lambda>s. case calculate_output_size (so_center (vr_options s)) (word_of_int width) (word_of_int height) of
              (w, h) \<Rightarrow> s\<lparr>vr_frame_width := w, vr_frame_height := h, vr_unit_size := 128 * 1024 + 64\<rparr>);
       u \<leftarrow> ask env (Allocate Unit_buffer (128 * 1024 + 64));
       _ \<leftarrow> modify (vr_unit_buffer_update (\<lambda>_. ra_value u));
       if ra_value u = 0 then State_Monad.return False
       else do {
         i \<leftarrow> ask env (Allocate Init_info 20);
         _ \<leftarrow> modify (vr_init_info_update (\<lambda>_. ra_value i));
         if ra_value i = 0 then setup_fail env
         else do {
           _ \<leftarrow> ask env (Sps_init width height);
           if sys then do {
             c \<leftarrow> ask env (System_create (up_to_16 width) (up_to_16 height));
             _ \<leftarrow> modify (vr_decoder_update (\<lambda>_. if ra_result c < 0 then 0 else ra_value c));
             if ra_result c < 0 then setup_fail env else setup_surfaces sys env format width height rate
           }
           else setup_decoder env (up_to_16 width) (up_to_16 height) (setup_surfaces sys env format width height rate)
         }
       }
     }
   }"


section \<open>What the resources demand\<close>

record resources =
  rw_heap :: "heap_kind \<Rightarrow> u32 option"
  rw_sps :: bool
  rw_library :: bool
  rw_codec :: "u32 option"
  rw_system :: bool
  rw_stuck :: bool
  rw_lost :: "u32 list"
  rw_deleted :: bool
  rw_decoder_block :: "int option"
  rw_frames :: "nat \<Rightarrow> int option"
  rw_mapped :: "nat \<Rightarrow> u32 option"

definition no_resources :: resources where
  "no_resources = \<lparr>rw_heap = (\<lambda>_. None), rw_sps = False, rw_library = False, rw_codec = None, rw_system = False,
     rw_stuck = False, rw_lost = [], rw_deleted = False, rw_decoder_block = None, rw_frames = (\<lambda>_. None), rw_mapped = (\<lambda>_. None)\<rparr>"

definition pointer :: "u32 \<Rightarrow> u32 option" where
  "pointer p = (if p = 0 then None else Some p)"

text \<open>The structures of a decoder that have been allocated and not freed, the lost ones first.\<close>

definition live :: "resources \<Rightarrow> u32 list" where
  "live w = rw_lost w @ (case rw_heap w Decoder_struct of None \<Rightarrow> [] | Some p \<Rightarrow> [p])"

text \<open>
  A resource is taken only while it is not held, since its variable would be overwritten, and given back by the name it was
  taken with; the library outlives the decoder, the decoder its memory and its structure, and a buffer is not freed while it is
  mapped. Nothing at the address 0 is ever mapped.

  Two things may stay behind. The structure of the decoder may be allocated anew once the decoder in the old one has been
  deleted (\<open>rw_deleted\<close>), and the old one, which nothing can free any more, is then kept in \<open>rw_lost\<close>. The decoder of the system
  profile is destroyed only while it is there, and may be created anew only when it is not there or when its destruction has
  failed (\<open>rw_stuck\<close>), which is what \<open>SystemVideo\<close> answers for. To stop the parameter sets (\<open>sps.c\<close>) when there are none does
  nothing, so that call is always allowed; to start them twice loses the first ones.
\<close>

fun renderer_rule :: "resources \<Rightarrow> renderer_call \<Rightarrow> renderer_answer \<Rightarrow> resources option" where
  "renderer_rule w (Allocate k n) a =
     (if k = Decoder_struct then
        (if rw_heap w k = None \<or> rw_deleted w
         then Some (w\<lparr>rw_heap := (rw_heap w)(k := pointer (ra_value a)), rw_lost := live w, rw_deleted := False\<rparr>) else None)
      else if rw_heap w k \<noteq> None then None else Some (w\<lparr>rw_heap := (rw_heap w)(k := pointer (ra_value a))\<rparr>))"
| "renderer_rule w (Free k p) a =
     (if pointer p \<noteq> rw_heap w k then None
      else if k = Decoder_struct then
        (if rw_codec w = None then Some (w\<lparr>rw_heap := (rw_heap w)(k := None), rw_deleted := False\<rparr>) else None)
      else Some (w\<lparr>rw_heap := (rw_heap w)(k := None)\<rparr>))"
| "renderer_rule w (Sps_init width height) a = (if rw_sps w then None else Some (w\<lparr>rw_sps := True\<rparr>))"
| "renderer_rule w Sps_stop a = Some (w\<lparr>rw_sps := False\<rparr>)"
| "renderer_rule w (System_create h v) a =
     (if rw_system w \<and> \<not> rw_stuck w then None
      else Some (if ra_result a < 0 then w else w\<lparr>rw_system := True, rw_stuck := False\<rparr>))"
| "renderer_rule w System_destroy a =
     (if rw_system w then Some (if ra_result a < 0 then w\<lparr>rw_stuck := True\<rparr> else w\<lparr>rw_system := False, rw_stuck := False\<rparr>) else None)"
| "renderer_rule w (Init_library h v) a =
     (if rw_library w then None else Some (if ra_result a < 0 then w else w\<lparr>rw_library := True\<rparr>))"
| "renderer_rule w Term_library a = (if rw_library w \<and> rw_codec w = None then Some (w\<lparr>rw_library := False\<rparr>) else None)"
| "renderer_rule w (Query_decoder h v) a = (if rw_library w then Some w else None)"
| "renderer_rule w (Alloc_decoder_block n) a =
     (if rw_decoder_block w \<noteq> None then None
      else Some (if ra_result a < 0 then w else w\<lparr>rw_decoder_block := Some (ra_result a)\<rparr>))"
| "renderer_rule w (Decoder_base b) a = (if rw_decoder_block w = Some b then Some w else None)"
| "renderer_rule w (Create_codec d) a =
     (if rw_library w \<and> rw_codec w = None \<and> rw_heap w Decoder_struct = Some d \<and> \<not> rw_deleted w \<and> rw_decoder_block w \<noteq> None
      then Some (if ra_result a < 0 then w else w\<lparr>rw_codec := Some d\<rparr>) else None)"
| "renderer_rule w (Delete_codec d) a = (if rw_codec w = Some d then Some (w\<lparr>rw_codec := None, rw_deleted := True\<rparr>) else None)"
| "renderer_rule w (Free_decoder_block b) a =
     (if rw_decoder_block w = Some b \<and> rw_codec w = None then Some (w\<lparr>rw_decoder_block := None\<rparr>) else None)"
| "renderer_rule w (Alloc_frame i n) a =
     (if rw_frames w i \<noteq> None then None
      else Some (if ra_result a < 0 then w else w\<lparr>rw_frames := (rw_frames w)(i := Some (ra_result a))\<rparr>))"
| "renderer_rule w (Frame_base i b) a = (if rw_frames w i = Some b then Some w else None)"
| "renderer_rule w (Map_frame i p n) a =
     (if rw_frames w i = None \<or> rw_mapped w i \<noteq> None then None
      else Some (if ra_result a < 0 then w else w\<lparr>rw_mapped := (rw_mapped w)(i := pointer p)\<rparr>))"
| "renderer_rule w (Clear_frame i p n) a = (if rw_frames w i \<noteq> None then Some w else None)"
| "renderer_rule w (Unmap_frame i p) a = (if rw_mapped w i = Some p then Some (w\<lparr>rw_mapped := (rw_mapped w)(i := None)\<rparr>) else None)"
| "renderer_rule w (Free_frame i b) a =
     (if rw_frames w i = Some b \<and> rw_mapped w i = None then Some (w\<lparr>rw_frames := (rw_frames w)(i := None)\<rparr>) else None)"
| "renderer_rule w (Configure_video f width height rate) a = Some w"
| "renderer_rule w Invalidate a = Some w"

section \<open>The variables and the resources\<close>

definition block :: "int \<Rightarrow> int option" where
  "block b = (if b \<ge> 0 then Some b else None)"

text \<open>The pool of frame buffers.\<close>

definition slot_rel :: "nat \<Rightarrow> int \<Rightarrow> bool \<Rightarrow> u32 \<Rightarrow> int option \<Rightarrow> u32 option \<Rightarrow> bool" where
  "slot_rel i b mapped base held mapping \<longleftrightarrow> held = block b \<and> mapping = (if mapped then Some base else None) \<and>
     (mapped \<longrightarrow> base \<noteq> 0 \<and> 0 \<le> b) \<and> (frame_count \<le> i \<longrightarrow> b < 0)"

definition pool_rel :: "renderer \<Rightarrow> resources \<Rightarrow> bool" where
  "pool_rel s w \<longleftrightarrow>
     (\<forall>i. slot_rel i (vr_frame_blocks s i) (vr_frame_mapped s i) (vr_frame_buffers s i) (rw_frames w i) (rw_mapped w i))"

definition pool_free :: "renderer \<Rightarrow> bool" where
  "pool_free s \<longleftrightarrow> (\<forall>i. vr_frame_blocks s i < 0)"

text \<open>
  Everything else, in the stages that the setup goes through: whether there is a library, whether the structure of the decoder
  is allocated, and whether the decoder has been created.
\<close>

definition stage :: "bool \<Rightarrow> bool \<Rightarrow> bool \<Rightarrow> renderer \<Rightarrow> resources \<Rightarrow> bool" where
  "stage library struct codec s w \<longleftrightarrow>
     rw_heap w Unit_buffer = pointer (vr_unit_buffer s) \<and> rw_heap w Init_info = pointer (vr_init_info s) \<and>
     rw_heap w Decoder_info = pointer (vr_decoder_info s) \<and> rw_library w = library \<and>
     (if struct then rw_heap w Decoder_struct = pointer (vr_decoder s) else rw_heap w Decoder_struct = None \<or> rw_deleted w) \<and> rw_codec w = (if codec then Some (vr_decoder s) else None) \<and>
     rw_decoder_block w = block (vr_decoder_block s)"

definition idle :: "renderer \<Rightarrow> resources \<Rightarrow> bool" where
  "idle s w \<longleftrightarrow> stage False False False s w \<and> vr_decoder s = 0 \<and> vr_unit_buffer s = 0 \<and> vr_init_info s = 0 \<and> vr_decoder_info s = 0 \<and>
     vr_decoder_block s < 0 \<and> \<not> rw_sps w \<and> (rw_system w \<longrightarrow> rw_stuck w)"

definition ready :: "bool \<Rightarrow> renderer \<Rightarrow> resources \<Rightarrow> bool" where
  "ready sys s w \<longleftrightarrow> vr_unit_buffer s \<noteq> 0 \<and>
     (if sys then stage False False False s w \<and> vr_decoder_info s = 0 \<and> vr_decoder_block s < 0 \<and> vr_decoder s \<noteq> 0 \<and> rw_system w
      else stage True True True s w \<and> 0 \<le> vr_decoder_block s \<and> vr_decoder s \<noteq> 0 \<and> \<not> rw_deleted w \<and> (rw_system w \<longrightarrow> rw_stuck w))"

definition renderer_rel :: "bool \<Rightarrow> renderer \<Rightarrow> resources \<Rightarrow> bool" where
  "renderer_rel sys s w \<longleftrightarrow> pool_rel s w \<and> (if vr_unit_buffer s = 0 then idle s w else ready sys s w)"

abbreviation renderer_safe where
  "renderer_safe \<equiv> safe renderer_rule no_resources"

text \<open>What the parts of the relation do not look at.\<close>

definition core_same :: "renderer \<Rightarrow> renderer \<Rightarrow> resources \<Rightarrow> resources \<Rightarrow> bool" where
  "core_same s s' w w' \<longleftrightarrow> vr_decoder s' = vr_decoder s \<and> vr_decoder_block s' = vr_decoder_block s \<and> vr_unit_buffer s' = vr_unit_buffer s \<and>
     vr_init_info s' = vr_init_info s \<and> vr_decoder_info s' = vr_decoder_info s \<and> vr_pending_release s' = vr_pending_release s \<and>
     rw_heap w' = rw_heap w \<and> rw_sps w' = rw_sps w \<and> rw_system w' = rw_system w \<and> rw_stuck w' = rw_stuck w \<and>
     rw_lost w' = rw_lost w \<and> rw_deleted w' = rw_deleted w \<and>
     rw_library w' = rw_library w \<and> rw_codec w' = rw_codec w \<and> rw_decoder_block w' = rw_decoder_block w"

lemma core_same_refl [simp]: "core_same s s w w"
  by (simp add: core_same_def)

lemma core_same_slots [simp]:
  "core_same s (t\<lparr>vr_frame_blocks := b\<rparr>) w v = core_same s t w v" "core_same s (t\<lparr>vr_frame_mapped := m\<rparr>) w v = core_same s t w v"
  "core_same s (t\<lparr>vr_frame_buffers := p\<rparr>) w v = core_same s t w v"
  "core_same s t w (v\<lparr>rw_frames := f\<rparr>) = core_same s t w v" "core_same s t w (v\<lparr>rw_mapped := n\<rparr>) = core_same s t w v"
  by (simp_all add: core_same_def)

lemma core_same_stage: "core_same s s' w w' \<Longrightarrow> stage l t c s' w' = stage l t c s w"
  by (simp add: core_same_def stage_def)

lemma pool_frame [simp]:
  "pool_rel (s\<lparr>vr_decoder := d\<rparr>) w = pool_rel s w" "pool_rel (s\<lparr>vr_decoder_block := b\<rparr>) w = pool_rel s w"
  "pool_rel (s\<lparr>vr_init_info := d\<rparr>) w = pool_rel s w" "pool_rel (s\<lparr>vr_decoder_info := d\<rparr>) w = pool_rel s w"
  "pool_rel (s\<lparr>vr_unit_buffer := d\<rparr>) w = pool_rel s w" "pool_rel (s\<lparr>vr_unit_size := d\<rparr>) w = pool_rel s w"
  "pool_rel (s\<lparr>vr_active := a\<rparr>) w = pool_rel s w" "pool_rel (s\<lparr>vr_pending_release := a\<rparr>) w = pool_rel s w"
  "pool_rel (s\<lparr>vr_frame_index := i\<rparr>) w = pool_rel s w" "pool_rel (s\<lparr>vr_pool_generation := d\<rparr>) w = pool_rel s w"
  "pool_rel (s\<lparr>vr_decoded := d\<rparr>) w = pool_rel s w" "pool_rel (s\<lparr>vr_last_present := t\<rparr>) w = pool_rel s w"
  "pool_rel (s\<lparr>vr_stats := d\<rparr>) w = pool_rel s w" "pool_rel (s\<lparr>vr_receive := d\<rparr>) w = pool_rel s w"
  "pool_rel (s\<lparr>vr_invalidation := a\<rparr>) w = pool_rel s w"
  "pool_rel s (w\<lparr>rw_heap := h\<rparr>) = pool_rel s w" "pool_rel s (w\<lparr>rw_sps := a\<rparr>) = pool_rel s w"
  "pool_rel s (w\<lparr>rw_library := a\<rparr>) = pool_rel s w" "pool_rel s (w\<lparr>rw_codec := c\<rparr>) = pool_rel s w"
  "pool_rel s (w\<lparr>rw_system := a\<rparr>) = pool_rel s w" "pool_rel s (w\<lparr>rw_stuck := a\<rparr>) = pool_rel s w"
  "pool_rel s (w\<lparr>rw_lost := l\<rparr>) = pool_rel s w" "pool_rel s (w\<lparr>rw_deleted := a\<rparr>) = pool_rel s w" "pool_rel s (w\<lparr>rw_decoder_block := b'\<rparr>) = pool_rel s w"
  by (simp_all add: pool_rel_def)

lemma pool_free_frame [simp]:
  "pool_free (s\<lparr>vr_decoder := d\<rparr>) = pool_free s" "pool_free (s\<lparr>vr_decoder_block := b\<rparr>) = pool_free s"
  "pool_free (s\<lparr>vr_init_info := d\<rparr>) = pool_free s" "pool_free (s\<lparr>vr_decoder_info := d\<rparr>) = pool_free s"
  "pool_free (s\<lparr>vr_unit_buffer := d\<rparr>) = pool_free s" "pool_free (s\<lparr>vr_unit_size := d\<rparr>) = pool_free s"
  "pool_free (s\<lparr>vr_pending_release := a\<rparr>) = pool_free s" "pool_free (s\<lparr>vr_frame_index := i\<rparr>) = pool_free s"
  "pool_free (s\<lparr>vr_pool_generation := d\<rparr>) = pool_free s" "pool_free (s\<lparr>vr_active := a\<rparr>) = pool_free s"
  by (simp_all add: pool_free_def)

section \<open>The pool\<close>

text \<open>One slot changes.\<close>

lemma pool_step:
  assumes "pool_rel s w"
    "slot_rel i (vr_frame_blocks s' i) (vr_frame_mapped s' i) (vr_frame_buffers s' i) (rw_frames w' i) (rw_mapped w' i)"
    "\<And>j. j \<noteq> i \<Longrightarrow> vr_frame_blocks s' j = vr_frame_blocks s j" "\<And>j. j \<noteq> i \<Longrightarrow> vr_frame_mapped s' j = vr_frame_mapped s j"
    "\<And>j. j \<noteq> i \<Longrightarrow> vr_frame_buffers s' j = vr_frame_buffers s j" "\<And>j. j \<noteq> i \<Longrightarrow> rw_frames w' j = rw_frames w j"
    "\<And>j. j \<noteq> i \<Longrightarrow> rw_mapped w' j = rw_mapped w j"
  shows "pool_rel s' w'"
  unfolding pool_rel_def
proof
  show "slot_rel j (vr_frame_blocks s' j) (vr_frame_mapped s' j) (vr_frame_buffers s' j) (rw_frames w' j) (rw_mapped w' j)" for j
    using assms by (cases "j = i") (simp_all add: pool_rel_def)
qed

definition released :: "nat set \<Rightarrow> renderer \<Rightarrow> renderer \<Rightarrow> bool" where
  "released A s s' \<longleftrightarrow> (\<forall>j. j \<in> A \<or> vr_frame_blocks s j < 0 \<longrightarrow> vr_frame_blocks s' j < 0)"

lemma release_frame_safe:
  assumes "pool_rel s w"
  shows "renderer_safe s w (release_frame env i) (\<lambda>_ s' w'. pool_rel s' w' \<and> core_same s s' w w' \<and> released {i} s s')"
proof -
  have i: "slot_rel i (vr_frame_blocks s i) (vr_frame_mapped s i) (vr_frame_buffers s i) (rw_frames w i) (rw_mapped w i)"
    using assms by (simp add: pool_rel_def)
  have mapped: "vr_frame_mapped s i \<Longrightarrow> rw_mapped w i = Some (vr_frame_buffers s i) \<and> vr_frame_buffers s i \<noteq> 0"
    "\<not> vr_frame_mapped s i \<Longrightarrow> rw_mapped w i = None"
    "0 \<le> vr_frame_blocks s i \<Longrightarrow> rw_frames w i = Some (vr_frame_blocks s i)"
    using i by (auto simp: slot_rel_def block_def)
  have released: "released {i} s s'" if "\<forall>j. j \<noteq> i \<longrightarrow> vr_frame_blocks s' j = vr_frame_blocks s j" "vr_frame_blocks s' i < 0" for s'
    using that by (auto simp: released_def)
  show ?thesis
    unfolding release_frame_def
    by (intro safe_look safe_if_bind safe_assoc safe_return_bind; (auto intro!: safe_intro released simp: mapped)?)
      (rule pool_step [OF assms, where i = i]; use i in \<open>auto simp: slot_rel_def block_def\<close>)+
qed

lemma core_same_trans: "core_same s t w v \<Longrightarrow> core_same t s' v w' \<Longrightarrow> core_same s s' w w'"
  by (simp add: core_same_def)

lemma release_frames_from_safe:
  assumes "pool_rel s w"
  shows "renderer_safe s w (release_frames_from env is)
    (\<lambda>_ s' w'. pool_rel s' w' \<and> core_same s s' w w' \<and> released (set is) s s')"
  using assms
proof (induction "is" arbitrary: s w)
  case Nil
  then show ?case by (auto intro!: safe_intro simp: released_def)
next
  case (Cons i "is")
  show ?case
    unfolding release_frames_from.simps
  proof (rule safe_bind [OF release_frame_safe [OF Cons.prems]])
    fix x t v assume t: "pool_rel t v \<and> core_same s t w v \<and> released {i} s t"
    then show "renderer_safe t v (release_frames_from env is)
        (\<lambda>_ s' w'. pool_rel s' w' \<and> core_same s s' w w' \<and> released (set (i # is)) s s')"
      by (intro safe_weaken [OF Cons.IH]) (auto simp: released_def intro: core_same_trans)
  qed
qed

text \<open>The address of a block of memory is not null, and neither is the decoder of the system profile when it was created.\<close>

definition bases_valid :: "renderer_env \<Rightarrow> bool" where
  "bases_valid env \<longleftrightarrow> (\<forall>history i b. 0 \<le> ra_result (env history (Frame_base i b)) \<longrightarrow> ra_value (env history (Frame_base i b)) \<noteq> 0) \<and>
     (\<forall>history h v. 0 \<le> ra_result (env history (System_create h v)) \<longrightarrow> ra_value (env history (System_create h v)) \<noteq> 0)"

lemma ask_base:
  assumes "bases_valid env"
    "\<And>a. 0 \<le> ra_result a \<longrightarrow> ra_value a \<noteq> 0 \<Longrightarrow>
      \<exists>w'. renderer_rule w (Frame_base i b) a = Some w' \<and> renderer_safe s w' (g a) Q"
  shows "renderer_safe s w (State_Monad.bind (ask env (Frame_base i b)) g) Q"
  using assms by (intro safe_ask_when [where P = "\<lambda>a. 0 \<le> ra_result a \<longrightarrow> ra_value a \<noteq> 0"]) (auto simp: bases_valid_def)

lemma ask_create:
  assumes "bases_valid env"
    "\<And>a. 0 \<le> ra_result a \<longrightarrow> ra_value a \<noteq> 0 \<Longrightarrow>
      \<exists>w'. renderer_rule w (System_create h v) a = Some w' \<and> renderer_safe s w' (g a) Q"
  shows "renderer_safe s w (State_Monad.bind (ask env (System_create h v)) g) Q"
  using assms by (intro safe_ask_when [where P = "\<lambda>a. 0 \<le> ra_result a \<longrightarrow> ra_value a \<noteq> 0"]) (auto simp: bases_valid_def)

lemma setup_frame_safe:
  assumes "pool_rel s w" "bases_valid env" "vr_frame_blocks s i < 0" "i < frame_count"
  shows "renderer_safe s w (setup_frame env bytes i) (\<lambda>ok s' w'. pool_rel s' w' \<and> core_same s s' w w' \<and>
    (\<forall>j. j \<noteq> i \<longrightarrow> vr_frame_blocks s' j = vr_frame_blocks s j) \<and> (ok \<longrightarrow> 0 \<le> vr_frame_blocks s' i))"
proof -
  have i: "slot_rel i (vr_frame_blocks s i) (vr_frame_mapped s i) (vr_frame_buffers s i) (rw_frames w i) (rw_mapped w i)"
    using assms by (simp add: pool_rel_def)
  then have free: "rw_frames w i = None" "rw_mapped w i = None" "\<not> vr_frame_mapped s i"
    using assms(3) by (auto simp: slot_rel_def block_def)
  show ?thesis
    unfolding setup_frame_def using assms free
    by (auto intro!: safe_modify safe_if safe_return ask_base safe_ask [where c = "Alloc_frame i bytes"]
         safe_ask [where c = "Map_frame i p bytes" for p] safe_ask [where c = "Clear_frame i p bytes" for p]
         pool_step [OF assms(1), where i = i]
       simp: slot_rel_def block_def pointer_def)
qed

lemma setup_frames_safe:
  assumes "pool_rel s w" "bases_valid env" "distinct is" "\<forall>i\<in>set is. vr_frame_blocks s i < 0 \<and> i < frame_count"
  shows "renderer_safe s w (setup_frames env bytes is) (\<lambda>ok s' w'. pool_rel s' w' \<and> core_same s s' w w' \<and>
    (ok \<longrightarrow> (\<forall>i\<in>set is. 0 \<le> vr_frame_blocks s' i)) \<and> (\<forall>i. i \<notin> set is \<longrightarrow> vr_frame_blocks s' i = vr_frame_blocks s i))"
  using assms
proof (induction "is" arbitrary: s w)
  case Nil
  then show ?case by (auto intro!: safe_intro)
next
  case (Cons i "is")
  have "renderer_safe s w (setup_frame env bytes i) (\<lambda>ok s' w'. pool_rel s' w' \<and> core_same s s' w w' \<and>
    (\<forall>j. j \<noteq> i \<longrightarrow> vr_frame_blocks s' j = vr_frame_blocks s j) \<and> (ok \<longrightarrow> 0 \<le> vr_frame_blocks s' i))"
    using Cons.prems by (intro setup_frame_safe) simp_all
  then show ?case
    unfolding setup_frames.simps
  proof (rule safe_bind)
    fix ok t v
    assume t: "pool_rel t v \<and> core_same s t w v \<and> (\<forall>j. j \<noteq> i \<longrightarrow> vr_frame_blocks t j = vr_frame_blocks s j) \<and>
      (ok \<longrightarrow> 0 \<le> vr_frame_blocks t i)"
    moreover have "\<forall>j\<in>set is. vr_frame_blocks t j < 0 \<and> j < frame_count"
      using t Cons.prems(3,4) by (metis distinct.simps(2) list.set_intros(2))
    ultimately show "renderer_safe t v (if ok then setup_frames env bytes is else State_Monad.return False)
      (\<lambda>ok s' w'. pool_rel s' w' \<and> core_same s s' w w' \<and> (ok \<longrightarrow> (\<forall>i\<in>set (i # is). 0 \<le> vr_frame_blocks s' i)) \<and>
         (\<forall>j. j \<notin> set (i # is) \<longrightarrow> vr_frame_blocks s' j = vr_frame_blocks s j))"
      using Cons.prems
      by (cases ok) (auto intro!: safe_intro safe_weaken [OF Cons.IH] intro: core_same_trans)
  qed
qed

section \<open>The ways out of the setup\<close>

definition failed_setup :: "renderer \<Rightarrow> u32 list \<Rightarrow> bool \<Rightarrow> renderer \<Rightarrow> resources \<Rightarrow> bool" where
  "failed_setup s kept ok s' w' \<longleftrightarrow> \<not> ok \<and> idle s' w' \<and> pool_rel s' w' \<and> vr_frame_blocks s' = vr_frame_blocks s \<and>
     vr_pending_release s' = vr_pending_release s \<and> live w' = kept"

lemma pointer_0 [simp]: "pointer 0 = None"
  by (simp add: pointer_def)

lemma live_frame [simp]:
  "live (w\<lparr>rw_sps := a\<rparr>) = live w" "live (w\<lparr>rw_library := a\<rparr>) = live w" "live (w\<lparr>rw_codec := c\<rparr>) = live w"
  "live (w\<lparr>rw_system := a\<rparr>) = live w" "live (w\<lparr>rw_stuck := a\<rparr>) = live w" "live (w\<lparr>rw_deleted := a\<rparr>) = live w"
  "live (w\<lparr>rw_decoder_block := b\<rparr>) = live w"
  "h Decoder_struct = rw_heap w Decoder_struct \<Longrightarrow> live (w\<lparr>rw_heap := h\<rparr>) = live w"
  "rw_heap w Decoder_struct = None \<Longrightarrow> live (w\<lparr>rw_lost := l\<rparr>) = l"
  by (simp_all add: live_def)

lemma setup_fail_safe:
  assumes "pool_rel s w" "stage False False False s w" "vr_decoder s = 0" "vr_decoder_info s = 0" "vr_decoder_block s < 0"
    "rw_system w \<longrightarrow> rw_stuck w" "live w = kept"
  shows "renderer_safe s w (setup_fail env) (failed_setup s kept)"
  unfolding setup_fail_def free_init_info_def free_unit_buffer_def using assms
  by (auto intro!: safe_intro simp: failed_setup_def idle_def stage_def live_def)

lemma setup_fail_library_safe:
  assumes "pool_rel s w" "stage True False False s w" "vr_decoder s = 0" "vr_decoder_info s = 0" "vr_decoder_block s < 0"
    "rw_system w \<longrightarrow> rw_stuck w" "live w = kept"
  shows "renderer_safe s w (setup_fail_library env) (failed_setup s kept)"
  unfolding setup_fail_library_def using assms
  by (auto intro!: safe_intro setup_fail_safe simp: stage_def)

lemma setup_fail_info_safe:
  assumes "pool_rel s w" "stage True False False s w" "vr_decoder s = 0" "vr_decoder_block s < 0"
    "rw_system w \<longrightarrow> rw_stuck w" "live w = kept"
  shows "renderer_safe s w (setup_fail_info env) (failed_setup s kept)"
  unfolding setup_fail_info_def free_decoder_info_def using assms
  by (auto intro!: safe_intro safe_weaken [OF setup_fail_library_safe] simp: stage_def failed_setup_def live_def)

text \<open>From here on the structure is there: it is the one that the failure gives back.\<close>

lemma setup_fail_decoder_safe:
  assumes "pool_rel s w" "stage True True False s w" "vr_decoder_block s < 0" "rw_system w \<longrightarrow> rw_stuck w" "rw_lost w = kept"
  shows "renderer_safe s w (setup_fail_decoder env) (failed_setup s kept)"
  unfolding setup_fail_decoder_def using assms
  by (auto intro!: safe_intro safe_weaken [OF setup_fail_info_safe [where kept = kept]] simp: stage_def failed_setup_def live_def)

lemma setup_fail_decoder_memblock_safe:
  assumes "pool_rel s w" "stage True True False s w" "0 \<le> vr_decoder_block s" "rw_system w \<longrightarrow> rw_stuck w" "rw_lost w = kept"
  shows "renderer_safe s w (setup_fail_decoder_memblock env) (failed_setup s kept)"
  unfolding setup_fail_decoder_memblock_def using assms
  by (auto intro!: safe_intro safe_weaken [OF setup_fail_decoder_safe [where kept = kept]]
     simp: stage_def failed_setup_def block_def)

definition setup_result :: "bool \<Rightarrow> u32 list \<Rightarrow> bool \<Rightarrow> renderer \<Rightarrow> resources \<Rightarrow> bool" where
  "setup_result sys kept ok s' w' \<longleftrightarrow> pool_rel s' w' \<and>
     (if ok then ready sys s' w' \<and> vr_active s' \<and> \<not> vr_pending_release s' \<and> (\<forall>i<frame_count. 0 \<le> vr_frame_blocks s' i)
      else idle s' w' \<and> pool_free s' \<and> live w' = kept)"

lemma failed_result: "failed_setup s kept ok s' w' \<Longrightarrow> pool_free s \<Longrightarrow> setup_result sys kept ok s' w'"
  by (simp add: failed_setup_def setup_result_def pool_free_def)

lemma failed_frame [simp]:
  "failed_setup (s\<lparr>vr_decoder := d\<rparr>) kept ok s' w' = failed_setup s kept ok s' w'"
  "failed_setup (s\<lparr>vr_decoder_info := d\<rparr>) kept ok s' w' = failed_setup s kept ok s' w'"
  "failed_setup (s\<lparr>vr_decoder_block := b\<rparr>) kept ok s' w' = failed_setup s kept ok s' w'"
  "failed_setup (s\<lparr>vr_init_info := d\<rparr>) kept ok s' w' = failed_setup s kept ok s' w'"
  "failed_setup (s\<lparr>vr_unit_buffer := d\<rparr>) kept ok s' w' = failed_setup s kept ok s' w'"
  by (simp_all add: failed_setup_def)

lemma stage_other [simp]:
  "stage l t c (s\<lparr>vr_frame_index := i\<rparr>) w = stage l t c s w" "stage l t c (s\<lparr>vr_pending_release := a\<rparr>) w = stage l t c s w"
  "stage l t c (s\<lparr>vr_pool_generation := d\<rparr>) w = stage l t c s w" "stage l t c (s\<lparr>vr_active := a\<rparr>) w = stage l t c s w"
  "stage l t c (s\<lparr>vr_decoded := d\<rparr>) w = stage l t c s w" "stage l t c (s\<lparr>vr_last_present := x\<rparr>) w = stage l t c s w"
  "stage l t c (s\<lparr>vr_stats := d\<rparr>) w = stage l t c s w" "stage l t c (s\<lparr>vr_receive := d\<rparr>) w = stage l t c s w"
  "stage l t c (s\<lparr>vr_invalidation := a\<rparr>) w = stage l t c s w" "stage l t c (s\<lparr>vr_unit_size := d\<rparr>) w = stage l t c s w"
  "stage l t c (s\<lparr>vr_frame_width := d\<rparr>) w = stage l t c s w" "stage l t c (s\<lparr>vr_frame_height := d\<rparr>) w = stage l t c s w"
  "stage l t c s (w\<lparr>rw_system := a\<rparr>) = stage l t c s w" "stage l t c s (w\<lparr>rw_stuck := a\<rparr>) = stage l t c s w"
  "stage l t c s (w\<lparr>rw_sps := a\<rparr>) = stage l t c s w"
  by (simp_all add: stage_def)

lemma ready_same:
  assumes "core_same s s' w w'"
  shows "ready sys s' w' = ready sys s w"
  using core_same_stage [OF assms] assms by (simp add: ready_def core_same_def)

lemma pool_beyond: "pool_rel s w \<Longrightarrow> frame_count \<le> i \<Longrightarrow> vr_frame_blocks s i < 0"
  by (simp add: pool_rel_def slot_rel_def)

text \<open>What a setup that fails after the decoder came up leaves of the structures of a decoder.\<close>

definition outlives :: "bool \<Rightarrow> u32 list \<Rightarrow> resources \<Rightarrow> bool" where
  "outlives sys kept w \<longleftrightarrow> (if sys then live w else rw_lost w) = kept"

lemma outlives_same: "core_same s s' w w' \<Longrightarrow> outlives sys kept w' = outlives sys kept w"
  by (simp add: core_same_def outlives_def live_def)

lemma setup_fail_frame_pool_safe:
  assumes "pool_rel s w" "ready sys s w" "outlives sys kept w"
  shows "renderer_safe s w (setup_fail_frame_pool sys env) (setup_result sys kept)"
  unfolding setup_fail_frame_pool_def
proof (rule safe_bind [OF release_frames_from_safe [OF assms(1)]])
  fix x t v assume "pool_rel t v \<and> core_same s t w v \<and> released (set [0..<frame_count]) s t"
  moreover from this have "pool_free t"
    using pool_beyond [of t v] unfolding pool_free_def released_def by (metis atLeastLessThan_iff le0 not_le set_upt)
  ultimately have t: "pool_rel t v" "ready sys t v" "pool_free t" "outlives sys kept v"
    using assms(2,3) ready_same [of s t w v] outlives_same [of s t w v] by simp_all
  show "renderer_safe t v (if sys
      then do { _ \<leftarrow> ask env System_destroy; _ \<leftarrow> modify (vr_decoder_update (\<lambda>_. 0)); setup_fail env }
      else do { d \<leftarrow> look vr_decoder; _ \<leftarrow> ask env (Delete_codec d); setup_fail_decoder_memblock env }) (setup_result sys kept)"
  proof (cases sys)
    case True
    then have r: "stage False False False t v" "vr_decoder_info t = 0" "vr_decoder_block t < 0"
      using t(2) by (simp_all add: ready_def)
    have "renderer_safe (t\<lparr>vr_decoder := 0\<rparr>) v' (setup_fail env) (setup_result sys kept)"
      if "v' = v\<lparr>rw_stuck := True\<rparr> \<or> v' = v\<lparr>rw_system := False, rw_stuck := False\<rparr>" for v'
    proof (rule safe_weaken [OF setup_fail_safe [where kept = kept]])
      show "stage False False False (t\<lparr>vr_decoder := 0\<rparr>) v'"
        using that r(1) by (elim disjE) (simp_all add: stage_def)
      show "live v' = kept" "rw_system v' \<longrightarrow> rw_stuck v'" "pool_rel (t\<lparr>vr_decoder := 0\<rparr>) v'"
        using that t(1,4) True by (auto simp: outlives_def)
    qed (use r t(3) in \<open>simp_all add: failed_result\<close>)
    moreover have "rw_system v"
      using t(2) True by (simp add: ready_def)
    ultimately show ?thesis
      using True by (auto intro!: safe_intro)
  next
    case False
    then have "stage True True True t v" "0 \<le> vr_decoder_block t" "rw_system v \<longrightarrow> rw_stuck v" "rw_lost v = kept"
      using t(2,4) by (simp_all add: ready_def outlives_def)
    moreover from this(1) have "rw_codec v = Some (vr_decoder t)"
      "stage True True False t (v\<lparr>rw_codec := None, rw_deleted := True\<rparr>)"
      by (simp_all add: stage_def)
    ultimately show ?thesis
      using False t
      by (auto intro!: safe_intro safe_weaken [OF setup_fail_decoder_memblock_safe [where kept = kept]] intro: failed_result)
  qed
qed

lemma ready_other [simp]:
  "ready sys (s\<lparr>vr_frame_index := i\<rparr>) w = ready sys s w" "ready sys (s\<lparr>vr_pending_release := a\<rparr>) w = ready sys s w"
  "ready sys (s\<lparr>vr_pool_generation := d\<rparr>) w = ready sys s w" "ready sys (s\<lparr>vr_active := a\<rparr>) w = ready sys s w"
  "ready sys (s\<lparr>vr_decoded := d\<rparr>) w = ready sys s w" "ready sys (s\<lparr>vr_last_present := x\<rparr>) w = ready sys s w"
  "ready sys (s\<lparr>vr_stats := d\<rparr>) w = ready sys s w" "ready sys (s\<lparr>vr_receive := d\<rparr>) w = ready sys s w"
  "ready sys (s\<lparr>vr_invalidation := a\<rparr>) w = ready sys s w"
  by (simp_all add: ready_def)

lemma setup_surfaces_safe:
  assumes "pool_rel s w" "ready sys s w" "bases_valid env" "pool_free s" "outlives sys kept w"
  shows "renderer_safe s w (setup_surfaces sys env format width height rate) (setup_result sys kept)"
proof -
  have step: "renderer_safe t v (if \<not> ok then setup_fail_frame_pool sys env
     else do {
       _ \<leftarrow> modify (\<lambda>s. s\<lparr>vr_active := True, vr_decoded := 0, vr_last_present := 0\<rparr>);
       t \<leftarrow> ask env (Configure_video format width height rate);
       _ \<leftarrow> modify (\<lambda>s. s\<lparr>vr_stats := ra_value t, vr_receive := ra_second t, vr_invalidation := so_invalidation (vr_options s)\<rparr>);
       State_Monad.return True
     }) (setup_result sys kept)"
    if "pool_rel t v" "ready sys t v" "outlives sys kept v" "\<not> vr_pending_release t" "ok \<longrightarrow> (\<forall>i<frame_count. 0 \<le> vr_frame_blocks t i)" for ok t v
    using that by (auto intro!: safe_intro setup_fail_frame_pool_safe simp: setup_result_def)
  let ?t = "s\<lparr>vr_pool_generation := (if vr_pool_generation s + 1 = 0 then 1 else vr_pool_generation s + 1),
            vr_pending_release := False, vr_frame_index := 0\<rparr>"
  have frames: "renderer_safe ?t w (setup_frames env bytes [0..<frame_count]) (\<lambda>ok s' w'. pool_rel s' w' \<and> core_same ?t s' w w' \<and>
    (ok \<longrightarrow> (\<forall>i\<in>set [0..<frame_count]. 0 \<le> vr_frame_blocks s' i)) \<and>
    (\<forall>i. i \<notin> set [0..<frame_count] \<longrightarrow> vr_frame_blocks s' i = vr_frame_blocks ?t i))" for bytes
    using assms by (intro setup_frames_safe) (auto simp: pool_free_def)
  have t: "ready sys ?t w" "\<not> vr_pending_release ?t"
    using assms(2) by simp_all
  have "renderer_safe ?t w (setup_frames env bytes [0..<frame_count]) (\<lambda>ok s' w'. pool_rel s' w' \<and> ready sys s' w' \<and>
    outlives sys kept w' \<and> \<not> vr_pending_release s' \<and> (ok \<longrightarrow> (\<forall>i<frame_count. 0 \<le> vr_frame_blocks s' i)))" for bytes
  proof (rule safe_weaken [OF frames])
    fix ok s' w'
    assume r: "pool_rel s' w' \<and> core_same ?t s' w w' \<and>
      (ok \<longrightarrow> (\<forall>i\<in>set [0..<frame_count]. 0 \<le> vr_frame_blocks s' i)) \<and>
      (\<forall>i. i \<notin> set [0..<frame_count] \<longrightarrow> vr_frame_blocks s' i = vr_frame_blocks ?t i)"
    then have "ready sys s' w'" "outlives sys kept w'" "vr_pending_release s' = vr_pending_release ?t"
      using ready_same [of ?t s' w w' sys] outlives_same [of ?t s' w w' sys kept] t(1) assms(5)
      by (simp, simp, simp add: core_same_def)
    then show "pool_rel s' w' \<and> ready sys s' w' \<and> outlives sys kept w' \<and> \<not> vr_pending_release s' \<and> (ok \<longrightarrow> (\<forall>i<frame_count. 0 \<le> vr_frame_blocks s' i))"
      using r by simp
  qed
  then show ?thesis
    unfolding setup_surfaces_def
    by (intro safe_look safe_modify) (rule safe_bind, assumption, rule step, auto)
qed

lemma setup_decoder_safe:
  assumes "pool_rel s w" "pool_free s" "stage False False False s w" "vr_decoder s = 0" "vr_decoder_info s = 0"
    "vr_decoder_block s < 0" "vr_unit_buffer s \<noteq> 0" "rw_system w \<longrightarrow> rw_stuck w"
    "\<And>s' w'. pool_rel s' w' \<Longrightarrow> ready False s' w' \<Longrightarrow> pool_free s' \<Longrightarrow> outlives False (live w) w' \<Longrightarrow>
       renderer_safe s' w' rest (setup_result False (live w))"
  shows "renderer_safe s w (setup_decoder env h v rest) (setup_result False (live w))"
proof -
  have fail: "renderer_safe s' w' (setup_fail env) (setup_result False (live w))"
    if "pool_rel s' w'" "pool_free s'" "stage False False False s' w'" "vr_decoder s' = 0" "vr_decoder_info s' = 0"
      "vr_decoder_block s' < 0" "rw_system w' \<longrightarrow> rw_stuck w'" "live w' = live w" for s' w'
    using that by (intro safe_weaken [OF setup_fail_safe [where kept = "live w"]] failed_result)
  have fail_library: "renderer_safe s' w' (setup_fail_library env) (setup_result False (live w))"
    if "pool_rel s' w'" "pool_free s'" "stage True False False s' w'" "vr_decoder s' = 0" "vr_decoder_info s' = 0"
      "vr_decoder_block s' < 0" "rw_system w' \<longrightarrow> rw_stuck w'" "live w' = live w" for s' w'
    using that by (intro safe_weaken [OF setup_fail_library_safe [where kept = "live w"]] failed_result)
  have fail_info: "renderer_safe s' w' (setup_fail_info env) (setup_result False (live w))"
    if "pool_rel s' w'" "pool_free s'" "stage True False False s' w'" "vr_decoder s' = 0" "vr_decoder_block s' < 0"
      "rw_system w' \<longrightarrow> rw_stuck w'" "live w' = live w" for s' w'
    using that by (intro safe_weaken [OF setup_fail_info_safe [where kept = "live w"]] failed_result)
  have fail_decoder: "renderer_safe s' w' (setup_fail_decoder env) (setup_result False (live w))"
    if "pool_rel s' w'" "pool_free s'" "stage True True False s' w'" "vr_decoder_block s' < 0"
      "rw_system w' \<longrightarrow> rw_stuck w'" "rw_lost w' = live w" for s' w'
    using that by (intro safe_weaken [OF setup_fail_decoder_safe [where kept = "live w"]] failed_result)
  have fail_block: "renderer_safe s' w' (setup_fail_decoder_memblock env) (setup_result False (live w))"
    if "pool_rel s' w'" "pool_free s'" "stage True True False s' w'" "0 \<le> vr_decoder_block s'"
      "rw_system w' \<longrightarrow> rw_stuck w'" "rw_lost w' = live w" for s' w'
    using that by (intro safe_weaken [OF setup_fail_decoder_memblock_safe [where kept = "live w"]] failed_result)
  show ?thesis
    unfolding setup_decoder_def using assms(1-8)
    by (auto intro!: safe_intro fail fail_library fail_info fail_decoder fail_block assms(9)
       simp: ready_def stage_def block_def pointer_def outlives_def)
qed

lemma setup_decoder_keeps:
  assumes "live w = kept" "pool_rel s w" "pool_free s" "stage False False False s w" "vr_decoder s = 0" "vr_decoder_info s = 0"
    "vr_decoder_block s < 0" "vr_unit_buffer s \<noteq> 0" "rw_system w \<longrightarrow> rw_stuck w" "bases_valid env"
  shows "renderer_safe s w (setup_decoder env h v (setup_surfaces False env format width height rate)) (setup_result False kept)"
  unfolding assms(1) [symmetric] using assms(2-10) by (intro setup_decoder_safe setup_surfaces_safe)

lemma ready_frame_size [simp]:
  "pool_rel (s\<lparr>vr_frame_width := d\<rparr>) w = pool_rel s w" "pool_rel (s\<lparr>vr_frame_height := d\<rparr>) w = pool_rel s w"
  "pool_free (s\<lparr>vr_frame_width := d\<rparr>) = pool_free s" "pool_free (s\<lparr>vr_frame_height := d\<rparr>) = pool_free s"
  by (simp_all add: pool_rel_def pool_free_def)

lemma video_setup_safe:
  assumes "pool_rel s w" "pool_free s" "idle s w" "bases_valid env"
  shows "renderer_safe s w (video_setup sys env format width height rate) (setup_result sys (live w))"
proof -
  obtain x y where size: "calculate_output_size (so_center (vr_options s)) (word_of_int width) (word_of_int height) = (x, y)"
    by fastforce
  have fail: "renderer_safe s' w' (setup_fail env) (setup_result b (live w))"
    if "pool_rel s' w'" "pool_free s'" "stage False False False s' w'" "vr_decoder s' = 0" "vr_decoder_info s' = 0"
      "vr_decoder_block s' < 0" "rw_system w' \<longrightarrow> rw_stuck w'" "live w' = live w" for s' w' b
    using that by (intro safe_weaken [OF setup_fail_safe [where kept = "live w"]] failed_result)
  have "stage False False False s w" "vr_decoder s = 0" "vr_decoder_info s = 0" "vr_decoder_block s < 0" "\<not> rw_sps w"
    "vr_unit_buffer s = 0" "vr_init_info s = 0" "rw_system w \<longrightarrow> rw_stuck w"
    using assms(3) by (simp_all add: idle_def)
  then show ?thesis
    unfolding video_setup_def using assms size
    by (cases sys) (auto intro!: ask_create safe_look safe_modify safe_if safe_return safe_ask [where c = "Allocate k n" for k n]
         safe_ask [where c = "Sps_init m n" for m n] fail setup_decoder_keeps setup_surfaces_safe
       simp: setup_result_def ready_def stage_def idle_def block_def pointer_def outlives_def)
qed

section \<open>Cleaning up\<close>

definition cleanup_result :: "bool \<Rightarrow> renderer \<Rightarrow> resources \<Rightarrow> bool" where
  "cleanup_result sys s' w' \<longleftrightarrow> pool_rel s' w' \<and> \<not> vr_active s' \<and>
     (if sys \<and> vr_decoder s' \<noteq> 0 then ready sys s' w' else idle s' w' \<and> vr_pending_release s')"

lemma video_cleanup_safe:
  assumes "pool_rel s w" "ready sys s w"
  shows "renderer_safe s w (video_cleanup sys env) (\<lambda>_. cleanup_result sys)"
  unfolding video_cleanup_def free_decoder_info_def free_init_info_def free_unit_buffer_def using assms
  by (cases sys) (auto intro!: safe_intro
     simp: cleanup_result_def ready_def stage_def idle_def block_def pointer_def)

lemma release_frame_buffers_safe:
  assumes "pool_rel s w"
  shows "renderer_safe s w (release_frame_buffers env) (\<lambda>_ s' w'. pool_rel s' w' \<and>
    (if vr_pending_release s then core_same (s\<lparr>vr_pending_release := False\<rparr>) s' w w' \<and> pool_free s' else s' = s \<and> w' = w))"
proof -
  have "renderer_safe s w (release_frames_from env [0..<frame_count])
      (\<lambda>_ s' w'. pool_rel s' w' \<and> core_same s s' w w' \<and> pool_free s')"
  proof (rule safe_weaken [OF release_frames_from_safe [OF assms]])
    fix x :: unit and t v
    assume "pool_rel t v \<and> core_same s t w v \<and> released (set [0..<frame_count]) s t"
    moreover from this have "pool_free t"
      using pool_beyond [of t v] unfolding pool_free_def released_def by (metis atLeastLessThan_iff le0 not_le set_upt)
    ultimately show "pool_rel t v \<and> core_same s t w v \<and> pool_free t" by simp
  qed
  then show ?thesis
    unfolding release_frame_buffers_def using assms
    by (auto intro!: safe_look safe_if safe_return safe_bind safe_modify_last simp: core_same_def elim!: safe_bind)
qed

section \<open>All sessions\<close>

datatype renderer_op = Setup int int int int | Cleanup | Release_buffers

fun renderer_act :: "bool \<Rightarrow> renderer_env \<Rightarrow> renderer \<Rightarrow> renderer_op \<Rightarrow> (renderer_call, renderer_answer) calls \<Rightarrow>
    renderer \<times> (renderer_call, renderer_answer) calls" where
  "renderer_act sys env s (Setup format width height rate) log = execute (video_setup sys env format width height rate) s log"
| "renderer_act sys env s Cleanup log = execute (video_cleanup sys env) s log"
| "renderer_act sys env s Release_buffers log = execute (release_frame_buffers env) s log"

text \<open>
  The connection cleans up after a setup that succeeded and before the next one. The setup also counts on the release of the buffers of the session before, which is
  the task of the page.
\<close>

fun renderer_ok :: "bool \<Rightarrow> renderer \<Rightarrow> renderer_op \<Rightarrow> bool" where
  "renderer_ok sys s (Setup format width height rate) \<longleftrightarrow>
     sys \<and> vr_decoder s \<noteq> 0 \<or> vr_unit_buffer s = 0 \<and> list_all (\<lambda>i. vr_frame_blocks s i < 0) [0..<frame_count]"
| "renderer_ok sys s Cleanup \<longleftrightarrow> vr_unit_buffer s \<noteq> 0"
| "renderer_ok sys s Release_buffers \<longleftrightarrow> True"

lemma pool_free_iff: "pool_rel s w \<Longrightarrow> pool_free s \<longleftrightarrow> list_all (\<lambda>i. vr_frame_blocks s i < 0) [0..<frame_count]"
  using pool_beyond [of s w] unfolding pool_free_def list_all_iff by (metis atLeastLessThan_iff le0 not_le set_upt)

lemma core_same_rel: "core_same s s' w w' \<Longrightarrow> idle s' w' = idle s w" "core_same s s' w w' \<Longrightarrow> ready sys s' w' = ready sys s w"
  using core_same_stage [of s s' w w'] ready_same [of s s' w w'] by (simp_all add: idle_def core_same_def)

lemma ready_unit: "ready sys s w \<Longrightarrow> vr_unit_buffer s \<noteq> 0"
  by (simp add: ready_def)

lemma idle_unit: "idle s w \<Longrightarrow> vr_unit_buffer s = 0"
  by (simp add: idle_def)

lemma idle_pending [simp]: "idle (s\<lparr>vr_pending_release := a\<rparr>) w = idle s w"
  by (simp add: idle_def)

text \<open>A setup from any state where it is allowed.\<close>

lemma setup_from_rel:
  assumes "renderer_rel sys s w" "bases_valid env" "renderer_ok sys s (Setup format width height rate)"
  shows "renderer_safe s w (video_setup sys env format width height rate)
    (\<lambda>ok s' w'. if sys \<and> vr_decoder s \<noteq> 0 then \<not> ok \<and> s' = s \<and> w' = w else setup_result sys (live w) ok s' w')"
proof (cases "sys \<and> vr_decoder s \<noteq> 0")
  case True
  then show ?thesis
    unfolding video_setup_def by (auto intro!: safe_intro)
next
  case False
  then have "vr_unit_buffer s = 0" "pool_free s" "idle s w"
    using assms pool_free_iff [of s w] by (auto simp: renderer_rel_def)
  then have "renderer_safe s w (video_setup sys env format width height rate) (setup_result sys (live w))"
    using assms(1,2) by (intro video_setup_safe) (simp_all add: renderer_rel_def)
  then show ?thesis
    by (simp only: if_not_P [OF False])
qed

lemma setup_keeps_rel:
  assumes "renderer_rel sys s w" "bases_valid env" "renderer_ok sys s (Setup format width height rate)"
  shows "renderer_safe s w (video_setup sys env format width height rate) (\<lambda>_. renderer_rel sys)"
  using assms(1)
  by (intro safe_weaken [OF setup_from_rel [OF assms]])
    (auto simp: renderer_rel_def setup_result_def dest: ready_unit idle_unit split: if_splits)

lemma cleanup_from_rel:
  assumes "renderer_rel sys s w" "vr_unit_buffer s \<noteq> 0"
  shows "renderer_safe s w (video_cleanup sys env) (\<lambda>_ s' w'. cleanup_result sys s' w' \<and> renderer_rel sys s' w')"
  using assms by (intro safe_weaken [OF video_cleanup_safe])
    (auto simp: renderer_rel_def cleanup_result_def dest: ready_unit idle_unit split: if_splits)

lemma release_from_rel:
  assumes "renderer_rel sys s w"
  shows "renderer_safe s w (release_frame_buffers env) (\<lambda>_ s' w'. renderer_rel sys s' w' \<and>
    (vr_pending_release s \<longrightarrow> pool_free s') \<and> (idle s w \<longrightarrow> idle s' w') \<and> vr_decoder s' = vr_decoder s)"
proof (rule safe_weaken [OF release_frame_buffers_safe])
  show "pool_rel s w" using assms by (simp add: renderer_rel_def)
  fix x :: unit and s' w'
  assume r: "pool_rel s' w' \<and> (if vr_pending_release s then core_same (s\<lparr>vr_pending_release := False\<rparr>) s' w w' \<and> pool_free s'
    else s' = s \<and> w' = w)"
  show "renderer_rel sys s' w' \<and> (vr_pending_release s \<longrightarrow> pool_free s') \<and> (idle s w \<longrightarrow> idle s' w') \<and> vr_decoder s' = vr_decoder s"
  proof (cases "vr_pending_release s")
    case True
    then have c: "core_same (s\<lparr>vr_pending_release := False\<rparr>) s' w w'" "pool_free s'"
      using r by simp_all
    then have "vr_unit_buffer s' = vr_unit_buffer s" "vr_decoder s' = vr_decoder s" by (simp_all add: core_same_def)
    then show ?thesis
      using c assms r core_same_rel [OF c(1)] by (simp add: renderer_rel_def)
  qed (use r assms in simp)
qed

lemma cleanup_keeps_rel:
  "renderer_rel sys s w \<Longrightarrow> vr_unit_buffer s \<noteq> 0 \<Longrightarrow> renderer_safe s w (video_cleanup sys env) (\<lambda>_. renderer_rel sys)"
  by (rule safe_weaken [OF cleanup_from_rel]) simp_all

lemma release_keeps_rel:
  "renderer_rel sys s w \<Longrightarrow> renderer_safe s w (release_frame_buffers env) (\<lambda>_. renderer_rel sys)"
  by (rule safe_weaken [OF release_from_rel], assumption) (elim conjE)

interpretation renderer: client "renderer_act sys env" renderer_rule no_resources "\<lambda>s w. renderer_rel sys s w \<and> bases_valid env"
  "renderer_ok sys" for sys env
proof unfold_locales
  fix log w s x s' log'
  assume h: "accept renderer_rule no_resources log = Some w" "renderer_rel sys s w \<and> bases_valid env" "renderer_ok sys s x"
    "renderer_act sys env s x log = (s', log')"
  have "\<exists>w'. accept renderer_rule no_resources log' = Some w' \<and> renderer_rel sys s' w'"
  proof (cases x)
    case (Setup format width height rate)
    then have "renderer_safe s w (video_setup sys env format width height rate) (\<lambda>_. renderer_rel sys)"
      using h by (intro setup_keeps_rel) simp_all
    then show ?thesis
      using h Setup execute_obeys [OF _ h(1)] by simp
  next
    case Cleanup
    then show ?thesis
      using h execute_obeys [OF cleanup_keeps_rel h(1)] by auto
  next
    case Release_buffers
    then show ?thesis
      using h execute_obeys [OF release_keeps_rel h(1)] by auto
  qed
  then show "\<exists>w'. accept renderer_rule no_resources log' = Some w' \<and> renderer_rel sys s' w' \<and> bases_valid env"
    using h(2) by simp
qed

lemma renderer_boot_rel: "renderer_rel sys renderer_boot no_resources"
  by (simp add: renderer_rel_def pool_rel_def slot_rel_def idle_def stage_def block_def renderer_boot_def no_resources_def)

text \<open>
  Nothing is held, except for the structures of decoders, which \<open>live\<close> counts, and a decoder of the system profile whose
  destruction failed.
\<close>

fun nothing_held :: "resources \<Rightarrow> bool" where
  "nothing_held w \<longleftrightarrow> list_all (\<lambda>k. rw_heap w k = None) [Unit_buffer, Init_info, Decoder_info] \<and> \<not> rw_sps w \<and> \<not> rw_library w \<and>
     rw_codec w = None \<and> (rw_system w \<longrightarrow> rw_stuck w) \<and> rw_decoder_block w = None \<and> rw_frames w = Map.empty \<and> rw_mapped w = Map.empty"

lemma idle_nothing: "idle s w \<Longrightarrow> pool_rel s w \<Longrightarrow> pool_free s \<Longrightarrow> nothing_held w"
  unfolding pool_free_def by (simp add: idle_def stage_def block_def pool_rel_def slot_rel_def fun_eq_iff) (metis not_le)

section \<open>Properties\<close>


text \<open>An environment that grants everything, and one that refuses to create the decoder.\<close>

fun sample_answer :: "bool \<Rightarrow> renderer_call \<Rightarrow> renderer_answer" where
  "sample_answer refuse (Create_codec d) = \<lparr>ra_result = (if refuse then - 1 else 0), ra_value = 0, ra_second = 0\<rparr>"
| "sample_answer refuse c = \<lparr>ra_result = 7, ra_value = 64, ra_second = 9\<rparr>"

lemma sample_bases: "bases_valid (\<lambda>_. sample_answer refuse)"
  by (simp add: bases_valid_def)

definition sample_ops :: "renderer_op list" where
  "sample_ops = [Setup 1 960 544 60, Cleanup]"

lemma sample_allowed: "allowed (renderer_act False (\<lambda>_. sample_answer False)) (renderer_ok False) renderer_boot sample_ops []"
  by code_simp


text \<open>
  Property C20: a setup that fails has given back everything it took: the buffers, the parameter sets, the library, the decoder
  and its memory, the frame buffers and their mappings are not held any more, the decoder of the system profile only if its
  destruction failed, and there are exactly as many structures of a decoder as before. Only when a decoder of the system profile
  is retained from before does the setup touch nothing at all.
\<close>

theorem renderer_setup_fails:
  assumes "bases_valid env" "allowed (renderer_act sys env) (renderer_ok sys) renderer_boot (ops @ [Setup format width height rate]) []"
    "perform (renderer_act sys env) renderer_boot ops [] = (s, log)"
    "run_state (video_setup sys env format width height rate) (s, log) = (False, (s', log'))"
  shows "s' = s \<and> log' = log \<and> sys \<and> vr_decoder s \<noteq> 0 \<or>
    (case (accept renderer_rule no_resources log, accept renderer_rule no_resources log') of
       (Some w, Some w') \<Rightarrow> nothing_held w' \<and> live w' = live w | _ \<Rightarrow> False)"
proof (cases "sys \<and> vr_decoder s \<noteq> 0")
  case True
  then show ?thesis
    using assms(4) by (simp add: video_setup_def)
next
  case False
  have ok: "renderer_ok sys s (Setup format width height rate)"
    and "allowed (renderer_act sys env) (renderer_ok sys) renderer_boot ops []"
    using assms(2,3) by (simp_all add: allowed_append)
  then obtain w where w: "accept renderer_rule no_resources log = Some w" "renderer_rel sys s w"
    using renderer.run_obeys [of sys renderer_boot env ops] assms(1,3) renderer_boot_rel by auto
  obtain w' where "accept renderer_rule no_resources log' = Some w'" "setup_result sys (live w) False s' w'"
    using safeD [OF setup_from_rel [OF w(2) assms(1) ok] w(1) assms(4)] False by (metis (full_types))
  then show ?thesis
    using idle_nothing [of s' w'] w(1) by (simp add: setup_result_def del: nothing_held.simps)
qed

lemma renderer_setup_fails_witness:
  "case accept renderer_rule no_resources (snd (execute (video_setup False (\<lambda>_. sample_answer True) 1 960 544 60) renderer_boot [])) of
     Some w \<Rightarrow> nothing_held w \<and> live w = [] | None \<Rightarrow> False"
proof -
  have "allowed (renderer_act False (\<lambda>_. sample_answer True)) (renderer_ok False) renderer_boot ([] @ [Setup 1 960 544 60]) []"
    by code_simp
  moreover have "run_state (video_setup False (\<lambda>_. sample_answer True) 1 960 544 60) (renderer_boot, []) =
    (False, execute (video_setup False (\<lambda>_. sample_answer True) 1 960 544 60) renderer_boot [])"
    unfolding execute_def by (rule prod_eqI) (code_simp, simp)
  moreover have "live no_resources = []"
    by (simp add: live_def no_resources_def)
  ultimately show ?thesis
    using renderer_setup_fails [OF sample_bases, of False True "[]" 1 960 544 60 renderer_boot "[]"
      "fst (execute (video_setup False (\<lambda>_. sample_answer True) 1 960 544 60) renderer_boot [])"
      "snd (execute (video_setup False (\<lambda>_. sample_answer True) 1 960 544 60) renderer_boot [])"]
    by (simp del: nothing_held.simps split: option.splits)
qed

text \<open>
  When a session has been set up and cleaned up and its buffers are released, everything has been given back,
  unless the decoder of the system profile was retained. The structure of the decoder of the standard profile is
  the exception: see \<open>decoder_struct_lost\<close>.
\<close>

theorem renderer_session_returns:
  assumes "bases_valid env" "allowed (renderer_act sys env) (renderer_ok sys) renderer_boot (ops @ [Cleanup]) []"
    "perform (renderer_act sys env) renderer_boot (ops @ [Cleanup, Release_buffers]) [] = (s, log)"
  shows "sys \<and> vr_decoder s \<noteq> 0 \<or> (case accept renderer_rule no_resources log of Some w \<Rightarrow> nothing_held w | None \<Rightarrow> False)"
proof -
  obtain s0 log0 where p: "perform (renderer_act sys env) renderer_boot ops [] = (s0, log0)" by fastforce
  have unit: "vr_unit_buffer s0 \<noteq> 0" and "allowed (renderer_act sys env) (renderer_ok sys) renderer_boot ops []"
    using assms(2) p by (simp_all add: allowed_append)
  then obtain w0 where w0: "accept renderer_rule no_resources log0 = Some w0" "renderer_rel sys s0 w0"
    using renderer.run_obeys [of sys renderer_boot env ops] assms(1) p renderer_boot_rel by auto
  obtain u s1 log1 where c: "run_state (video_cleanup sys env) (s0, log0) = (u, (s1, log1))"
    by (metis prod_cases3)
  obtain w1 where w1: "accept renderer_rule no_resources log1 = Some w1" "cleanup_result sys s1 w1" "renderer_rel sys s1 w1"
    using safeD [OF cleanup_from_rel [OF w0(2) unit] w0(1) c] by blast
  obtain u' where r: "run_state (release_frame_buffers env) (s1, log1) = (u', (s, log))"
    using assms(3) p c by (cases "run_state (release_frame_buffers env) (s1, log1)") (auto simp: perform_append execute_def)
  obtain w where w: "accept renderer_rule no_resources log = Some w" "renderer_rel sys s w"
    "vr_pending_release s1 \<longrightarrow> pool_free s" "idle s1 w1 \<longrightarrow> idle s w" "vr_decoder s = vr_decoder s1"
    using safeD [OF release_from_rel [OF w1(3)] w1(1) r] by blast
  show ?thesis
  proof (cases "sys \<and> vr_decoder s1 \<noteq> 0")
    case True
    then have "vr_decoder s = vr_decoder s1"
      using w(5) by simp
    then show ?thesis using True by simp
  next
    case False
    then have "idle s w" "pool_free s"
      using w1(2) w(3,4) by (simp_all add: cleanup_result_def)
    then show ?thesis
      using w(1,2) idle_nothing [of s w] by (simp add: renderer_rel_def del: nothing_held.simps)
  qed
qed

lemma renderer_session_returns_witness:
  "case accept renderer_rule no_resources
      (snd (perform (renderer_act False (\<lambda>_. sample_answer False)) renderer_boot ([Setup 1 960 544 60] @ [Cleanup, Release_buffers]) [])) of
     Some w \<Rightarrow> nothing_held w | None \<Rightarrow> False"
  using renderer_session_returns [OF sample_bases, of False False "[Setup 1 960 544 60]", OF _ prod.collapse [symmetric]] sample_allowed
  by (simp add: sample_ops_def del: nothing_held.simps perform.simps)

text \<open>
  The cleanup of the standard profile forgets the structure of the decoder without freeing it, so every session loses one.
\<close>

lemma decoder_struct_lost:
  "case perform (renderer_act False (\<lambda>_. sample_answer False)) renderer_boot sample_ops [] of
     (s, log) \<Rightarrow> vr_decoder s = 0 \<and> map_option live (accept renderer_rule no_resources log) = Some [64]"
  by code_simp

text \<open>
  After a cleanup the three buffers are still held until they are released, and a setup that does not wait for it takes new ones in
  their place: the memory of the old ones is lost.
\<close>

lemma frame_pool_waits:
  "case perform (renderer_act False (\<lambda>_. sample_answer False)) renderer_boot sample_ops [] of
     (s, log) \<Rightarrow> vr_pending_release s \<and> map_option (\<lambda>w. rw_frames w 0) (accept renderer_rule no_resources log) = Some (Some 7)"
  by code_simp

lemma frame_pool_lost:
  assumes "accept renderer_rule no_resources log = Some w" "rw_frames w i \<noteq> None"
  shows "accept renderer_rule no_resources (snd (execute (setup_frame env bytes i) s log)) = None"
  using assms by (auto simp: execute_def setup_frame_def accept_append)

end
