(* ===== verification/Sps.thy ===== *)
theory Sps imports Prelude begin

text \<open>
  The rewriting of the sequence parameter set of an H.264 stream (\<open>src/moonlight/sps.c\<close>). Reading and writing the bits is the task of
  the vendored \<open>h264bitstream\<close>: \<open>read_nal\<close> parses into a stream, \<open>write_nal\<close> gives the bytes it leaves in its buffer of 128 bytes and the
  number it returns, which is negative after an error. The fields that the code does not name are the extensions of the two records, so
  that a theorem can say that they stay as they were.
\<close>

record vui =
  vu_video_signal_type :: bool
  vu_chroma_loc_info :: bool
  vu_bitstream_restriction :: bool
  vu_vectors_over_boundaries :: bool
  vu_max_bytes_per_pic_denom :: int
  vu_max_bits_per_mb_denom :: int
  vu_log2_max_mv_horizontal :: int
  vu_log2_max_mv_vertical :: int
  vu_num_reorder_frames :: int
  vu_max_dec_frame_buffering :: int

record 'v sps =
  sp_level_idc :: int
  sp_num_ref_frames :: int
  sp_vui :: "'v vui_scheme"

definition bitstream_fixup :: u32 where "bitstream_fixup = 0x01"
definition remove_vst_fixup :: u32 where "remove_vst_fixup = 0x02"
definition remove_cli_fixup :: u32 where "remove_cli_fixup = 0x04"

text \<open>The buffers that a decoder has to keep for each of the known resolutions.\<close>

definition fix_level :: "int \<Rightarrow> int \<Rightarrow> int \<Rightarrow> int" where
  "fix_level width height level =
     (if width = 1280 \<and> height = 720 then 32 else if width = 1920 \<and> height = 1080 then 42 else level)"

definition fix_restriction :: "'v vui_scheme \<Rightarrow> 'v vui_scheme" where
  "fix_restriction v =
     (let v = (if \<not> vu_bitstream_restriction v
               then v\<lparr>vu_bitstream_restriction := True, vu_vectors_over_boundaries := True, vu_max_bits_per_mb_denom := 1,
                      vu_log2_max_mv_horizontal := 16, vu_log2_max_mv_vertical := 16, vu_num_reorder_frames := 0\<rparr> else v)
      in v\<lparr>vu_max_dec_frame_buffering := 1, vu_max_bytes_per_pic_denom := 2, vu_max_bits_per_mb_denom := 1\<rparr>)"

definition fix_fields :: "int \<Rightarrow> int \<Rightarrow> u32 \<Rightarrow> ('v, 's) sps_scheme \<Rightarrow> ('v, 's) sps_scheme" where
  "fix_fields width height flags s =
     (let v = sp_vui s;
          v = (if flags AND remove_vst_fixup \<noteq> 0 then v\<lparr>vu_video_signal_type := False\<rparr> else v);
          v = (if flags AND remove_cli_fixup \<noteq> 0 then v\<lparr>vu_chroma_loc_info := False\<rparr> else v);
          v = (if flags AND bitstream_fixup = bitstream_fixup then fix_restriction v else v)
      in s\<lparr>sp_level_idc := fix_level width height (sp_level_idc s), sp_num_ref_frames := 1, sp_vui := v\<rparr>)"

text \<open>The start code has three bytes or four; a unit that is shorter is read beyond its end.\<close>

definition start_length :: "u8 list \<Rightarrow> nat" where
  "start_length data = (if data ! 2 = 1 then 3 else 4)"

definition sps_fix :: "(('v, 's) sps_scheme \<Rightarrow> u8 list \<Rightarrow> ('v, 's) sps_scheme) \<Rightarrow> (('v, 's) sps_scheme \<Rightarrow> u8 list \<times> int) \<Rightarrow>
    int \<Rightarrow> int \<Rightarrow> u32 \<Rightarrow> ('v, 's) sps_scheme \<Rightarrow> u8 list \<Rightarrow> (('v, 's) sps_scheme \<times> u8 list \<times> int) option" where
  "sps_fix read_nal write_nal width height flags stream data =
     (if length data < 3 \<or> length data < start_length data then None
      else let stream' = fix_fields width height flags (read_nal stream (drop (start_length data) data));
               (written, result) = write_nal stream'
           in Some (stream', take (start_length data) data @ written, int (start_length data) + result))"

text \<open>
  The rewritten set lets a decoder get by with one frame: one reference frame, no more buffered frames than that and no
  fewer, so that the demand of some devices holds too, and its level is lowered for the two known sizes. The restriction is always announced; where the
  server sent one, its vector lengths and its reordering stay. Nothing else changes.
\<close>

theorem fix_fields_result:
  "let s' = fix_fields width height bitstream_fixup s in
    sp_num_ref_frames s' = 1 \<and> vu_max_dec_frame_buffering (sp_vui s') = sp_num_ref_frames s' \<and>
    sp_level_idc s' = fix_level width height (sp_level_idc s) \<and> vu_bitstream_restriction (sp_vui s') \<and>
    (if vu_bitstream_restriction (sp_vui s)
     then sp_vui s' = (sp_vui s)\<lparr>vu_max_dec_frame_buffering := 1, vu_max_bytes_per_pic_denom := 2, vu_max_bits_per_mb_denom := 1\<rparr>
     else vu_num_reorder_frames (sp_vui s') = 0 \<and> vu_log2_max_mv_horizontal (sp_vui s') = 16 \<and> vu_log2_max_mv_vertical (sp_vui s') = 16) \<and>
    vu_video_signal_type (sp_vui s') = vu_video_signal_type (sp_vui s) \<and> vu_chroma_loc_info (sp_vui s') = vu_chroma_loc_info (sp_vui s) \<and>
    vui.more (sp_vui s') = vui.more (sp_vui s) \<and> sps.more s' = sps.more s"
  by (simp add: fix_fields_def fix_restriction_def bitstream_fixup_def remove_vst_fixup_def remove_cli_fixup_def Let_def)

text \<open>Rewriting what was rewritten changes nothing.\<close>

lemma fix_fields_idem: "fix_fields width height flags (fix_fields width height flags s) = fix_fields width height flags s"
  by (simp add: fix_fields_def fix_restriction_def fix_level_def Let_def)

text \<open>What comes out is never longer than a start code and the buffer of the writer.\<close>

lemma sps_fix_length:
  assumes "sps_fix read_nal write_nal width height flags stream data = Some (stream', bytes, n)"
    "\<And>s. length (fst (write_nal s)) \<le> 128"
  shows "length bytes \<le> 132"
  using assms(1) assms(2) [of stream'] by (auto simp: sps_fix_def start_length_def Let_def split: if_splits prod.splits)

end
