(* ===== verification/VideoSubmit.thy ===== *)
theory VideoSubmit imports VideoRenderer Sps begin

text \<open>
  One unit of the video stream on its way to the screen (\<open>vita_video_submit\<close> in \<open>src/moonlight/vita_video_renderer.c\<close>): the parts of the
  unit are put together in the buffer of the decoder, the decoder writes a picture into one of the three frame buffers, and the picture is
  dropped by the pacer or handed to the page that visible it.

  The rewriting of parameter sets is \<open>sps_fix\<close> of \<open>Sps\<close> with its two parameters already applied; it is written \<open>rewrite\<close> here. The memory
  of the frame buffers appears in the calls: a decoder answers with the picture that it wrote, \<open>Present\<close> hands a picture on. The log of
  the failures is left out.
\<close>

section \<open>Putting a unit together\<close>

record entry =
  en_sps :: bool
  en_data :: "u8 list"

record decode_unit =
  du_frame_number :: int
  du_full_length :: int
  du_idr :: bool
  du_host_latency :: u16
  du_receive_us :: u64
  du_enqueue_us :: u64
  du_entries :: "entry list"

type_synonym 'h rewriter = "'h \<Rightarrow> u8 list \<Rightarrow> ('h \<times> u8 list \<times> int) option"

text \<open>
  One part: what has been put together so far and the capacity of the buffer give what is put together then, or \<open>None\<close> when the code reads or writes
  outside of the buffers. A writer that fails returns a negative number, which takes bytes back.
\<close>

definition append_entry :: "'h rewriter \<Rightarrow> nat \<Rightarrow> entry \<Rightarrow> 'h \<times> u8 list \<Rightarrow> ('h \<times> u8 list) option" where
  "append_entry rewrite capacity e = (\<lambda>(h, bytes).
     if en_data e = [] then Some (h, bytes)
     else if en_sps e then
       (case rewrite h (en_data e) of None \<Rightarrow> None
        | Some (h', out, n) \<Rightarrow>
            if length bytes + length out \<le> capacity then Some (h', take (nat (int (length bytes) + n)) (bytes @ out)) else None)
     else if length bytes + length (en_data e) \<le> capacity then Some (h, bytes @ en_data e) else None)"

definition assemble :: "'h rewriter \<Rightarrow> nat \<Rightarrow> entry list \<Rightarrow> 'h \<Rightarrow> ('h \<times> u8 list) option" where
  "assemble rewrite capacity entries h = fold_opt (append_entry rewrite capacity) entries (h, [])"

definition required_size :: "decode_unit \<Rightarrow> u32" where
  "required_size u = word_of_int (du_full_length u) + 64"

text \<open>The check of the length comes after the copying.\<close>

definition length_valid :: "decode_unit \<Rightarrow> u8 list \<Rightarrow> bool" where
  "length_valid u bytes \<longleftrightarrow> bytes \<noteq> [] \<and> (of_nat (length bytes) :: u32) \<le> word_of_int (du_full_length u) + 64"

section \<open>Decoding and presenting\<close>

datatype 'p submit_call =
    Stats_received u32 u32 u32 bool u16 u64 u64
  | Idr_return u32
  | Reallocate u32
  | Microseconds
  | System_time
  | Decode nat "u8 list"
  | Stats_decode u32 u64 u32 bool bool
  | Wait_vblank
  | Stats_prepared u32 u64 u64 u32 u32 u32
  | Present nat "'p list" u32 u32 u32 u32

record 'p submit_answer =
  sa_result :: int
  sa_value :: u32
  sa_time :: u64
  sa_picture :: "'p list"

record 'h submitter = renderer +
  vs_stream :: 'h

datatype submit_result = Submit_ok | Need_idr | Out_of_bounds

type_synonym 'p submit_env = "('p submit_call, 'p submit_answer) env"
type_synonym ('h, 'p, 'x) submit_prog = "('h submitter, 'p submit_call, 'p submit_answer, 'x) prog"

definition note_queued :: "u32 \<Rightarrow> bool \<Rightarrow> (u32 \<times> bool) option" where
  "note_queued generation replaced = (if generation \<noteq> 0 then Some (generation, replaced) else None)"

definition note_submitted :: "u32 \<Rightarrow> u64 \<Rightarrow> u64 \<Rightarrow> (u32 \<times> u64 \<times> u64) option" where
  "note_submitted generation queue_us cpu_us = (if generation \<noteq> 0 then Some (generation, queue_us, cpu_us) else None)"

definition need_idr :: "'p submit_env \<Rightarrow> u32 \<Rightarrow> ('h, 'p, submit_result) submit_prog" where
  "need_idr env generation =
     (if generation \<noteq> 0 then do { _ \<leftarrow> ask env (Idr_return generation); State_Monad.return Need_idr }
      else State_Monad.return Need_idr)"

text \<open>The clock is read for the statistics only.\<close>

definition time_if :: "'p submit_env \<Rightarrow> bool \<Rightarrow> ('h, 'p, u64) submit_prog" where
  "time_if env b = (if b then do { t \<leftarrow> ask env Microseconds; State_Monad.return (sa_time t) } else State_Monad.return 0)"

definition note_received :: "'p submit_env \<Rightarrow> decode_unit option \<Rightarrow> ('h, 'p, unit) submit_prog" where
  "note_received env du = do {
     receive \<leftarrow> look vr_receive;
     case du of None \<Rightarrow> skip
     | Some u \<Rightarrow>
         if receive \<noteq> 0 then do {
           _ \<leftarrow> ask env (Stats_received receive (word_of_int (du_frame_number u)) (word_of_int (du_full_length u)) (du_idr u)
             (du_host_latency u) (du_receive_us u) (du_enqueue_us u));
           skip
         } else skip
   }"

text \<open>The buffer grows when the unit needs more; its old size is kept when there is no memory.\<close>

definition make_room :: "'p submit_env \<Rightarrow> u32 \<Rightarrow> ('h, 'p, bool) submit_prog" where
  "make_room env required = do {
     unit_size \<leftarrow> look vr_unit_size;
     if required > unit_size then do {
       r \<leftarrow> ask env (Reallocate required);
       if sa_value r = 0 then State_Monad.return False
       else do {
         _ \<leftarrow> modify (\<lambda>s. s\<lparr>vr_unit_buffer := sa_value r, vr_unit_size := required\<rparr>);
         State_Monad.return True
       }
     } else State_Monad.return True
   }"

text \<open>Whether the pacer drops the picture. It reads the clock of the system only when it is on.\<close>

definition ask_pacer :: "'p submit_env \<Rightarrow> ('h, 'p, bool) submit_prog" where
  "ask_pacer env = do {
     on \<leftarrow> look (\<lambda>s. pacer_on (vr_options s));
     if on then do {
       now \<leftarrow> ask env System_time;
       look (\<lambda>s. pacer_should_drop (vr_options s) (vr_last_present s) (sa_time now))
     } else State_Monad.return False
   }"

definition picture_size :: "('h, 'p, u32 \<times> u32 \<times> bool) submit_prog" where
  "picture_size = look (\<lambda>s. if so_center (vr_options s) then (of_nat screen_width, of_nat screen_height, True)
     else (vr_frame_width s, vr_frame_height s, False))"

definition present_frame :: "'p submit_env \<Rightarrow> u32 \<Rightarrow> u64 \<Rightarrow> 'p list \<Rightarrow> ('h, 'p, unit) submit_prog" where
  "present_frame env generation decode_end picture = do {
     wait \<leftarrow> look (\<lambda>s. so_vblank_wait (vr_options s));
     vblank \<leftarrow> (if wait then do {
         begun \<leftarrow> time_if env (generation \<noteq> 0);
         _ \<leftarrow> ask env Wait_vblank;
         ended \<leftarrow> time_if env (generation \<noteq> 0);
         State_Monad.return (ended - begun)
       } else State_Monad.return 0);
     now \<leftarrow> ask env System_time;
     _ \<leftarrow> modify (\<lambda>s. s\<lparr>vr_last_present := sa_time now\<rparr>);
     shown \<leftarrow> look (\<lambda>s. if so_center (vr_options s) then crop_frame (vr_frame_width s) (vr_frame_height s) picture else picture);
     shape \<leftarrow> picture_size;
     _ \<leftarrow> (if generation \<noteq> 0 then do {
         t \<leftarrow> ask env Microseconds;
         _ \<leftarrow> ask env (Stats_prepared generation (sa_time t - decode_end) vblank (fst shape) (fst (snd shape)) (fst shape));
         skip
       } else skip);
     i \<leftarrow> look vr_frame_index;
     _ \<leftarrow> ask env (Present i shown (fst shape) (fst (snd shape)) (fst shape) generation);
     modify (\<lambda>s. s\<lparr>vr_frame_index := (vr_frame_index s + 1) mod frame_count\<rparr>)
   }"

definition decode_and_present :: "'p submit_env \<Rightarrow> u32 \<Rightarrow> u8 list \<Rightarrow> ('h, 'p, submit_result) submit_prog" where
  "decode_and_present env generation bytes = do {
     begun \<leftarrow> time_if env (generation \<noteq> 0);
     i \<leftarrow> look vr_frame_index;
     d \<leftarrow> ask env (Decode i bytes);
     ended \<leftarrow> time_if env (generation \<noteq> 0);
     visible \<leftarrow> look (\<lambda>s. sa_result d \<ge> 0 \<and> sa_value d > 0 \<and> vr_active s);
     dropped \<leftarrow> (if visible then ask_pacer env else State_Monad.return False);
     _ \<leftarrow> (if generation \<noteq> 0 then do {
         _ \<leftarrow> ask env (Stats_decode generation (ended - begun) (if sa_result d < 0 then 0 else sa_value d) (sa_result d < 0) dropped);
         skip
       } else skip);
     if sa_result d < 0 then need_idr env generation
     else do {
       _ \<leftarrow> (if visible then do {
           _ \<leftarrow> (if dropped then skip else present_frame env generation ended (sa_picture d));
           modify (\<lambda>s. s\<lparr>vr_decoded := vr_decoded s + 1\<rparr>)
         } else skip);
       State_Monad.return Submit_ok
     }
   }"

definition video_submit :: "'h rewriter \<Rightarrow> 'p submit_env \<Rightarrow> decode_unit option \<Rightarrow> ('h, 'p, submit_result) submit_prog" where
  "video_submit rewrite env du = do {
     generation \<leftarrow> look vr_stats;
     _ \<leftarrow> note_received env du;
     blocked \<leftarrow> look (\<lambda>s. vr_decoder s = 0 \<or> vr_frame_buffers s (vr_frame_index s) = 0);
     case du of None \<Rightarrow> need_idr env generation
     | Some u \<Rightarrow>
         if blocked then need_idr env generation
         else do {
           room \<leftarrow> make_room env (required_size u);
           if \<not> room then need_idr env generation
           else do {
             assembled \<leftarrow> look (\<lambda>s. assemble rewrite (unat (vr_unit_size s)) (du_entries u) (vs_stream s));
             case assembled of None \<Rightarrow> State_Monad.return Out_of_bounds
             | Some (h, bytes) \<Rightarrow> do {
                 _ \<leftarrow> modify (\<lambda>s. s\<lparr>vs_stream := h\<rparr>);
                 if length_valid u bytes then decode_and_present env generation bytes else need_idr env generation
               }
           }
         }
   }"

section \<open>What is put together\<close>

text \<open>The parts of a unit as they should arrive, when no rewriting fails.\<close>

fun pieces :: "'h rewriter \<Rightarrow> 'h \<Rightarrow> entry list \<Rightarrow> ('h \<times> u8 list list) option" where
  "pieces rewrite h [] = Some (h, [])"
| "pieces rewrite h (e # es) =
     (if en_data e = [] then pieces rewrite h es
      else if en_sps e then
        (case rewrite h (en_data e) of None \<Rightarrow> None
         | Some (h', out, n) \<Rightarrow> if n = int (length out) then map_option (apsnd ((#) out)) (pieces rewrite h' es) else None)
      else map_option (apsnd ((#) (en_data e))) (pieces rewrite h es))"

lemma fold_append_pieces:
  "pieces rewrite h es = Some (h', ps) \<Longrightarrow> length bytes + length (concat ps) \<le> capacity \<Longrightarrow>
     fold_opt (append_entry rewrite capacity) es (h, bytes) = Some (h', bytes @ concat ps)"
proof (induction es arbitrary: h bytes ps)
  case (Cons e es)
  show ?case
  proof (cases "en_data e = []")
    case True
    then show ?thesis using Cons by (simp add: append_entry_def)
  next
    case False
    then show ?thesis
      using Cons by (auto simp: append_entry_def nat_int_add split: if_splits option.splits)
  qed
qed simp

lemma assemble_pieces:
  "pieces rewrite h es = Some (h', ps) \<Longrightarrow> length (concat ps) \<le> capacity \<Longrightarrow>
     assemble rewrite capacity es h = Some (h', concat ps)"
  unfolding assemble_def by (simp add: fold_append_pieces)

text \<open>Without parameter sets the parts are the data.\<close>

lemma pieces_plain: "list_all (\<lambda>e. \<not> en_sps e) es \<Longrightarrow> \<exists>ps. pieces rewrite h es = Some (h, ps) \<and> concat ps = concat (map en_data es)"
  by (induction es) auto

text \<open>A rewriting that grows too much is found out only after it has been written beyond the buffer.\<close>

lemma assemble_overrun:
  assumes "rewrite h (en_data e) = Some (h', out, int (length out))" "en_sps e" "en_data e \<noteq> []"
    "du_entries u = [e]" "du_full_length u = int (length (en_data e))" "length (en_data e) + 64 < length out" "length out < 2 ^ 31"
  shows "assemble rewrite (unat (required_size u)) (du_entries u) h = None"
proof -
  have "unat (word_of_nat (length (en_data e)) + 64 :: u32) = length (en_data e) + 64"
    using assms(6,7) by (simp add: unat_word_ariths unsigned_of_nat take_bit_nat_eq_self)
  then show ?thesis
    using assms by (simp add: assemble_def append_entry_def required_size_def)
qed

section \<open>What the screen demands\<close>

text \<open>
  The two pictures presented last may still be read, so the decoder must not write there, and what is presented is
  the picture that the decoder left in that buffer, or its middle, once.
\<close>

record 'p screen =
  sc_recent :: "nat list"
  sc_picture :: "(nat \<times> 'p list) option"

definition blank :: "'p screen" where
  "blank = \<lparr>sc_recent = [], sc_picture = None\<rparr>"

definition visible_part :: "bool \<Rightarrow> u32 \<Rightarrow> u32 \<Rightarrow> 'p list \<Rightarrow> 'p list" where
  "visible_part center fw fh picture = (if center then crop_frame fw fh picture else picture)"

fun screen_rule :: "bool \<Rightarrow> u32 \<Rightarrow> u32 \<Rightarrow> 'p screen \<Rightarrow> 'p submit_call \<Rightarrow> 'p submit_answer \<Rightarrow> 'p screen option" where
  "screen_rule center fw fh w (Decode i bytes) a =
     (if i \<in> set (sc_recent w) then None else Some (w\<lparr>sc_picture := Some (i, sa_picture a)\<rparr>))"
| "screen_rule center fw fh w (Present i picture width height pitch generation) a =
     (if map_option (apsnd (visible_part center fw fh)) (sc_picture w) = Some (i, picture) \<and> pitch = width \<and>
         (if center then width = of_nat screen_width \<and> height = of_nat screen_height else width = fw \<and> height = fh)
      then Some \<lparr>sc_recent = take 2 (i # sc_recent w), sc_picture = None\<rparr> else None)"
| "screen_rule center fw fh w c a = Some w"

text \<open>The options and the size of the surface do not change while units are submitted.\<close>

definition screen_rel :: "bool \<Rightarrow> u32 \<Rightarrow> u32 \<Rightarrow> 'h submitter \<Rightarrow> 'p screen \<Rightarrow> bool" where
  "screen_rel center fw fh s w \<longleftrightarrow> so_center (vr_options s) = center \<and> vr_frame_width s = fw \<and> vr_frame_height s = fh \<and>
     vr_frame_index s < frame_count \<and> vr_frame_index s \<notin> set (sc_recent w) \<and>
     (sc_recent w = [] \<or> hd (sc_recent w) = (vr_frame_index s + 2) mod frame_count)"

lemma screen_rel_frame [simp]:
  "screen_rel center fw fh (s\<lparr>vs_stream := h\<rparr>) w = screen_rel center fw fh s w"
  "screen_rel center fw fh (s\<lparr>vr_unit_buffer := b\<rparr>) w = screen_rel center fw fh s w"
  "screen_rel center fw fh (s\<lparr>vr_unit_size := b\<rparr>) w = screen_rel center fw fh s w"
  "screen_rel center fw fh (s\<lparr>vr_last_present := t\<rparr>) w = screen_rel center fw fh s w"
  "screen_rel center fw fh (s\<lparr>vr_decoded := n\<rparr>) w = screen_rel center fw fh s w"
  "screen_rel center fw fh s (w\<lparr>sc_picture := p\<rparr>) = screen_rel center fw fh s w"
  by (simp_all add: screen_rel_def)

lemma screen_rel_next:
  assumes "screen_rel center fw fh s w"
  shows "screen_rel center fw fh (s\<lparr>vr_frame_index := (vr_frame_index s + 1) mod frame_count\<rparr>)
    \<lparr>sc_recent = take 2 (vr_frame_index s # sc_recent w), sc_picture = None\<rparr>"
proof -
  consider "vr_frame_index s = 0" | "vr_frame_index s = 1" | "vr_frame_index s = 2"
    using assms by (force simp: screen_rel_def frame_count_def)
  then show ?thesis
    using assms by cases (cases "sc_recent w"; auto simp: screen_rel_def frame_count_def numeral_2_eq_2)+
qed

section \<open>The small parts\<close>

text \<open>Rules that look at nothing but decoding, presenting and the memory for the buffer.\<close>

definition quiet :: "('w \<Rightarrow> 'p submit_call \<Rightarrow> 'p submit_answer \<Rightarrow> 'w option) \<Rightarrow> bool" where
  "quiet rule \<longleftrightarrow> (\<forall>w c a. (case c of Decode i b \<Rightarrow> False | Present i p x y z g \<Rightarrow> False | Reallocate n \<Rightarrow> False | _ \<Rightarrow> True) \<longrightarrow> rule w c a = Some w)"

lemma quietD:
  assumes "quiet rule"
  shows "rule w Microseconds a = Some w" "rule w System_time a = Some w" "rule w Wait_vblank a = Some w"
    "rule w (Idr_return g) a = Some w"
    "rule w (Stats_received r f l i h t t') a = Some w" "rule w (Stats_decode g t n e d) a = Some w"
    "rule w (Stats_prepared g t v x y z) a = Some w"
  using assms by (simp_all add: quiet_def)

lemma time_if_safe:
  "quiet rule \<Longrightarrow> (\<And>t. safe rule start s w (g t) Q) \<Longrightarrow> safe rule start s w (State_Monad.bind (time_if env b) g) Q"
  unfolding time_if_def by (auto intro!: safe_intro simp: quietD)

lemma need_idr_safe: "quiet rule \<Longrightarrow> Q Need_idr s w \<Longrightarrow> safe rule start s w (need_idr env generation) Q"
  unfolding need_idr_def by (auto intro!: safe_intro simp: quietD)

lemma note_received_safe:
  "quiet rule \<Longrightarrow> safe rule start s w (g ()) Q \<Longrightarrow> safe rule start s w (State_Monad.bind (note_received env du) g) Q"
  unfolding note_received_def by (cases du) (auto intro!: safe_intro simp: quietD)

lemma make_room_cases:
  assumes "n \<le> vr_unit_size s \<Longrightarrow> safe rule start s w (g True) Q"
    "\<And>a. vr_unit_size s < n \<Longrightarrow> \<exists>w'. rule w (Reallocate n) a = Some w' \<and> (if sa_value a = 0 then safe rule start s w' (g False) Q
       else safe rule start (s\<lparr>vr_unit_buffer := sa_value a, vr_unit_size := n\<rparr>) w' (g True) Q)"
  shows "safe rule start s w (State_Monad.bind (make_room env n) g) Q"
proof (cases "vr_unit_size s < n")
  case True
  show ?thesis
    unfolding make_room_def using assms(2) [OF True] True by (fastforce intro!: safe_intro split: if_splits)
next
  case False
  then show ?thesis unfolding make_room_def using assms(1) by (auto intro!: safe_intro)
qed

lemma make_room_safe:
  assumes "\<And>a. rule w (Reallocate n) a = Some w"
    "\<And>b n'. n \<le> n' \<Longrightarrow> safe rule start (s\<lparr>vr_unit_buffer := b, vr_unit_size := n'\<rparr>) w (g True) Q" "safe rule start s w (g False) Q"
  shows "safe rule start s w (State_Monad.bind (make_room env n) g) Q"
proof (rule make_room_cases)
  show "n \<le> vr_unit_size s \<Longrightarrow> safe rule start s w (g True) Q"
    using assms(2) [of "vr_unit_size s" "vr_unit_buffer s"] by simp
qed (use assms in auto)

lemma ask_pacer_safe:
  "quiet rule \<Longrightarrow> (\<And>b. safe rule start s w (g b) Q) \<Longrightarrow> safe rule start s w (State_Monad.bind (ask_pacer env) g) Q"
  unfolding ask_pacer_def by (auto intro!: safe_intro simp: quietD)

lemmas part_safe = time_if_safe need_idr_safe note_received_safe make_room_safe ask_pacer_safe

section \<open>Presenting\<close>

lemma screen_quiet [simp]: "quiet (screen_rule center fw fh)"
  by (simp add: quiet_def split: submit_call.split)

lemma present_frame_safe:
  assumes "screen_rel center fw fh s w" "sc_picture w = Some (vr_frame_index s, picture)"
  shows "safe (screen_rule center fw fh) start s w (present_frame env generation t picture) (\<lambda>_. screen_rel center fw fh)"
proof -
  have "screen_rel center fw fh (s\<lparr>vr_last_present := x, vr_frame_index := (vr_frame_index s + 1) mod frame_count\<rparr>)
      \<lparr>sc_recent = take 2 (vr_frame_index s # sc_recent w), sc_picture = None\<rparr>" for x
    using screen_rel_next [of center fw fh "s\<lparr>vr_last_present := x\<rparr>" w] assms(1) by simp
  moreover have "so_center (vr_options s) = center" "vr_frame_width s = fw" "vr_frame_height s = fh"
    using assms(1) by (simp_all add: screen_rel_def)
  ultimately show ?thesis
    unfolding present_frame_def picture_size_def using assms(2)
    by (auto intro!: safe_intro part_safe simp: visible_part_def)
qed

lemma decode_and_present_safe:
  assumes "screen_rel center fw fh s w"
  shows "safe (screen_rule center fw fh) start s w (decode_and_present env generation bytes) (\<lambda>_. screen_rel center fw fh)"
proof -
  have "vr_frame_index s \<notin> set (sc_recent w)" using assms by (simp add: screen_rel_def)
  moreover have "safe (screen_rule center fw fh) start s (w\<lparr>sc_picture := Some (vr_frame_index s, p)\<rparr>)
      (State_Monad.bind (present_frame env generation t p)
         (\<lambda>_. State_Monad.bind (modify (\<lambda>s. s\<lparr>vr_decoded := vr_decoded s + 1\<rparr>)) (\<lambda>_. State_Monad.return Submit_ok)))
      (\<lambda>_. screen_rel center fw fh)" for generation p t
  proof (rule safe_bind)
    show "safe (screen_rule center fw fh) start s (w\<lparr>sc_picture := Some (vr_frame_index s, p)\<rparr>)
      (present_frame env generation t p) (\<lambda>_. screen_rel center fw fh)"
      using assms by (intro present_frame_safe) simp_all
  qed (auto intro!: safe_intro)
  ultimately show ?thesis
    unfolding decode_and_present_def using assms
    by (auto intro!: safe_intro part_safe)
qed

lemma video_submit_safe:
  assumes "screen_rel center fw fh s w"
  shows "safe (screen_rule center fw fh) start s w (video_submit rewrite env du) (\<lambda>_. screen_rel center fw fh)"
  unfolding video_submit_def using assms
  by (cases du) (auto intro!: safe_intro part_safe decode_and_present_safe
    safe_option safe_pair)

interpretation submitting: client "\<lambda>s du. execute (video_submit rewrite env du) s" "screen_rule center fw fh" blank
  "screen_rel center fw fh" "\<lambda>_ _. True" for rewrite env center fw fh
  by unfold_locales (auto dest: execute_obeys [OF video_submit_safe])

text \<open>
  Property C6: whatever units arrive after a setup, and whatever the decoder answers, the decoder never writes into the buffers of the two
  pictures presented last, and every picture presented is the one that the decoder has left in its buffer since the picture before, its middle when the stream is
  centered, with the size that the page has to know.
\<close>

theorem submit_triple_buffer:
  "accept (screen_rule (so_center (vr_options s)) (vr_frame_width s) (vr_frame_height s)) blank
     (snd (perform (\<lambda>s du. execute (video_submit rewrite env du) s) (s\<lparr>vr_frame_index := 0\<rparr>) units [])) \<noteq> None"
proof -
  have "screen_rel (so_center (vr_options s)) (vr_frame_width s) (vr_frame_height s) (s\<lparr>vr_frame_index := 0\<rparr>) blank"
    by (simp add: screen_rel_def blank_def frame_count_def)
  from submitting.run_obeys [OF this, of rewrite env units] show ?thesis
    by (auto split: prod.splits)
qed

section \<open>What the decoder gets\<close>

text \<open>What was decoded, and whether memory for the buffer was refused.\<close>

fun decode_rule :: "(nat \<times> u8 list \<times> bool) list \<times> bool \<Rightarrow> 'p submit_call \<Rightarrow> 'p submit_answer \<Rightarrow>
    ((nat \<times> u8 list \<times> bool) list \<times> bool) option" where
  "decode_rule (ds, refused) (Decode i bytes) a = Some (ds @ [(i, bytes, 0 \<le> sa_result a)], refused)"
| "decode_rule (ds, refused) (Reallocate n) a = Some (ds, refused \<or> sa_value a = 0)"
| "decode_rule w c a = Some w"

lemma decode_quiet [simp]: "quiet decode_rule"
  by (auto simp: quiet_def split: submit_call.split)

lemma present_frame_decodes:
  "(\<And>s'. safe decode_rule start s' w (g ()) Q) \<Longrightarrow>
     safe decode_rule start s w (State_Monad.bind (present_frame env generation t p) g) Q"
  unfolding present_frame_def picture_size_def by (cases w) (auto intro!: safe_intro part_safe)

lemma decode_and_present_decodes:
  assumes "\<And>s'. Q Submit_ok s' (ds @ [(vr_frame_index s, bytes, True)], refused)"
    "\<And>s'. Q Need_idr s' (ds @ [(vr_frame_index s, bytes, False)], refused)"
  shows "safe decode_rule start s (ds, refused) (decode_and_present env generation bytes) Q"
  unfolding decode_and_present_def using assms
  by (auto intro!: safe_intro part_safe present_frame_decodes simp: not_less [symmetric])

text \<open>What may come of a unit: nothing is decoded only without a decoder or a buffer, or when the buffer had to grow and there was no memory.\<close>

definition unit_outcomes :: "'h submitter \<Rightarrow> decode_unit \<Rightarrow> u8 list \<Rightarrow> (submit_result \<times> ((nat \<times> u8 list \<times> bool) list \<times> bool) option) set" where
  "unit_outcomes s u bytes =
     (if vr_decoder s = 0 \<or> vr_frame_buffers s (vr_frame_index s) = 0 then {(Need_idr, Some ([], False))}
      else {(Submit_ok, Some ([(vr_frame_index s, bytes, True)], False)), (Need_idr, Some ([(vr_frame_index s, bytes, False)], False))} \<union>
        (if vr_unit_size s < required_size u then {(Need_idr, Some ([], True))} else {}))"

text \<open>
  Property C13: a unit whose parts add up to its length, with no more than the 64 bytes of reserve for the rewriting of parameter sets, reaches the
  decoder as the concatenation of its parts, in order, once, for the buffer whose turn it is, and the connection is told to go on exactly if
  the decoder accepted it, and asked for a new start otherwise. Only three things keep the unit from the decoder, and then a new start is asked for: there is no decoder, no
  picture buffer, or the buffer of the unit had to grow and the memory was refused.
\<close>

theorem submit_decodes_unit:
  assumes "pieces rewrite (vs_stream s) (du_entries u) = Some (h', ps)" "concat ps \<noteq> []"
    "int (length (concat ps)) \<le> du_full_length u + 64" "du_full_length u < 2 ^ 31"
    "run_state (video_submit rewrite env (Some u)) (s, []) = (x, (s', log))"
  shows "(x, accept decode_rule ([], False) log) \<in> unit_outcomes s u (concat ps)"
proof -
  let ?result = "\<lambda>x (s' :: 'a submitter) ds. (x, Some ds) \<in> unit_outcomes s u (concat ps)"
  have full: "- 64 \<le> du_full_length u" using assms(3) by linarith
  have required: "unat (required_size u) = nat (du_full_length u + 64)"
  proof -
    have "required_size u = word_of_int (du_full_length u + 64)"
      by (simp add: required_size_def)
    moreover have "take_bit 32 (du_full_length u + 64) = du_full_length u + 64"
      using full assms(4) by (intro take_bit_int_eq_self) simp_all
    ultimately show ?thesis
      by (simp only: unat_eq_nat_uint uint_word_of_int_eq len_num0 len_num1 len_bit0 len_bit1) simp
  qed
  then have len: "length (concat ps) \<le> unat (required_size u)"
    using assms(3) by linarith
  then have valid: "length_valid u (concat ps)"
    using assms(2) unsigned_less [of "required_size u", where 'a = nat]
    by (simp add: length_valid_def required_size_def word_le_nat_alt unsigned_of_nat take_bit_nat_eq_self)
  have put: "assemble rewrite (unat n) (du_entries u) (vs_stream s) = Some (h', concat ps)"
    if "required_size u \<le> n" for n
    using that len assms(1) by (intro assemble_pieces) (auto simp: word_le_nat_alt)
  have safe: "safe decode_rule ([], False) s ([], False) (video_submit rewrite env (Some u)) ?result"
  proof (cases "vr_decoder s = 0 \<or> vr_frame_buffers s (vr_frame_index s) = 0")
    case True
    then show ?thesis
      unfolding video_submit_def option.case
      by (auto intro!: safe_look note_received_safe safe_if need_idr_safe simp: unit_outcomes_def)
  next
    case False
    have decoded: "safe decode_rule ([], False) t ([], False) (decode_and_present env generation (concat ps)) ?result"
      if "vr_frame_index t = vr_frame_index s" for t :: "'a submitter" and generation
      using that False by (intro decode_and_present_decodes) (simp_all add: unit_outcomes_def)
    have refused: "(Need_idr, Some ([], True)) \<in> unit_outcomes s u (concat ps)" if "vr_unit_size s < required_size u"
      using that False by (simp add: unit_outcomes_def)
    show ?thesis
      unfolding video_submit_def option.case
      by (intro safe_look note_received_safe decode_quiet safe_if make_room_cases)
        (use False in \<open>auto intro!: safe_intro part_safe decoded refused simp: put valid\<close>)
  qed
  from safeD [OF safe _ assms(5)] show ?thesis
    by auto
qed

definition sample_unit :: decode_unit where
  "sample_unit = \<lparr>du_frame_number = 1, du_full_length = 5, du_idr = True, du_host_latency = 0, du_receive_us = 0, du_enqueue_us = 0,
     du_entries = [\<lparr>en_sps = True, en_data = [0, 0, 1]\<rparr>, \<lparr>en_sps = False, en_data = [8, 9]\<rparr>]\<rparr>"

definition sample_rewrite :: "unit rewriter" where
  "sample_rewrite h data = Some (h, data @ [7], int (length data) + 1)"

definition sample_submitter :: "unit submitter" where
  "sample_submitter = renderer.extend (renderer_boot\<lparr>vr_decoder := 1, vr_frame_buffers := (\<lambda>_. 1), vr_active := True\<rparr>) (submitter.fields ())"

lemma submit_decodes_unit_witness:
  "let (x, (s', log)) = run_state (video_submit sample_rewrite (\<lambda>_ _. \<lparr>sa_result = 0, sa_value = 1, sa_time = 5, sa_picture = [True]\<rparr>)
         (Some sample_unit)) (sample_submitter, [])
   in (x, accept decode_rule ([], False) log) \<in> unit_outcomes sample_submitter sample_unit [0, 0, 1, 7, 8, 9]"
proof -
  have "pieces sample_rewrite () (du_entries sample_unit) = Some ((), [[0, 0, 1, 7], [8, 9]])"
    by (simp add: sample_unit_def sample_rewrite_def)
  moreover have "vs_stream (sample_submitter) = ()" by simp
  moreover have "int (length (concat [[0, 0, 1, 7], [8, 9 :: u8]])) \<le> du_full_length sample_unit + 64"
    "du_full_length sample_unit < 2 ^ 31"
    by (simp_all add: sample_unit_def)
  ultimately show ?thesis
    using submit_decodes_unit [of sample_rewrite sample_submitter sample_unit "()"
      "[[0, 0, 1, 7], [8, 9]]" "\<lambda>_ _. \<lparr>sa_result = 0, sa_value = 1, sa_time = 5, sa_picture = [True]\<rparr>"]
    by (auto simp: Let_def split: prod.splits)
qed

end
