(* ===== verification/Audio.thy ===== *)
theory Audio imports Calls begin

text \<open>
  The audio renderer (\<open>src/moonlight/vita_audio_renderer.c\<close>): an Opus decoder and an output port, and a
  buffer in which four decoded frames are collected before they are played.

  The decoder, the port, the clock and the statistics are the other side of the calls. What \<open>opus_multistream_decode\<close> may
  write is stated in \<open>audio_rule\<close>: as many samples for each channel as the caller allows. Messages are left out.
\<close>

section \<open>Data\<close>

definition frame_size :: nat where "frame_size = 240"
definition vita_samples :: nat where "vita_samples = 960"
definition buffer_size :: nat where "buffer_size = 2 * vita_samples"

record opus_config =
  oc_rate :: int
  oc_channels :: int
  oc_streams :: int
  oc_coupled :: int

text \<open>The decoder is a pointer; \<open>0\<close> is \<open>NULL\<close>.\<close>

record audio =
  au_offset :: nat
  au_port :: int
  au_active :: bool
  au_decoder :: u32
  au_buffer :: "16 word list"
  au_generation :: u32

definition audio_boot :: audio where
  "audio_boot = \<lparr>au_offset = 0, au_port = - 1, au_active = False, au_decoder = 0, au_buffer = replicate buffer_size 0, au_generation = 0\<rparr>"

datatype audio_call =
    Create_decoder opus_config
  | Destroy_decoder u32
  | Open_port
  | Set_volume int
  | Drain_port int
  | Release_port int
  | Configure_audio int int
  | Microseconds
  | Decode_frame u32 string nat nat
  | Note_decode u32 u64 bool
  | Play int "16 word list"
  | Note_output u32 u64 bool

text \<open>What a call answers: a result, a pointer or token, the time, and the samples that were written.\<close>

record audio_answer =
  aa_result :: int
  aa_value :: u32
  aa_time :: u64
  aa_samples :: "16 word list"

type_synonym audio_env = "(audio_call, audio_answer) env"
type_synonym 'x audio_prog = "(audio, audio_call, audio_answer, 'x) prog"

section \<open>Opening and closing\<close>

definition audio_cleanup :: "audio_env \<Rightarrow> unit audio_prog" where
  "audio_cleanup env = do {
     _ \<leftarrow> modify (\<lambda>s. s\<lparr>au_active := False, au_offset := 0, au_generation := 0\<rparr>);
     d \<leftarrow> look au_decoder;
     _ \<leftarrow> (if d \<noteq> 0 then do { _ \<leftarrow> ask env (Destroy_decoder d); modify (au_decoder_update (\<lambda>_. 0)) } else skip);
     port \<leftarrow> look au_port;
     if port \<ge> 0 then do {
       _ \<leftarrow> ask env (Drain_port port);
       r \<leftarrow> ask env (Release_port port);
       if aa_result r = 0 then modify (au_port_update (\<lambda>_. - 1)) else skip
     } else skip
   }"

datatype audio_error = Bad_opus | Port_error

definition audio_open :: "audio_env \<Rightarrow> opus_config \<Rightarrow> audio_error option audio_prog" where
  "audio_open env cfg = do {
     p \<leftarrow> ask env Open_port;
     _ \<leftarrow> modify (au_port_update (\<lambda>_. aa_result p));
     if aa_result p < 0 then do { _ \<leftarrow> audio_cleanup env; State_Monad.return (Some Port_error) }
     else do {
       _ \<leftarrow> ask env (Set_volume (aa_result p));
       g \<leftarrow> ask env (Configure_audio (oc_rate cfg) (oc_channels cfg));
       _ \<leftarrow> modify (au_generation_update (\<lambda>_. aa_value g));
       State_Monad.return None
     }
   }"

text \<open>\<open>None\<close> as configuration is a null pointer; \<open>None\<close> as result is \<open>VITA_AUDIO_INIT_OK\<close>.\<close>

definition audio_init :: "audio_env \<Rightarrow> opus_config option \<Rightarrow> audio_error option audio_prog" where
  "audio_init env config = (case config of None \<Rightarrow> State_Monad.return (Some Bad_opus)
     | Some cfg \<Rightarrow> do {
         _ \<leftarrow> modify (\<lambda>s. s\<lparr>au_offset := 0, au_active := False\<rparr>);
         held \<leftarrow> look (\<lambda>s. au_decoder s \<noteq> 0 \<or> au_port s \<ge> 0);
         _ \<leftarrow> (if held then audio_cleanup env else skip);
         d \<leftarrow> ask env (Create_decoder cfg);
         if aa_result d < 0 \<or> aa_value d = 0 then do {
           _ \<leftarrow> modify (au_decoder_update (\<lambda>_. 0));
           State_Monad.return (Some Bad_opus)
         }
         else do {
           _ \<leftarrow> modify (au_decoder_update (\<lambda>_. aa_value d));
           audio_open env cfg
         }
       })"

definition audio_start :: "audio \<Rightarrow> audio" where
  "audio_start s = s\<lparr>au_active := True, au_offset := 0\<rparr>"

definition audio_stop :: "audio \<Rightarrow> audio" where
  "audio_stop s = s\<lparr>au_active := False\<rparr>"

section \<open>Playing\<close>

text \<open>The clock is only read when there is a token for the statistics.\<close>

definition clock_if :: "audio_env \<Rightarrow> bool \<Rightarrow> u64 audio_prog" where
  "clock_if env b = (if b then do { t \<leftarrow> ask env Microseconds; State_Monad.return (aa_time t) } else State_Monad.return 0)"

definition note_if :: "audio_env \<Rightarrow> bool \<Rightarrow> (u64 \<Rightarrow> audio_call) \<Rightarrow> u64 \<Rightarrow> unit audio_prog" where
  "note_if env b note start_us = (if b then do {
     t \<leftarrow> ask env Microseconds; _ \<leftarrow> ask env (note (aa_time t - start_us)); skip } else skip)"

definition play_full_buffer :: "audio_env \<Rightarrow> u32 \<Rightarrow> unit audio_prog" where
  "play_full_buffer env generation = do {
     offset \<leftarrow> look au_offset;
     if offset = vita_samples then do {
       _ \<leftarrow> modify (au_offset_update (\<lambda>_. 0));
       start_us \<leftarrow> clock_if env (generation \<noteq> 0);
       port \<leftarrow> look au_port;
       buffer \<leftarrow> look au_buffer;
       r \<leftarrow> ask env (Play port buffer);
       note_if env (generation \<noteq> 0) (\<lambda>us. Note_output generation us (aa_result r < 0)) start_us
     } else skip
   }"

definition decode_and_play :: "audio_env \<Rightarrow> string \<Rightarrow> unit audio_prog" where
  "decode_and_play env data = do {
     generation \<leftarrow> look au_generation;
     ready \<leftarrow> look (\<lambda>s. data \<noteq> [] \<and> au_decoder s \<noteq> 0 \<and> au_port s \<ge> 0 \<and> au_active s);
     if \<not> ready then skip
     else do {
       start_us \<leftarrow> clock_if env (generation \<noteq> 0);
       decoder \<leftarrow> look au_decoder;
       position \<leftarrow> look (\<lambda>s. 2 * au_offset s);
       d \<leftarrow> ask env (Decode_frame decoder data position frame_size);
       _ \<leftarrow> modify (\<lambda>s. s\<lparr>au_buffer := overwrite position (aa_samples d) (au_buffer s)\<rparr>);
       _ \<leftarrow> note_if env (generation \<noteq> 0) (\<lambda>us. Note_decode generation us (aa_result d \<noteq> int frame_size)) start_us;
       if aa_result d = int frame_size then do {
         _ \<leftarrow> modify (\<lambda>s. s\<lparr>au_offset := au_offset s + frame_size\<rparr>);
         play_full_buffer env generation
       } else skip
     }
   }"

datatype audio_op = Audio_init "opus_config option" | Audio_start | Audio_stop | Audio_cleanup | Audio_packet string

definition audio_act :: "audio_env \<Rightarrow> audio \<Rightarrow> audio_op \<Rightarrow> (audio_call, audio_answer) calls \<Rightarrow>
    audio \<times> (audio_call, audio_answer) calls" where
  "audio_act env s x history = (case x of
     Audio_init cfg \<Rightarrow> execute (audio_init env cfg) s history
   | Audio_start \<Rightarrow> (audio_start s, history)
   | Audio_stop \<Rightarrow> (audio_stop s, history)
   | Audio_cleanup \<Rightarrow> execute (audio_cleanup env) s history
   | Audio_packet data \<Rightarrow> execute (decode_and_play env data) s history)"


section \<open>What the decoder and the port demand\<close>

record audio_world =
  aw_decoder :: "(u32 \<times> int) option"
  aw_ports :: "int set"
  aw_refused :: bool

definition audio_world_start :: audio_world where
  "audio_world_start = \<lparr>aw_decoder = None, aw_ports = {}, aw_refused = False\<rparr>"

text \<open>
  There is one decoder at a time, and it may write \<open>n\<close> samples for each of its channels, all within the buffer; a port is used while
  it is open. \<open>aw_refused\<close> says that a port could not be released.
\<close>

fun audio_rule :: "audio_world \<Rightarrow> audio_call \<Rightarrow> audio_answer \<Rightarrow> audio_world option" where
  "audio_rule w (Create_decoder cfg) a =
     (if aw_decoder w \<noteq> None then None
      else Some (if aa_result a < 0 \<or> aa_value a = 0 then w else w\<lparr>aw_decoder := Some (aa_value a, oc_channels cfg)\<rparr>))"
| "audio_rule w (Destroy_decoder d) a = (if map_option fst (aw_decoder w) = Some d then Some (w\<lparr>aw_decoder := None\<rparr>) else None)"
| "audio_rule w Open_port a = Some (if aa_result a < 0 then w else w\<lparr>aw_ports := insert (aa_result a) (aw_ports w)\<rparr>)"
| "audio_rule w (Set_volume p) a = (if p \<in> aw_ports w then Some w else None)"
| "audio_rule w (Drain_port p) a = (if p \<in> aw_ports w then Some w else None)"
| "audio_rule w (Release_port p) a =
     (if p \<notin> aw_ports w then None
      else Some (if aa_result a = 0 then w\<lparr>aw_ports := aw_ports w - {p}\<rparr> else w\<lparr>aw_refused := True\<rparr>))"
| "audio_rule w (Decode_frame d data position n) a =
     (case aw_decoder w of None \<Rightarrow> None
      | Some (d', channels) \<Rightarrow> if d = d' \<and> data \<noteq> [] \<and> position + n * nat channels \<le> buffer_size then Some w else None)"
| "audio_rule w (Play p buffer) a = (if p \<in> aw_ports w \<and> length buffer = buffer_size then Some w else None)"
| "audio_rule w _ a = Some w"

text \<open>\<open>opus_multistream_decode\<close> writes no more than \<open>n\<close> samples for each of two channels.\<close>

definition opus_bounded :: "audio_env \<Rightarrow> bool" where
  "opus_bounded env \<longleftrightarrow> (\<forall>history d data position n. length (aa_samples (env history (Decode_frame d data position n))) \<le> 2 * n)"

definition decoder_rel :: "audio \<Rightarrow> audio_world \<Rightarrow> bool" where
  "decoder_rel s w \<longleftrightarrow>
     (case aw_decoder w of None \<Rightarrow> au_decoder s = 0 | Some (d, ch) \<Rightarrow> au_decoder s = d \<and> d \<noteq> 0 \<and> ch \<le> 2)"

definition port_rel :: "audio \<Rightarrow> audio_world \<Rightarrow> bool" where
  "port_rel s w \<longleftrightarrow> (au_port s \<ge> 0 \<longrightarrow> au_port s \<in> aw_ports w) \<and>
     (\<not> aw_refused w \<longrightarrow> aw_ports w = (if au_port s \<ge> 0 then {au_port s} else {}))"

definition buffer_ok :: "audio \<Rightarrow> bool" where
  "buffer_ok s \<longleftrightarrow> length (au_buffer s) = buffer_size \<and> frame_size dvd au_offset s \<and> au_offset s < vita_samples"

definition audio_rel :: "audio \<Rightarrow> audio_world \<Rightarrow> bool" where
  "audio_rel s w \<longleftrightarrow> decoder_rel s w \<and> port_rel s w \<and> buffer_ok s"

abbreviation audio_safe where
  "audio_safe \<equiv> safe audio_rule audio_world_start"

lemma audio_frame [simp]:
  "decoder_rel (s\<lparr>au_offset := n\<rparr>) w = decoder_rel s w" "decoder_rel (s\<lparr>au_port := p\<rparr>) w = decoder_rel s w"
  "decoder_rel (s\<lparr>au_active := b\<rparr>) w = decoder_rel s w" "decoder_rel (s\<lparr>au_buffer := bs\<rparr>) w = decoder_rel s w"
  "decoder_rel (s\<lparr>au_generation := g\<rparr>) w = decoder_rel s w"
  "decoder_rel s (w\<lparr>aw_ports := ps\<rparr>) = decoder_rel s w" "decoder_rel s (w\<lparr>aw_refused := b\<rparr>) = decoder_rel s w"
  "port_rel (s\<lparr>au_offset := n\<rparr>) w = port_rel s w" "port_rel (s\<lparr>au_decoder := d\<rparr>) w = port_rel s w"
  "port_rel (s\<lparr>au_active := b\<rparr>) w = port_rel s w" "port_rel (s\<lparr>au_buffer := bs\<rparr>) w = port_rel s w"
  "port_rel (s\<lparr>au_generation := g\<rparr>) w = port_rel s w" "port_rel s (w\<lparr>aw_decoder := d'\<rparr>) = port_rel s w"
  "buffer_ok (s\<lparr>au_port := p\<rparr>) = buffer_ok s" "buffer_ok (s\<lparr>au_decoder := d\<rparr>) = buffer_ok s"
  "buffer_ok (s\<lparr>au_active := b\<rparr>) = buffer_ok s" "buffer_ok (s\<lparr>au_generation := g\<rparr>) = buffer_ok s"
  by (simp_all add: decoder_rel_def port_rel_def buffer_ok_def split: option.split)

lemma decoder_gone [simp]: "decoder_rel (s\<lparr>au_decoder := 0\<rparr>) (w\<lparr>aw_decoder := None\<rparr>)"
  by (simp add: decoder_rel_def)

lemma decoder_held: "decoder_rel s w \<Longrightarrow> au_decoder s \<noteq> 0 \<Longrightarrow> map_option fst (aw_decoder w) = Some (au_decoder s)"
  by (auto simp: decoder_rel_def split: option.splits)

lemma decoder_none: "decoder_rel s w \<Longrightarrow> au_decoder s = 0 \<Longrightarrow> aw_decoder w = None"
  by (auto simp: decoder_rel_def split: option.splits)

lemma port_held: "port_rel s w \<Longrightarrow> 0 \<le> au_port s \<Longrightarrow> au_port s \<in> aw_ports w"
  by (simp add: port_rel_def)

lemma port_released:
  "port_rel s w \<Longrightarrow> au_port s = p \<Longrightarrow> 0 \<le> p \<Longrightarrow> ps = aw_ports w \<Longrightarrow>
     port_rel (s\<lparr>au_port := - 1\<rparr>) (w\<lparr>aw_ports := ps - {p}\<rparr>)"
  by (auto simp: port_rel_def)

lemma port_refused: "port_rel s w \<Longrightarrow> 0 \<le> au_port s \<Longrightarrow> port_rel s (w\<lparr>aw_refused := True\<rparr>)"
  by (simp add: port_rel_def)

lemma buffer_start [simp]: "buffer_ok s \<Longrightarrow> buffer_ok (s\<lparr>au_offset := 0\<rparr>)"
  by (simp add: buffer_ok_def vita_samples_def)

lemma audio_cleanup_safe:
  "audio_rel s w \<Longrightarrow> audio_safe s w (audio_cleanup env)
     (\<lambda>_ s w. audio_rel s w \<and> aw_decoder w = None \<and> (0 \<le> au_port s \<longrightarrow> aw_refused w))"
  unfolding audio_cleanup_def audio_rel_def
  by (auto intro!: safe_intro simp: decoder_held port_held port_released port_refused decoder_none)

lemma opened:
  "port_rel s w \<Longrightarrow> 0 \<le> au_port s \<longrightarrow> aw_refused w \<Longrightarrow> 0 \<le> p \<Longrightarrow>
     port_rel (s\<lparr>au_port := p\<rparr>) (w\<lparr>aw_ports := insert p (aw_ports w)\<rparr>)"
  "port_rel s w \<Longrightarrow> 0 \<le> au_port s \<longrightarrow> aw_refused w \<Longrightarrow> p < 0 \<Longrightarrow> port_rel (s\<lparr>au_port := p\<rparr>) w"
  by (auto simp: port_rel_def split: if_splits)

lemma audio_open_safe:
  "audio_rel s w \<Longrightarrow> 0 \<le> au_port s \<longrightarrow> aw_refused w \<Longrightarrow> audio_safe s w (audio_open env cfg) (\<lambda>_. audio_rel)"
  unfolding audio_open_def
  by (auto intro!: safe_intro safe_bind [OF audio_cleanup_safe] simp: audio_rel_def opened)

lemma decoder_created:
  "decoder_rel s w \<Longrightarrow> oc_channels cfg \<le> 2 \<Longrightarrow> d \<noteq> 0 \<Longrightarrow>
     decoder_rel (s\<lparr>au_decoder := d\<rparr>) (w\<lparr>aw_decoder := Some (d, oc_channels cfg)\<rparr>)"
  by (simp add: decoder_rel_def)

lemma decoder_failed: "decoder_rel s w \<Longrightarrow> aw_decoder w = None \<Longrightarrow> decoder_rel (s\<lparr>au_decoder := 0\<rparr>) w"
  by (simp add: decoder_rel_def)

lemma audio_init_some_safe:
  assumes "audio_rel s w" "oc_channels cfg \<le> 2"
  shows "audio_safe s w (audio_init env (Some cfg)) (\<lambda>_. audio_rel)"
  unfolding audio_init_def option.case
  using assms
  by (auto intro!: safe_intro safe_bind [OF audio_cleanup_safe] audio_open_safe
      simp: audio_rel_def decoder_created decoder_failed decoder_none)


section \<open>A packet\<close>

lemma clock_if_safe [safe_intro]: "(\<And>t. audio_safe s w (g t) Q) \<Longrightarrow> audio_safe s w (State_Monad.bind (clock_if env b) g) Q"
  unfolding clock_if_def by (auto intro!: safe_intro)

lemma note_if_safe:
  assumes "\<And>us a. audio_rule w (note us) a = Some w"
  shows "audio_safe s w (note_if env b note start_us) (\<lambda>_ s' w'. s' = s \<and> w' = w)"
  unfolding note_if_def using assms by (auto intro!: safe_intro)

text \<open>Whether the buffer has room for one more frame, or is full.\<close>

definition buffer_next :: "audio \<Rightarrow> bool" where
  "buffer_next s \<longleftrightarrow> length (au_buffer s) = buffer_size \<and> frame_size dvd au_offset s \<and> au_offset s \<le> vita_samples"

lemma buffer_next_ok: "buffer_next s \<Longrightarrow> au_offset s \<noteq> vita_samples \<Longrightarrow> buffer_ok s"
  by (simp add: buffer_next_def buffer_ok_def)

lemma buffer_advance:
  assumes "buffer_ok s"
  shows "buffer_next (s\<lparr>au_offset := au_offset s + frame_size\<rparr>)" "2 * au_offset s + frame_size * 2 \<le> buffer_size"
proof -
  obtain k where "au_offset s = 240 * k" "240 * k < 960"
    using assms by (auto simp: buffer_ok_def vita_samples_def frame_size_def)
  then show "buffer_next (s\<lparr>au_offset := au_offset s + frame_size\<rparr>)" "2 * au_offset s + frame_size * 2 \<le> buffer_size"
    using assms by (auto simp: buffer_ok_def buffer_next_def vita_samples_def frame_size_def buffer_size_def)
qed

lemma play_full_buffer_safe:
  assumes "decoder_rel s w" "port_rel s w" "buffer_next s" "0 \<le> au_port s"
  shows "audio_safe s w (play_full_buffer env generation) (\<lambda>_. audio_rel)"
proof -
  have "buffer_ok (s\<lparr>au_offset := 0\<rparr>)" "length (au_buffer s) = buffer_size"
    using assms(3) by (simp_all add: buffer_next_def buffer_ok_def vita_samples_def)
  then show ?thesis
    unfolding play_full_buffer_def using assms
    by (auto intro!: safe_intro safe_weaken [OF note_if_safe] simp: audio_rel_def port_held buffer_next_ok)
qed

lemma decoder_fits:
  assumes "decoder_rel s w" "buffer_ok s" "au_decoder s \<noteq> 0" "data \<noteq> []"
  shows "audio_rule w (Decode_frame (au_decoder s) data (2 * au_offset s) frame_size) a = Some w"
proof -
  obtain ch where w: "aw_decoder w = Some (au_decoder s, ch)" "ch \<le> 2"
    using assms by (auto simp: decoder_rel_def split: option.splits)
  have "frame_size * nat ch \<le> frame_size * 2"
    using w(2) by (intro mult_le_mono2) linarith
  then have "2 * au_offset s + frame_size * nat ch \<le> buffer_size"
    using buffer_advance(2) [OF assms(2)] by linarith
  then show ?thesis
    using w assms(4) by simp
qed

lemma decode_and_play_safe:
  assumes "audio_rel s w" "opus_bounded env"
  shows "audio_safe s w (decode_and_play env data) (\<lambda>_. audio_rel)"
proof -
  have "\<exists>w'. audio_rule w (Decode_frame (au_decoder s) data (2 * au_offset s) frame_size) a = Some w' \<and>
      audio_safe s w' (do {
         _ \<leftarrow> modify (\<lambda>t. t\<lparr>au_buffer := overwrite (2 * au_offset s) (aa_samples a) (au_buffer t)\<rparr>);
         _ \<leftarrow> note_if env (g \<noteq> 0) (\<lambda>us. Note_decode g us (aa_result a \<noteq> int frame_size)) start_us;
         if aa_result a = int frame_size then do {
           _ \<leftarrow> modify (\<lambda>s. s\<lparr>au_offset := au_offset s + frame_size\<rparr>);
           play_full_buffer env g
         } else skip
       }) (\<lambda>_. audio_rel)"
    if "au_decoder s \<noteq> 0" "data \<noteq> []" "0 \<le> au_port s" "length (aa_samples a) \<le> 2 * frame_size" for a start_us g
  proof -
    have rel: "decoder_rel s w" "port_rel s w" "buffer_ok s"
      using assms(1) by (simp_all add: audio_rel_def)
    let ?s = "s\<lparr>au_buffer := overwrite (2 * au_offset s) (aa_samples a) (au_buffer s)\<rparr>"
    have "length (overwrite (2 * au_offset s) (aa_samples a) (au_buffer s)) = length (au_buffer s)"
      using buffer_advance(2) [OF rel(3)] rel(3) that(4) by (simp add: buffer_ok_def)
    then have "buffer_ok ?s"
      using rel(3) by (simp add: buffer_ok_def)
    then show ?thesis
      using rel that decoder_fits [OF rel(1,3) that(1,2)] buffer_advance(1) [OF \<open>buffer_ok ?s\<close>]
      by (auto intro!: safe_intro safe_bind [OF note_if_safe] safe_weaken [OF note_if_safe] play_full_buffer_safe
          simp: audio_rel_def)
  qed
  then show ?thesis
    unfolding decode_and_play_def
    using assms by (auto intro!: safe_look safe_if safe_return clock_if_safe safe_ask_when [where P = "\<lambda>a. length (aa_samples a) \<le> 2 * frame_size"]
      simp: opus_bounded_def simp del: audio_rule.simps)
qed

definition audio_ok :: "audio \<Rightarrow> audio_op \<Rightarrow> bool" where
  "audio_ok s x \<longleftrightarrow> (case x of Audio_init (Some cfg) \<Rightarrow> oc_channels cfg \<le> 2 | _ \<Rightarrow> True)"

lemma audio_act_obeys:
  assumes "accept audio_rule audio_world_start history = Some w" "opus_bounded env \<and> audio_rel s w" "audio_ok s x"
    "audio_act env s x history = (s', history')"
  shows "\<exists>w'. accept audio_rule audio_world_start history' = Some w' \<and> opus_bounded env \<and> audio_rel s' w'"
proof (cases x)
  case (Audio_init config)
  show ?thesis
  proof (cases config)
    case None
    then show ?thesis
      using assms by (auto simp: audio_act_def Audio_init audio_init_def execute_def)
  next
    case (Some cfg)
    then show ?thesis
      using execute_obeys [OF audio_init_some_safe assms(1)] assms by (auto simp: audio_act_def Audio_init audio_ok_def)
  qed
next
  case Audio_cleanup
  have "audio_safe s w (audio_cleanup env) (\<lambda>_. audio_rel)"
    using assms(2) by (blast intro: safe_weaken [OF audio_cleanup_safe])
  from execute_obeys [OF this assms(1)] assms show ?thesis
    by (auto simp: audio_act_def Audio_cleanup)
next
  case (Audio_packet data)
  then show ?thesis
    using execute_obeys [OF decode_and_play_safe assms(1)] assms by (auto simp: audio_act_def)
qed (use assms in \<open>auto simp: audio_act_def audio_start_def audio_stop_def audio_rel_def\<close>)

interpretation audio: client "audio_act env" audio_rule audio_world_start "\<lambda>s w. opus_bounded env \<and> audio_rel s w" audio_ok for env
  by unfold_locales (rule audio_act_obeys)

lemma audio_rel_boot: "audio_rel audio_boot audio_world_start"
  by (simp add: audio_rel_def decoder_rel_def port_rel_def buffer_ok_def audio_boot_def audio_world_start_def buffer_size_def
      vita_samples_def)

text \<open>
  Property C28. Over all sessions, and whatever the decoder and the port answer, as long as no more than two channels are
  configured: the decoder never gets to write past the buffer, it is made and destroyed in turn and used in
  between, only whole buffers are played, on a port that is open, and no port is released twice; a port is lost only when its
  release was refused.
\<close>

theorem audio_safe_in_bounds:
  assumes "opus_bounded env" "allowed (audio_act env) audio_ok audio_boot ops []"
  shows "case perform (audio_act env) audio_boot ops [] of
     (s, history) \<Rightarrow> \<exists>w. accept audio_rule audio_world_start history = Some w \<and> length (au_buffer s) = buffer_size \<and>
       (\<not> aw_refused w \<longrightarrow> aw_ports w = (if au_port s \<ge> 0 then {au_port s} else {}))"
  using audio.run_obeys [OF conjI [OF assms(1) audio_rel_boot] assms(2)]
  by (auto simp: audio_rel_def port_rel_def buffer_ok_def)


section \<open>What is played\<close>

text \<open>
  The frames that have been decoded and not played yet: a buffer is played as soon as there are four, and it consists of
  them.
\<close>

fun sound_rule :: "16 word list list \<Rightarrow> audio_call \<Rightarrow> audio_answer \<Rightarrow> 16 word list list option" where
  "sound_rule waiting (Decode_frame d data position n) a =
     (if length waiting \<ge> 4 then None else Some (if aa_result a = int frame_size then waiting @ [aa_samples a] else waiting))"
| "sound_rule waiting (Play p buffer) a = (if length waiting = 4 \<and> buffer = concat waiting then Some [] else None)"
| "sound_rule waiting _ a = Some waiting"

text \<open>With two channels, \<open>opus_multistream_decode\<close> writes two samples for each one that it reports, and no more than \<open>n\<close>.\<close>

definition opus_stereo_answer :: "nat \<Rightarrow> audio_answer \<Rightarrow> bool" where
  "opus_stereo_answer n a \<longleftrightarrow> length (aa_samples a) = 2 * nat (aa_result a) \<and> aa_result a \<le> int n"

definition opus_stereo :: "audio_env \<Rightarrow> bool" where
  "opus_stereo env \<longleftrightarrow> (\<forall>history d data position n. opus_stereo_answer n (env history (Decode_frame d data position n)))"

definition sound_next :: "audio \<Rightarrow> 16 word list list \<Rightarrow> bool" where
  "sound_next s waiting \<longleftrightarrow> au_offset s = frame_size * length waiting \<and> length waiting \<le> 4 \<and>
     length (concat waiting) = 2 * au_offset s \<and> take (2 * au_offset s) (au_buffer s) = concat waiting \<and>
     length (au_buffer s) = buffer_size"

definition sound_rel :: "audio \<Rightarrow> 16 word list list \<Rightarrow> bool" where
  "sound_rel s waiting \<longleftrightarrow> sound_next s waiting \<and> length waiting < 4"

abbreviation sound_safe where
  "sound_safe \<equiv> safe sound_rule ([] :: 16 word list list)"

lemma sound_note_if:
  assumes "\<And>us a. sound_rule w (note us) a = Some w"
  shows "sound_safe s w (note_if env b note start_us) (\<lambda>_ s' w'. s' = s \<and> w' = w)"
  unfolding note_if_def using assms by (auto intro!: safe_intro)

lemma sound_clock_if [safe_intro]: "(\<And>t. sound_safe s w (g t) Q) \<Longrightarrow> sound_safe s w (State_Monad.bind (clock_if env b) g) Q"
  unfolding clock_if_def by (auto intro!: safe_intro)

lemma sound_played:
  assumes "sound_next s waiting"
  shows "au_offset s = vita_samples \<longleftrightarrow> length waiting = 4" "length waiting = 4 \<Longrightarrow> au_buffer s = concat waiting"
    "sound_next (s\<lparr>au_offset := 0\<rparr>) []"
  using assms by (auto simp: sound_next_def vita_samples_def frame_size_def buffer_size_def)

lemma play_full_buffer_sound:
  assumes "sound_next s waiting"
  shows "sound_safe s waiting (play_full_buffer env generation) (\<lambda>_. sound_rel)"
  unfolding play_full_buffer_def using assms sound_played [OF assms]
  by (auto intro!: safe_intro safe_weaken [OF sound_note_if] simp: sound_rel_def) (simp add: sound_next_def)

lemma sound_written:
  assumes "sound_rel s waiting" "opus_stereo_answer frame_size a"
  shows "sound_rel (s\<lparr>au_buffer := overwrite (2 * au_offset s) (aa_samples a) (au_buffer s)\<rparr>) waiting"
    "aa_result a = int frame_size \<Longrightarrow> sound_next (s\<lparr>au_buffer := overwrite (2 * au_offset s) (aa_samples a) (au_buffer s),
      au_offset := au_offset s + frame_size\<rparr>) (waiting @ [aa_samples a])"
proof -
  have n: "length waiting < 4" "au_offset s = 240 * length waiting" "length (au_buffer s) = 1920"
    using assms(1) by (auto simp: sound_rel_def sound_next_def frame_size_def buffer_size_def vita_samples_def)
  have ys: "length (aa_samples a) \<le> 480" "aa_result a = 240 \<Longrightarrow> length (aa_samples a) = 480"
    using assms(2) by (auto simp: opus_stereo_answer_def frame_size_def)
  have "length (overwrite (2 * au_offset s) (aa_samples a) (au_buffer s)) = 1920"
    using n ys by simp
  moreover have "take (2 * au_offset s) (overwrite (2 * au_offset s) (aa_samples a) (au_buffer s)) = take (2 * au_offset s) (au_buffer s)"
    using n by (simp add: take_overwrite)
  ultimately show "sound_rel (s\<lparr>au_buffer := overwrite (2 * au_offset s) (aa_samples a) (au_buffer s)\<rparr>) waiting"
    using assms(1) by (auto simp: sound_rel_def sound_next_def buffer_size_def vita_samples_def)
  assume result: "aa_result a = int frame_size"
  then have len: "length (aa_samples a) = 480"
    using ys by (simp add: frame_size_def)
  have "take (2 * (au_offset s + 240)) (overwrite (2 * au_offset s) (aa_samples a) (au_buffer s)) =
      take (2 * au_offset s) (au_buffer s) @ aa_samples a"
    using n len take_overwrite_new [of "2 * au_offset s" "au_buffer s" "aa_samples a"] by (simp add: algebra_simps)
  then show "sound_next (s\<lparr>au_buffer := overwrite (2 * au_offset s) (aa_samples a) (au_buffer s),
      au_offset := au_offset s + frame_size\<rparr>) (waiting @ [aa_samples a])"
    using assms(1) n len \<open>length (overwrite _ _ _) = 1920\<close>
    by (simp add: sound_rel_def sound_next_def frame_size_def buffer_size_def vita_samples_def)
qed

lemma decode_and_play_sound:
  assumes "sound_rel s waiting" "opus_stereo env"
  shows "sound_safe s waiting (decode_and_play env data) (\<lambda>_. sound_rel)"
proof -
  have "\<exists>w'. sound_rule waiting (Decode_frame d data (2 * au_offset s) frame_size) a = Some w' \<and>
      sound_safe s w' (do {
         _ \<leftarrow> modify (\<lambda>t. t\<lparr>au_buffer := overwrite (2 * au_offset s) (aa_samples a) (au_buffer t)\<rparr>);
         _ \<leftarrow> note_if env (g \<noteq> 0) (\<lambda>us. Note_decode g us (aa_result a \<noteq> int frame_size)) start_us;
         if aa_result a = int frame_size then do {
           _ \<leftarrow> modify (\<lambda>s. s\<lparr>au_offset := au_offset s + frame_size\<rparr>);
           play_full_buffer env g
         } else skip
       }) (\<lambda>_. sound_rel)"
    if "opus_stereo_answer frame_size a" for a start_us g d
    using assms(1) sound_written [OF assms(1) that]
    by (auto intro!: safe_intro safe_bind [OF sound_note_if] safe_weaken [OF sound_note_if] play_full_buffer_sound
        simp: sound_rel_def)
  then show ?thesis
    unfolding decode_and_play_def
    using assms by (auto intro!: safe_look safe_if safe_return sound_clock_if safe_ask_when [where P = "opus_stereo_answer frame_size"]
      simp: opus_stereo_def simp del: sound_rule.simps)
qed

text \<open>While a session plays, there are packets, until it stops.\<close>

definition session_ok :: "audio \<Rightarrow> audio_op \<Rightarrow> bool" where
  "session_ok s x \<longleftrightarrow> (case x of Audio_packet _ \<Rightarrow> True | Audio_stop \<Rightarrow> True | _ \<Rightarrow> False)"

lemma audio_act_sound:
  assumes "accept sound_rule [] history = Some w" "opus_stereo env \<and> sound_rel s w" "session_ok s x"
    "audio_act env s x history = (s', history')"
  shows "\<exists>w'. accept sound_rule [] history' = Some w' \<and> opus_stereo env \<and> sound_rel s' w'"
proof (cases x)
  case (Audio_packet data)
  then show ?thesis
    using execute_obeys [OF decode_and_play_sound assms(1)] assms by (auto simp: audio_act_def)
qed (use assms in \<open>auto simp: audio_act_def audio_stop_def sound_rel_def sound_next_def session_ok_def\<close>)

interpretation sound: client "audio_act env" sound_rule "[]" "\<lambda>s w. opus_stereo env \<and> sound_rel s w" session_ok for env
  by unfold_locales (rule audio_act_sound)

text \<open>The frames that the decoder has delivered whole, and the buffers that were played, in order.\<close>

definition frames :: "(audio_call, audio_answer) calls \<Rightarrow> 16 word list list" where
  "frames history = concat (map (\<lambda>(c, a). case c of
     Decode_frame d data position n \<Rightarrow> if aa_result a = int frame_size then [aa_samples a] else [] | _ \<Rightarrow> []) history)"

definition played :: "(audio_call, audio_answer) calls \<Rightarrow> 16 word list list" where
  "played history = concat (map (\<lambda>(c, a). case c of Play port buffer \<Rightarrow> [buffer] | _ \<Rightarrow> []) history)"

fun fours :: "'a list list \<Rightarrow> 'a list list" where
  "fours (a # b # c # d # xs) = (a @ b @ c @ d) # fours xs"
| "fours _ = []"

lemma fours_four: "length xs = 4 \<Longrightarrow> fours (xs @ ys) = concat xs # fours ys"
  by (auto simp: length_Suc_conv numeral_eq_Suc)

lemma fours_few: "length xs < 4 \<Longrightarrow> fours xs = []"
  by (cases xs rule: fours.cases) auto

lemma sound_fours:
  "accept sound_rule waiting history = Some waiting' \<Longrightarrow> length waiting' < 4 \<Longrightarrow>
     fours (waiting @ frames history) = played history"
proof (induction history arbitrary: waiting)
  case (Cons x history)
  obtain c a where x: "x = (c, a)" by fastforce
  with Cons.prems obtain w where w: "sound_rule waiting c a = Some w" "accept sound_rule w history = Some waiting'"
    by (auto split: option.splits)
  note IH = Cons.IH [OF w(2) Cons.prems(2)]
  show ?case
    using w(1) IH by (cases c) (auto simp: x frames_def played_def fours_four split: if_splits)
qed (simp add: frames_def played_def fours_few)

text \<open>
  Property C29. What is heard: from the start of a session on, whatever the packets and the answers of the decoder, the buffers that
  are played are the decoded frames, four at a time, in their order, with none left out and none repeated; frames that
  could not be decoded leave no gap.
\<close>

theorem audio_plays_frames:
  assumes "opus_stereo env" "length (au_buffer s) = buffer_size"
    "perform (audio_act env) (audio_start s) (map Audio_packet packets) [] = (s', history)"
  shows "played history = fours (frames history)"
proof -
  have "sound_rel (audio_start s) []"
    using assms(2) by (simp add: sound_rel_def sound_next_def audio_start_def)
  moreover have "allowed (audio_act env) session_ok t (map Audio_packet packets) h" for t h
    by (induction packets arbitrary: t h) (auto simp: session_ok_def split: prod.split)
  ultimately obtain waiting where "accept sound_rule [] history = Some waiting" "sound_rel s' waiting"
    using sound.run_obeys [of env "audio_start s" "map Audio_packet packets"] assms(1,3) by auto
  then show ?thesis
    using sound_fours [of "[]" history waiting] by (simp add: sound_rel_def)
qed


section \<open>An example\<close>

text \<open>A decoder that always delivers a whole frame of one tone, and a port with the number 3.\<close>

definition tone_env :: audio_env where
  "tone_env history c = (case c of
     Decode_frame d data position n \<Rightarrow> \<lparr>aa_result = int n, aa_value = 0, aa_time = 0, aa_samples = replicate (2 * n) 7\<rparr>
   | Create_decoder cfg \<Rightarrow> \<lparr>aa_result = 0, aa_value = 5, aa_time = 0, aa_samples = []\<rparr>
   | Open_port \<Rightarrow> \<lparr>aa_result = 3, aa_value = 0, aa_time = 0, aa_samples = []\<rparr>
   | _ \<Rightarrow> \<lparr>aa_result = 0, aa_value = 0, aa_time = 0, aa_samples = []\<rparr>)"

lemma tone_env_contract: "opus_bounded tone_env" "opus_stereo tone_env"
  by (simp_all add: opus_bounded_def opus_stereo_def opus_stereo_answer_def tone_env_def)

definition stereo :: opus_config where
  "stereo = \<lparr>oc_rate = 48000, oc_channels = 2, oc_streams = 1, oc_coupled = 1\<rparr>"

theorem audio_safe_in_bounds_witness:
  "case perform (audio_act tone_env) audio_boot [Audio_init (Some stereo), Audio_start, Audio_packet ''ab'', Audio_cleanup] [] of
     (s, history) \<Rightarrow> accept audio_rule audio_world_start history \<noteq> None \<and> length (au_buffer s) = buffer_size"
proof -
  have "audio_ok s (Audio_init (Some stereo))" "audio_ok s Audio_start" "audio_ok s (Audio_packet p)" "audio_ok s Audio_cleanup" for s p
    by (simp_all add: audio_ok_def stereo_def)
  then have "allowed (audio_act tone_env) audio_ok audio_boot
      [Audio_init (Some stereo), Audio_start, Audio_packet ''ab'', Audio_cleanup] []"
    by (simp split: prod.split)
  from audio_safe_in_bounds [OF tone_env_contract(1) this] show ?thesis by auto
qed

theorem audio_plays_frames_witness:
  "case perform (audio_act tone_env) (audio_start (audio_boot\<lparr>au_decoder := 5, au_port := 3\<rparr>))
       (map Audio_packet [''a'', ''b'', ''c'', ''d'', ''e'']) [] of
     (s, history) \<Rightarrow> played history = fours (frames history)"
proof -
  have "length (au_buffer (audio_boot\<lparr>au_decoder := 5, au_port := 3\<rparr>)) = buffer_size"
    by (simp add: audio_boot_def)
  from audio_plays_frames [OF tone_env_contract(2) this, where packets = "[''a'', ''b'', ''c'', ''d'', ''e'']"]
  show ?thesis by (simp split: prod.split)
qed

end
