(* ===== verification/StreamStats.thy ===== *)
theory StreamStats imports Prelude Complex_Main begin

text \<open>
  The statistics of a stream (\<open>src/moonlight/stream_stats.c\<close>). The threads of the stream report events,
  each with the token of its session; an event of another session, or of one that has ended, does nothing. Counters are
  kept for two buckets of a second, the current one and the one before, and rates are computed over both.

  The clock is an argument: \<open>now\<close> is what \<open>LiGetMicroseconds\<close> returns. The mutex makes every function one step.
  Counters are words of their widths and wrap around; \<open>double\<close> is modelled by \<^typ>\<open>real\<close>.
\<close>

section \<open>Data\<close>

datatype timing_index = Reassembly | Decode_call | Prequeue | Vblank | Paf_queue | Paf_cpu | Audio_decode_call | Audio_output_call

record timing =
  tm_samples :: u64
  tm_total :: u64
  tm_maximum :: u64

definition timing_zero :: timing where
  "timing_zero = \<lparr>tm_samples = 0, tm_total = 0, tm_maximum = 0\<rparr>"

record bucket =
  bk_received :: u64
  bk_decoded :: u64
  bk_presented :: u64
  bk_queued :: u64
  bk_bytes :: u64
  bk_missing :: u64
  bk_pacer_drops :: u64
  bk_replacements :: u64
  bk_host_samples :: u64
  bk_host_total :: u64
  bk_host_min :: u32
  bk_host_max :: u32
  bk_timing :: "timing_index \<Rightarrow> timing"

definition bucket_zero :: bucket where
  "bucket_zero = \<lparr>bk_received = 0, bk_decoded = 0, bk_presented = 0, bk_queued = 0, bk_bytes = 0, bk_missing = 0,
     bk_pacer_drops = 0, bk_replacements = 0, bk_host_samples = 0, bk_host_total = 0, bk_host_min = 0, bk_host_max = 0,
     bk_timing = (\<lambda>_. timing_zero)\<rparr>"

record timing_stats =
  ti_samples :: u64
  ti_average_ms :: real
  ti_maximum_ms :: real

definition timing_stats_zero :: timing_stats where
  "timing_stats_zero = \<lparr>ti_samples = 0, ti_average_ms = 0, ti_maximum_ms = 0\<rparr>"

datatype stream_warning = Warning_none | Warning_connection | Warning_low_bitrate | Warning_stalled

record stream_stats =
  sx_generation :: u32
  sx_enabled :: bool
  sx_active :: bool
  sx_connection_poor :: bool
  sx_warning :: stream_warning
  sx_width :: int
  sx_height :: int
  sx_video_format :: int
  sx_target_fps :: int
  sx_bitrate_kbps :: int
  sx_frame_pacer :: int
  sx_vblank_wait :: int
  sx_center_region :: int
  sx_output_width :: u32
  sx_output_height :: u32
  sx_output_pitch :: u32
  sx_has_video :: bool
  sx_video_age_us :: u64
  sx_incoming_fps :: real
  sx_decoded_fps :: real
  sx_paf_submit_fps :: real
  sx_payload_mbps :: real
  sx_missing_percent :: real
  sx_pacer_drop_percent :: real
  sx_replaced_percent :: real
  sx_received_frames :: u64
  sx_missing_frames :: u64
  sx_pacer_drops :: u64
  sx_pending_replacements :: u64
  sx_decode_errors :: u64
  sx_idr_returns :: u64
  sx_idr_frames :: u64
  sx_no_output :: u64
  sx_host_latency_samples :: u64
  sx_host_latency_min_ms :: real
  sx_host_latency_max_ms :: real
  sx_host_latency_average_ms :: real
  sx_rtt_valid :: bool
  sx_rtt_ms :: u32
  sx_rtt_variation_ms :: u32
  sx_audio_sample_rate :: int
  sx_audio_channels :: int
  sx_audio_decode_errors :: u64
  sx_audio_output_errors :: u64
  sx_timings :: "timing_index \<Rightarrow> timing_stats"

text \<open>The eight members for the timings of the struct are one function here. What \<open>memset\<close> leaves:\<close>

definition stream_stats_zero :: stream_stats where
  "stream_stats_zero = \<lparr>sx_generation = 0, sx_enabled = False, sx_active = False, sx_connection_poor = False,
     sx_warning = Warning_none, sx_width = 0, sx_height = 0, sx_video_format = 0, sx_target_fps = 0, sx_bitrate_kbps = 0,
     sx_frame_pacer = 0, sx_vblank_wait = 0, sx_center_region = 0, sx_output_width = 0, sx_output_height = 0,
     sx_output_pitch = 0, sx_has_video = False, sx_video_age_us = 0, sx_incoming_fps = 0, sx_decoded_fps = 0,
     sx_paf_submit_fps = 0, sx_payload_mbps = 0, sx_missing_percent = 0, sx_pacer_drop_percent = 0,
     sx_replaced_percent = 0, sx_received_frames = 0, sx_missing_frames = 0, sx_pacer_drops = 0,
     sx_pending_replacements = 0, sx_decode_errors = 0, sx_idr_returns = 0, sx_idr_frames = 0, sx_no_output = 0,
     sx_host_latency_samples = 0, sx_host_latency_min_ms = 0, sx_host_latency_max_ms = 0,
     sx_host_latency_average_ms = 0, sx_rtt_valid = False, sx_rtt_ms = 0, sx_rtt_variation_ms = 0,
     sx_audio_sample_rate = 0, sx_audio_channels = 0, sx_audio_decode_errors = 0, sx_audio_output_errors = 0,
     sx_timings = (\<lambda>_. timing_stats_zero)\<rparr>"

record stats =
  sw_session :: stream_stats
  sw_current :: bucket
  sw_previous :: bucket
  sw_start :: u64
  sw_bucket_start :: u64
  sw_last_video :: u64
  sw_last_frame :: u32
  sw_has_last_frame :: bool

definition stats_boot :: stats where
  "stats_boot = \<lparr>sw_session = stream_stats_zero, sw_current = bucket_zero, sw_previous = bucket_zero, sw_start = 0,
     sw_bucket_start = 0, sw_last_video = 0, sw_last_frame = 0, sw_has_last_frame = False\<rparr>"

abbreviation current :: "(bucket \<Rightarrow> bucket) \<Rightarrow> stats \<Rightarrow> stats" where
  "current f \<equiv> sw_current_update f"

abbreviation session :: "(stream_stats \<Rightarrow> stream_stats) \<Rightarrow> stats \<Rightarrow> stats" where
  "session f \<equiv> sw_session_update f"

section \<open>The window\<close>

definition stats_bucket_us :: u64 where "stats_bucket_us = 1000000"

definition advance_window :: "u64 \<Rightarrow> stats \<Rightarrow> stats" where
  "advance_window now s =
     (let steps = (now - sw_bucket_start s) div stats_bucket_us in
      if steps = 0 then s
      else s\<lparr>sw_previous := (if steps = 1 then sw_current s else bucket_zero), sw_current := bucket_zero,
             sw_bucket_start := sw_bucket_start s + steps * stats_bucket_us\<rparr>)"

text \<open>\<open>None\<close> is the return of 0, when nothing may be recorded.\<close>

definition begin_update :: "u32 \<Rightarrow> u64 \<Rightarrow> stats \<Rightarrow> stats option" where
  "begin_update generation now s =
     (if generation = 0 \<or> generation \<noteq> sx_generation (sw_session s) \<or> \<not> sx_active (sw_session s) then None
      else Some (advance_window now s))"

definition note_timing :: "timing_index \<Rightarrow> u64 \<Rightarrow> stats \<Rightarrow> stats" where
  "note_timing i us = current (\<lambda>b. b\<lparr>bk_timing := (bk_timing b)(i := (let t = bk_timing b i in
     \<lparr>tm_samples = tm_samples t + 1, tm_total = tm_total t + us,
      tm_maximum = (if us > tm_maximum t then us else tm_maximum t)\<rparr>))\<rparr>)"

section \<open>A session\<close>

record stats_settings =
  se_show_fps :: int
  se_width :: int
  se_height :: int
  se_fps :: int
  se_bitrate :: int
  se_frame_pacer :: int
  se_vblank_wait :: int
  se_center_region :: int

definition stats_begin :: "stats_settings \<Rightarrow> u64 \<Rightarrow> stats \<Rightarrow> u32 \<times> stats" where
  "stats_begin settings now s =
     (let g = sx_generation (sw_session s) + 1; generation = (if g = 0 then 1 else g)
      in (generation,
          \<lparr>sw_session = stream_stats_zero\<lparr>sx_generation := generation, sx_enabled := se_show_fps settings \<noteq> 0, sx_active := True,
             sx_width := se_width settings, sx_height := se_height settings, sx_target_fps := se_fps settings,
             sx_bitrate_kbps := se_bitrate settings, sx_frame_pacer := se_frame_pacer settings,
             sx_vblank_wait := se_vblank_wait settings, sx_center_region := se_center_region settings\<rparr>,
           sw_current = bucket_zero, sw_previous = bucket_zero, sw_start = now, sw_bucket_start = now,
           sw_last_video = 0, sw_last_frame = 0, sw_has_last_frame = False\<rparr>))"

definition stats_end :: "u32 \<Rightarrow> stats \<Rightarrow> stats" where
  "stats_end generation s =
     (if generation \<noteq> 0 \<and> generation = sx_generation (sw_session s)
      then session (\<lambda>x. x\<lparr>sx_active := False, sx_rtt_valid := False\<rparr>) s else s)"

text \<open>The result and what is written through the pointer: the tokens for the events of the decoder and of the receiver.\<close>

definition configure_video :: "int \<Rightarrow> int \<Rightarrow> int \<Rightarrow> int \<Rightarrow> stats \<Rightarrow> u32 \<times> u32 \<times> stats" where
  "configure_video format width height fps s =
     (let s = session (\<lambda>x. x\<lparr>sx_video_format := format, sx_width := width, sx_height := height, sx_target_fps := fps\<rparr>) s;
          x = sw_session s
      in (if sx_active x \<and> sx_enabled x then sx_generation x else 0, if sx_active x then sx_generation x else 0, s))"

definition configure_audio :: "int \<Rightarrow> int \<Rightarrow> stats \<Rightarrow> u32 \<times> stats" where
  "configure_audio rate channels s =
     (let s = session (\<lambda>x. x\<lparr>sx_audio_sample_rate := rate, sx_audio_channels := channels\<rparr>) s; x = sw_session s
      in (if sx_active x \<and> sx_enabled x then sx_generation x else 0, s))"

section \<open>Events\<close>

definition connection_status :: "bool \<Rightarrow> stats \<Rightarrow> stats" where
  "connection_status poor = session (\<lambda>x. x\<lparr>sx_connection_poor := poor\<rparr>)"

text \<open>The frame numbers: the distance to the highest one so far, and what lies in between is missing.\<close>

definition note_frame :: "u32 \<Rightarrow> stats \<Rightarrow> stats" where
  "note_frame frame s =
     (if sw_has_last_frame s then
        let delta = frame - sw_last_frame s in
        if delta \<noteq> 0 \<and> delta < 0x80000000
        then (session (\<lambda>x. x\<lparr>sx_missing_frames := sx_missing_frames x + ucast (delta - 1)\<rparr>)
               (current (\<lambda>b. b\<lparr>bk_missing := bk_missing b + ucast (delta - 1)\<rparr>) s))\<lparr>sw_last_frame := frame\<rparr>
        else s
      else s\<lparr>sw_last_frame := frame, sw_has_last_frame := True\<rparr>)"

definition note_host_latency :: "u32 \<Rightarrow> stats \<Rightarrow> stats" where
  "note_host_latency latency = current (\<lambda>b.
     if latency = 0 then b
     else b\<lparr>bk_host_min := (if bk_host_samples b = 0 \<or> latency < bk_host_min b then latency else bk_host_min b),
            bk_host_max := (if latency > bk_host_max b then latency else bk_host_max b),
            bk_host_samples := bk_host_samples b + 1, bk_host_total := bk_host_total b + ucast latency\<rparr>)"

definition received :: "u32 \<Rightarrow> u32 \<Rightarrow> bool \<Rightarrow> u32 \<Rightarrow> u64 \<Rightarrow> u64 \<Rightarrow> u64 \<Rightarrow> stats \<Rightarrow> stats" where
  "received frame bytes idr latency receive_us enqueue_us video_us s =
     (let s = (current (\<lambda>b. b\<lparr>bk_received := bk_received b + 1, bk_bytes := bk_bytes b + ucast bytes\<rparr>) s)\<lparr>sw_last_video := video_us\<rparr>;
          s = session (\<lambda>x. x\<lparr>sx_received_frames := sx_received_frames x + 1, sx_has_video := True\<rparr>) s;
          s = note_frame frame s
      in if \<not> sx_enabled (sw_session s) then s
         else let s = (if idr then session (\<lambda>x. x\<lparr>sx_idr_frames := sx_idr_frames x + 1\<rparr>) s else s);
                  s = note_host_latency latency s
              in if enqueue_us \<ge> receive_us then note_timing Reassembly (enqueue_us - receive_us) s else s)"

definition decoded :: "u64 \<Rightarrow> u32 \<Rightarrow> bool \<Rightarrow> bool \<Rightarrow> stats \<Rightarrow> stats" where
  "decoded call_us outputs fails pacer_drop s =
     (let s = note_timing Decode_call call_us s in
      if fails then session (\<lambda>x. x\<lparr>sx_decode_errors := sx_decode_errors x + 1\<rparr>) s
      else let s = current (\<lambda>b. b\<lparr>bk_decoded := bk_decoded b + ucast outputs\<rparr>) s;
               s = (if pacer_drop then session (\<lambda>x. x\<lparr>sx_pacer_drops := sx_pacer_drops x + ucast outputs\<rparr>)
                      (current (\<lambda>b. b\<lparr>bk_pacer_drops := bk_pacer_drops b + ucast outputs\<rparr>) s) else s)
           in if outputs = 0 then session (\<lambda>x. x\<lparr>sx_no_output := sx_no_output x + 1\<rparr>) s else s)"

definition idr_return :: "stats \<Rightarrow> stats" where
  "idr_return = session (\<lambda>x. x\<lparr>sx_idr_returns := sx_idr_returns x + 1\<rparr>)"

definition prepared :: "u64 \<Rightarrow> u64 \<Rightarrow> u32 \<Rightarrow> u32 \<Rightarrow> u32 \<Rightarrow> stats \<Rightarrow> stats" where
  "prepared prepare_us vblank_us width height pitch s =
     (let s = note_timing Prequeue prepare_us s;
          s = (if sx_vblank_wait (sw_session s) \<noteq> 0 then note_timing Vblank vblank_us s else s)
      in session (\<lambda>x. x\<lparr>sx_output_width := width, sx_output_height := height, sx_output_pitch := pitch\<rparr>) s)"

definition queued :: "bool \<Rightarrow> stats \<Rightarrow> stats" where
  "queued replaced s =
     (let s = current (\<lambda>b. b\<lparr>bk_queued := bk_queued b + 1\<rparr>) s in
      if replaced then session (\<lambda>x. x\<lparr>sx_pending_replacements := sx_pending_replacements x + 1\<rparr>)
        (current (\<lambda>b. b\<lparr>bk_replacements := bk_replacements b + 1\<rparr>) s) else s)"

definition presented :: "u64 \<Rightarrow> u64 \<Rightarrow> stats \<Rightarrow> stats" where
  "presented queue_us cpu_us s =
     note_timing Paf_cpu cpu_us (note_timing Paf_queue queue_us (current (\<lambda>b. b\<lparr>bk_presented := bk_presented b + 1\<rparr>) s))"

definition network :: "bool \<Rightarrow> u32 \<Rightarrow> u32 \<Rightarrow> stats \<Rightarrow> stats" where
  "network valid rtt variation =
     session (\<lambda>x. x\<lparr>sx_rtt_valid := valid, sx_rtt_ms := rtt, sx_rtt_variation_ms := variation\<rparr>)"

definition audio_decode :: "u64 \<Rightarrow> bool \<Rightarrow> stats \<Rightarrow> stats" where
  "audio_decode call_us fails s =
     (let s = note_timing Audio_decode_call call_us s in
      if fails then session (\<lambda>x. x\<lparr>sx_audio_decode_errors := sx_audio_decode_errors x + 1\<rparr>) s else s)"

definition audio_output :: "u64 \<Rightarrow> bool \<Rightarrow> stats \<Rightarrow> stats" where
  "audio_output call_us fails s =
     (let s = note_timing Audio_output_call call_us s in
      if fails then session (\<lambda>x. x\<lparr>sx_audio_output_errors := sx_audio_output_errors x + 1\<rparr>) s else s)"

datatype stats_event =
    Connection_status bool
  | Received u32 u32 bool u32 u64 u64 u64
  | Decoded u64 u32 bool bool
  | Idr_return
  | Prepared u64 u64 u32 u32 u32
  | Queued bool
  | Presented u64 u64
  | Network bool u32 u32
  | Audio_decode u64 bool
  | Audio_output u64 bool

fun record_event :: "stats_event \<Rightarrow> stats \<Rightarrow> stats" where
  "record_event (Connection_status poor) = connection_status poor"
| "record_event (Received frame bytes idr latency receive_us enqueue_us video_us) =
     received frame bytes idr latency receive_us enqueue_us video_us"
| "record_event (Decoded us outputs fails dropped) = decoded us outputs fails dropped"
| "record_event Idr_return = idr_return"
| "record_event (Prepared us vblank w h pitch) = prepared us vblank w h pitch"
| "record_event (Queued replaced) = queued replaced"
| "record_event (Presented queue_us cpu_us) = presented queue_us cpu_us"
| "record_event (Network valid rtt variation) = network valid rtt variation"
| "record_event (Audio_decode us fails) = audio_decode us fails"
| "record_event (Audio_output us fails) = audio_output us fails"

text \<open>What the functions for the events have in common: the token is checked and the window advanced first.\<close>

definition update :: "u32 \<Rightarrow> u64 \<Rightarrow> stats_event \<Rightarrow> stats \<Rightarrow> stats" where
  "update generation now e s = (case begin_update generation now s of None \<Rightarrow> s | Some s \<Rightarrow> record_event e s)"

section \<open>Reading\<close>

definition ratio :: "u64 \<Rightarrow> u64 \<Rightarrow> real \<Rightarrow> real" where
  "ratio numerator denominator scale =
     (if denominator = 0 then 0 else real (unat numerator) * scale / real (unat denominator))"

definition stream_warning_of :: "stream_stats \<Rightarrow> u64 \<Rightarrow> stream_warning" where
  "stream_warning_of x elapsed_us =
     (if \<not> sx_active x \<or> elapsed_us < 3000000 then Warning_none
      else if \<not> sx_has_video x \<or> sx_video_age_us x \<ge> 1000000 then Warning_stalled
      else if sx_connection_poor x \<or> sx_missing_percent x \<ge> 5 then
        (if sx_bitrate_kbps x > 0 \<and> sx_payload_mbps x * 1000 < real_of_int (sx_bitrate_kbps x) * 0.5
         then Warning_low_bitrate else Warning_connection)
      else Warning_none)"

definition timing_snapshot :: "stats \<Rightarrow> timing_index \<Rightarrow> timing_stats" where
  "timing_snapshot s i =
     (let a = bk_timing (sw_current s) i; b = bk_timing (sw_previous s) i; samples = tm_samples a + tm_samples b
      in \<lparr>ti_samples = samples, ti_average_ms = ratio (tm_total a + tm_total b) samples 0.001,
          ti_maximum_ms = real (unat (if tm_maximum a > tm_maximum b then tm_maximum a else tm_maximum b)) / 1000\<rparr>)"

definition both :: "(bucket \<Rightarrow> u64) \<Rightarrow> stats \<Rightarrow> u64" where
  "both f s = f (sw_current s) + f (sw_previous s)"

definition host_latency :: "stats \<Rightarrow> stream_stats \<Rightarrow> stream_stats" where
  "host_latency s x =
     (let a = sw_current s; b = sw_previous s; samples = both bk_host_samples s;
          x = x\<lparr>sx_host_latency_samples := samples\<rparr>
      in if samples = 0 then x
         else let m = (if bk_host_samples a \<noteq> 0 then bk_host_min a else bk_host_min b);
                  m = (if bk_host_samples b \<noteq> 0 \<and> bk_host_min b < m then bk_host_min b else m)
              in x\<lparr>sx_host_latency_min_ms := real (unat m) / 10,
                   sx_host_latency_max_ms := real (unat (if bk_host_max a > bk_host_max b then bk_host_max a else bk_host_max b)) / 10,
                   sx_host_latency_average_ms := ratio (both bk_host_total s) samples 0.1\<rparr>)"

definition snapshot_duration :: "u64 \<Rightarrow> stats \<Rightarrow> u64" where
  "snapshot_duration now s =
     now - (if sw_bucket_start s = sw_start s then sw_start s else sw_bucket_start s - stats_bucket_us)"

definition rates :: "u64 \<Rightarrow> stats \<Rightarrow> stream_stats \<Rightarrow> stream_stats" where
  "rates now s x =
     (let duration = snapshot_duration now s in
      x\<lparr>sx_video_age_us := (if sx_has_video x then now - sw_last_video s else 0),
        sx_incoming_fps := ratio (both bk_received s) duration 1000000,
        sx_decoded_fps := ratio (both bk_decoded s) duration 1000000,
        sx_paf_submit_fps := ratio (both bk_presented s) duration 1000000,
        sx_payload_mbps := ratio (both bk_bytes s) duration 8,
        sx_missing_percent := ratio (both bk_missing s) (both bk_received s + both bk_missing s) 100\<rparr>)"

text \<open>\<open>None\<close> is the return of -1 for a null pointer.\<close>

definition stats_snapshot :: "bool \<Rightarrow> u64 \<Rightarrow> stats \<Rightarrow> stream_stats option \<times> stats" where
  "stats_snapshot out now s =
     (if \<not> out then (None, s)
      else let s = advance_window now s;
               x = rates now s (sw_session s);
               x = x\<lparr>sx_warning := stream_warning_of x (now - sw_start s)\<rparr>;
               x = x\<lparr>sx_pacer_drop_percent := ratio (both bk_pacer_drops s) (both bk_decoded s) 100,
                     sx_replaced_percent := ratio (both bk_replacements s) (both bk_queued s) 100\<rparr>;
               x = (host_latency s x)\<lparr>sx_timings := timing_snapshot s\<rparr>
           in (Some x, s))"


section \<open>What the window holds\<close>

text \<open>The counters that an event adds to, and how much, whatever the state but for two settings.\<close>

datatype counter = Count_received | Count_decoded | Count_presented | Count_queued | Count_bytes | Count_pacer_drops
  | Count_replacements | Count_host_samples | Count_host_total | Count_samples timing_index | Count_total timing_index

primrec counter_of :: "counter \<Rightarrow> bucket \<Rightarrow> u64" where
  "counter_of Count_received b = bk_received b"
| "counter_of Count_decoded b = bk_decoded b"
| "counter_of Count_presented b = bk_presented b"
| "counter_of Count_queued b = bk_queued b"
| "counter_of Count_bytes b = bk_bytes b"
| "counter_of Count_pacer_drops b = bk_pacer_drops b"
| "counter_of Count_replacements b = bk_replacements b"
| "counter_of Count_host_samples b = bk_host_samples b"
| "counter_of Count_host_total b = bk_host_total b"
| "counter_of (Count_samples i) b = tm_samples (bk_timing b i)"
| "counter_of (Count_total i) b = tm_total (bk_timing b i)"

text \<open>One sample of a timing.\<close>

definition sample :: "timing_index \<Rightarrow> u64 \<Rightarrow> counter \<Rightarrow> u64" where
  "sample i us c = (if c = Count_samples i then 1 else if c = Count_total i then us else 0)"

definition only :: "counter \<Rightarrow> u64 \<Rightarrow> counter \<Rightarrow> u64" where
  "only k n c = (if c = k then n else 0)"

fun amount :: "bool \<Rightarrow> bool \<Rightarrow> stats_event \<Rightarrow> counter \<Rightarrow> u64" where
  "amount detail vblank (Received frame bytes idr latency receive_us enqueue_us video_us) c =
     only Count_received 1 c + only Count_bytes (ucast bytes) c +
     (if detail then (if latency = 0 then 0 else only Count_host_samples 1 c + only Count_host_total (ucast latency) c) +
        (if receive_us \<le> enqueue_us then sample Reassembly (enqueue_us - receive_us) c else 0) else 0)"
| "amount detail vblank (Decoded us outputs fails dropped) c =
     sample Decode_call us c + (if fails then 0 else only Count_decoded (ucast outputs) c +
       (if dropped then only Count_pacer_drops (ucast outputs) c else 0))"
| "amount detail vblank (Prepared us vblank_us w h pitch) c =
     sample Prequeue us c + (if vblank then sample Vblank vblank_us c else 0)"
| "amount detail vblank (Queued replaced) c = only Count_queued 1 c + (if replaced then only Count_replacements 1 c else 0)"
| "amount detail vblank (Presented queue_us cpu_us) c =
     only Count_presented 1 c + sample Paf_queue queue_us c + sample Paf_cpu cpu_us c"
| "amount detail vblank (Audio_decode us fails) c = sample Audio_decode_call us c"
| "amount detail vblank (Audio_output us fails) c = sample Audio_output_call us c"
| "amount detail vblank _ c = 0"

lemmas event_defs = connection_status_def received_def decoded_def idr_return_def prepared_def queued_def
  presented_def network_def audio_decode_def audio_output_def Let_def

lemma counter_of_note_timing [simp]:
  "counter_of c (sw_current (note_timing i us s)) = counter_of c (sw_current s) + sample i us c"
  by (cases c) (auto simp: note_timing_def sample_def Let_def)

lemma counter_of_note_frame [simp]: "counter_of c (sw_current (note_frame frame s)) = counter_of c (sw_current s)"
  by (cases c) (auto simp: note_frame_def Let_def)

lemma counter_of_note_host_latency [simp]:
  "counter_of c (sw_current (note_host_latency latency s)) = counter_of c (sw_current s) +
     (if latency = 0 then 0 else only Count_host_samples 1 c + only Count_host_total (ucast latency) c)"
  by (cases c) (auto simp: note_host_latency_def only_def)

text \<open>What an event does not touch.\<close>

definition frame_part :: "stats \<Rightarrow> u32 \<times> bool \<times> bool \<times> int \<times> bucket \<times> u64 \<times> u64" where
  "frame_part s = (sx_generation (sw_session s), sx_active (sw_session s), sx_enabled (sw_session s),
     sx_vblank_wait (sw_session s), sw_previous s, sw_start s, sw_bucket_start s)"

lemma frame_part_note [simp]:
  "frame_part (note_timing i us s) = frame_part s" "frame_part (note_frame frame s) = frame_part s"
  "frame_part (note_host_latency latency s) = frame_part s"
  by (auto simp: frame_part_def note_timing_def note_frame_def note_host_latency_def Let_def)

lemma frame_part_eq:
  "frame_part s = frame_part t \<longleftrightarrow> sx_generation (sw_session s) = sx_generation (sw_session t) \<and>
     sx_active (sw_session s) = sx_active (sw_session t) \<and> sx_enabled (sw_session s) = sx_enabled (sw_session t) \<and>
     sx_vblank_wait (sw_session s) = sx_vblank_wait (sw_session t) \<and> sw_previous s = sw_previous t \<and>
     sw_start s = sw_start t \<and> sw_bucket_start s = sw_bucket_start t"
  by (auto simp: frame_part_def Let_def)

lemma note_settings [simp]:
  "sx_enabled (sw_session (note_frame frame s)) = sx_enabled (sw_session s)"
  "sx_vblank_wait (sw_session (note_timing i us s)) = sx_vblank_wait (sw_session s)"
  by (simp_all add: note_frame_def note_timing_def Let_def)

lemma frame_part_record: "frame_part (record_event e s) = frame_part s"
proof -
  have frame: "frame_part (current f s) = frame_part s" "frame_part (s\<lparr>sw_last_video := v\<rparr>) = frame_part s" for f s v
    by (simp_all add: frame_part_def)
  have session: "frame_part (session (\<lambda>x. x\<lparr>sx_connection_poor := b\<rparr>) s) = frame_part s"
    "frame_part (session (\<lambda>x. x\<lparr>sx_received_frames := f x, sx_has_video := b\<rparr>) s) = frame_part s"
    "frame_part (session (\<lambda>x. x\<lparr>sx_idr_frames := f x\<rparr>) s) = frame_part s"
    "frame_part (session (\<lambda>x. x\<lparr>sx_decode_errors := f x\<rparr>) s) = frame_part s"
    "frame_part (session (\<lambda>x. x\<lparr>sx_pacer_drops := f x\<rparr>) s) = frame_part s"
    "frame_part (session (\<lambda>x. x\<lparr>sx_no_output := f x\<rparr>) s) = frame_part s"
    "frame_part (session (\<lambda>x. x\<lparr>sx_idr_returns := f x\<rparr>) s) = frame_part s"
    "frame_part (session (\<lambda>x. x\<lparr>sx_pending_replacements := f x\<rparr>) s) = frame_part s"
    "frame_part (session (\<lambda>x. x\<lparr>sx_output_width := w, sx_output_height := w', sx_output_pitch := w''\<rparr>) s) = frame_part s"
    "frame_part (session (\<lambda>x. x\<lparr>sx_rtt_valid := b, sx_rtt_ms := w, sx_rtt_variation_ms := w'\<rparr>) s) = frame_part s"
    "frame_part (session (\<lambda>x. x\<lparr>sx_audio_decode_errors := f x\<rparr>) s) = frame_part s"
    "frame_part (session (\<lambda>x. x\<lparr>sx_audio_output_errors := f x\<rparr>) s) = frame_part s" for b f w w' w'' s
    by (simp_all add: frame_part_def)
  show ?thesis
    by (cases e) (simp_all add: event_defs frame session)
qed

lemma only_0 [simp]: "only k 0 c = 0"
  by (simp add: only_def)

lemma counter_of_update [simp]:
  "counter_of c (b\<lparr>bk_received := v\<rparr>) = counter_of c b + only Count_received (v - bk_received b) c"
  "counter_of c (b\<lparr>bk_bytes := v\<rparr>) = counter_of c b + only Count_bytes (v - bk_bytes b) c"
  "counter_of c (b\<lparr>bk_decoded := v\<rparr>) = counter_of c b + only Count_decoded (v - bk_decoded b) c"
  "counter_of c (b\<lparr>bk_pacer_drops := v\<rparr>) = counter_of c b + only Count_pacer_drops (v - bk_pacer_drops b) c"
  "counter_of c (b\<lparr>bk_queued := v\<rparr>) = counter_of c b + only Count_queued (v - bk_queued b) c"
  "counter_of c (b\<lparr>bk_replacements := v\<rparr>) = counter_of c b + only Count_replacements (v - bk_replacements b) c"
  "counter_of c (b\<lparr>bk_presented := v\<rparr>) = counter_of c b + only Count_presented (v - bk_presented b) c"
  by (cases c; simp add: only_def)+

lemma counter_record:
  "counter_of c (sw_current (record_event e s)) =
     counter_of c (sw_current s) + amount (sx_enabled (sw_session s)) (sx_vblank_wait (sw_session s) \<noteq> 0) e c"
  by (cases e) (simp_all add: event_defs)


text \<open>A report: the token it carries, the time of the clock when it is recorded, and the event.\<close>

type_synonym report = "u32 \<times> u64 \<times> stats_event"

definition update_all :: "report list \<Rightarrow> stats \<Rightarrow> stats" where
  "update_all = fold (\<lambda>(generation, now, e). update generation now e)"

definition total :: "bool \<Rightarrow> bool \<Rightarrow> u32 \<Rightarrow> nat \<Rightarrow> nat \<Rightarrow> counter \<Rightarrow> report list \<Rightarrow> u64" where
  "total detail vblank generation from until c rs =
     sum_list (map (\<lambda>(g, t, e). amount detail vblank e c)
       (filter (\<lambda>(g, t, e). g = generation \<and> from \<le> unat t \<and> unat t < until) rs))"

lemma total_Nil [simp]: "total detail vblank g from until c [] = 0"
  by (simp add: total_def)

lemma total_snoc:
  "total detail vblank g from until c (rs @ [(g', t, e)]) = total detail vblank g from until c rs +
     (if g' = g \<and> from \<le> unat t \<and> unat t < until then amount detail vblank e c else 0)"
  by (simp add: total_def)

lemma total_none:
  assumes "\<And>t e. (g, t, e) \<in> set rs \<Longrightarrow> unat t < from \<or> until \<le> unat t"
  shows "total detail vblank g from until c rs = 0"
proof -
  have "filter (\<lambda>(g', t, e). g' = g \<and> from \<le> unat t \<and> unat t < until) rs = []"
    using assms by (fastforce simp: filter_empty_conv)
  then show ?thesis by (simp add: total_def)
qed

lemma total_same:
  assumes "\<And>t e. (g, t, e) \<in> set rs \<Longrightarrow> from \<le> unat t \<and> unat t < until \<longleftrightarrow> from' \<le> unat t \<and> unat t < until'"
  shows "total detail vblank g from until c rs = total detail vblank g from' until' c rs"
proof -
  have "filter (\<lambda>(g', t, e). g' = g \<and> from \<le> unat t \<and> unat t < until) rs =
      filter (\<lambda>(g', t, e). g' = g \<and> from' \<le> unat t \<and> unat t < until') rs"
    using assms by (intro filter_cong) auto
  then show ?thesis by (simp add: total_def)
qed

text \<open>The state of an active session after the reports \<open>rs\<close>, the last of them at the time \<open>last\<close> or before.\<close>

definition window_ok :: "bool \<Rightarrow> bool \<Rightarrow> u32 \<Rightarrow> u64 \<Rightarrow> report list \<Rightarrow> u64 \<Rightarrow> stats \<Rightarrow> bool" where
  "window_ok detail vblank g start rs until s \<longleftrightarrow>
     (let x = sw_session s; b = unat (sw_bucket_start s) in
      sx_generation x = g \<and> sx_active x \<and> sx_enabled x = detail \<and> (sx_vblank_wait x \<noteq> 0) = vblank \<and> sw_start s = start \<and>
      (\<exists>k. b = unat start + k * 1000000) \<and> b \<le> unat until \<and>
      (\<forall>t e. (g, t, e) \<in> set rs \<longrightarrow> unat start \<le> unat t \<and> unat t < b + 1000000) \<and>
      (\<forall>c. counter_of c (sw_current s) = total detail vblank g b (b + 1000000) c rs \<and>
           counter_of c (sw_previous s) = total detail vblank g (b - 1000000) b c rs))"

lemma counter_of_zero [simp]: "counter_of c bucket_zero = 0"
  by (cases c) (simp_all add: bucket_zero_def timing_zero_def)

lemma unat_diff: "a \<le> b \<Longrightarrow> unat (b - a :: u64) = unat b - unat a"
  by (rule unat_sub)

lemma window_steps:
  assumes "sw_bucket_start s \<le> now"
  shows "unat ((now - sw_bucket_start s) div stats_bucket_us) = (unat now - unat (sw_bucket_start s)) div 1000000"
  using assms by (simp add: stats_bucket_us_def unat_div unat_diff)

text \<open>How the window moves, with the times as natural numbers.\<close>

lemma advance_window_moves:
  assumes "sw_bucket_start s \<le> now"
  defines "k \<equiv> (unat now - unat (sw_bucket_start s)) div 1000000"
  shows "sw_current (advance_window now s) = (if k = 0 then sw_current s else bucket_zero)"
    and "sw_previous (advance_window now s) = (if k = 0 then sw_previous s else if k = 1 then sw_current s else bucket_zero)"
    and "unat (sw_bucket_start (advance_window now s)) = unat (sw_bucket_start s) + k * 1000000"
    and "sw_session (advance_window now s) = sw_session s" and "sw_start (advance_window now s) = sw_start s"
proof -
  define steps where "steps = (now - sw_bucket_start s) div stats_bucket_us"
  have k: "unat steps = k"
    using window_steps [OF assms(1)] by (simp add: steps_def k_def)
  then have zero: "steps = 0 \<longleftrightarrow> k = 0" and one: "steps = 1 \<longleftrightarrow> k = 1"
    by (auto simp: word_unat_eq_iff)
  have "k * 1000000 \<le> unat now - unat (sw_bucket_start s)"
    by (simp add: k_def)
  moreover have "unat now < 2 ^ 64"
    using unsigned_less [of now, where 'a = nat] by simp
  ultimately have "unat (sw_bucket_start s) + k * 1000000 < 2 ^ 64"
    using assms(1) by (simp add: word_le_nat_alt)
  then have "unat (sw_bucket_start s + steps * stats_bucket_us) = unat (sw_bucket_start s) + k * 1000000"
    by (simp add: unat_word_ariths k stats_bucket_us_def)
  then show "unat (sw_bucket_start (advance_window now s)) = unat (sw_bucket_start s) + k * 1000000"
    using zero by (auto simp: advance_window_def Let_def steps_def [symmetric])
  show "sw_current (advance_window now s) = (if k = 0 then sw_current s else bucket_zero)"
    "sw_previous (advance_window now s) = (if k = 0 then sw_previous s else if k = 1 then sw_current s else bucket_zero)"
    "sw_session (advance_window now s) = sw_session s" "sw_start (advance_window now s) = sw_start s"
    using zero one by (auto simp: advance_window_def Let_def steps_def [symmetric])
qed

lemma window_ok_advance:
  assumes ok: "window_ok detail vblank g start rs until s" and now: "until \<le> now"
  shows "window_ok detail vblank g start rs now (advance_window now s)"
proof -
  define b where "b = unat (sw_bucket_start s)"
  define k where "k = (unat now - b) div 1000000"
  have "b \<le> unat until"
    using ok by (simp add: window_ok_def Let_def b_def)
  then have bn: "b \<le> unat now" and le: "sw_bucket_start s \<le> now"
    using now by (simp_all add: word_le_nat_alt b_def)
  note moves = advance_window_moves [OF le, folded b_def, folded k_def]
  obtain k0 where start: "b = unat start + k0 * 1000000"
    using ok by (auto simp: window_ok_def Let_def b_def)
  have times: "unat start \<le> unat t" "unat t < b + 1000000" if "(g, t, e) \<in> set rs" for t e
    using ok that by (auto simp: window_ok_def Let_def b_def)
  have counts: "counter_of c (sw_current s) = total detail vblank g b (b + 1000000) c rs"
    "counter_of c (sw_previous s) = total detail vblank g (b - 1000000) b c rs" for c
    using ok by (auto simp: window_ok_def Let_def b_def)
  have "k * 1000000 \<le> unat now - b"
    by (simp add: k_def)
  then have kn: "b + k * 1000000 \<le> unat now"
    using bn by linarith
  have current: "counter_of c (sw_current (advance_window now s)) =
      total detail vblank g (b + k * 1000000) (b + k * 1000000 + 1000000) c rs" for c
  proof (cases "k = 0")
    case False
    then have "b + 1000000 \<le> b + k * 1000000" by simp
    then have "total detail vblank g (b + k * 1000000) (b + k * 1000000 + 1000000) c rs = 0"
      by (intro total_none disjI1) (use times in fastforce)
    then show ?thesis using False by (simp add: moves)
  qed (simp add: moves counts)
  have previous: "counter_of c (sw_previous (advance_window now s)) =
      total detail vblank g (b + k * 1000000 - 1000000) (b + k * 1000000) c rs" for c
  proof -
    consider "k = 0" | "k = 1" | "2 \<le> k" by linarith
    then show ?thesis
    proof cases
      case 3
      then have "b + 1000000 \<le> b + k * 1000000 - 1000000" by simp
      then have "total detail vblank g (b + k * 1000000 - 1000000) (b + k * 1000000) c rs = 0"
        by (intro total_none disjI1) (use times in fastforce)
      then show ?thesis using 3 by (simp add: moves)
    qed (simp_all add: moves counts)
  qed
  have "unat start + k0 * 1000000 + k * 1000000 = unat start + (k0 + k) * 1000000"
    by simp
  moreover have "unat t < b + k * 1000000 + 1000000" if "(g, t, e) \<in> set rs" for t e
    using times(2) [OF that] by linarith
  ultimately show ?thesis
    using ok times(1) kn current previous unfolding window_ok_def Let_def moves start
    by blast
qed


abbreviation report_time :: "report \<Rightarrow> u64" where
  "report_time r \<equiv> fst (snd r)"

lemma window_ok_record:
  assumes "window_ok detail vblank g start rs now s" "unat now < unat (sw_bucket_start s) + 1000000"
  shows "window_ok detail vblank g start (rs @ [(g, now, e)]) now (record_event e s)"
proof -
  have "frame_part (record_event e s) = frame_part s" by (rule frame_part_record)
  moreover have "unat start \<le> unat (sw_bucket_start s)"
    using assms(1) by (auto simp: window_ok_def Let_def)
  ultimately show ?thesis
    using assms unfolding frame_part_eq window_ok_def Let_def
    by (auto simp: counter_record total_snoc)
qed

lemma advance_recent:
  assumes "sw_bucket_start s \<le> now"
  shows "unat now < unat (sw_bucket_start (advance_window now s)) + 1000000"
proof -
  have "unat now - unat (sw_bucket_start s) < (unat now - unat (sw_bucket_start s)) div 1000000 * 1000000 + 1000000"
    using div_mult_mod_eq [of "unat now - unat (sw_bucket_start s)" 1000000]
      mod_less_divisor [of 1000000 "unat now - unat (sw_bucket_start s)"] by linarith
  then show ?thesis
    by (simp add: advance_window_moves [OF assms])
qed

lemma window_ok_stale:
  assumes "window_ok detail vblank g start rs until s" "until \<le> now" "g' \<noteq> g"
  shows "window_ok detail vblank g start (rs @ [(g', now, e)]) now s"
  using assms by (auto simp: window_ok_def Let_def total_snoc word_le_nat_alt)

lemma window_ok_update:
  assumes ok: "window_ok detail vblank g start rs until s" and now: "until \<le> now" and g: "g \<noteq> 0"
  shows "window_ok detail vblank g start (rs @ [(g', now, e)]) now (update g' now e s)"
proof (cases "g' = g")
  case True
  have "sx_generation (sw_session s) = g" "sx_active (sw_session s)" "sw_bucket_start s \<le> now"
    using ok now by (auto simp: window_ok_def Let_def word_le_nat_alt)
  then have "update g' now e s = record_event e (advance_window now s)"
    using True g by (simp add: update_def begin_update_def)
  then show ?thesis
    using window_ok_record [OF window_ok_advance [OF ok now] advance_recent [OF \<open>sw_bucket_start s \<le> now\<close>], of e] True
    by simp
next
  case False
  then have "update g' now e s = s"
    using ok by (auto simp: update_def begin_update_def window_ok_def Let_def)
  then show ?thesis
    using window_ok_stale [OF ok now False] by simp
qed

lemma window_ok_all:
  assumes "window_ok detail vblank g start rs until s" "g \<noteq> 0" "sorted (unat until # map (\<lambda>r. unat (report_time r)) rs')"
  shows "\<exists>until'. until' \<in> set (until # map report_time rs') \<and>
    window_ok detail vblank g start (rs @ rs') until' (update_all rs' s)"
  using assms
proof (induction rs' arbitrary: rs until s)
  case (Cons r rs')
  obtain g' t e where r: "r = (g', t, e)" by (cases r)
  have "window_ok detail vblank g start (rs @ [r]) t (update g' t e s)"
    using window_ok_update [OF Cons.prems(1) _ Cons.prems(2)] Cons.prems(3) by (simp add: r word_le_nat_alt)
  moreover have "sorted (unat t # map (\<lambda>r. unat (report_time r)) rs')"
    using Cons.prems(3) by (simp add: r)
  ultimately obtain until' where "until' \<in> set (t # map report_time rs')"
    "window_ok detail vblank g start ((rs @ [r]) @ rs') until' (update_all rs' (update g' t e s))"
    using Cons.IH [OF _ Cons.prems(2)] by blast
  then show ?case
    by (intro exI [where x = until']) (simp add: update_all_def r)
qed (simp add: update_all_def)

lemma window_ok_begin:
  assumes "stats_begin settings start s0 = (g, s)"
  shows "window_ok (se_show_fps settings \<noteq> 0) (se_vblank_wait settings \<noteq> 0) g start [] start s" "g \<noteq> 0"
  using assms by (auto simp: stats_begin_def Let_def window_ok_def split: if_splits)

text \<open>
  Property C27. What a snapshot counts: a session is begun at \<open>start\<close>, then events are reported, with its
  token or with others, in the order of the clock. The current bucket holds what the events of the session add that were reported since the last
  whole second of the session, the bucket before it those of the second before, and the rates are these amounts over the time they
  span. Reports with other tokens have no effect.
\<close>

theorem stats_window:
  assumes "stats_begin settings start s0 = (g, s)" "sorted (map unat (start # map report_time rs @ [now]))"
  defines "b \<equiv> unat start + (unat now - unat start) div 1000000 * 1000000"
    and "counted \<equiv> total (se_show_fps settings \<noteq> 0) (se_vblank_wait settings \<noteq> 0) g"
  shows "\<exists>x s'. stats_snapshot True now (update_all rs s) = (Some x, s') \<and>
    (\<forall>c. counter_of c (sw_current s') = counted b (b + 1000000) c rs \<and>
         counter_of c (sw_previous s') = counted (b - 1000000) b c rs) \<and>
    snapshot_duration now s' = now - of_nat (max (unat start) (b - 1000000)) \<and>
    sx_incoming_fps x = ratio (counted b (b + 1000000) Count_received rs + counted (b - 1000000) b Count_received rs)
      (snapshot_duration now s') 1000000"
proof -
  define s' where "s' = advance_window now (update_all rs s)"
  have "sorted (unat start # map (\<lambda>r. unat (report_time r)) rs)"
    using assms(2) by (simp add: sorted_append comp_def)
  then obtain until where until: "until \<in> set (start # map report_time rs)"
    "window_ok (se_show_fps settings \<noteq> 0) (se_vblank_wait settings \<noteq> 0) g start rs until (update_all rs s)"
    using window_ok_all [OF window_ok_begin [OF assms(1)], of rs] by (metis append_Nil)
  have "until \<le> now"
    using assms(2) until(1) by (auto simp: sorted_append word_le_nat_alt)
  then have ok: "window_ok (se_show_fps settings \<noteq> 0) (se_vblank_wait settings \<noteq> 0) g start rs now s'"
    unfolding s'_def using until(2) by (rule window_ok_advance [rotated])
  have "sw_bucket_start (update_all rs s) \<le> now"
    using until(2) \<open>until \<le> now\<close> by (auto simp: window_ok_def Let_def word_le_nat_alt)
  then have recent: "unat now < unat (sw_bucket_start s') + 1000000"
    unfolding s'_def by (rule advance_recent)
  obtain k where k: "unat (sw_bucket_start s') = unat start + k * 1000000" "unat (sw_bucket_start s') \<le> unat now"
    "sw_start s' = start"
    using ok by (auto simp: window_ok_def Let_def)
  have "(unat now - unat start) div 1000000 = k"
    by (rule div_nat_eqI) (use k recent in simp_all)
  then have b: "unat (sw_bucket_start s') = b"
    using k by (simp add: b_def)
  have counts: "counter_of c (sw_current s') = counted b (b + 1000000) c rs"
    "counter_of c (sw_previous s') = counted (b - 1000000) b c rs" for c
    using ok by (auto simp: window_ok_def Let_def b counted_def)
  have duration: "snapshot_duration now s' = now - of_nat (max (unat start) (b - 1000000))"
  proof (cases "k = 0")
    case True
    then have "sw_bucket_start s' = start" "b = unat start"
      using k b by (simp_all add: word_unat_eq_iff)
    then show ?thesis
      using k by (simp add: snapshot_duration_def)
  next
    case False
    then have "1000000 \<le> b" "unat start \<le> b - 1000000" "sw_bucket_start s' \<noteq> start"
      using k b by auto
    moreover have "sw_bucket_start s' - stats_bucket_us = of_nat (b - 1000000)"
      using \<open>1000000 \<le> b\<close> b [symmetric] by (simp add: stats_bucket_us_def of_nat_diff)
    ultimately show ?thesis
      using k by (simp add: snapshot_duration_def max_def)
  qed
  let ?x = "fst (stats_snapshot True now (update_all rs s))"
  have "sx_incoming_fps (host_latency s' y) = sx_incoming_fps y" for y
    by (simp add: host_latency_def Let_def)
  then have "\<exists>x. stats_snapshot True now (update_all rs s) = (Some x, s') \<and>
      sx_incoming_fps x = ratio (both bk_received s') (snapshot_duration now s') 1000000"
    by (simp add: stats_snapshot_def Let_def s'_def [symmetric] rates_def)
  moreover have "both bk_received s' = counted b (b + 1000000) Count_received rs + counted (b - 1000000) b Count_received rs"
    using counts [of Count_received] by (simp add: both_def)
  ultimately show ?thesis
    using counts duration by auto
qed


definition example_settings :: stats_settings where
  "example_settings = \<lparr>se_show_fps = 0, se_width = 960, se_height = 544, se_fps = 30, se_bitrate = 5000,
     se_frame_pacer = 1, se_vblank_wait = 0, se_center_region = 0\<rparr>"

definition example_reports :: "report list" where
  "example_reports = [(1, 10, Received 1 1000 False 0 0 0 10), (2, 20, Received 2 1000 False 0 0 0 20),
     (1, 1000010, Received 2 1000 False 0 0 0 1000010)]"

theorem stats_window_witness:
  "\<exists>x s'. stats_snapshot True 1500005 (update_all example_reports (snd (stats_begin example_settings 5 stats_boot))) = (Some x, s') \<and>
     sx_incoming_fps x = 4 / 3"
proof -
  have "stats_begin example_settings 5 stats_boot = (1, snd (stats_begin example_settings 5 stats_boot))"
    by (simp add: stats_begin_def stats_boot_def stream_stats_zero_def)
  then show ?thesis
    by (rule stats_window [of example_settings 5 stats_boot 1 _ example_reports 1500005, THEN exE])
      (auto simp: example_reports_def total_def only_def sample_def ratio_def)
qed

section \<open>Frames that are missing\<close>

text \<open>The frame numbers and the times of the frames that a session has received.\<close>

definition frames_of :: "u32 \<Rightarrow> report list \<Rightarrow> (u32 \<times> u64) list" where
  "frames_of g rs = concat (map (\<lambda>(g', t, e). case e of
     Received frame bytes idr latency receive_us enqueue_us video_us \<Rightarrow> if g' = g then [(frame, video_us)] else [] | _ \<Rightarrow> []) rs)"

definition video_part :: "stats \<Rightarrow> bool \<times> u32 \<times> u64 \<times> u64 \<times> bool \<times> u64" where
  "video_part s = (sw_has_last_frame s, sw_last_frame s, sx_missing_frames (sw_session s), sx_received_frames (sw_session s),
     sx_has_video (sw_session s), sw_last_video s)"

lemma video_part_note [simp]:
  "video_part (note_timing i us s) = video_part s" "video_part (note_host_latency latency s) = video_part s"
  by (auto simp: video_part_def note_timing_def note_host_latency_def Let_def)

lemma video_part_advance [simp]: "video_part (advance_window now s) = video_part s"
  by (simp add: video_part_def advance_window_def Let_def)

text \<open>The effect of a received frame on these variables alone.\<close>

definition see_frame :: "u32 \<Rightarrow> u64 \<Rightarrow> bool \<times> u32 \<times> u64 \<times> u64 \<times> bool \<times> u64 \<Rightarrow> bool \<times> u32 \<times> u64 \<times> u64 \<times> bool \<times> u64" where
  "see_frame frame us v = (case v of (seen, prev, missing, n, _, _) \<Rightarrow>
     if \<not> seen then (True, frame, missing, n + 1, True, us)
     else if frame - prev \<noteq> 0 \<and> frame - prev < 0x80000000
     then (True, frame, missing + ucast (frame - prev - 1), n + 1, True, us)
     else (True, prev, missing, n + 1, True, us))"

lemma video_part_idr: "video_part (if idr then session (\<lambda>x. x\<lparr>sx_idr_frames := f x\<rparr>) s else s) = video_part s"
  by (simp add: video_part_def)

lemma video_part_received:
  "video_part (received frame bytes idr latency receive_us enqueue_us us s) = see_frame frame us (video_part s)"
proof -
  define t where "t = session (\<lambda>x. x\<lparr>sx_received_frames := sx_received_frames x + 1, sx_has_video := True\<rparr>)
    ((current (\<lambda>b. b\<lparr>bk_received := bk_received b + 1, bk_bytes := bk_bytes b + ucast bytes\<rparr>) s)\<lparr>sw_last_video := us\<rparr>)"
  have "video_part (note_frame frame t) = see_frame frame us (video_part s)"
    by (simp add: t_def video_part_def see_frame_def note_frame_def Let_def)
  moreover have "video_part (received frame bytes idr latency receive_us enqueue_us us s) = video_part (note_frame frame t)"
    unfolding received_def Let_def t_def [symmetric] by (simp add: video_part_idr)
  ultimately show ?thesis by simp
qed

lemma video_part_record:
  "video_part (record_event e s) = (case e of
     Received frame bytes idr latency receive_us enqueue_us us \<Rightarrow> see_frame frame us (video_part s) | _ \<Rightarrow> video_part s)"
proof (cases e)
  case Received
  then show ?thesis by (simp add: video_part_received)
next
  case Decoded
  have "video_part (session (\<lambda>x. x\<lparr>sx_decode_errors := f x\<rparr>) t) = video_part t"
    "video_part (session (\<lambda>x. x\<lparr>sx_pacer_drops := f x\<rparr>) t) = video_part t"
    "video_part (session (\<lambda>x. x\<lparr>sx_no_output := f x\<rparr>) t) = video_part t"
    "video_part (current h t) = video_part t" for f h t
    by (simp_all add: video_part_def)
  with Decoded show ?thesis by (simp add: decoded_def Let_def)
next
  case Prepared
  have "video_part (session (\<lambda>x. x\<lparr>sx_output_width := w, sx_output_height := h, sx_output_pitch := p\<rparr>) t) = video_part t" for w h p t
    by (simp add: video_part_def)
  with Prepared show ?thesis by (simp add: prepared_def Let_def)
next
  case Presented
  have "video_part (current h t) = video_part t" for h t
    by (simp add: video_part_def)
  with Presented show ?thesis by (simp add: presented_def)
next
  case Audio_decode
  have "video_part (session (\<lambda>x. x\<lparr>sx_audio_decode_errors := f x\<rparr>) t) = video_part t" for f t
    by (simp add: video_part_def)
  with Audio_decode show ?thesis by (simp add: audio_decode_def Let_def)
next
  case Audio_output
  have "video_part (session (\<lambda>x. x\<lparr>sx_audio_output_errors := f x\<rparr>) t) = video_part t" for f t
    by (simp add: video_part_def)
  with Audio_output show ?thesis by (simp add: audio_output_def Let_def)
qed (auto simp: video_part_def connection_status_def idr_return_def queued_def network_def Let_def)


lemma video_part_update:
  assumes "sx_generation (sw_session s) = g" "sx_active (sw_session s)" "g \<noteq> 0"
  shows "video_part (update g' now e s) = fold (\<lambda>(frame, us). see_frame frame us) (frames_of g [(g', now, e)]) (video_part s)"
  using assms by (auto simp: update_def begin_update_def frames_of_def video_part_record split: stats_event.splits)

lemma frames_of_Cons: "frames_of g (r # rs) = frames_of g [r] @ frames_of g rs"
  by (simp add: frames_of_def)

lemma update_keeps_session:
  "sx_generation (sw_session (update g' now e s)) = sx_generation (sw_session s) \<and>
   sx_active (sw_session (update g' now e s)) = sx_active (sw_session s)"
proof (cases "begin_update g' now s")
  case (Some t)
  then have "sw_session t = sw_session s"
    by (auto simp: begin_update_def advance_window_def Let_def split: if_splits)
  then show ?thesis
    using frame_part_record [of e t] Some by (simp add: update_def frame_part_eq)
qed (simp add: update_def)

lemma video_part_all:
  assumes "sx_generation (sw_session s) = g" "sx_active (sw_session s)" "g \<noteq> 0"
  shows "video_part (update_all rs s) = fold (\<lambda>(frame, us). see_frame frame us) (frames_of g rs) (video_part s)"
  using assms
proof (induction rs arbitrary: s)
  case (Cons r rs)
  obtain g' now e where r: "r = (g', now, e)" by (cases r)
  let ?s = "update g' now e s"
  have "video_part (update_all rs ?s) = fold (\<lambda>(frame, us). see_frame frame us) (frames_of g rs) (video_part ?s)"
    using Cons.IH [of ?s] Cons.prems update_keeps_session [of g' now e s] by simp
  then show ?case
    using video_part_update [OF Cons.prems, of g' now e]
    unfolding r frames_of_Cons [of g "(g', now, e)" rs] by (simp add: update_all_def)
qed (simp add: frames_of_def update_all_def)

text \<open>The distances from each frame to the one received before it.\<close>

fun steps :: "u32 list \<Rightarrow> u32 list" where
  "steps (a # b # fs) = (b - a) # steps (b # fs)"
| "steps _ = []"

lemma see_frames:
  assumes "\<forall>d\<in>set (steps (f # map fst fs)). 0 < d \<and> d < 0x80000000"
  shows "case fold (\<lambda>(frame, us). see_frame frame us) fs (True, f, missing, n, True, v) of
     (_, _, missing', n', _, _) \<Rightarrow> missing' + n' = missing + n + sum_list (map ucast (steps (f # map fst fs)))"
  using assms
proof (induction fs arbitrary: f missing n v)
  case (Cons x fs)
  obtain frame us where x: "x = (frame, us)" by fastforce
  have d: "0 < frame - f" "frame - f < 0x80000000"
    using Cons.prems by (simp_all add: x)
  then have "unat (frame - f - 1) + 1 = unat (frame - f)"
    by (simp add: unat_minus_one word_greater_zero_iff unat_gt_0)
  then have "(ucast (frame - f) :: u64) = ucast (frame - f - 1) + 1"
    by (metis of_nat_1 of_nat_add of_nat_unat)
  moreover have "see_frame frame us (True, f, missing, n, True, v) =
      (True, frame, missing + ucast (frame - f - 1), n + 1, True, us)"
    using d by (simp add: see_frame_def word_greater_zero_iff)
  moreover have "\<forall>d\<in>set (steps (frame # map fst fs)). 0 < d \<and> d < 0x80000000"
    using Cons.prems by (simp add: x)
  note Cons.IH [OF this, of "missing + ucast (frame - f - 1)" "n + 1" us]
  ultimately show ?case
    by (simp add: x algebra_simps case_prod_beta)
qed simp


lemma stats_begin_video:
  assumes "stats_begin settings start s0 = (g, s)"
  shows "video_part s = (False, 0, 0, 0, False, 0)" "sx_generation (sw_session s) = g" "sx_active (sw_session s)" "g \<noteq> 0"
    "sw_start s = start"
  using assms by (auto simp: stats_begin_def Let_def video_part_def stream_stats_zero_def split: if_splits)

text \<open>
  When the frames of a session are received in order, whatever else is reported, the frames that were received and
  those that are missing make up all the numbers from the first frame to the last, across the wrap of the 32-bit
  frame number too.
\<close>

theorem stats_missing_frames:
  assumes "stats_begin settings start s0 = (g, s)" "frames_of g rs = (f, v) # fs"
    "\<forall>d\<in>set (steps (f # map fst fs)). 0 < d \<and> d < 0x80000000"
  shows "sx_received_frames (sw_session (update_all rs s)) + sx_missing_frames (sw_session (update_all rs s)) =
    1 + sum_list (map ucast (steps (f # map fst fs)))"
proof -
  note fresh = stats_begin_video [OF assms(1)]
  have "video_part (update_all rs s) = fold (\<lambda>(frame, us). see_frame frame us) fs (True, f, 0, 1, True, v)"
    using video_part_all [OF fresh(2-4), of rs] by (simp add: assms(2) fresh(1) see_frame_def)
  then show ?thesis
    using see_frames [OF assms(3), of 0 1 v] by (simp add: video_part_def add.commute split: prod.splits)
qed

theorem stats_missing_frames_witness:
  "sx_received_frames (sw_session (update_all [(1, 10, Received 0xFFFFFFFF 1000 False 0 0 0 10), (1, 20, Received 2 1000 False 0 0 0 20)]
      (snd (stats_begin example_settings 5 stats_boot)))) +
   sx_missing_frames (sw_session (update_all [(1, 10, Received 0xFFFFFFFF 1000 False 0 0 0 10), (1, 20, Received 2 1000 False 0 0 0 20)]
      (snd (stats_begin example_settings 5 stats_boot)))) = 4"
proof -
  have "stats_begin example_settings 5 stats_boot = (1, snd (stats_begin example_settings 5 stats_boot))"
    by (simp add: stats_begin_def stats_boot_def stream_stats_zero_def)
  moreover have "steps [0xFFFFFFFF, 2] = [3]"
    by code_simp
  ultimately show ?thesis
    using stats_missing_frames [of example_settings 5 stats_boot 1 _
      "[(1, 10, Received 0xFFFFFFFF 1000 False 0 0 0 10), (1, 20, Received 2 1000 False 0 0 0 20)]" "0xFFFFFFFF" 10 "[(2, 20)]"]
    by (simp add: frames_of_def del: steps.simps)
qed

section \<open>A stalled stream\<close>

lemma see_frames_video:
  "fold (\<lambda>(frame, us). see_frame frame us) fs (seen, prev, missing, n, video, v) = (a, b, c, d, video', v') \<Longrightarrow>
     (video', v') = (if fs = [] then (video, v) else (True, snd (last fs)))"
proof (induction fs arbitrary: seen prev missing n video v)
  case (Cons x fs)
  obtain frame us where x: "x = (frame, us)" by fastforce
  have "\<exists>seen' prev' missing' n'. see_frame frame us (seen, prev, missing, n, video, v) = (seen', prev', missing', n', True, us)"
    by (auto simp: see_frame_def)
  then obtain seen' prev' missing' n' where "see_frame frame us (seen, prev, missing, n, video, v) = (seen', prev', missing', n', True, us)"
    by blast
  then show ?case
    using Cons.IH [of seen' prev' missing' n' True us] Cons.prems by (simp add: x)
qed simp

lemma update_start: "sw_start (update g now e s) = sw_start s"
proof (cases "begin_update g now s")
  case (Some t)
  then have "sw_start t = sw_start s"
    by (auto simp: begin_update_def advance_window_def Let_def split: if_splits)
  then show ?thesis
    using frame_part_record [of e t] Some by (simp add: update_def frame_part_eq)
qed (simp add: update_def)

lemma update_all_keeps:
  "sw_start (update_all rs s) = sw_start s \<and> sx_active (sw_session (update_all rs s)) = sx_active (sw_session s)"
proof (induction rs arbitrary: s)
  case (Cons r rs)
  obtain g now e where "r = (g, now, e)" by (cases r)
  then show ?case
    using Cons.IH [of "update g now e s"] update_start [of g now e s] update_keeps_session [of g now e s]
    by (simp add: update_all_def)
qed (simp add: update_all_def)

text \<open>
  Once a session has run for three seconds, a snapshot warns that the stream is stalled exactly if
  no frame of the session has been received for a second, or none at all, whatever else has been reported.
\<close>

theorem stats_stall_detected:
  assumes "stats_begin settings start s0 = (g, s)" "3000000 \<le> now - start"
  shows "\<exists>x s'. stats_snapshot True now (update_all rs s) = (Some x, s') \<and>
    (sx_warning x = Warning_stalled \<longleftrightarrow> frames_of g rs = [] \<or> 1000000 \<le> now - snd (last (frames_of g rs)))"
proof -
  note fresh = stats_begin_video [OF assms(1)]
  define s' where "s' = advance_window now (update_all rs s)"
  have keeps: "sw_start s' = start" "sx_active (sw_session s')"
    using update_all_keeps [of rs s] fresh by (simp_all add: s'_def advance_window_def Let_def)
  have "video_part s' = fold (\<lambda>(frame, us). see_frame frame us) (frames_of g rs) (False, 0, 0, 0, False, 0)"
    using video_part_all [OF fresh(2-4), of rs] by (simp add: fresh(1) s'_def)
  from see_frames_video [OF this [unfolded video_part_def, symmetric]]
  have video: "sx_has_video (sw_session s') \<longleftrightarrow> frames_of g rs \<noteq> []"
    "frames_of g rs \<noteq> [] \<Longrightarrow> sw_last_video s' = snd (last (frames_of g rs))"
    by (auto split: if_splits)
  let ?x = "rates now s' (sw_session s')"
  have "stream_warning_of ?x (now - start) = Warning_stalled \<longleftrightarrow>
      \<not> sx_has_video (sw_session s') \<or> 1000000 \<le> now - sw_last_video s'"
    using keeps assms(2) by (auto simp: stream_warning_of_def rates_def Let_def not_less)
  moreover have "sx_warning (host_latency s' y) = sx_warning y" for y
    by (simp add: host_latency_def Let_def)
  then have "\<exists>x. stats_snapshot True now (update_all rs s) = (Some x, s') \<and> sx_warning x = stream_warning_of ?x (now - start)"
    by (simp add: stats_snapshot_def Let_def s'_def [symmetric] keeps)
  ultimately show ?thesis
    using video by auto
qed

theorem stats_stall_detected_witness:
  "\<exists>x s'. stats_snapshot True 5000000 (update_all example_reports (snd (stats_begin example_settings 5 stats_boot))) = (Some x, s') \<and>
     sx_warning x = Warning_stalled"
proof -
  have "stats_begin example_settings 5 stats_boot = (1, snd (stats_begin example_settings 5 stats_boot))"
    by (simp add: stats_begin_def stats_boot_def stream_stats_zero_def)
  then show ?thesis
    using stats_stall_detected [of example_settings 5 stats_boot 1 _ 5000000 example_reports]
    by (simp add: example_reports_def frames_of_def)
qed

end
