(* ===== verification/HeapTrace.thy ===== *)
theory HeapTrace imports Simulation "HOL-Library.Monad_Syntax" "HOL-Library.Multiset" begin

text \<open>
  The diagnostic heap trace (\<open>src/app/heap_trace.c\<close>): wrappers around the allocator that keep, for every
  block that was allocated through them, its size and the place it was asked for, in a hash table of
  fixed size with chains and a free list linked by indices, and per place the number and the size of its
  live blocks.

  Pointers and sizes have 32 bits. The arrays are functions from indices; the invariant says which
  indices are used. A chain is walked with as many steps as there are entries and one more; running out of
  them is \<open>None\<close>, and the main theorem shows that it never happens. The critical sections are the steps.
  \<open>__wrap_realloc\<close> has two of them, with the allocator in between and other threads coming in, so it is
  two steps of a thread, whose local variable \<open>old\<close> is part of the state. What the allocator returns is
  a parameter of the steps.

  The specification is a finite map from pointers to sizes and places.
\<close>

section \<open>Data\<close>

definition trace_entries :: nat where "trace_entries = 8192"
definition trace_buckets :: nat where "trace_buckets = 1024"
definition trace_sites :: nat where "trace_sites = 256"
definition trace_top :: nat where "trace_top = 12"

record trace_entry =
  te_pointer :: u32
  te_bytes :: u32
  te_site :: nat
  te_next :: nat

definition entry_zero :: trace_entry where
  "entry_zero = \<lparr>te_pointer = 0, te_bytes = 0, te_site = 0, te_next = 0\<rparr>"

record trace_site =
  ts_caller :: u32
  ts_live_bytes :: u32
  ts_peak_bytes :: u32
  ts_live_blocks :: u32

definition site_zero :: trace_site where
  "site_zero = \<lparr>ts_caller = 0, ts_live_bytes = 0, ts_peak_bytes = 0, ts_live_blocks = 0\<rparr>"

record heap =
  ht_entries :: "nat \<Rightarrow> trace_entry"
  ht_buckets :: "nat \<Rightarrow> nat"
  ht_sites :: "nat \<Rightarrow> trace_site"
  ht_site_count :: nat
  ht_free :: nat
  ht_initialized :: bool
  ht_dropped :: u32
  ht_unknown :: u32
  ht_replaced :: u32
  ht_zero_reallocs :: u32
  ht_failed :: u32
  ht_failed_caller :: u32
  ht_failed_bytes :: u32
  ht_old :: "nat \<Rightarrow> trace_entry"

definition heap_start :: heap where
  "heap_start = \<lparr>ht_entries = (\<lambda>_. entry_zero), ht_buckets = (\<lambda>_. 0), ht_sites = (\<lambda>_. site_zero),
     ht_site_count = 1, ht_free = 0, ht_initialized = False, ht_dropped = 0, ht_unknown = 0, ht_replaced = 0,
     ht_zero_reallocs = 0, ht_failed = 0, ht_failed_caller = 0, ht_failed_bytes = 0, ht_old = (\<lambda>_. entry_zero)\<rparr>"

text \<open>What \<open>trace_lock\<close> does with the data the first time.\<close>

definition trace_lock :: "heap \<Rightarrow> heap" where
  "trace_lock s =
     (if ht_initialized s then s
      else s\<lparr>ht_entries := (\<lambda>i. if 1 \<le> i \<and> i < trace_entries then (ht_entries s i)\<lparr>te_next := i + 1\<rparr> else ht_entries s i),
             ht_free := 1, ht_initialized := True\<rparr>)"

definition bucket_of :: "u32 \<Rightarrow> nat" where
  "bucket_of p = unat (drop_bit 3 p) mod trace_buckets"

section \<open>The table\<close>

text \<open>The pointer \<open>link\<close> of \<open>trace_remove\<close>: into the buckets, or at the \<open>next\<close> of an entry.\<close>

datatype link = Bucket nat | NextOf nat

fun get_link :: "link \<Rightarrow> heap \<Rightarrow> nat" where
  "get_link (Bucket b) s = ht_buckets s b"
| "get_link (NextOf i) s = te_next (ht_entries s i)"

fun set_link :: "link \<Rightarrow> nat \<Rightarrow> heap \<Rightarrow> heap" where
  "set_link (Bucket b) v s = s\<lparr>ht_buckets := (ht_buckets s)(b := v)\<rparr>"
| "set_link (NextOf i) v s = s\<lparr>ht_entries := (ht_entries s)(i := (ht_entries s i)\<lparr>te_next := v\<rparr>)\<rparr>"

definition unlink :: "link \<Rightarrow> nat \<Rightarrow> heap \<Rightarrow> heap" where
  "unlink l slot s =
     (let e = ht_entries s slot;
          s = set_link l (te_next e) s;
          site = ht_sites s (te_site e);
          s = s\<lparr>ht_sites := (ht_sites s)(te_site e := site\<lparr>ts_live_bytes := ts_live_bytes site - te_bytes e,
                                                          ts_live_blocks := ts_live_blocks site - 1\<rparr>)\<rparr>
      in s\<lparr>ht_entries := (ht_entries s)(slot := (ht_entries s slot)\<lparr>te_pointer := 0, te_next := ht_free s\<rparr>),
           ht_free := slot\<rparr>)"

fun remove_walk :: "nat \<Rightarrow> u32 \<Rightarrow> link \<Rightarrow> heap \<Rightarrow> (trace_entry \<times> heap) option" where
  "remove_walk 0 p l s = None"
| "remove_walk (Suc n) p l s =
     (let slot = get_link l s in
      if slot = 0 then Some (entry_zero, s)
      else if te_pointer (ht_entries s slot) = p then Some (ht_entries s slot, unlink l slot s)
      else remove_walk n p (NextOf slot) s)"

definition trace_remove :: "u32 \<Rightarrow> heap \<Rightarrow> (trace_entry \<times> heap) option" where
  "trace_remove p s =
     (if p = 0 then Some (entry_zero, s) else remove_walk (trace_entries + 1) p (Bucket (bucket_of p)) s)"

definition trace_site_of :: "u32 \<Rightarrow> heap \<Rightarrow> nat \<times> heap" where
  "trace_site_of caller s =
     (case filter (\<lambda>i. ts_caller (ht_sites s i) = caller) [1..<ht_site_count s] of
        i # _ \<Rightarrow> (i, s)
      | [] \<Rightarrow>
          if ht_site_count s = trace_sites then (0, s)
          else let site = ht_site_count s
               in (site, s\<lparr>ht_site_count := site + 1,
                          ht_sites := (ht_sites s)(site := (ht_sites s site)\<lparr>ts_caller := caller\<rparr>)\<rparr>))"

text \<open>The part of \<open>trace_insert\<close> that takes a free slot.\<close>

definition link_entry :: "u32 \<Rightarrow> u32 \<Rightarrow> nat \<Rightarrow> heap \<Rightarrow> heap" where
  "link_entry p bytes site s =
     (let slot = ht_free s; b = bucket_of p; st = ht_sites s site; live = ts_live_bytes st + bytes in
      s\<lparr>ht_free := te_next (ht_entries s slot),
        ht_entries := (ht_entries s)(slot := \<lparr>te_pointer = p, te_bytes = bytes, te_site = site, te_next = ht_buckets s b\<rparr>),
        ht_buckets := (ht_buckets s)(b := slot),
        ht_sites := (ht_sites s)(site := st\<lparr>ts_live_bytes := live, ts_live_blocks := ts_live_blocks st + 1,
          ts_peak_bytes := (if live > ts_peak_bytes st then live else ts_peak_bytes st)\<rparr>)\<rparr>)"

definition trace_insert :: "u32 \<Rightarrow> u32 \<Rightarrow> nat \<Rightarrow> heap \<Rightarrow> heap option" where
  "trace_insert p bytes site s =
     (if p = 0 then Some s
      else do {
        (prior, s) \<leftarrow> trace_remove p s;
        let s = (if te_pointer prior \<noteq> 0 then s\<lparr>ht_replaced := ht_replaced s + 1\<rparr> else s);
        if ht_free s = 0 then Some (s\<lparr>ht_dropped := ht_dropped s + 1\<rparr>)
        else Some (link_entry p bytes site s)
      })"

definition note_failure :: "u32 \<Rightarrow> u32 \<Rightarrow> heap \<Rightarrow> heap" where
  "note_failure caller bytes s =
     s\<lparr>ht_failed := ht_failed s + 1, ht_failed_caller := caller, ht_failed_bytes := bytes\<rparr>"

definition trace_result :: "u32 \<Rightarrow> u32 \<Rightarrow> u32 \<Rightarrow> heap \<Rightarrow> heap option" where
  "trace_result p bytes caller s =
     (let s = trace_lock s in
      if p \<noteq> 0 then (case trace_site_of caller s of (site, s) \<Rightarrow> trace_insert p bytes site s)
      else if bytes \<noteq> 0 then Some (note_failure caller bytes s)
      else Some s)"

section \<open>The wrappers\<close>

definition wrap_malloc :: "u32 \<Rightarrow> u32 \<Rightarrow> u32 \<Rightarrow> heap \<Rightarrow> heap option" where
  "wrap_malloc result sz caller s = trace_result result sz caller s"

definition calloc_bytes :: "u32 \<Rightarrow> u32 \<Rightarrow> u32" where
  "calloc_bytes nmemb sz = (if nmemb \<noteq> 0 \<and> sz > (- 1) div nmemb then - 1 else nmemb * sz)"

definition wrap_calloc :: "u32 \<Rightarrow> u32 \<Rightarrow> u32 \<Rightarrow> u32 \<Rightarrow> heap \<Rightarrow> heap option" where
  "wrap_calloc result nmemb sz caller s = trace_result result (calloc_bytes nmemb sz) caller s"

definition wrap_free :: "u32 \<Rightarrow> heap \<Rightarrow> heap option" where
  "wrap_free p s = do {
     (old, s) \<leftarrow> trace_remove p (trace_lock s);
     Some (if p \<noteq> 0 \<and> te_pointer old = 0 then s\<lparr>ht_unknown := ht_unknown s + 1\<rparr> else s)
   }"

text \<open>The two sections of \<open>__wrap_realloc\<close> of thread \<open>t\<close>.\<close>

definition realloc_detach :: "nat \<Rightarrow> u32 \<Rightarrow> heap \<Rightarrow> heap option" where
  "realloc_detach t p s = do {
     (old, s) \<leftarrow> trace_remove p (trace_lock s);
     Some (s\<lparr>ht_old := (ht_old s)(t := old)\<rparr>)
   }"

definition realloc_finish :: "nat \<Rightarrow> u32 \<Rightarrow> u32 \<Rightarrow> u32 \<Rightarrow> u32 \<Rightarrow> heap \<Rightarrow> heap option" where
  "realloc_finish t p result sz caller s =
     (let s = trace_lock s; old = ht_old s t in
      if result \<noteq> 0 then (case trace_site_of caller s of (site, s) \<Rightarrow> trace_insert result sz site s)
      else if sz \<noteq> 0 then do {
        s \<leftarrow> (if te_pointer old \<noteq> 0 then trace_insert (te_pointer old) (te_bytes old) (te_site old) s else Some s);
        Some (note_failure caller sz s)
      }
      else if p \<noteq> 0 then Some (s\<lparr>ht_zero_reallocs := ht_zero_reallocs s + 1\<rparr>)
      else Some s)"

text \<open>Malloc, calloc and free, and the two halves of realloc.\<close>

datatype heap_op =
    Malloc u32 u32 u32
  | Calloc u32 u32 u32 u32
  | Free u32
  | ReallocDetach nat u32
  | ReallocFinish nat u32 u32 u32 u32

fun heap_step :: "heap \<Rightarrow> heap_op \<Rightarrow> heap option" where
  "heap_step s (Malloc result sz caller) = wrap_malloc result sz caller s"
| "heap_step s (Calloc result nmemb sz caller) = wrap_calloc result nmemb sz caller s"
| "heap_step s (Free p) = wrap_free p s"
| "heap_step s (ReallocDetach t p) = realloc_detach t p s"
| "heap_step s (ReallocFinish t p result sz caller) = realloc_finish t p result sz caller s"

section \<open>The report\<close>

text \<open>
  \<open>moonlight_log_heap_trace\<close> on the sites it has copied: the totals, and the ranking, one line for each
  of the first sites by live bytes.
\<close>

definition total_bytes :: "trace_site list \<Rightarrow> u32" where
  "total_bytes sites = sum_list (map ts_live_bytes sites)"

definition total_blocks :: "trace_site list \<Rightarrow> u32" where
  "total_blocks sites = sum_list (map ts_live_blocks sites)"

fun best_site :: "trace_site list \<Rightarrow> nat list \<Rightarrow> nat \<Rightarrow> nat" where
  "best_site sites [] best = best"
| "best_site sites (i # is) best =
     best_site sites is (if ts_live_bytes (sites ! i) > ts_live_bytes (sites ! best) then i else best)"

fun rank_sites :: "nat \<Rightarrow> trace_site list \<Rightarrow> trace_site list" where
  "rank_sites 0 sites = []"
| "rank_sites (Suc n) sites =
     (let best = best_site sites [1..<length sites] 0 in
      if ts_live_blocks (sites ! best) = 0 then []
      else sites ! best # rank_sites n (sites[best := (sites ! best)\<lparr>ts_live_bytes := 0, ts_live_blocks := 0\<rparr>]))"

definition report_sites :: "heap \<Rightarrow> trace_site list" where
  "report_sites s = map (ht_sites s) [0..<ht_site_count s]"

definition log_heap_trace :: "heap \<Rightarrow> (u32 \<times> u32 \<times> trace_site list) \<times> heap" where
  "log_heap_trace s =
     (let s = trace_lock s; sites = report_sites s
      in ((total_bytes sites, total_blocks sites, rank_sites trace_top sites), s))"

section \<open>Chains\<close>

text \<open>\<open>seg f a xs z\<close>: from \<open>a\<close>, following \<open>f\<close>, the slots \<open>xs\<close> are met, and then \<open>z\<close>.\<close>

fun seg :: "(nat \<Rightarrow> nat) \<Rightarrow> nat \<Rightarrow> nat list \<Rightarrow> nat \<Rightarrow> bool" where
  "seg f a [] z \<longleftrightarrow> a = z"
| "seg f a (x # xs) z \<longleftrightarrow> a = x \<and> x \<noteq> 0 \<and> seg f (f x) xs z"

lemma seg_append: "seg f a (xs @ ys) z \<longleftrightarrow> (\<exists>m. seg f a xs m \<and> seg f m ys z)"
  by (induction xs arbitrary: a) auto

lemma seg_cong: "(\<And>i. i \<in> set xs \<Longrightarrow> f i = g i) \<Longrightarrow> seg f a xs z = seg g a xs z"
  by (induction xs arbitrary: a) auto

lemma seg_upd: "i \<notin> set xs \<Longrightarrow> seg (f(i := v)) a xs z = seg f a xs z"
  by (rule seg_cong) auto

lemma seg_relink_last:
  "seg f a (xs @ [l]) m \<Longrightarrow> distinct (xs @ [l]) \<Longrightarrow> seg (f(l := v)) a (xs @ [l]) v"
proof (induction xs arbitrary: a)
  case (Cons x xs)
  then show ?case by (auto simp: seg_upd)
qed simp

abbreviation nexts :: "heap \<Rightarrow> nat \<Rightarrow> nat" where
  "nexts s i \<equiv> te_next (ht_entries s i)"

abbreviation ptr :: "heap \<Rightarrow> nat \<Rightarrow> u32" where
  "ptr s i \<equiv> te_pointer (ht_entries s i)"

text \<open>
  The shape of the table: \<open>fl\<close> is the free list and \<open>ch b\<close> the chain of bucket \<open>b\<close>. Together they are all
  slots, each once.
\<close>

definition slots :: "nat set" where
  "slots = {1..trace_entries}"

definition shape :: "heap \<Rightarrow> nat list \<Rightarrow> (nat \<Rightarrow> nat list) \<Rightarrow> bool" where
  "shape s fl ch \<longleftrightarrow>
     seg (nexts s) (ht_free s) fl 0 \<and> distinct fl \<and> (\<forall>i\<in>set fl. ptr s i = 0) \<and>
     (\<forall>b. seg (nexts s) (ht_buckets s b) (ch b) 0 \<and> distinct (ch b) \<and> set fl \<inter> set (ch b) = {} \<and>
        (\<forall>i\<in>set (ch b). ptr s i \<noteq> 0 \<and> bucket_of (ptr s i) = b)) \<and>
     set fl \<union> (\<Union>b. set (ch b)) = slots \<and> inj_on (ptr s) {i \<in> slots. ptr s i \<noteq> 0}"

lemma shapeD:
  assumes "shape s fl ch"
  shows "seg (nexts s) (ht_free s) fl 0" "distinct fl" "i \<in> set fl \<Longrightarrow> ptr s i = 0"
    "seg (nexts s) (ht_buckets s b) (ch b) 0" "distinct (ch b)" "set fl \<inter> set (ch b) = {}"
    "i \<in> set (ch b) \<Longrightarrow> ptr s i \<noteq> 0" "i \<in> set (ch b) \<Longrightarrow> bucket_of (ptr s i) = b"
    "i \<in> set (ch b) \<Longrightarrow> i \<in> slots" "i \<in> set fl \<Longrightarrow> i \<in> slots"
    "set fl \<union> (\<Union>b. set (ch b)) = slots" "inj_on (ptr s) {i \<in> slots. ptr s i \<noteq> 0}"
  using assms unfolding shape_def by blast+

lemma shapeI:
  assumes "seg (nexts s) (ht_free s) fl 0" "distinct fl" "\<And>i. i \<in> set fl \<Longrightarrow> ptr s i = 0"
    "\<And>b. seg (nexts s) (ht_buckets s b) (ch b) 0" "\<And>b. distinct (ch b)" "\<And>b. set fl \<inter> set (ch b) = {}"
    "\<And>b i. i \<in> set (ch b) \<Longrightarrow> ptr s i \<noteq> 0" "\<And>b i. i \<in> set (ch b) \<Longrightarrow> bucket_of (ptr s i) = b"
    "set fl \<union> (\<Union>b. set (ch b)) = slots" "inj_on (ptr s) {i \<in> slots. ptr s i \<noteq> 0}"
  shows "shape s fl ch"
  using assms unfolding shape_def by blast

lemma shape_used:
  assumes "shape s fl ch"
  shows "{i \<in> slots. ptr s i \<noteq> 0} = (\<Union>b. set (ch b))"
  using assms by (auto simp: shape_def)

lemma shape_disjoint:
  assumes "shape s fl ch" "b \<noteq> c"
  shows "set (ch b) \<inter> set (ch c) = {}"
proof -
  have "bucket_of (ptr s i) = b \<and> bucket_of (ptr s i) = c" if "i \<in> set (ch b) \<inter> set (ch c)" for i
    using assms(1) that by (auto simp: shape_def)
  then show ?thesis using assms(2) by blast
qed

lemma length_chain:
  assumes "shape s fl ch"
  shows "length (ch b) \<le> trace_entries"
proof -
  have "set (ch b) \<subseteq> slots" "distinct (ch b)"
    using assms by (auto simp: shape_def)
  then show ?thesis
    using card_mono [of slots "set (ch b)"] distinct_card [of "ch b"] by (simp add: slots_def)
qed

text \<open>The slot of a pointer.\<close>

lemma chain_of_pointer:
  assumes "shape s fl ch" "i \<in> slots" "ptr s i = p" "p \<noteq> 0"
  shows "i \<in> set (ch (bucket_of p))"
  using assms by (auto simp: shape_def)

text \<open>The walk finds the first entry of the chain that has the pointer, and the link in front of it.\<close>

definition link_before :: "link \<Rightarrow> nat list \<Rightarrow> link" where
  "link_before l xs = (if xs = [] then l else NextOf (last xs))"

lemma remove_walk_found:
  "seg (nexts s) (get_link l s) (xs @ x # ys) 0 \<Longrightarrow> ptr s x = p \<Longrightarrow> (\<forall>i\<in>set xs. ptr s i \<noteq> p) \<Longrightarrow> length xs < n \<Longrightarrow>
     remove_walk n p l s = Some (ht_entries s x, unlink (link_before l xs) x s)"
proof (induction xs arbitrary: l n)
  case Nil
  then show ?case by (cases n) (auto simp: link_before_def)
next
  case (Cons i xs)
  then obtain m where "n = Suc m" by (cases n) auto
  then show ?case
    using Cons.prems Cons.IH [of "NextOf i" m] by (auto simp: link_before_def)
qed

lemma remove_walk_missing:
  "seg (nexts s) (get_link l s) xs 0 \<Longrightarrow> (\<forall>i\<in>set xs. ptr s i \<noteq> p) \<Longrightarrow> length xs < n \<Longrightarrow>
     remove_walk n p l s = Some (entry_zero, s)"
proof (induction xs arbitrary: l n)
  case Nil
  then show ?case by (cases n) auto
next
  case (Cons i xs)
  then obtain m where "n = Suc m" by (cases n) auto
  then show ?case
    using Cons.prems Cons.IH [of "NextOf i" m] by auto
qed

section \<open>Shape after each operation\<close>

lemma unlink_fields:
  fixes l :: link and x :: nat and s :: heap
  assumes "l \<noteq> NextOf x"
  defines "s' \<equiv> unlink l x s"
  shows "ht_free s' = x" "ptr s' = (ptr s)(x := 0)"
    "ht_buckets s' = (case l of Bucket b \<Rightarrow> (ht_buckets s)(b := nexts s x) | NextOf i \<Rightarrow> ht_buckets s)"
    "nexts s' = (case l of Bucket b \<Rightarrow> nexts s | NextOf i \<Rightarrow> (nexts s)(i := nexts s x))(x := ht_free s)"
    "te_bytes \<circ> ht_entries s' = te_bytes \<circ> ht_entries s" "te_site \<circ> ht_entries s' = te_site \<circ> ht_entries s"
  using assms(1) by (cases l; auto simp: s'_def unlink_def Let_def fun_eq_iff)+

lemma shape_unlink:
  assumes sh: "shape s fl ch" and ch: "ch b = xs @ x # ys"
  shows "shape (unlink (link_before (Bucket b) xs) x s) (x # fl) (ch(b := xs @ ys))"
proof -
  let ?l = "link_before (Bucket b) xs"
  let ?s = "unlink ?l x s"
  note D = shapeD [OF sh]
  have dist: "distinct (xs @ x # ys)" "x \<notin> set fl" "seg (nexts s) (ht_buckets s b) (xs @ x # ys) 0"
    using D(5) [of b] D(6) [of b] D(4) [of b] ch by auto
  have other: "x \<notin> set (ch c)" "set xs \<inter> set (ch c) = {}" if "c \<noteq> b" for c
    using shape_disjoint [OF sh that] ch by auto
  have "?l \<noteq> NextOf x"
    using dist(1) by (cases xs rule: rev_cases) (auto simp: link_before_def)
  note f = unlink_fields [OF this, of s]
  have x0: "x \<noteq> 0" "x \<in> slots"
    using dist(3) D(9) [of x b] ch by (auto simp: seg_append)
  have nx: "nexts ?s i = nexts s i" if "i \<noteq> x" "i \<notin> set xs" for i
    using that fun_cong [OF f(4), of i] by (cases xs rule: rev_cases) (auto simp: link_before_def)
  have keep: "seg (nexts ?s) a zs z = seg (nexts s) a zs z" if "x \<notin> set zs" "set xs \<inter> set zs = {}" for a zs z
    by (rule seg_cong, rule nx) (use that in auto)
  have chain: "seg (nexts ?s) (ht_buckets ?s b) (xs @ ys) 0"
  proof (cases xs rule: rev_cases)
    case Nil
    then have "seg (nexts s) (nexts s x) ys 0"
      using dist(3) by simp
    then have "seg (nexts ?s) (nexts s x) ys 0"
      using dist(1) Nil keep [of ys] by auto
    then show ?thesis using Nil f(3) by (simp add: link_before_def)
  next
    case (snoc zs z)
    obtain m where m: "seg (nexts s) (ht_buckets s b) (zs @ [z]) m" "seg (nexts s) (nexts s x) ys 0"
      using dist(3) snoc by (auto simp: seg_append)
    have "seg ((nexts s)(z := nexts s x)) (ht_buckets s b) (zs @ [z]) (nexts s x)"
      using m(1) dist(1) snoc by (intro seg_relink_last) auto
    moreover have "nexts ?s i = ((nexts s)(z := nexts s x)) i" if "i \<in> set (zs @ [z])" for i
      using that fun_cong [OF f(4), of i] snoc dist(1) by (auto simp: link_before_def)
    ultimately have "seg (nexts ?s) (ht_buckets s b) (zs @ [z]) (nexts s x)"
      using seg_cong [of "zs @ [z]" "nexts ?s" "(nexts s)(z := nexts s x)"] by blast
    moreover have "seg (nexts ?s) (nexts s x) ys 0"
      using m(2) dist(1) keep [of ys] by auto
    ultimately show ?thesis
      using snoc f(3) by (auto simp: seg_append link_before_def)
  qed
  have bucket: "ht_buckets ?s c = ht_buckets s c" if "c \<noteq> b" for c
    using that f(3) by (cases xs rule: rev_cases) (auto simp: link_before_def)
  have others: "seg (nexts ?s) (ht_buckets ?s c) (ch c) 0" if "c \<noteq> b" for c
    using D(4) [of c] other [OF that] bucket [OF that] keep [of "ch c"] by auto
  have "seg (nexts ?s) (ht_free s) fl 0"
    using D(1) D(6) [of b] dist ch keep [of fl] by (auto simp: Int_commute Int_Un_distrib)
  then have free: "seg (nexts ?s) (ht_free ?s) (x # fl) 0"
    using f(1) fun_cong [OF f(4), of x] x0 by simp
  have pt: "ptr ?s i = (if i = x then 0 else ptr s i)" for i
    using fun_cong [OF f(2), of i] by simp
  have in_chain: "i \<in> set (ch c)" "i \<noteq> x" if "i \<in> set ((ch(b := xs @ ys)) c)" for i c
    using that ch dist(1) other [of c] by (auto split: if_splits)
  show ?thesis
  proof (rule shapeI)
    show "seg (nexts ?s) (ht_free ?s) (x # fl) 0" "distinct (x # fl)"
      using free D(2) dist(2) by auto
    show "ptr ?s i = 0" if "i \<in> set (x # fl)" for i
      using that D(3) pt by auto
    show "seg (nexts ?s) (ht_buckets ?s c) ((ch(b := xs @ ys)) c) 0" for c
      using chain others by auto
    show "distinct ((ch(b := xs @ ys)) c)" for c
      using D(5) [of c] dist(1) by auto
    show "set (x # fl) \<inter> set ((ch(b := xs @ ys)) c) = {}" for c
    proof (rule Int_emptyI)
      fix i
      assume "i \<in> set (x # fl)" "i \<in> set ((ch(b := xs @ ys)) c)"
      then show False
        using in_chain [of i c] D(6) [of c] by (cases "i = x") auto
    qed
    show "ptr ?s i \<noteq> 0" "bucket_of (ptr ?s i) = c" if "i \<in> set ((ch(b := xs @ ys)) c)" for c i
      using in_chain [OF that] D(7,8) [of i c] pt by auto
    have "set (ch b) = insert x (set (xs @ ys))"
      using ch by auto
    then have "set (ch c) \<subseteq> insert x (set ((ch(b := xs @ ys)) c))" "set ((ch(b := xs @ ys)) c) \<subseteq> set (ch c)" for c
      by (cases "c = b"; auto)+
    moreover have "x \<in> set (ch b)"
      using ch by simp
    ultimately have "(\<Union>c. set (ch c)) = insert x (\<Union>c. set ((ch(b := xs @ ys)) c))"
      by blast
    then show "set (x # fl) \<union> (\<Union>c. set ((ch(b := xs @ ys)) c)) = slots"
      using D(11) by auto
    show "inj_on (ptr ?s) {i \<in> slots. ptr ?s i \<noteq> 0}"
      using D(12) by (auto simp: pt inj_on_def)
  qed
qed

lemma shape_link:
  assumes sh: "shape s (slot # fl) ch" and p: "p \<noteq> 0" "\<forall>i\<in>slots. ptr s i \<noteq> p"
  shows "shape (link_entry p bytes site s) fl (ch(bucket_of p := slot # ch (bucket_of p)))"
proof -
  let ?s = "link_entry p bytes site s" and ?b = "bucket_of p"
  note D = shapeD [OF sh]
  have slot: "ht_free s = slot" "slot \<noteq> 0" "slot \<notin> set fl" "slot \<in> slots" "seg (nexts s) (nexts s slot) fl 0"
    using D(1,2) D(10) [of slot] by auto
  have out: "slot \<notin> set (ch c)" for c
    using D(6) [of c] by auto
  have nx: "nexts ?s i = (if i = slot then ht_buckets s ?b else nexts s i)"
    and pt: "ptr ?s i = (if i = slot then p else ptr s i)"
    and fr: "ht_free ?s = nexts s slot"
    and bk: "ht_buckets ?s c = (if c = ?b then slot else ht_buckets s c)" for i c
    using slot(1) by (simp_all add: link_entry_def Let_def)
  have keep: "seg (nexts ?s) a zs z = seg (nexts s) a zs z" if "slot \<notin> set zs" for a zs z
    by (rule seg_cong, subst nx) (use that in auto)
  show ?thesis
  proof (rule shapeI)
    show "seg (nexts ?s) (ht_free ?s) fl 0"
      using fr keep [of fl] slot by simp
    show "distinct fl"
      using D(2) by simp
    show "ptr ?s i = 0" if "i \<in> set fl" for i
      using that D(3) [of i] slot(3) pt [of i] by auto
    show "seg (nexts ?s) (ht_buckets ?s c) ((ch(?b := slot # ch ?b)) c) 0" for c
      using D(4) [of c] keep [of "ch c"] out [of c] bk [of c] nx [of slot] slot(2) by auto
    show "distinct ((ch(?b := slot # ch ?b)) c)" for c
      using D(5) [of c] out [of c] by auto
    show "set fl \<inter> set ((ch(?b := slot # ch ?b)) c) = {}" for c
      using D(6) [of c] slot(3) by auto
    show "ptr ?s i \<noteq> 0" "bucket_of (ptr ?s i) = c" if "i \<in> set ((ch(?b := slot # ch ?b)) c)" for c i
      using that D(7,8) [of i c] p(1) pt [of i] out [of c] by (cases "i = slot"; auto split: if_splits)+
    have "(\<Union>c. set ((ch(?b := slot # ch ?b)) c)) = insert slot (\<Union>c. set (ch c))"
      by (auto split: if_splits)
    then show "set fl \<union> (\<Union>c. set ((ch(?b := slot # ch ?b)) c)) = slots"
      using D(11) by auto
    show "inj_on (ptr ?s) {i \<in> slots. ptr ?s i \<noteq> 0}"
    proof (rule inj_onI)
      fix i j
      assume ij: "i \<in> {i \<in> slots. ptr ?s i \<noteq> 0}" "j \<in> {i \<in> slots. ptr ?s i \<noteq> 0}" "ptr ?s i = ptr ?s j"
      show "i = j"
      proof (cases "i = slot \<or> j = slot")
        case True
        then show ?thesis using ij p(2) pt [of i] pt [of j] by (auto split: if_splits)
      next
        case False
        then have "ptr s i = ptr s j" "ptr s i \<noteq> 0" "ptr s j \<noteq> 0"
          using ij pt [of i] pt [of j] by simp_all
        then show ?thesis using ij D(12) by (auto dest: inj_onD)
      qed
    qed
  qed
qed

section \<open>The map of the live blocks\<close>

definition slot_of :: "heap \<Rightarrow> u32 \<Rightarrow> nat option" where
  "slot_of s p = find (\<lambda>i. ptr s i = p) [1..<trace_entries + 1]"

definition blocks :: "heap \<Rightarrow> u32 \<Rightarrow> (u32 \<times> nat) option" where
  "blocks s p =
     (if p = 0 then None
      else map_option (\<lambda>i. (te_bytes (ht_entries s i), te_site (ht_entries s i))) (slot_of s p))"

lemma set_slots: "set [1..<trace_entries + 1] = slots"
  by (auto simp: slots_def)

lemma slot_of_None: "slot_of s p = None \<longleftrightarrow> (\<forall>i\<in>slots. ptr s i \<noteq> p)"
  unfolding slot_of_def find_None_iff set_slots by blast

lemma slot_of_Some: "slot_of s p = Some i \<Longrightarrow> i \<in> slots \<and> ptr s i = p"
  unfolding slot_of_def find_Some_iff set_slots [symmetric] by (metis nth_mem)

lemma blocks_used:
  assumes "shape s fl ch" "i \<in> slots" "ptr s i = p" "p \<noteq> 0"
  shows "blocks s p = Some (te_bytes (ht_entries s i), te_site (ht_entries s i))"
proof (cases "slot_of s p")
  case None
  then show ?thesis using assms(2,3) by (auto simp: slot_of_None)
next
  case (Some j)
  then have "j = i"
    using slot_of_Some [of s p j] shapeD(12) [OF assms(1)] assms(2-4) by (auto dest: inj_onD)
  then show ?thesis using Some assms(4) by (simp add: blocks_def)
qed

lemma blocks_unused: "\<forall>i\<in>slots. ptr s i \<noteq> p \<Longrightarrow> blocks s p = None"
  using slot_of_None [of s p] by (simp add: blocks_def)

lemma blocks_iff:
  assumes "shape s fl ch"
  shows "blocks s p = Some v \<longleftrightarrow>
    (\<exists>i\<in>slots. ptr s i = p \<and> p \<noteq> 0 \<and> v = (te_bytes (ht_entries s i), te_site (ht_entries s i)))"
    (is "_ \<longleftrightarrow> ?R")
proof
  assume b: "blocks s p = Some v"
  then obtain i where "slot_of s p = Some i" "p \<noteq> 0" "v = (te_bytes (ht_entries s i), te_site (ht_entries s i))"
    by (auto simp: blocks_def split: if_splits)
  then show ?R using slot_of_Some by blast
next
  assume ?R
  then show "blocks s p = Some v" using blocks_used [OF assms] by blast
qed

lemma blocks_cong:
  assumes "ht_entries s' = ht_entries s"
  shows "blocks s' = blocks s"
  using assms by (simp add: blocks_def slot_of_def fun_eq_iff del: upt_Suc)

lemma blocks_unlink:
  assumes sh: "shape s fl ch" and ch: "ch b = xs @ x # ys"
  shows "blocks (unlink (link_before (Bucket b) xs) x s) = (blocks s)(ptr s x := None)"
proof
  fix p
  let ?s = "unlink (link_before (Bucket b) xs) x s"
  note sh' = shape_unlink [OF sh ch]
  have x: "x \<in> slots" "ptr s x \<noteq> 0" "distinct (xs @ x # ys)"
    using shapeD(5,7,9) [OF sh, of b] shapeD(7,9) [OF sh, of x b] ch by auto
  have "link_before (Bucket b) xs \<noteq> NextOf x"
    using x(3) by (cases xs rule: rev_cases) (auto simp: link_before_def)
  note f = unlink_fields [OF this, of s]
  have e: "ptr ?s i = (if i = x then 0 else ptr s i)" "te_bytes (ht_entries ?s i) = te_bytes (ht_entries s i)"
    "te_site (ht_entries ?s i) = te_site (ht_entries s i)" for i
    using fun_cong [OF f(2), of i] fun_cong [OF f(5), of i] fun_cong [OF f(6), of i] by simp_all
  have same: "i = x" if "i \<in> slots" "ptr s i = ptr s x" for i
    using shapeD(12) [OF sh] that x by (auto dest: inj_onD)
  have "blocks ?s p = Some v \<longleftrightarrow> ((blocks s)(ptr s x := None)) p = Some v" for v
  proof (cases "p = ptr s x")
    case True
    then show ?thesis using same by (auto simp: blocks_iff [OF sh'] e)
  next
    case False
    then show ?thesis using x(2) by (auto simp: blocks_iff [OF sh'] blocks_iff [OF sh] e cong: bex_cong)
  qed
  then show "blocks ?s p = ((blocks s)(ptr s x := None)) p"
    by (metis not_Some_eq)
qed

lemma blocks_link:
  assumes sh: "shape s (slot # fl) ch" and p: "p \<noteq> 0" "\<forall>i\<in>slots. ptr s i \<noteq> p"
  shows "blocks (link_entry p bytes site s) = (blocks s)(p \<mapsto> (bytes, site))"
proof
  fix q
  let ?s = "link_entry p bytes site s"
  note sh' = shape_link [OF sh p]
  have slot: "ht_free s = slot" "slot \<in> slots" "ptr s slot = 0"
    using shapeD(1) [OF sh] shapeD(10,3) [OF sh, of slot] by auto
  then have e: "ht_entries ?s i = (if i = slot then \<lparr>te_pointer = p, te_bytes = bytes, te_site = site,
      te_next = ht_buckets s (bucket_of p)\<rparr> else ht_entries s i)" for i
    by (simp add: link_entry_def Let_def)
  have "blocks ?s q = Some v \<longleftrightarrow> ((blocks s)(p \<mapsto> (bytes, site))) q = Some v" for v
  proof (cases "q = p")
    case True
    then show ?thesis using slot p by (auto simp: blocks_iff [OF sh'] e)
  next
    case False
    have "(ptr ?s i = q \<and> q \<noteq> 0 \<and> v = (te_bytes (ht_entries ?s i), te_site (ht_entries ?s i))) \<longleftrightarrow>
        (ptr s i = q \<and> q \<noteq> 0 \<and> v = (te_bytes (ht_entries s i), te_site (ht_entries s i)))" for i
      using slot(3) False by (cases "i = slot") (auto simp: e)
    then show ?thesis using False by (simp only: blocks_iff [OF sh'] blocks_iff [OF sh] fun_upd_other [OF False])
  qed
  then show "blocks ?s q = ((blocks s)(p \<mapsto> (bytes, site))) q"
    by (metis not_Some_eq)
qed

section \<open>The specification\<close>

text \<open>
  A map from the live pointers to their size and site, and the list of the callers: the site of a caller is
  its position, from 1; site 0 is for the callers for which there was no place.
\<close>

record heap_spec =
  hs_blocks :: "u32 \<Rightarrow> (u32 \<times> nat) option"
  hs_callers :: "u32 list"
  hs_old :: "nat \<Rightarrow> (u32 \<times> u32 \<times> nat) option"
  hs_dropped :: u32
  hs_unknown :: u32
  hs_replaced :: u32
  hs_zero_reallocs :: u32
  hs_failed :: u32
  hs_failure :: "u32 \<times> u32"

definition spec_start :: heap_spec where
  "spec_start = \<lparr>hs_blocks = (\<lambda>_. None), hs_callers = [], hs_old = (\<lambda>_. None), hs_dropped = 0, hs_unknown = 0,
     hs_replaced = 0, hs_zero_reallocs = 0, hs_failed = 0, hs_failure = (0, 0)\<rparr>"

definition spec_insert :: "u32 \<Rightarrow> u32 \<Rightarrow> nat \<Rightarrow> heap_spec \<Rightarrow> heap_spec" where
  "spec_insert p bytes site a =
     (let a = (if hs_blocks a p = None then a
               else a\<lparr>hs_blocks := (hs_blocks a)(p := None), hs_replaced := hs_replaced a + 1\<rparr>) in
      if card (dom (hs_blocks a)) = trace_entries then a\<lparr>hs_dropped := hs_dropped a + 1\<rparr>
      else a\<lparr>hs_blocks := (hs_blocks a)(p \<mapsto> (bytes, site))\<rparr>)"

definition spec_site :: "u32 \<Rightarrow> heap_spec \<Rightarrow> nat \<times> heap_spec" where
  "spec_site caller a =
     (if caller \<in> set (hs_callers a) then (Suc (length (takeWhile (\<lambda>c. c \<noteq> caller) (hs_callers a))), a)
      else if Suc (length (hs_callers a)) = trace_sites then (0, a)
      else (Suc (length (hs_callers a)), a\<lparr>hs_callers := hs_callers a @ [caller]\<rparr>))"

definition spec_failure :: "u32 \<Rightarrow> u32 \<Rightarrow> heap_spec \<Rightarrow> heap_spec" where
  "spec_failure caller bytes a = a\<lparr>hs_failed := hs_failed a + 1, hs_failure := (caller, bytes)\<rparr>"

definition spec_allocated :: "u32 \<Rightarrow> u32 \<Rightarrow> u32 \<Rightarrow> heap_spec \<Rightarrow> heap_spec" where
  "spec_allocated p bytes caller a = (case spec_site caller a of (site, a) \<Rightarrow> spec_insert p bytes site a)"

definition spec_result :: "u32 \<Rightarrow> u32 \<Rightarrow> u32 \<Rightarrow> heap_spec \<Rightarrow> heap_spec" where
  "spec_result p bytes caller a =
     (if p \<noteq> 0 then spec_allocated p bytes caller a
      else if bytes \<noteq> 0 then spec_failure caller bytes a else a)"

fun spec_step :: "heap_spec \<Rightarrow> heap_op \<Rightarrow> heap_spec" where
  "spec_step a (Malloc result sz caller) = spec_result result sz caller a"
| "spec_step a (Calloc result nmemb sz caller) = spec_result result (calloc_bytes nmemb sz) caller a"
| "spec_step a (Free p) =
     (if p = 0 then a
      else if hs_blocks a p = None then a\<lparr>hs_unknown := hs_unknown a + 1\<rparr>
      else a\<lparr>hs_blocks := (hs_blocks a)(p := None)\<rparr>)"
| "spec_step a (ReallocDetach t p) =
     a\<lparr>hs_old := (hs_old a)(t := map_option (Pair p) (hs_blocks a p)), hs_blocks := (hs_blocks a)(p := None)\<rparr>"
| "spec_step a (ReallocFinish t p result sz caller) =
     (if result \<noteq> 0 then spec_allocated result sz caller a
      else if sz \<noteq> 0 then
        spec_failure caller sz (case hs_old a t of None \<Rightarrow> a | Some (p, bytes, site) \<Rightarrow> spec_insert p bytes site a)
      else if p \<noteq> 0 then a\<lparr>hs_zero_reallocs := hs_zero_reallocs a + 1\<rparr>
      else a)"

definition entry_abs :: "trace_entry \<Rightarrow> (u32 \<times> u32 \<times> nat) option" where
  "entry_abs e = (if te_pointer e = 0 then None else Some (te_pointer e, te_bytes e, te_site e))"

definition callers :: "heap \<Rightarrow> u32 list" where
  "callers s = map (\<lambda>i. ts_caller (ht_sites s i)) [1..<ht_site_count s]"

definition heap_abs :: "heap \<Rightarrow> heap_spec" where
  "heap_abs s = \<lparr>hs_blocks = blocks s, hs_callers = callers s, hs_old = (\<lambda>t. entry_abs (ht_old s t)),
     hs_dropped = ht_dropped s, hs_unknown = ht_unknown s, hs_replaced = ht_replaced s,
     hs_zero_reallocs = ht_zero_reallocs s, hs_failed = ht_failed s,
     hs_failure = (ht_failed_caller s, ht_failed_bytes s)\<rparr>"

section \<open>The invariant\<close>

text \<open>What the blocks of a site add up to: their number, with \<open>f = (\<lambda>_. 1)\<close>, or their bytes, with \<open>f = id\<close>.\<close>

definition site_blocks :: "(u32 \<Rightarrow> (u32 \<times> nat) option) \<Rightarrow> nat \<Rightarrow> u32 set" where
  "site_blocks m k = {p. \<exists>b. m p = Some (b, k)}"

definition site_sum :: "(u32 \<Rightarrow> u32) \<Rightarrow> (u32 \<Rightarrow> (u32 \<times> nat) option) \<Rightarrow> nat \<Rightarrow> u32" where
  "site_sum f m k = (\<Sum>p\<in>site_blocks m k. f (fst (the (m p))))"

lemma site_sum_insert:
  fixes m :: "u32 \<Rightarrow> (u32 \<times> nat) option"
  assumes "m p = None"
  shows "site_sum f (m(p \<mapsto> (b, k))) j = site_sum f m j + (if j = k then f b else 0)"
proof -
  have [simp]: "finite (site_blocks m j)" by simp
  have "p \<notin> site_blocks m j"
    using assms by (simp add: site_blocks_def)
  moreover have "site_blocks (m(p \<mapsto> (b, k))) j = (if j = k then insert p (site_blocks m j) else site_blocks m j)"
    using assms by (auto simp: site_blocks_def)
  moreover have "(\<Sum>q\<in>site_blocks m j. f (fst (the ((m(p \<mapsto> (b, k))) q)))) = site_sum f m j"
    using calculation(1) by (auto simp: site_sum_def intro!: sum.cong)
  ultimately show ?thesis
    by (auto simp: site_sum_def)
qed

lemma site_sum_delete:
  assumes "m p = Some (b, k)"
  shows "site_sum f (m(p := None)) j = site_sum f m j - (if j = k then f b else 0)"
proof -
  have "m = (m(p := None))(p \<mapsto> (b, k))"
    using assms by auto
  then have "site_sum f m j = site_sum f (m(p := None)) j + (if j = k then f b else 0)"
    using site_sum_insert [of "m(p := None)" p f b k j] by simp
  then show ?thesis by simp
qed

definition accounted :: "heap \<Rightarrow> bool" where
  "accounted s \<longleftrightarrow> (\<forall>k. ts_live_bytes (ht_sites s k) = site_sum id (blocks s) k \<and>
     ts_live_blocks (ht_sites s k) = site_sum (\<lambda>_. 1) (blocks s) k)"

text \<open>Every site number that is stored is in range, and no caller has two sites.\<close>

definition sites_ok :: "heap \<Rightarrow> bool" where
  "sites_ok s \<longleftrightarrow> 1 \<le> ht_site_count s \<and> ht_site_count s \<le> trace_sites \<and> distinct (callers s) \<and>
     (\<forall>i. te_site (ht_entries s i) < ht_site_count s) \<and> (\<forall>t. te_site (ht_old s t) < ht_site_count s)"

definition table_inv :: "heap \<Rightarrow> bool" where
  "table_inv s \<longleftrightarrow> ht_initialized s \<and> (\<exists>fl ch. shape s fl ch) \<and> sites_ok s \<and> accounted s"

definition heap_inv :: "heap \<Rightarrow> bool" where
  "heap_inv s \<longleftrightarrow> table_inv (trace_lock s)"

lemma table_invD:
  assumes "table_inv s"
  shows "ht_initialized s" "trace_lock s = s" "heap_inv s"
  using assms by (simp_all add: table_inv_def heap_inv_def trace_lock_def)

lemma heap_abs_lock [simp]: "heap_abs (trace_lock s) = heap_abs s"
proof -
  have e: "ptr (trace_lock s) = ptr s" "te_bytes \<circ> ht_entries (trace_lock s) = te_bytes \<circ> ht_entries s"
    "te_site \<circ> ht_entries (trace_lock s) = te_site \<circ> ht_entries s"
    by (auto simp: trace_lock_def fun_eq_iff)
  have "blocks (trace_lock s) = blocks s"
    using fun_cong [OF e(1)] fun_cong [OF e(2)] fun_cong [OF e(3)]
    by (simp add: blocks_def slot_of_def fun_eq_iff del: upt_Suc)
  then show ?thesis
    by (simp add: heap_abs_def callers_def) (simp add: trace_lock_def)
qed

lemma seg_upt:
  "a \<le> n \<Longrightarrow> 0 < a \<Longrightarrow> (\<And>i. a \<le> i \<Longrightarrow> i < n \<Longrightarrow> f i = Suc i) \<Longrightarrow> f n = 0 \<Longrightarrow> seg f a [a..<Suc n] 0"
proof (induction "n - a" arbitrary: a)
  case 0
  then show ?case by simp
next
  case (Suc d)
  then have "seg f (Suc a) [Suc a..<Suc n] 0"
    by (intro Suc.hyps(1)) auto
  then show ?case using Suc.prems Suc.hyps(2) by (simp add: upt_conv_Cons del: upt_Suc)
qed

lemma heap_inv_start: "heap_inv heap_start"
proof -
  let ?s = "trace_lock heap_start"
  have e: "ht_entries ?s i = (if 1 \<le> i \<and> i < trace_entries then entry_zero\<lparr>te_next := i + 1\<rparr> else entry_zero)" for i
    by (simp add: trace_lock_def heap_start_def)
  have f: "ht_free ?s = 1" "ht_buckets ?s = (\<lambda>_. 0)" "ht_initialized ?s" "ht_sites ?s = (\<lambda>_. site_zero)"
    "ht_site_count ?s = 1" "ht_old ?s = (\<lambda>_. entry_zero)"
    by (simp_all add: trace_lock_def heap_start_def)
  have p: "ptr ?s i = 0" for i
    by (simp add: e entry_zero_def)
  have "seg (nexts ?s) 1 [1..<Suc trace_entries] 0"
    by (rule seg_upt) (auto simp: e entry_zero_def trace_entries_def)
  then have "shape ?s [1..<Suc trace_entries] (\<lambda>_. [])"
    by (auto simp: shape_def f p inj_on_def slots_def simp del: upt_Suc)
  moreover have "blocks ?s p = None" for p
    by (cases "p = 0") (auto simp: blocks_def slot_of_None p)
  then have "accounted ?s"
    by (auto simp: accounted_def f site_sum_def site_blocks_def site_zero_def)
  moreover have "sites_ok ?s"
    by (auto simp: sites_ok_def f e entry_zero_def trace_sites_def callers_def)
  ultimately show ?thesis
    unfolding heap_inv_def table_inv_def using f by blast
qed

section \<open>Each critical section\<close>

lemma accounted_cong:
  "ht_entries s' = ht_entries s \<Longrightarrow> (\<And>k. ts_live_bytes (ht_sites s' k) = ts_live_bytes (ht_sites s k) \<and>
     ts_live_blocks (ht_sites s' k) = ts_live_blocks (ht_sites s k)) \<Longrightarrow> accounted s' = accounted s"
  using blocks_cong [of s' s] by (simp add: accounted_def)

lemma shape_cong:
  "ht_entries s' = ht_entries s \<Longrightarrow> ht_buckets s' = ht_buckets s \<Longrightarrow> ht_free s' = ht_free s \<Longrightarrow>
     shape s' fl ch = shape s fl ch"
  by (simp add: shape_def)

text \<open>Operations that write only counters.\<close>

definition same_table :: "heap \<Rightarrow> heap \<Rightarrow> bool" where
  "same_table s s' \<longleftrightarrow> ht_entries s' = ht_entries s \<and> ht_buckets s' = ht_buckets s \<and> ht_free s' = ht_free s \<and>
     ht_sites s' = ht_sites s \<and> ht_site_count s' = ht_site_count s \<and> ht_initialized s' = ht_initialized s"

lemma table_inv_same:
  "same_table s s' \<Longrightarrow> (\<And>t. te_site (ht_old s' t) < ht_site_count s) \<Longrightarrow> table_inv s \<Longrightarrow> table_inv s'"
  using shape_cong [of s' s] accounted_cong [of s' s]
  by (auto simp: table_inv_def same_table_def sites_ok_def callers_def)

lemma card_dom_blocks:
  assumes "shape s fl ch"
  shows "card (dom (blocks s)) + length fl = trace_entries"
proof -
  let ?U = "{i \<in> slots. ptr s i \<noteq> 0}"
  have "\<And>p. p \<in> dom (blocks s) \<longleftrightarrow> p \<in> ptr s ` ?U"
    using blocks_iff [OF assms] by (auto simp: dom_def)
  then have "dom (blocks s) = ptr s ` ?U"
    by blast
  then have "card (dom (blocks s)) = card ?U"
    using shapeD(12) [OF assms] by (simp add: card_image)
  moreover have "set fl \<subseteq> slots" "i \<in> set fl \<longleftrightarrow> i \<in> slots \<and> ptr s i = 0" for i
    using shapeD(3,7,10,11) [OF assms] by blast+
  then have "?U = slots - set fl"
    by blast
  moreover have "finite slots" "card slots = trace_entries" "card (set fl) = length fl"
    using distinct_card [OF shapeD(2) [OF assms]] by (simp_all add: slots_def)
  ultimately show ?thesis
    using card_Diff_subset [of "set fl" slots] card_mono [of slots "set fl"] \<open>set fl \<subseteq> slots\<close> by simp
qed

lemma full_iff:
  assumes "shape s fl ch"
  shows "ht_free s = 0 \<longleftrightarrow> card (dom (blocks s)) = trace_entries"
  using shapeD(1) [OF assms] card_dom_blocks [OF assms] by (cases fl) auto

text \<open>\<open>trace_remove\<close> deletes the pointer, returns its entry, and leaves the rest of the state alone.\<close>

definition other_fields :: "heap \<Rightarrow> heap \<Rightarrow> bool" where
  "other_fields s s' \<longleftrightarrow> ht_site_count s' = ht_site_count s \<and> callers s' = callers s \<and> ht_old s' = ht_old s \<and>
     ht_dropped s' = ht_dropped s \<and> ht_unknown s' = ht_unknown s \<and> ht_replaced s' = ht_replaced s \<and>
     ht_zero_reallocs s' = ht_zero_reallocs s \<and> ht_failed s' = ht_failed s \<and>
     ht_failed_caller s' = ht_failed_caller s \<and> ht_failed_bytes s' = ht_failed_bytes s"

lemma unlink_other:
  "other_fields s (unlink l x s)" "ht_initialized (unlink l x s) = ht_initialized s"
  by (cases l; simp add: other_fields_def unlink_def Let_def callers_def)+

lemma unlink_sites:
  fixes l :: link and x :: nat and s :: heap
  defines "e \<equiv> ht_entries s x"
  shows "ts_live_bytes (ht_sites (unlink l x s) k) = ts_live_bytes (ht_sites s k) - (if k = te_site e then te_bytes e else 0)"
    "ts_live_blocks (ht_sites (unlink l x s) k) = ts_live_blocks (ht_sites s k) - (if k = te_site e then 1 else 0)"
  by (cases l; simp add: e_def unlink_def Let_def)+

lemma trace_remove_inv:
  assumes inv: "table_inv s" and p: "p \<noteq> 0"
  shows "\<exists>e s'. trace_remove p s = Some (e, s') \<and> table_inv s' \<and> blocks s' = (blocks s)(p := None) \<and>
    other_fields s s' \<and> entry_abs e = map_option (Pair p) (blocks s p) \<and> te_site e < ht_site_count s"
proof -
  obtain fl ch where sh: "shape s fl ch"
    using inv by (auto simp: table_inv_def)
  let ?b = "bucket_of p"
  have len: "length (ch ?b) \<le> trace_entries"
    by (rule length_chain [OF sh])
  have seg: "seg (nexts s) (get_link (Bucket ?b) s) (ch ?b) 0"
    using shapeD(4) [OF sh] by simp
  show ?thesis
  proof (cases "\<exists>x\<in>set (ch ?b). ptr s x = p")
    case True
    then obtain xs x ys where split: "ch ?b = xs @ x # ys" "ptr s x = p" "\<forall>i\<in>set xs. ptr s i \<noteq> p"
      using split_list_first_prop [of "ch ?b" "\<lambda>i. ptr s i = p"] by blast
    let ?l = "link_before (Bucket ?b) xs" and ?e = "ht_entries s x"
    let ?s = "unlink ?l x s"
    have rem: "trace_remove p s = Some (?e, ?s)"
      using remove_walk_found [of s "Bucket ?b" xs x ys p "trace_entries + 1"] seg split len p
      by (simp add: trace_remove_def)
    have bl: "blocks ?s = (blocks s)(p := None)"
      using blocks_unlink [OF sh split(1)] split(2) by simp
    have "x \<in> slots"
      using shapeD(9) [OF sh, of x ?b] split(1) by simp
    then have at: "blocks s p = Some (te_bytes ?e, te_site ?e)"
      using blocks_used [OF sh _ split(2) p] by simp
    have "?l \<noteq> NextOf x"
      using shapeD(5) [OF sh, of ?b] split(1) by (cases xs rule: rev_cases) (auto simp: link_before_def)
    then have "te_site \<circ> ht_entries ?s = te_site \<circ> ht_entries s"
      using unlink_fields(6) by blast
    then have site: "te_site (ht_entries ?s i) = te_site (ht_entries s i)" for i
      by (metis comp_apply)
    have "sites_ok ?s"
      using inv unlink_other(1) [of s ?l x] site by (auto simp: table_inv_def sites_ok_def other_fields_def)
    moreover have "accounted ?s"
      using inv site_sum_delete [of "blocks s" p, OF at]
      by (auto simp: table_inv_def accounted_def bl unlink_sites)
    ultimately have "table_inv ?s"
      using inv shape_unlink [OF sh split(1)] unlink_other(2) by (auto simp: table_inv_def)
    moreover have "te_site ?e < ht_site_count s"
      using inv by (simp add: table_inv_def sites_ok_def)
    ultimately show ?thesis
      using rem bl at split(2) p unlink_other(1) by (auto simp: entry_abs_def)
  next
    case False
    then have "trace_remove p s = Some (entry_zero, s)"
      using remove_walk_missing [of s "Bucket ?b" "ch ?b" p "trace_entries + 1"] seg len p
      by (auto simp: trace_remove_def)
    moreover have "\<forall>i\<in>slots. ptr s i \<noteq> p"
      using False chain_of_pointer [OF sh _ _ p] by blast
    then have "blocks s p = None"
      by (rule blocks_unused)
    moreover from this have "(blocks s)(p := None) = blocks s"
      by auto
    ultimately show ?thesis
      using inv by (auto simp: entry_abs_def entry_zero_def other_fields_def table_inv_def sites_ok_def)
  qed
qed

lemma trace_insert_inv:
  assumes inv: "table_inv s" and p: "p \<noteq> 0" and site: "site < ht_site_count s"
  shows "\<exists>s'. trace_insert p bytes site s = Some s' \<and> table_inv s' \<and> ht_site_count s' = ht_site_count s \<and>
    heap_abs s' = spec_insert p bytes site (heap_abs s)"
proof -
  obtain e s1 where r: "trace_remove p s = Some (e, s1)" "table_inv s1" "blocks s1 = (blocks s)(p := None)"
    "other_fields s s1" "entry_abs e = map_option (Pair p) (blocks s p)"
    using trace_remove_inv [OF inv p] by blast
  define s2 where "s2 = (if te_pointer e \<noteq> 0 then s1\<lparr>ht_replaced := ht_replaced s1 + 1\<rparr> else s1)"
  have same: "same_table s1 s2" "ht_old s2 = ht_old s1"
    by (auto simp: s2_def same_table_def)
  then have inv2: "table_inv s2"
    using r(2) by (intro table_inv_same [OF same(1)]) (simp_all add: table_inv_def sites_ok_def)
  then obtain fl ch where sh: "shape s2 fl ch"
    by (auto simp: table_inv_def)
  have bl: "blocks s2 = (blocks s)(p := None)"
    using r(3) same(1) blocks_cong [of s2 s1] by (simp add: same_table_def)
  have found: "te_pointer e \<noteq> 0 \<longleftrightarrow> blocks s p \<noteq> None"
    using r(5) by (cases "blocks s p") (auto simp: entry_abs_def split: if_splits)
  have abs2: "heap_abs s2 = (if blocks s p = None then heap_abs s
      else (heap_abs s)\<lparr>hs_blocks := (blocks s)(p := None), hs_replaced := ht_replaced s + 1\<rparr>)"
  proof (cases "blocks s p")
    case None
    then have "(blocks s)(p := None) = blocks s" "s2 = s1"
      using found by (auto simp: s2_def)
    then show ?thesis
      using None r(3,4) by (simp add: heap_abs_def other_fields_def)
  next
    case (Some v)
    then have s2: "s2 = s1\<lparr>ht_replaced := ht_replaced s1 + 1\<rparr>"
      using found by (simp add: s2_def)
    have "callers s2 = callers s1"
      by (simp add: s2 callers_def)
    then show ?thesis
      using Some r(4) bl by (simp add: heap_abs_def other_fields_def) (simp add: s2)
  qed
  have count: "ht_site_count s2 = ht_site_count s"
    using same(1) r(4) by (simp add: same_table_def other_fields_def)
  have ins: "trace_insert p bytes site s =
      Some (if ht_free s2 = 0 then s2\<lparr>ht_dropped := ht_dropped s2 + 1\<rparr> else link_entry p bytes site s2)"
    using p r(1) by (simp add: trace_insert_def s2_def Let_def)
  have spec: "spec_insert p bytes site (heap_abs s) =
      (if card (dom (blocks s2)) = trace_entries then (heap_abs s2)\<lparr>hs_dropped := ht_dropped s2 + 1\<rparr>
       else (heap_abs s2)\<lparr>hs_blocks := (blocks s2)(p \<mapsto> (bytes, site))\<rparr>)"
    using abs2 by (auto simp: spec_insert_def heap_abs_def Let_def)
  show ?thesis
  proof (cases "ht_free s2 = 0")
    case True
    let ?s = "s2\<lparr>ht_dropped := ht_dropped s2 + 1\<rparr>"
    have st: "same_table s2 ?s"
      by (simp add: same_table_def)
    then have "table_inv ?s"
      using inv2 by (intro table_inv_same [OF st _ inv2]) (auto simp: table_inv_def sites_ok_def)
    moreover have "heap_abs ?s = (heap_abs s2)\<lparr>hs_dropped := ht_dropped s2 + 1\<rparr>"
      using blocks_cong [of ?s s2] by (simp add: heap_abs_def callers_def)
    ultimately show ?thesis
      using ins spec full_iff [OF sh] True count by simp
  next
    case False
    let ?s = "link_entry p bytes site s2"
    obtain slot fl' where fl: "fl = slot # fl'" "slot = ht_free s2"
      using False shapeD(1) [OF sh] by (cases fl) auto
    have unused: "\<forall>i\<in>slots. ptr s2 i \<noteq> p"
      using blocks_used [OF sh] p bl by (metis fun_upd_same option.distinct(1))
    have bl': "blocks ?s = (blocks s2)(p \<mapsto> (bytes, site))"
      using blocks_link [OF sh [unfolded fl(1)] p unused] .
    have sh': "\<exists>fl ch. shape ?s fl ch"
      using shape_link [OF sh [unfolded fl(1)] p unused] by blast
    have fields: "ht_initialized ?s = ht_initialized s2" "other_fields s2 ?s"
      by (auto simp: link_entry_def Let_def other_fields_def callers_def)
    have sites: "ts_live_bytes (ht_sites ?s k) = ts_live_bytes (ht_sites s2 k) + (if k = site then bytes else 0)"
      "ts_live_blocks (ht_sites ?s k) = ts_live_blocks (ht_sites s2 k) + (if k = site then 1 else 0)" for k
      by (simp_all add: link_entry_def Let_def)
    have "blocks s2 p = None"
      using bl by simp
    from site_sum_insert [of "blocks s2" p, OF this] have "accounted ?s"
      using inv2 by (auto simp: accounted_def table_inv_def sites bl')
    moreover have "te_site (ht_entries ?s i) < ht_site_count ?s" for i
      using inv2 site count by (auto simp: link_entry_def Let_def table_inv_def sites_ok_def)
    then have "sites_ok ?s"
      using inv2 fields(2) by (auto simp: sites_ok_def table_inv_def other_fields_def)
    ultimately have "table_inv ?s"
      using sh' inv2 fields by (simp add: table_inv_def)
    moreover have "heap_abs ?s = (heap_abs s2)\<lparr>hs_blocks := (blocks s2)(p \<mapsto> (bytes, site))\<rparr>"
      using fields(2) by (simp add: heap_abs_def bl' other_fields_def)
    ultimately show ?thesis
      using ins spec full_iff [OF sh] False count fields(2) by (auto simp: other_fields_def)
  qed
qed

text \<open>The first site with the caller in the table is the first with it in the list.\<close>

lemma filter_position:
  "case filter (\<lambda>i. f i = c) xs of
     i # _ \<Rightarrow> c \<in> set (map f xs) \<and> length (takeWhile (\<lambda>d. d \<noteq> c) (map f xs)) < length xs \<and>
       xs ! length (takeWhile (\<lambda>d. d \<noteq> c) (map f xs)) = i
   | [] \<Rightarrow> c \<notin> set (map f xs)"
  by (induction xs) (auto split: list.splits)

lemma trace_site_of_inv:
  assumes inv: "table_inv s"
  shows "\<exists>k s'. trace_site_of caller s = (k, s') \<and> table_inv s' \<and> k < ht_site_count s' \<and>
    spec_site caller (heap_abs s) = (k, heap_abs s')"
proof -
  let ?xs = "[1..<ht_site_count s]" and ?f = "\<lambda>i. ts_caller (ht_sites s i)"
  have ok: "1 \<le> ht_site_count s" "ht_site_count s \<le> trace_sites" "distinct (callers s)"
    using inv by (simp_all add: table_inv_def sites_ok_def)
  show ?thesis
  proof (cases "filter (\<lambda>i. ?f i = caller) ?xs")
    case (Cons k ks)
    then have k: "caller \<in> set (callers s)"
      "length (takeWhile (\<lambda>d. d \<noteq> caller) (callers s)) < length ?xs"
      "?xs ! length (takeWhile (\<lambda>d. d \<noteq> caller) (callers s)) = k"
      using filter_position [where f = ?f and c = caller and xs = ?xs] by (simp_all add: callers_def)
    then have "Suc (length (takeWhile (\<lambda>d. d \<noteq> caller) (callers s))) = k" "k < ht_site_count s"
      by simp_all
    then show ?thesis
      using inv Cons k(1) by (auto simp: trace_site_of_def spec_site_def heap_abs_def)
  next
    case Nil
    then have new: "caller \<notin> set (callers s)"
      using filter_position [where f = ?f and c = caller and xs = ?xs] by (simp add: callers_def)
    have len: "Suc (length (callers s)) = ht_site_count s"
      using ok(1) by (simp add: callers_def)
    show ?thesis
    proof (cases "ht_site_count s = trace_sites")
      case True
      then show ?thesis
        using inv Nil new len ok(1) by (auto simp: trace_site_of_def spec_site_def heap_abs_def)
    next
      case False
      let ?n = "ht_site_count s"
      let ?s = "s\<lparr>ht_site_count := ?n + 1, ht_sites := (ht_sites s)(?n := (ht_sites s ?n)\<lparr>ts_caller := caller\<rparr>)\<rparr>"
      have sh: "\<exists>fl ch. shape ?s fl ch"
        using inv shape_cong [of ?s s] by (simp add: table_inv_def)
      have acc: "accounted ?s"
        using inv accounted_cong [of ?s s] by (simp add: table_inv_def)
      have call: "callers ?s = callers s @ [caller]"
        using ok(1) by (simp add: callers_def)
      have "sites_ok ?s"
        using inv False new ok call by (auto simp: table_inv_def sites_ok_def less_Suc_eq)
      then have "table_inv ?s"
        using inv sh acc by (simp add: table_inv_def)
      moreover have "heap_abs ?s = (heap_abs s)\<lparr>hs_callers := callers s @ [caller]\<rparr>"
        using call blocks_cong [of ?s s] by (simp add: heap_abs_def)
      ultimately show ?thesis
        using Nil False new len by (auto simp: trace_site_of_def spec_site_def heap_abs_def Let_def)
    qed
  qed
qed

text \<open>A block that is allocated, under its caller's site.\<close>

lemma allocated_inv:
  assumes inv: "table_inv s" and p: "p \<noteq> 0"
  shows "\<exists>s'. (case trace_site_of caller s of (site, s) \<Rightarrow> trace_insert p bytes site s) = Some s' \<and> table_inv s' \<and>
    heap_abs s' = spec_allocated p bytes caller (heap_abs s)"
proof -
  obtain k s1 where "trace_site_of caller s = (k, s1)" "table_inv s1" "k < ht_site_count s1"
    "spec_site caller (heap_abs s) = (k, heap_abs s1)"
    using trace_site_of_inv [OF inv, of caller] by blast
  then show ?thesis
    using trace_insert_inv [of s1 p k bytes] p by (auto simp: spec_allocated_def)
qed

lemma note_failure_inv:
  assumes "table_inv s"
  shows "table_inv (note_failure caller bytes s)" "heap_abs (note_failure caller bytes s) = spec_failure caller bytes (heap_abs s)"
proof -
  show "table_inv (note_failure caller bytes s)"
    by (rule table_inv_same [OF _ _ assms])
      (use assms in \<open>simp_all add: note_failure_def same_table_def table_inv_def sites_ok_def\<close>)
  show "heap_abs (note_failure caller bytes s) = spec_failure caller bytes (heap_abs s)"
    using blocks_cong [of "note_failure caller bytes s" s]
    by (simp add: note_failure_def spec_failure_def heap_abs_def callers_def)
qed

lemma trace_result_inv:
  assumes "table_inv s"
  shows "\<exists>s'. trace_result p bytes caller s = Some s' \<and> table_inv s' \<and>
    heap_abs s' = spec_result p bytes caller (heap_abs s)"
  using allocated_inv [OF assms, where p = p and caller = caller and bytes = bytes] note_failure_inv [OF assms, of caller bytes] assms
  by (cases "p = 0") (auto simp: trace_result_def spec_result_def table_invD(2) [OF assms])

lemma counter_inv:
  assumes "table_inv s"
  shows "table_inv (s\<lparr>ht_unknown := u\<rparr>)" "heap_abs (s\<lparr>ht_unknown := u\<rparr>) = (heap_abs s)\<lparr>hs_unknown := u\<rparr>"
    "table_inv (s\<lparr>ht_zero_reallocs := u\<rparr>)" "heap_abs (s\<lparr>ht_zero_reallocs := u\<rparr>) = (heap_abs s)\<lparr>hs_zero_reallocs := u\<rparr>"
proof -
  have old: "te_site (ht_old s t) < ht_site_count s" for t
    using assms by (simp add: table_inv_def sites_ok_def)
  show "table_inv (s\<lparr>ht_unknown := u\<rparr>)"
    by (rule table_inv_same [OF _ _ assms]) (simp_all add: same_table_def old)
  show "table_inv (s\<lparr>ht_zero_reallocs := u\<rparr>)"
    by (rule table_inv_same [OF _ _ assms]) (simp_all add: same_table_def old)
  show "heap_abs (s\<lparr>ht_unknown := u\<rparr>) = (heap_abs s)\<lparr>hs_unknown := u\<rparr>"
    using blocks_cong [of "s\<lparr>ht_unknown := u\<rparr>" s] by (simp add: heap_abs_def callers_def)
  show "heap_abs (s\<lparr>ht_zero_reallocs := u\<rparr>) = (heap_abs s)\<lparr>hs_zero_reallocs := u\<rparr>"
    using blocks_cong [of "s\<lparr>ht_zero_reallocs := u\<rparr>" s] by (simp add: heap_abs_def callers_def)
qed

text \<open>Removing with the null pointer too.\<close>

lemma remove_inv:
  assumes inv: "table_inv s"
  shows "\<exists>e s'. trace_remove p s = Some (e, s') \<and> table_inv s' \<and>
    heap_abs s' = (heap_abs s)\<lparr>hs_blocks := (blocks s)(p := None)\<rparr> \<and>
    entry_abs e = map_option (Pair p) (blocks s p) \<and> te_site e < ht_site_count s'"
proof (cases "p = 0")
  case True
  then have "blocks s p = None" "(blocks s)(p := None) = blocks s"
    by (auto simp: blocks_def)
  then show ?thesis
    using True inv by (auto simp: trace_remove_def entry_abs_def entry_zero_def heap_abs_def table_inv_def sites_ok_def)
next
  case False
  then obtain e s' where r: "trace_remove p s = Some (e, s')" "table_inv s'" "blocks s' = (blocks s)(p := None)"
    "other_fields s s'" "entry_abs e = map_option (Pair p) (blocks s p)" "te_site e < ht_site_count s"
    using trace_remove_inv [OF inv] by blast
  then show ?thesis
    by (auto simp: heap_abs_def other_fields_def)
qed

lemma wrap_free_inv:
  assumes inv: "table_inv s"
  shows "\<exists>s'. wrap_free p s = Some s' \<and> table_inv s' \<and> heap_abs s' = spec_step (heap_abs s) (Free p)"
proof -
  obtain e s1 where r: "trace_remove p s = Some (e, s1)" "table_inv s1"
    "heap_abs s1 = (heap_abs s)\<lparr>hs_blocks := (blocks s)(p := None)\<rparr>"
    "entry_abs e = map_option (Pair p) (blocks s p)"
    using remove_inv [OF inv, of p] by blast
  have found: "te_pointer e = 0 \<longleftrightarrow> blocks s p = None"
    using r(4) by (cases "blocks s p") (auto simp: entry_abs_def split: if_splits)
  have none: "(heap_abs s)\<lparr>hs_blocks := (blocks s)(p := None)\<rparr> = heap_abs s" if "blocks s p = None"
    using that fun_upd_triv [of "blocks s" p] by (simp add: heap_abs_def)
  have free: "wrap_free p s = Some (if p \<noteq> 0 \<and> te_pointer e = 0 then s1\<lparr>ht_unknown := ht_unknown s1 + 1\<rparr> else s1)"
    using r(1) by (simp add: wrap_free_def table_invD(2) [OF inv])
  have abs: "hs_blocks (heap_abs s) = blocks s" "hs_unknown (heap_abs s1) = ht_unknown s1"
    by (simp_all add: heap_abs_def)
  show ?thesis
  proof (cases "blocks s p")
    case None
    then have "heap_abs s1 = heap_abs s"
      using r(3) none by simp
    then show ?thesis
      using None free found r(2) counter_inv(1,2) [OF r(2), of "ht_unknown s1 + 1"] abs by (cases "p = 0") auto
  next
    case (Some v)
    then have "p \<noteq> 0" by (auto simp: blocks_def)
    then show ?thesis using Some free found r(2,3) abs by simp
  qed
qed

lemma old_inv:
  assumes inv: "table_inv s" and site: "te_site e < ht_site_count s"
  shows "table_inv (s\<lparr>ht_old := (ht_old s)(t := e)\<rparr>)"
    "heap_abs (s\<lparr>ht_old := (ht_old s)(t := e)\<rparr>) = (heap_abs s)\<lparr>hs_old := (hs_old (heap_abs s))(t := entry_abs e)\<rparr>"
proof -
  let ?s = "s\<lparr>ht_old := (ht_old s)(t := e)\<rparr>"
  show "table_inv ?s"
    by (rule table_inv_same [OF _ _ inv]) (use inv site in \<open>simp_all add: same_table_def table_inv_def sites_ok_def\<close>)
  show "heap_abs ?s = (heap_abs s)\<lparr>hs_old := (hs_old (heap_abs s))(t := entry_abs e)\<rparr>"
    using blocks_cong [of ?s s] by (auto simp: heap_abs_def callers_def fun_eq_iff)
qed

lemma realloc_detach_inv:
  assumes inv: "table_inv s"
  shows "\<exists>s'. realloc_detach t p s = Some s' \<and> table_inv s' \<and> heap_abs s' = spec_step (heap_abs s) (ReallocDetach t p)"
proof -
  obtain e s1 where r: "trace_remove p s = Some (e, s1)" "table_inv s1"
    "heap_abs s1 = (heap_abs s)\<lparr>hs_blocks := (blocks s)(p := None)\<rparr>"
    "entry_abs e = map_option (Pair p) (blocks s p)" "te_site e < ht_site_count s1"
    using remove_inv [OF inv, of p] by blast
  then have "realloc_detach t p s = Some (s1\<lparr>ht_old := (ht_old s1)(t := e)\<rparr>)"
    by (simp add: realloc_detach_def table_invD(2) [OF inv])
  moreover have "hs_blocks (heap_abs s) = blocks s"
    by (simp add: heap_abs_def)
  ultimately show ?thesis
    using old_inv [OF r(2,5), of t] r(3,4) by simp
qed

lemma realloc_finish_inv:
  assumes inv: "table_inv s"
  shows "\<exists>s'. realloc_finish t p result sz caller s = Some s' \<and> table_inv s' \<and>
    heap_abs s' = spec_step (heap_abs s) (ReallocFinish t p result sz caller)"
proof (cases "result = 0 \<and> sz \<noteq> 0")
  case False
  have z: "hs_zero_reallocs (heap_abs s) = ht_zero_reallocs s"
    by (simp add: heap_abs_def)
  from False show ?thesis
    using allocated_inv [OF inv, where p = result and caller = caller and bytes = sz]
      counter_inv(3,4) [OF inv, of "ht_zero_reallocs s + 1"] inv z
    by (cases "p = 0"; cases "result = 0") (simp_all add: realloc_finish_def table_invD(2) [OF inv])
next
  case True
  let ?old = "ht_old s t"
  have site: "te_site ?old < ht_site_count s"
    using inv by (simp add: table_inv_def sites_ok_def)
  have old: "hs_old (heap_abs s) t = entry_abs ?old"
    by (simp add: heap_abs_def)
  show ?thesis
  proof (cases "te_pointer ?old = 0")
    case True': True
    then show ?thesis
      using True old note_failure_inv [OF inv, of caller sz]
      by (simp add: realloc_finish_def table_invD(2) [OF inv] Let_def entry_abs_def)
  next
    case False
    then obtain s1 where "trace_insert (te_pointer ?old) (te_bytes ?old) (te_site ?old) s = Some s1" "table_inv s1"
      "heap_abs s1 = spec_insert (te_pointer ?old) (te_bytes ?old) (te_site ?old) (heap_abs s)"
      using trace_insert_inv [OF inv _ site] by blast
    then show ?thesis
      using True False old note_failure_inv [of s1 caller sz]
      by (simp add: realloc_finish_def table_invD(2) [OF inv] Let_def entry_abs_def)
  qed
qed

section \<open>Every run\<close>

definition heap_try :: "heap \<Rightarrow> heap_op \<Rightarrow> bool \<times> heap" where
  "heap_try s x = (case heap_step s x of None \<Rightarrow> (False, s) | Some s' \<Rightarrow> (True, s'))"

definition spec_try :: "heap_spec \<Rightarrow> heap_op \<Rightarrow> bool \<times> heap_spec" where
  "spec_try a x = (True, spec_step a x)"

lemma heap_step_inv:
  assumes "heap_inv s"
  shows "\<exists>s'. heap_step s x = Some s' \<and> table_inv s' \<and> heap_abs s' = spec_step (heap_abs s) x"
proof -
  have lock: "heap_step s x = heap_step (trace_lock s) x"
    by (cases x)
      (simp_all add: wrap_malloc_def wrap_calloc_def wrap_free_def trace_result_def realloc_detach_def
        realloc_finish_def trace_lock_def)
  have inv: "table_inv (trace_lock s)"
    using assms by (simp add: heap_inv_def)
  have "\<exists>s'. heap_step (trace_lock s) x = Some s' \<and> table_inv s' \<and> heap_abs s' = spec_step (heap_abs (trace_lock s)) x"
    using trace_result_inv [OF inv] wrap_free_inv [OF inv] realloc_detach_inv [OF inv] realloc_finish_inv [OF inv]
    by (cases x) (simp_all add: wrap_malloc_def wrap_calloc_def)
  then show ?thesis
    by (simp add: lock)
qed

interpretation heap_table: simulation heap_try spec_try heap_abs heap_inv "\<lambda>_. 0" "\<lambda>_. 0"
proof
  fix s :: heap and x :: heap_op
  assume "heap_inv s"
  then obtain s' where s': "heap_step s x = Some s'" "table_inv s'" "heap_abs s' = spec_step (heap_abs s) x"
    using heap_step_inv by blast
  then show "heap_inv (snd (heap_try s x))"
    "spec_try (heap_abs s) x = (fst (heap_try s x), heap_abs (snd (heap_try s x)))"
    by (simp_all add: heap_try_def spec_try_def table_invD(3))
qed simp

lemma heap_abs_start: "heap_abs heap_start = spec_start"
proof -
  have "blocks heap_start p = None" for p
    by (cases "p = 0") (auto simp: blocks_def slot_of_None heap_start_def entry_zero_def)
  then show ?thesis
    by (auto simp: heap_abs_def callers_def heap_start_def spec_start_def entry_abs_def entry_zero_def)
qed

lemma spec_run: "fst (run spec_try a ops) = replicate (length ops) True" "snd (run spec_try a ops) = fold (\<lambda>x a. spec_step a x) ops a"
  by (induction ops arbitrary: a) (simp_all add: spec_try_def)

definition heap_after :: "heap_op list \<Rightarrow> heap" where
  "heap_after ops = snd (run heap_try heap_start ops)"

definition spec_after :: "heap_op list \<Rightarrow> heap_spec" where
  "spec_after ops = fold (\<lambda>x a. spec_step a x) ops spec_start"

lemma heap_after_inv: "heap_inv (heap_after ops)" "heap_abs (heap_after ops) = spec_after ops"
  using heap_table.run_simulates [OF heap_inv_start, of ops] by (simp_all add: heap_after_def spec_after_def spec_run heap_abs_start)

text \<open>
  Property C25. Whatever the program allocates, reallocates and frees, through whichever threads: every walk
  along a chain ends within the entries of the table, and the table stands for the map of the live blocks and
  the counters that the specification keeps, with an entry dropped only when 8192 blocks are live. The two
  halves of a reallocation may have any other operations between them.
\<close>

theorem heap_trace_refines_map:
  "fst (run heap_try heap_start ops) = replicate (length ops) True \<and>
   heap_abs (snd (run heap_try heap_start ops)) = fold (\<lambda>x a. spec_step a x) ops spec_start"
  using heap_table.run_simulates [OF heap_inv_start, of ops] by (simp add: spec_run heap_abs_start)

lemma heap_after_accounted: "accounted (heap_after ops)"
proof -
  have "accounted (trace_lock (heap_after ops))"
    using heap_after_inv(1) by (simp add: heap_inv_def table_inv_def)
  moreover have "blocks (trace_lock s) = blocks s" for s
    using arg_cong [OF heap_abs_lock, of hs_blocks s] by (simp add: heap_abs_def)
  ultimately show ?thesis
    by (simp add: accounted_def) (simp add: trace_lock_def split: if_splits)
qed

lemma heap_after_blocks: "blocks (heap_after ops) = hs_blocks (spec_after ops)"
  using heap_after_inv(2) [of ops] by (metis heap_abs_def heap_spec.select_convs(1))

lemma card_site_blocks: "card (site_blocks (blocks (heap_after ops)) k) \<le> trace_entries"
proof -
  obtain fl ch where "shape (trace_lock (heap_after ops)) fl ch"
    using heap_after_inv(1) [of ops] unfolding heap_inv_def table_inv_def by blast
  then have "card (dom (blocks (trace_lock (heap_after ops)))) \<le> trace_entries"
    using card_dom_blocks by fastforce
  moreover have "blocks (trace_lock (heap_after ops)) = blocks (heap_after ops)"
    using arg_cong [OF heap_abs_lock, of hs_blocks "heap_after ops"] by (simp add: heap_abs_def)
  moreover have "site_blocks m k \<subseteq> dom m" for m k
    by (auto simp: site_blocks_def)
  ultimately show ?thesis
    using card_mono [OF _ \<open>site_blocks (blocks (heap_after ops)) k \<subseteq> dom (blocks (heap_after ops))\<close>] by simp
qed

text \<open>
  Property C26. After every run, the number of live blocks of every site is the number of blocks that the
  specification has under that site, and its live bytes are the sum of their sizes (in 32 bits).
\<close>

theorem heap_trace_accounting:
  "unat (ts_live_blocks (ht_sites (heap_after ops) k)) = card {p. \<exists>b. hs_blocks (spec_after ops) p = Some (b, k)} \<and>
   ts_live_bytes (ht_sites (heap_after ops) k) =
     (\<Sum>p | \<exists>b. hs_blocks (spec_after ops) p = Some (b, k). fst (the (hs_blocks (spec_after ops) p)))"
proof -
  let ?m = "blocks (heap_after ops)"
  have "ts_live_blocks (ht_sites (heap_after ops) k) = of_nat (card (site_blocks ?m k))"
    using heap_after_accounted by (simp add: accounted_def site_sum_def)
  moreover have "card (site_blocks ?m k) < 2 ^ 32"
    using card_site_blocks [of ops k] by (simp add: trace_entries_def)
  ultimately have "unat (ts_live_blocks (ht_sites (heap_after ops) k)) = card (site_blocks ?m k)"
    by (simp add: unsigned_of_nat take_bit_nat_eq_self)
  then show ?thesis
    using heap_after_accounted [of ops] by (simp add: accounted_def site_sum_def site_blocks_def heap_after_blocks)
qed

section \<open>The ranking\<close>

lemma best_site_max:
  "b < length xs \<Longrightarrow> set is \<subseteq> {..<length xs} \<Longrightarrow>
     best_site xs is b < length xs \<and> (\<forall>i\<in>insert b (set is). ts_live_bytes (xs ! i) \<le> ts_live_bytes (xs ! best_site xs is b))"
proof (induction "is" arbitrary: b)
  case (Cons i "is")
  let ?b = "if ts_live_bytes (xs ! i) > ts_live_bytes (xs ! b) then i else b"
  have IH: "best_site xs is ?b < length xs" "\<forall>j\<in>insert ?b (set is). ts_live_bytes (xs ! j) \<le> ts_live_bytes (xs ! best_site xs is ?b)"
    using Cons.IH [of ?b] Cons.prems by auto
  moreover have "ts_live_bytes (xs ! i) \<le> ts_live_bytes (xs ! ?b)" "ts_live_bytes (xs ! b) \<le> ts_live_bytes (xs ! ?b)"
    by auto
  ultimately show ?case
    by (auto simp del: if_split_asm intro: order_trans)
qed simp

lemma best_site_all:
  assumes "xs \<noteq> []"
  defines "b \<equiv> best_site xs [1..<length xs] 0"
  shows "b < length xs" "x \<in> set xs \<Longrightarrow> ts_live_bytes x \<le> ts_live_bytes (xs ! b)"
proof -
  have m: "b < length xs \<and> (\<forall>i\<in>insert 0 (set [1..<length xs]). ts_live_bytes (xs ! i) \<le> ts_live_bytes (xs ! b))"
    unfolding b_def by (rule best_site_max) (use assms(1) in auto)
  then show "b < length xs" by simp
  assume "x \<in> set xs"
  then obtain i where i: "i < length xs" "x = xs ! i" by (auto simp: in_set_conv_nth)
  have "i \<in> insert 0 (set [1..<length xs])"
    using i(1) by (cases i) auto
  then show "ts_live_bytes x \<le> ts_live_bytes (xs ! b)"
    using m i(2) by blast
qed

lemma rank_sites_spec:
  fixes xs :: "trace_site list" and n :: nat
  assumes "xs \<noteq> []" and "\<forall>x\<in>set xs. ts_live_blocks x = 0 \<longrightarrow> ts_live_bytes x = 0"
  defines "r \<equiv> rank_sites n xs"
  shows "length r \<le> n \<and> (\<forall>x\<in>set r. ts_live_blocks x \<noteq> 0) \<and> sorted_wrt (\<lambda>a b. ts_live_bytes b \<le> ts_live_bytes a) r \<and>
    mset r \<subseteq># mset xs \<and> (\<forall>x\<in>#mset xs - mset r. \<forall>y\<in>set r. ts_live_bytes x \<le> ts_live_bytes y) \<and>
    (length r < n \<longrightarrow> (\<forall>x\<in>#mset xs - mset r. ts_live_bytes x = 0))"
  using assms(1,2) unfolding r_def
proof (induction n arbitrary: xs)
  case (Suc n)
  define b where "b = best_site xs [1..<length xs] 0"
  note best = best_site_all [OF Suc.prems(1), folded b_def]
  show ?case
  proof (cases "ts_live_blocks (xs ! b) = 0")
    case True
    then have "ts_live_bytes (xs ! b) = 0"
      using Suc.prems(2) best(1) by (simp add: all_set_conv_all_nth)
    then have "ts_live_bytes x = 0" if "x \<in> set xs" for x
      using best(2) [OF that] by simp
    then show ?thesis using True by (auto simp: Let_def b_def)
  next
    case False
    let ?z = "(xs ! b)\<lparr>ts_live_bytes := 0, ts_live_blocks := 0\<rparr>"
    let ?ys = "xs[b := ?z]" and ?rest = "mset xs - {#xs ! b#}"
    let ?r = "rank_sites n ?ys"
    have r: "rank_sites (Suc n) xs = xs ! b # ?r"
      using False by (simp add: Let_def b_def)
    have ys: "mset ?ys = add_mset ?z ?rest"
      using best(1) by (simp add: mset_update)
    have "\<forall>x\<in>set ?ys. ts_live_blocks x = 0 \<longrightarrow> ts_live_bytes x = 0" "?ys \<noteq> []"
      using Suc.prems set_update_subset_insert [of xs b ?z] by auto
    note IH = Suc.IH [OF this(2,1)]
    have z: "?z \<notin># mset ?r"
      using IH by force
    then have sub: "mset ?r \<subseteq># ?rest"
    proof -
      have "mset ?r - {#?z#} \<subseteq># ?rest"
        using IH ys by (simp add: subset_eq_diff_conv)
      then show ?thesis using diff_single_trivial [OF z] by simp
    qed
    then have rest: "add_mset ?z ?rest - mset ?r = add_mset ?z (?rest - mset ?r)"
      using z by (simp add: multiset_diff_union_assoc)
    have diff: "mset xs - mset (xs ! b # ?r) = ?rest - mset ?r"
      by simp
    have max: "ts_live_bytes x \<le> ts_live_bytes (xs ! b)" if "x \<in># ?rest" for x
      using best(2) in_diffD [OF that] by simp
    have max': "ts_live_bytes x \<le> ts_live_bytes (xs ! b)" if "x \<in> set ?r" for x
      using max mset_subset_eqD [OF sub] that by simp
    have max'': "ts_live_bytes x \<le> ts_live_bytes (xs ! b)" if "x \<in># ?rest - mset ?r" for x
      using max in_diffD [OF that] by simp
    have "mset (xs ! b # ?r) \<subseteq># mset xs"
      using sub best(1) by (simp add: insert_subset_eq_iff)
    then show ?thesis
      using IH max' max'' False unfolding r diff ys rest by auto
  qed
qed simp

lemma report_of_run:
  "report_sites (trace_lock (heap_after ops)) = report_sites (heap_after ops)"
  by (simp add: report_sites_def) (simp add: trace_lock_def)

lemma heap_after_sites: "sites_ok (trace_lock (heap_after ops))"
  using heap_after_inv(1) [of ops] unfolding heap_inv_def table_inv_def by blast

lemma block_site_range:
  assumes "blocks (heap_after ops) p = Some (b, k)"
  shows "k < ht_site_count (heap_after ops)"
proof -
  let ?s = "trace_lock (heap_after ops)"
  have "blocks ?s p = Some (b, k)"
    using assms arg_cong [OF heap_abs_lock, of hs_blocks "heap_after ops"] by (simp add: heap_abs_def)
  then obtain i where "k = te_site (ht_entries ?s i)"
    by (auto simp: blocks_def split: if_splits)
  moreover have "ht_site_count ?s = ht_site_count (heap_after ops)"
    by (simp add: trace_lock_def)
  ultimately show ?thesis
    using heap_after_sites [of ops] by (simp add: sites_ok_def)
qed

lemma sum_list_words: "sum_list (map (\<lambda>k. of_nat (f k) :: u32) [0..<n]) = of_nat (\<Sum>k<n. f k)"
  by (induction n) (simp_all add: lessThan_Suc add.commute)

lemma live_blocks_card: "ts_live_blocks (ht_sites (heap_after ops) k) = of_nat (card (site_blocks (blocks (heap_after ops)) k))"
  using heap_after_accounted by (simp add: accounted_def site_sum_def)

text \<open>
  The total that the report prints is the number of live blocks of the specification: every
  block is counted, under exactly one of the sites that the report looks at.
\<close>

theorem heap_report_total:
  "fst (snd (fst (log_heap_trace (heap_after ops)))) = of_nat (card (dom (hs_blocks (spec_after ops))))"
proof -
  let ?s = "heap_after ops"
  let ?m = "blocks ?s" and ?n = "ht_site_count ?s"
  have "dom ?m = (\<Union>k<?n. site_blocks ?m k)"
    using block_site_range [of ops] by (force simp: site_blocks_def dom_def)
  also have "card \<dots> = (\<Sum>k<?n. card (site_blocks ?m k))"
    by (rule card_UN_disjoint) (auto simp: site_blocks_def)
  finally have card: "card (dom ?m) = (\<Sum>k<?n. card (site_blocks ?m k))" .
  have "total_blocks (report_sites ?s) = sum_list (map (\<lambda>k. of_nat (card (site_blocks ?m k))) [0..<?n])"
    by (simp add: total_blocks_def report_sites_def live_blocks_card comp_def)
  then have "total_blocks (report_sites ?s) = of_nat (card (dom ?m))"
    using card by (simp only: sum_list_words)
  then show ?thesis
    by (simp add: log_heap_trace_def Let_def report_of_run heap_after_blocks)
qed

lemma report_zero:
  assumes "x \<in> set (report_sites (heap_after ops))" "ts_live_blocks x = 0"
  shows "ts_live_bytes x = 0"
proof -
  obtain k where k: "x = ht_sites (heap_after ops) k"
    using assms(1) by (auto simp: report_sites_def)
  have "card (site_blocks (blocks (heap_after ops)) k) < 2 ^ 32"
    using card_site_blocks [of ops k] by (simp add: trace_entries_def)
  then have "unat (ts_live_blocks x) = card (site_blocks (blocks (heap_after ops)) k)"
    by (simp add: k live_blocks_card unsigned_of_nat take_bit_nat_eq_self)
  then have "site_blocks (blocks (heap_after ops)) k = {}"
    using assms(2) by simp
  then show ?thesis
    using heap_after_accounted [of ops] by (simp add: k accounted_def site_sum_def)
qed

text \<open>
  The ranking of the report: at most twelve sites, in the order of their live bytes; no site
  that it leaves out has more live bytes than one it lists, and when there are fewer than twelve lines, the
  sites left out hold no bytes at all.
\<close>

theorem heap_report_ranks:
  "case log_heap_trace (heap_after ops) of ((_, _, r), _) \<Rightarrow>
     length r \<le> 12 \<and> sorted_wrt (\<lambda>a b. ts_live_bytes b \<le> ts_live_bytes a) r \<and>
     mset r \<subseteq># mset (report_sites (heap_after ops)) \<and>
     (\<forall>x\<in>#mset (report_sites (heap_after ops)) - mset r. \<forall>y\<in>set r. ts_live_bytes x \<le> ts_live_bytes y) \<and>
     (length r < 12 \<longrightarrow> (\<forall>x\<in>#mset (report_sites (heap_after ops)) - mset r. ts_live_bytes x = 0))"
proof -
  have "ht_site_count (trace_lock (heap_after ops)) = ht_site_count (heap_after ops)"
    by (simp add: trace_lock_def)
  then have "report_sites (heap_after ops) \<noteq> []"
    using heap_after_sites [of ops] by (simp add: report_sites_def sites_ok_def)
  from rank_sites_spec [OF this, of trace_top] show ?thesis
    using report_zero [of _ ops] by (auto simp: log_heap_trace_def Let_def report_of_run trace_top_def)
qed

lemma remove_empty: "ht_buckets s (bucket_of p) = 0 \<Longrightarrow> trace_remove p s = Some (entry_zero, s)"
  by (simp add: trace_remove_def)

lemma upt_0_2: "[0..<2] = [0, Suc 0]"
  by (simp add: upt_rec)

lemma first_block:
  "report_sites (heap_after [Malloc 16 100 7]) =
     [site_zero, \<lparr>ts_caller = 7, ts_live_bytes = 100, ts_peak_bytes = 100, ts_live_blocks = 1\<rparr>]"
  by (simp add: heap_after_def run.simps heap_try_def heap_start_def wrap_malloc_def trace_result_def trace_lock_def
      trace_site_of_def trace_insert_def remove_empty link_entry_def report_sites_def trace_sites_def
      site_zero_def entry_zero_def Let_def upt_0_2)

lemma rank_one:
  "ts_live_blocks x \<noteq> 0 \<Longrightarrow> ts_live_bytes x \<noteq> 0 \<Longrightarrow> rank_sites (Suc (Suc n)) [site_zero, x] = [x]"
  by (simp add: Let_def site_zero_def word_greater_zero_iff)

lemma filter_none: "\<forall>x\<in>#M. \<not> P x \<Longrightarrow> filter_mset P M = {#}"
  by (auto simp: multiset_eq_iff not_in_iff [symmetric])

lemma first_ranking:
  "snd (snd (fst (log_heap_trace (heap_after [Malloc 16 100 7])))) =
     [\<lparr>ts_caller = 7, ts_live_bytes = 100, ts_peak_bytes = 100, ts_live_blocks = 1\<rparr>]"
  using rank_one [of "\<lparr>ts_caller = 7, ts_live_bytes = 100, ts_peak_bytes = 100, ts_live_blocks = 1\<rparr>" 10]
  by (simp add: log_heap_trace_def Let_def report_of_run first_block trace_top_def)

theorem heap_report_ranks_witness:
  "map ts_caller (snd (snd (fst (log_heap_trace (heap_after [Malloc 16 100 7]))))) = [7] \<and>
   filter_mset (\<lambda>x. ts_live_bytes x \<noteq> 0) (mset (report_sites (heap_after [Malloc 16 100 7])) -
     mset (snd (snd (fst (log_heap_trace (heap_after [Malloc 16 100 7])))))) = {#}"
  using heap_report_ranks [of "[Malloc 16 100 7]"]
  by (intro conjI filter_none) (simp_all add: case_prod_unfold first_ranking)

end
