(* ===== verification/Mdns.thy ===== *)
theory Mdns imports Prelude "HOL-Library.Monad_Syntax" begin

unbundle bit_operations_syntax

text \<open>
  The mDNS sniffer (\<open>src/backend/legacy/mdns/udp_sniffer_vita.c\<close>, the part under \<open>__vita__\<close>):
  the decoder of compressed DNS names, the table of the services seen so far, and the poll that reads
  one packet and reports the services that are complete.

  A packet is the list of the bytes that were received. Reading one outside of it has no value: every
  reading operation returns \<open>None\<close> then, so that the safety of the parser is a theorem about the model
  (it never returns \<open>None\<close>). The names in a packet may hold zero bytes, and the code looks at them as
  C strings, hence \<open>cstr\<close>. The network library and the clock are parameters: a poll gets what
  \<open>sceNetRecvfrom\<close> gave, and the clock is a function of how often it has been read.
\<close>

section \<open>Reading bytes\<close>

definition byte_at :: "u8 list \<Rightarrow> nat \<Rightarrow> u8 option" where
  "byte_at msg i = (if i < length msg then Some (msg ! i) else None)"

definition bytes_at :: "u8 list \<Rightarrow> nat \<Rightarrow> nat \<Rightarrow> u8 list option" where
  "bytes_at msg i n = (if i + n \<le> length msg then Some (take n (drop i msg)) else None)"

definition be16 :: "u8 list \<Rightarrow> nat \<Rightarrow> nat option" where
  "be16 msg i = do { a \<leftarrow> byte_at msg i; b \<leftarrow> byte_at msg (i + 1); Some (unat a * 256 + unat b) }"

definition ascii :: "string \<Rightarrow> u8 list" where
  "ascii s = map (\<lambda>c. of_nat (of_char c)) s"

section \<open>Names\<close>

definition pointer :: "u8 \<Rightarrow> u8 \<Rightarrow> nat" where
  "pointer c low = unat (c AND 0x3F) * 256 + unat low"

text \<open>
  The loop of \<open>decode_dns_name\<close>; the first number is how many steps are left of \<open>msglen\<close>. The
  output is the bytes written so far, which a NUL follows.
\<close>

fun decode_loop ::
  "u8 list \<Rightarrow> nat \<Rightarrow> nat \<Rightarrow> nat \<Rightarrow> bool \<Rightarrow> nat \<Rightarrow> u8 list \<Rightarrow> (int \<times> u8 list) option" where
  "decode_loop msg outlen 0 pos jumped consumed out = Some (-1, out)"
| "decode_loop msg outlen (Suc steps) pos jumped consumed out =
     (if \<not> pos < length msg then Some (-1, out)
      else do {
        c \<leftarrow> byte_at msg pos;
        if c = 0 then Some (int (if jumped then consumed else consumed + 1), out)
        else if c AND 0xC0 = 0xC0 then
          if pos + 1 \<ge> length msg then Some (-1, out)
          else do {
            low \<leftarrow> byte_at msg (pos + 1);
            if pointer c low \<ge> length msg then Some (-1, out)
            else decode_loop msg outlen steps (pointer c low) True
                   (if jumped then consumed else consumed + 2) out
          }
        else if c AND 0xC0 \<noteq> 0 \<or> unat c > length msg - pos - 1 then Some (-1, out)
        else if unat c + (if out \<noteq> [] then 1 else 0) \<ge> outlen - length out then Some (-1, out)
        else do {
          label \<leftarrow> bytes_at msg (pos + 1) (unat c);
          decode_loop msg outlen steps (pos + unat c + 1) jumped
            (if jumped then consumed else consumed + unat c + 1)
            (out @ (if out \<noteq> [] then [0x2E] else []) @ label)
        }
      })"

definition decode_dns_name :: "u8 list \<Rightarrow> nat \<Rightarrow> nat \<Rightarrow> (int \<times> u8 list) option" where
  "decode_dns_name msg offset outlen =
     (if outlen = 0 \<or> offset \<ge> length msg then Some (-1, [])
      else decode_loop msg outlen (length msg) offset False 0 [])"

section \<open>The table\<close>

record sunshine_entry =
  se_host :: "u8 list"
  se_port :: int
  se_last_seen :: u32
  se_ip :: "u8 list"
  se_target :: "u8 list"

definition empty_entry :: sunshine_entry where
  "empty_entry = \<lparr>se_host = [], se_port = 0, se_last_seen = 0, se_ip = [], se_target = []\<rparr>"

definition max_sunshine :: nat where
  "max_sunshine = 16"

text \<open>A call of \<open>g_found_cb\<close>: number, host, target, address, port.\<close>

type_synonym found = "int \<times> u8 list \<times> u8 list \<times> u8 list \<times> int"

text \<open>
  The file's variables. \<open>sn_reads\<close> counts the readings of the clock, \<open>sn_found\<close> the calls of the
  callback and \<open>sn_handles\<close> the sockets that are open in the network library.
\<close>

record sniffer =
  sn_table :: "sunshine_entry list"
  sn_sock :: int
  sn_initialized :: bool
  sn_count :: int
  sn_callback :: bool
  sn_reads :: nat
  sn_found :: "found list"
  sn_handles :: "int list"

type_synonym clock = "nat \<Rightarrow> u32"

text \<open>The search for a slot to reuse in \<open>update_sunshine\<close>: the free slot, or the oldest one.\<close>

fun find_slot :: "sunshine_entry list \<Rightarrow> nat \<Rightarrow> u32 \<Rightarrow> nat option \<Rightarrow> nat option" where
  "find_slot [] i oldest idx = idx"
| "find_slot (e # es) i oldest idx =
     (if se_host e = [] then Some i
      else if se_last_seen e < oldest then find_slot es (i + 1) (se_last_seen e) (Some i)
      else find_slot es (i + 1) oldest idx)"

fun find_host :: "sunshine_entry list \<Rightarrow> nat \<Rightarrow> u8 list \<Rightarrow> nat option" where
  "find_host [] i host = None"
| "find_host (e # es) i host = (if se_host e = host then Some i else find_host es (i + 1) host)"

definition fill_entry :: "int \<Rightarrow> u8 list option \<Rightarrow> u32 \<Rightarrow> sunshine_entry \<Rightarrow> sunshine_entry" where
  "fill_entry port target now e =
     (let e = (if port > 0 then e\<lparr>se_port := port\<rparr> else e);
          e = (case target of None \<Rightarrow> e
               | Some t \<Rightarrow> if t \<noteq> [] then e\<lparr>se_target := take 255 t\<rparr> else e)
      in e\<lparr>se_last_seen := now\<rparr>)"

definition update_sunshine :: "clock \<Rightarrow> u8 list \<Rightarrow> int \<Rightarrow> u8 list option \<Rightarrow> sniffer \<Rightarrow> sniffer" where
  "update_sunshine clock host port target s =
     (let now = clock (sn_reads s);
          s = s\<lparr>sn_reads := sn_reads s + 1\<rparr>
      in case find_host (sn_table s) 0 host of
           Some i \<Rightarrow> s\<lparr>sn_table := (sn_table s)[i := fill_entry port target now (sn_table s ! i)]\<rparr>
         | None \<Rightarrow>
             (case find_slot (sn_table s) 0 now None of
                None \<Rightarrow> s
              | Some i \<Rightarrow>
                  let e = (sn_table s ! i)\<lparr>se_host := take 256 host, se_port := 0, se_ip := [], se_target := []\<rparr>
                  in s\<lparr>sn_table := (sn_table s)[i := fill_entry port target now e]\<rparr>))"

fun set_ip :: "u8 list \<Rightarrow> u8 list \<Rightarrow> u32 \<Rightarrow> sunshine_entry list \<Rightarrow> sunshine_entry list" where
  "set_ip target ip now [] = []"
| "set_ip target ip now (e # es) =
     (if se_target e = target \<and> se_host e \<noteq> []
      then e\<lparr>se_ip := take 16 ip, se_last_seen := now\<rparr> # es
      else e # set_ip target ip now es)"

definition update_sunshine_ip_by_target :: "clock \<Rightarrow> u8 list \<Rightarrow> u8 list \<Rightarrow> sniffer \<Rightarrow> sniffer" where
  "update_sunshine_ip_by_target clock target ip s =
     s\<lparr>sn_reads := sn_reads s + 1, sn_table := set_ip target ip (clock (sn_reads s)) (sn_table s)\<rparr>"

definition entry_ready :: "sunshine_entry \<Rightarrow> bool" where
  "entry_ready e \<longleftrightarrow> se_host e \<noteq> [] \<and> se_target e \<noteq> [] \<and> se_ip e \<noteq> [] \<and> se_port e > 0"

text \<open>One round of the loop of \<open>check_and_print_ready_entries_vita\<close>.\<close>

definition report_entry :: "nat \<Rightarrow> sniffer \<Rightarrow> sniffer" where
  "report_entry i s =
     (let e = sn_table s ! i in
      if entry_ready e then
        s\<lparr>sn_count := sn_count s + 1,
          sn_found := (if sn_callback s
                       then sn_found s @ [(sn_count s + 1, se_host e, se_target e, se_ip e, se_port e)]
                       else sn_found s),
          sn_table := (sn_table s)[i := e\<lparr>se_host := [], se_ip := [], se_port := 0, se_target := []\<rparr>]\<rparr>
      else s)"

definition check_and_print_ready_entries :: "sniffer \<Rightarrow> sniffer" where
  "check_and_print_ready_entries s = fold report_entry [0..<max_sunshine] s"

definition set_callback :: "bool \<Rightarrow> sniffer \<Rightarrow> sniffer" where
  "set_callback given s = s\<lparr>sn_callback := given\<rparr>"

section \<open>Packets\<close>

definition type_PTR :: nat where "type_PTR = 12"
definition type_SRV :: nat where "type_SRV = 33"
definition type_A :: nat where "type_A = 1"

definition nvstream :: "u8 list" where
  "nvstream = ascii ''_nvstream._tcp.local''"

definition nvstream_suffix :: "u8 list" where
  "nvstream_suffix = ascii ''._nvstream._tcp.local''"

text \<open>\<open>strstr\<close>: does the string hold the other one?\<close>

fun holds_string :: "u8 list \<Rightarrow> u8 list \<Rightarrow> bool" where
  "holds_string needle [] \<longleftrightarrow> needle = []"
| "holds_string needle (b # bs) \<longleftrightarrow> take (length needle) (b # bs) = needle \<or> holds_string needle bs"

definition has_suffix :: "u8 list \<Rightarrow> u8 list \<Rightarrow> bool" where
  "has_suffix suffix s \<longleftrightarrow> length s > length suffix \<and> drop (length s - length suffix) s = suffix"

fun decimal :: "nat \<Rightarrow> u8 list" where
  "decimal n = (if n < 10 then [of_nat (48 + n)] else decimal (n div 10) @ [of_nat (48 + n mod 10)])"

definition dotted :: "u8 list \<Rightarrow> u8 list" where
  "dotted bs = concat (map2 (\<lambda>i b. (if i = 0 then [] else [0x2E]) @ decimal (unat b)) [0..<length bs] bs)"

text \<open>
  The questions are skipped. The inner \<open>None\<close> is the early return of the poll with 0, the outer one a
  read outside the packet.
\<close>

fun skip_questions :: "u8 list \<Rightarrow> nat \<Rightarrow> nat \<Rightarrow> nat option option" where
  "skip_questions msg 0 pos = Some (Some pos)"
| "skip_questions msg (Suc n) pos =
     (if \<not> pos < length msg then Some (Some pos)
      else do {
        (l, qname) \<leftarrow> decode_dns_name msg pos 256;
        if l < 0 \<or> l > int (length msg) - int pos - 4 then Some None
        else skip_questions msg n (pos + nat l + 4)
      })"

text \<open>
  The three kinds of records that matter, each with the start and the length of its data. \<open>False\<close>
  is the early return of the poll.
\<close>

definition read_ptr :: "clock \<Rightarrow> u8 list \<Rightarrow> nat \<Rightarrow> nat \<Rightarrow> sniffer \<Rightarrow> (bool \<times> sniffer) option" where
  "read_ptr clock msg pos rdlength s = do {
     (l, ptrname) \<leftarrow> decode_dns_name msg pos 256;
     if l < 0 \<or> l > int rdlength then Some (False, s)
     else Some (True, if holds_string nvstream (cstr ptrname)
                      then update_sunshine clock (cstr ptrname) 0 None s else s)
   }"

definition read_srv :: "clock \<Rightarrow> u8 list \<Rightarrow> u8 list \<Rightarrow> nat \<Rightarrow> nat \<Rightarrow> sniffer \<Rightarrow> (bool \<times> sniffer) option" where
  "read_srv clock msg rrname pos rdlength s = do {
     port \<leftarrow> be16 msg (pos + 4);
     (l, target) \<leftarrow> decode_dns_name msg (pos + 6) 256;
     if l < 0 \<or> l > int rdlength - 6 then Some (False, s)
     else Some (True, if has_suffix nvstream_suffix (cstr rrname) \<and> cstr target \<noteq> []
                      then update_sunshine clock (cstr rrname) (int port) (Some (cstr target)) s else s)
   }"

definition read_a :: "clock \<Rightarrow> u8 list \<Rightarrow> u8 list \<Rightarrow> nat \<Rightarrow> sniffer \<Rightarrow> (bool \<times> sniffer) option" where
  "read_a clock msg rrname pos s = do {
     ip \<leftarrow> bytes_at msg pos 4;
     Some (True, update_sunshine_ip_by_target clock (cstr rrname) (dotted ip) s)
   }"

definition read_data ::
  "clock \<Rightarrow> u8 list \<Rightarrow> u8 list \<Rightarrow> nat \<Rightarrow> nat \<Rightarrow> nat \<Rightarrow> sniffer \<Rightarrow> (bool \<times> sniffer) option" where
  "read_data clock msg rrname type rdlength pos s =
     (if type = type_PTR then read_ptr clock msg pos rdlength s
      else if type = type_SRV \<and> rdlength \<ge> 6 then read_srv clock msg rrname pos rdlength s
      else if type = type_A \<and> rdlength = 4 then read_a clock msg rrname pos s
      else Some (True, s))"

fun read_records :: "clock \<Rightarrow> u8 list \<Rightarrow> nat \<Rightarrow> nat \<Rightarrow> sniffer \<Rightarrow> (bool \<times> sniffer) option" where
  "read_records clock msg 0 pos s = Some (True, s)"
| "read_records clock msg (Suc n) pos s =
     (if \<not> pos < length msg then Some (True, s)
      else do {
        (l, rrname) \<leftarrow> decode_dns_name msg pos 256;
        if l < 0 \<or> l > int (length msg) - int pos - 10 then Some (False, s)
        else do {
          type \<leftarrow> be16 msg (pos + nat l);
          rdlength \<leftarrow> be16 msg (pos + nat l + 8);
          let pos = pos + nat l + 10;
          if rdlength > length msg - pos then Some (False, s)
          else do {
            (more, s) \<leftarrow> read_data clock msg rrname type rdlength pos s;
            if more then read_records clock msg n (pos + rdlength) s else Some (False, s)
          }
        }
      })"

definition read_packet :: "clock \<Rightarrow> u8 list \<Rightarrow> sniffer \<Rightarrow> sniffer option" where
  "read_packet clock msg s =
     (if length msg > 12 then do {
        qdcount \<leftarrow> be16 msg 4;
        ancount \<leftarrow> be16 msg 6;
        nscount \<leftarrow> be16 msg 8;
        arcount \<leftarrow> be16 msg 10;
        start \<leftarrow> skip_questions msg qdcount 12;
        (case start of
           None \<Rightarrow> Some s
         | Some pos \<Rightarrow> do {
             (finished, s) \<leftarrow> read_records clock msg (ancount + nscount + arcount) pos s;
             Some (if finished then check_and_print_ready_entries s else s)
           })
      }
      else Some s)"

section \<open>The interface\<close>

text \<open>What \<open>sceNetRecvfrom\<close> gives: an error and whether the error number is \<open>EAGAIN\<close>, or bytes.\<close>

datatype received = RecvError int bool | RecvPacket "u8 list"

definition sniffer_poll :: "clock \<Rightarrow> received \<Rightarrow> sniffer \<Rightarrow> (int \<times> sniffer) option" where
  "sniffer_poll clock received s =
     (if \<not> sn_initialized s \<or> sn_sock s < 0 then Some (-1, s)
      else case received of
          RecvError n again \<Rightarrow> Some (if again then 0 else n, s)
        | RecvPacket msg \<Rightarrow> map_option (Pair 0) (read_packet clock msg s))"

text \<open>The answers of the network library that \<open>open_socket\<close> and the query meet.\<close>

record net_answers =
  na_socket :: int
  na_bind :: int
  na_join :: int
  na_send :: int

definition close_socket :: "sniffer \<Rightarrow> sniffer" where
  "close_socket s = s\<lparr>sn_handles := remove1 (sn_sock s) (sn_handles s), sn_sock := -1\<rparr>"

definition open_socket :: "net_answers \<Rightarrow> sniffer \<Rightarrow> int \<times> sniffer" where
  "open_socket net s =
     (if sn_initialized s then (0, s)
      else let s = s\<lparr>sn_sock := na_socket net,
                     sn_handles := (if na_socket net < 0 then sn_handles s else na_socket net # sn_handles s)\<rparr>
      in if sn_sock s < 0 then (sn_sock s, s)
         else if na_bind net < 0 then (na_bind net, close_socket s)
         else if na_join net < 0 then (na_join net, close_socket s)
         else (0, s\<lparr>sn_initialized := True\<rparr>))"

definition query_bytes :: "u8 list" where
  "query_bytes = [0,0,0,0,0,1,0,0,0,0,0,0, 9] @ ascii ''_nvstream'' @ [4] @ ascii ''_tcp'' @
     [5] @ ascii ''local'' @ [0, 0,0x0C,0,1]"

definition sniffer_query :: "net_answers \<Rightarrow> sniffer \<Rightarrow> int \<times> sniffer" where
  "sniffer_query net s =
     (case open_socket net s of
        (result, s) \<Rightarrow>
          if result < 0 then (result, s)
          else (if na_send net = int (length query_bytes) then 0
                else if na_send net < 0 then na_send net else -1, s))"

definition sniffer_deinit :: "sniffer \<Rightarrow> sniffer" where
  "sniffer_deinit s =
     (let s = (if sn_sock s \<ge> 0 then close_socket s else s)
      in s\<lparr>sn_initialized := False, sn_count := 0, sn_table := replicate max_sunshine empty_entry\<rparr>)"

definition sniffer_init :: "sniffer \<Rightarrow> sniffer" where
  "sniffer_init s =
     s\<lparr>sn_initialized := False, sn_count := 0, sn_table := replicate max_sunshine empty_entry\<rparr>"

definition sniffer_start :: sniffer where
  "sniffer_start = \<lparr>sn_table = replicate max_sunshine empty_entry, sn_sock = -1, sn_initialized = False,
     sn_count = 0, sn_callback = False, sn_reads = 0, sn_found = [], sn_handles = []\<rparr>"

section \<open>What a name is\<close>

text \<open>
  \<open>name_at msg pos labels size steps\<close>: a name with these labels starts at \<open>pos\<close>; it takes \<open>size\<close>
  bytes there (up to and including the first pointer or the end), and reading it takes \<open>steps\<close> labels,
  pointers and ends.
\<close>

inductive name_at :: "u8 list \<Rightarrow> nat \<Rightarrow> u8 list list \<Rightarrow> nat \<Rightarrow> nat \<Rightarrow> bool" for msg where
  name_end: "pos < length msg \<Longrightarrow> msg ! pos = 0 \<Longrightarrow> name_at msg pos [] 1 1"
| name_pointer:
    "pos + 1 < length msg \<Longrightarrow> msg ! pos AND 0xC0 = 0xC0 \<Longrightarrow>
     name_at msg (pointer (msg ! pos) (msg ! (pos + 1))) ls k n \<Longrightarrow> name_at msg pos ls 2 (Suc n)"
| name_label:
    "pos < length msg \<Longrightarrow> msg ! pos \<noteq> 0 \<Longrightarrow> msg ! pos AND 0xC0 = 0 \<Longrightarrow>
     unat (msg ! pos) \<le> length msg - pos - 1 \<Longrightarrow>
     name_at msg (pos + unat (msg ! pos) + 1) ls k n \<Longrightarrow>
     name_at msg pos (take (unat (msg ! pos)) (drop (pos + 1) msg) # ls) (unat (msg ! pos) + 1 + k) (Suc n)"

inductive_cases name_atE: "name_at msg pos ls k n"

definition add_label :: "u8 list \<Rightarrow> u8 list \<Rightarrow> u8 list" where
  "add_label out label = out @ (if out \<noteq> [] then [0x2E] else []) @ label"

fun join_dots :: "u8 list list \<Rightarrow> u8 list" where
  "join_dots [] = []"
| "join_dots [l] = l"
| "join_dots (l # m # ls) = l @ 0x2E # join_dots (m # ls)"

lemma add_label_Nil [simp]: "add_label [] l = l"
  by (simp add: add_label_def)

lemma foldl_add_label:
  "out \<noteq> [] \<Longrightarrow> foldl add_label out ls = out @ (if ls = [] then [] else 0x2E # join_dots ls)"
proof (induction ls arbitrary: out)
  case (Cons l ls)
  have "add_label out l = out @ 0x2E # l"
    using Cons.prems by (simp add: add_label_def)
  then show ?case
    using Cons.IH [of "out @ 0x2E # l"] by (cases ls) simp_all
qed simp

lemma join_dots_foldl: "[] \<notin> set ls \<Longrightarrow> join_dots ls = foldl add_label [] ls"
proof (cases ls)
  case (Cons l ms)
  assume "[] \<notin> set ls"
  then show ?thesis
    using Cons foldl_add_label [of l ms] by (cases ms) auto
qed simp

lemma length_foldl_add_label: "length out \<le> length (foldl add_label out ls)"
proof (induction ls arbitrary: out)
  case (Cons l ls)
  have "length out \<le> length (add_label out l)"
    by (simp add: add_label_def)
  then show ?case using Cons [of "add_label out l"] by simp
qed simp

lemma name_at_labels: "name_at msg pos ls k n \<Longrightarrow> [] \<notin> set ls \<and> pos < length msg"
proof (induction rule: name_at.induct)
  case (name_label pos ls k n)
  then have "unat (msg ! pos) \<noteq> 0" "unat (msg ! pos) \<le> length msg - (pos + 1)"
    by (auto simp: unat_eq_zero)
  then have "length (take (unat (msg ! pos)) (drop (pos + 1) msg)) \<noteq> 0"
    by simp
  then show ?case using name_label by auto
qed auto

lemma flag_bits: "(c :: u8) AND 0xC0 = 0xC0 \<Longrightarrow> c \<noteq> 0 \<and> c AND 0xC0 \<noteq> 0"
  by auto

text \<open>The three ways one step of the loop can go on.\<close>

lemma decode_loop_step:
  assumes "pos < length msg"
  shows "decode_loop msg outlen (Suc steps) pos jumped consumed out =
    (let c = msg ! pos in
     if c = 0 then Some (int (if jumped then consumed else consumed + 1), out)
     else if c AND 0xC0 = 0xC0 then
       if pos + 1 < length msg \<and> pointer c (msg ! (pos + 1)) < length msg
       then decode_loop msg outlen steps (pointer c (msg ! (pos + 1))) True
              (if jumped then consumed else consumed + 2) out
       else Some (-1, out)
     else if c AND 0xC0 = 0 \<and> unat c \<le> length msg - pos - 1 \<and>
             length out + (if out \<noteq> [] then 1 else 0) + unat c < outlen
     then decode_loop msg outlen steps (pos + unat c + 1) jumped
            (if jumped then consumed else consumed + unat c + 1)
            (add_label out (take (unat c) (drop (pos + 1) msg)))
     else Some (-1, out))"
  using assms by (auto simp: byte_at_def bytes_at_def add_label_def Let_def)

text \<open>The decoder always ends with a value: it reads inside the packet and writes inside the buffer.\<close>

lemma decode_loop_total:
  "length out < outlen \<Longrightarrow>
     \<exists>l out'. decode_loop msg outlen steps pos jumped consumed out = Some (l, out') \<and> -1 \<le> l \<and> length out' < outlen"
proof (induction steps arbitrary: pos jumped consumed out)
  case (Suc steps)
  show ?case
  proof (cases "pos < length msg")
    case True
    have label: "length (add_label out (take (unat (msg ! pos)) (drop (pos + 1) msg))) < outlen"
      if "unat (msg ! pos) \<le> length msg - pos - 1"
        "length out + (if out \<noteq> [] then 1 else 0) + unat (msg ! pos) < outlen"
      using that by (auto simp: add_label_def)
    show ?thesis
      using Suc.IH [OF Suc.prems] Suc.IH [OF label] Suc.prems
      by (simp only: decode_loop_step [OF True] Let_def split: if_split) auto
  next
    case False
    then show ?thesis using Suc.prems by simp
  qed
qed simp

lemma decode_total:
  "0 < outlen \<Longrightarrow>
     \<exists>l out. decode_dns_name msg offset outlen = Some (l, out) \<and> -1 \<le> l \<and> length out < outlen"
  using decode_loop_total [of "[]" outlen] by (simp add: decode_dns_name_def)

lemma decode_loop_sound:
  assumes "decode_loop msg outlen steps pos jumped consumed out = Some (int l, out')"
  shows "\<exists>ls k n. name_at msg pos ls k n \<and> n \<le> steps \<and> l = (if jumped then consumed else consumed + k) \<and>
           out' = foldl add_label out ls \<and> (length out < outlen \<longrightarrow> length out' < outlen)"
  using assms
proof (induction steps arbitrary: pos jumped consumed out)
  case (Suc steps)
  let ?c = "msg ! pos"
  have pos: "pos < length msg"
    using Suc.prems by (auto split: if_splits)
  note step = Suc.prems [unfolded decode_loop_step [OF pos] Let_def]
  consider (fin) "?c = 0" | (ptr) "?c \<noteq> 0" "?c AND 0xC0 = 0xC0" | (label) "?c \<noteq> 0" "?c AND 0xC0 \<noteq> 0xC0"
    by blast
  then show ?case
  proof cases
    case fin
    then have "name_at msg pos [] 1 1" "l = (if jumped then consumed else consumed + 1)" "out' = out"
      using step name_end [OF pos fin] by auto
    then show ?thesis by (intro exI [of _ "[]"] exI [of _ 1]) auto
  next
    case ptr
    then have "pos + 1 < length msg"
      "decode_loop msg outlen steps (pointer ?c (msg ! (pos + 1))) True
         (if jumped then consumed else consumed + 2) out = Some (int l, out')"
      using step by (auto split: if_splits)
    then obtain ls k n where ih: "name_at msg (pointer ?c (msg ! (pos + 1))) ls k n" "n \<le> steps"
      "l = (if jumped then consumed else consumed + 2)" "out' = foldl add_label out ls"
      "length out < outlen \<longrightarrow> length out' < outlen"
      using Suc.IH by fastforce
    have "name_at msg pos ls 2 (Suc n)"
      using name_pointer [OF \<open>pos + 1 < length msg\<close> ptr(2) ih(1)] .
    then show ?thesis using ih by (intro exI [of _ ls] exI [of _ 2] exI [of _ "Suc n"]) simp
  next
    case label
    let ?l = "take (unat ?c) (drop (pos + 1) msg)"
    have fits: "?c AND 0xC0 = 0" "unat ?c \<le> length msg - pos - 1"
      "length out + (if out \<noteq> [] then 1 else 0) + unat ?c < outlen"
      and "decode_loop msg outlen steps (pos + unat ?c + 1) jumped
         (if jumped then consumed else consumed + unat ?c + 1) (add_label out ?l) = Some (int l, out')"
      using step label by (auto split: if_splits)
    then obtain ls k n where ih: "name_at msg (pos + unat ?c + 1) ls k n" "n \<le> steps"
      "l = (if jumped then consumed else consumed + unat ?c + 1 + k)"
      "out' = foldl add_label (add_label out ?l) ls"
      "length (add_label out ?l) < outlen \<longrightarrow> length out' < outlen"
      using Suc.IH [of "pos + unat ?c + 1" jumped "if jumped then consumed else consumed + unat ?c + 1"
          "add_label out ?l"] by auto
    have "name_at msg pos (?l # ls) (unat ?c + 1 + k) (Suc n)"
      using name_label [OF pos label(1) fits(1,2) ih(1)] .
    moreover have "length (add_label out ?l) < outlen"
      using fits by (auto simp: add_label_def)
    ultimately show ?thesis
      using ih by (intro exI [of _ "?l # ls"] exI [of _ "unat ?c + 1 + k"] exI [of _ "Suc n"]) auto
  qed
qed auto

lemma decode_loop_complete:
  assumes "name_at msg pos ls k n" "n \<le> steps" "length (foldl add_label out ls) < outlen"
  shows "decode_loop msg outlen steps pos jumped consumed out =
           Some (int (if jumped then consumed else consumed + k), foldl add_label out ls)"
  using assms
proof (induction arbitrary: steps jumped consumed out rule: name_at.induct)
  case (name_end pos)
  then obtain m where "steps = Suc m" by (cases steps) auto
  then show ?case using name_end by (simp add: byte_at_def)
next
  case (name_pointer pos ls k n)
  then obtain m where m: "steps = Suc m" "n \<le> m" by (cases steps) auto
  have "pointer (msg ! pos) (msg ! (pos + 1)) < length msg"
    using name_pointer name_at_labels by blast
  then show ?case
    using name_pointer flag_bits [OF name_pointer(2)] m
    by (simp add: decode_loop_step Let_def del: decode_loop.simps)
next
  case (name_label pos ls k n)
  then obtain m where m: "steps = Suc m" "n \<le> m" by (cases steps) auto
  let ?l = "take (unat (msg ! pos)) (drop (pos + 1) msg)"
  have "length (add_label out ?l) \<le> length (foldl add_label (add_label out ?l) ls)"
    by (rule length_foldl_add_label)
  moreover have "length (add_label out ?l) = length out + (if out \<noteq> [] then 1 else 0) + unat (msg ! pos)"
    using name_label by (simp add: add_label_def)
  ultimately have "length out + (if out \<noteq> [] then 1 else 0) + unat (msg ! pos) < outlen"
    using name_label.prems by simp
  then show ?case
    using name_label m by (simp add: decode_loop_step Let_def del: decode_loop.simps)
qed

text \<open>
  Property C32. The name decoder returns a size \<open>k\<close> and a name exactly when a name of \<open>k\<close> bytes stands
  at the offset, compressed or not, that can be read in as many steps as the packet has bytes and fits
  in the buffer; what it writes is the labels with dots between them. So every proper name is decoded,
  and every cyclic, truncated or overlong one is refused.
\<close>

theorem decode_dns_name_iff:
  "decode_dns_name msg offset outlen = Some (int k, out) \<longleftrightarrow>
     (\<exists>labels steps. name_at msg offset labels k steps \<and> steps \<le> length msg \<and>
        out = join_dots labels \<and> length out < outlen)"
proof
  assume decoded: "decode_dns_name msg offset outlen = Some (int k, out)"
  then have "0 < outlen" "decode_loop msg outlen (length msg) offset False 0 [] = Some (int k, out)"
    by (auto simp: decode_dns_name_def split: if_splits)
  then show "\<exists>labels steps. name_at msg offset labels k steps \<and> steps \<le> length msg \<and>
      out = join_dots labels \<and> length out < outlen"
    using decode_loop_sound [of msg outlen "length msg" offset False 0 "[]" k out] name_at_labels join_dots_foldl
    by fastforce
next
  assume "\<exists>labels steps. name_at msg offset labels k steps \<and> steps \<le> length msg \<and>
      out = join_dots labels \<and> length out < outlen"
  then obtain labels steps where name: "name_at msg offset labels k steps" "steps \<le> length msg"
    "out = foldl add_label [] labels" "length out < outlen"
    using name_at_labels join_dots_foldl by fastforce
  then show "decode_dns_name msg offset outlen = Some (int k, out)"
    using decode_loop_complete [OF name(1,2), of "[]" outlen False 0] name_at_labels [OF name(1)]
    by (auto simp: decode_dns_name_def)
qed

section \<open>The poll stays inside the packet\<close>

lemma be16_Some: "i + 1 < length msg \<Longrightarrow> \<exists>v. be16 msg i = Some v \<and> v < 65536"
proof -
  assume "i + 1 < length msg"
  moreover have "unat (msg ! i) * 256 + unat (msg ! (i + 1)) < 65536"
    using unat_u8_less [of "msg ! i"] unat_u8_less [of "msg ! (i + 1)"] by linarith
  ultimately show ?thesis by (simp add: be16_def byte_at_def)
qed

lemma skip_questions_total: "\<exists>r. skip_questions msg n pos = Some r"
proof (induction n arbitrary: pos)
  case (Suc n)
  obtain l out where "decode_dns_name msg pos 256 = Some (l, out)"
    using decode_total [of 256 msg pos] by auto
  then show ?case using Suc by simp
qed simp

text \<open>What holds of the table at all times.\<close>

definition entry_ok :: "sunshine_entry \<Rightarrow> bool" where
  "entry_ok e \<longleftrightarrow>
     length (se_host e) \<le> 255 \<and> length (se_target e) \<le> 255 \<and> length (se_ip e) \<le> 15 \<and>
     0 \<le> se_port e \<and> se_port e \<le> 65535 \<and>
     (se_host e \<noteq> [] \<longrightarrow> holds_string nvstream (se_host e))"

definition distinct_hosts :: "sunshine_entry list \<Rightarrow> bool" where
  "distinct_hosts t \<longleftrightarrow> distinct (filter (\<lambda>h. h \<noteq> []) (map se_host t))"

definition found_ok :: "found \<Rightarrow> bool" where
  "found_ok f \<longleftrightarrow>
     (case f of (i, host, target, ip, port) \<Rightarrow>
        holds_string nvstream host \<and> length host \<le> 255 \<and> target \<noteq> [] \<and> length target \<le> 255 \<and>
        ip \<noteq> [] \<and> length ip \<le> 15 \<and> 0 < port \<and> port \<le> 65535)"

definition sockets_ok :: "sniffer \<Rightarrow> bool" where
  "sockets_ok s \<longleftrightarrow>
     sn_handles s = (if sn_sock s < 0 then [] else [sn_sock s]) \<and> (sn_initialized s \<longleftrightarrow> 0 \<le> sn_sock s)"

definition sniffer_ok :: "sniffer \<Rightarrow> bool" where
  "sniffer_ok s \<longleftrightarrow>
     length (sn_table s) = max_sunshine \<and> list_all entry_ok (sn_table s) \<and>
     list_all found_ok (sn_found s) \<and> sockets_ok s"

lemma sniffer_ok_table:
  assumes "sniffer_ok s" "length t = max_sunshine" "list_all entry_ok t"
  shows "sniffer_ok (s\<lparr>sn_table := t\<rparr>)" "sniffer_ok (s\<lparr>sn_reads := k\<rparr>)"
  using assms by (simp_all add: sniffer_ok_def sockets_ok_def)

lemma find_host_bound: "find_host t i host = Some j \<Longrightarrow> i \<le> j \<and> j < i + length t \<and> se_host (t ! (j - i)) = host"
  by (induction t i host rule: find_host.induct) (force split: if_splits simp: nth_Cons')+

lemma find_slot_bound:
  "find_slot t i old idx = Some j \<Longrightarrow> (i \<le> j \<and> j < i + length t) \<or> idx = Some j"
  by (induction t i old idx rule: find_slot.induct) (force split: if_splits)+

lemma list_all_update: "list_all P xs \<Longrightarrow> (i < length xs \<Longrightarrow> P x) \<Longrightarrow> list_all P (xs[i := x])"
  by (cases "i < length xs") (auto simp: list_all_length nth_list_update)

lemma fill_entry_ok:
  assumes "entry_ok e" "0 \<le> port" "port \<le> 65535"
  shows "entry_ok (fill_entry port target now e)"
  using assms by (auto simp: fill_entry_def entry_ok_def Let_def split: option.split)

lemma update_sunshine_ok:
  assumes "sniffer_ok s" "0 \<le> port" "port \<le> 65535" "length host \<le> 255" "holds_string nvstream host"
  shows "sniffer_ok (update_sunshine clock host port target s)"
proof -
  have e: "entry_ok (sn_table s ! i)" if "i < length (sn_table s)" for i
    using assms(1) that by (simp add: sniffer_ok_def list_all_length)
  have fresh: "entry_ok ((sn_table s ! i)\<lparr>se_host := take 256 host, se_port := 0, se_ip := [], se_target := []\<rparr>)" for i
    using assms by (simp add: entry_ok_def)
  show ?thesis
    using assms(1) e fresh assms(2,3)
    by (auto simp: update_sunshine_def Let_def sniffer_ok_def sockets_ok_def
        intro!: list_all_update fill_entry_ok split: option.split)
qed

lemma set_ip_ok:
  "list_all entry_ok t \<Longrightarrow> length ip \<le> 15 \<Longrightarrow> list_all entry_ok (set_ip target ip now t)"
  by (induction t) (auto simp: entry_ok_def)

lemma length_set_ip [simp]: "length (set_ip target ip now t) = length t"
  by (induction t) auto

lemma update_ip_ok:
  assumes "sniffer_ok s" "length ip \<le> 15"
  shows "sniffer_ok (update_sunshine_ip_by_target clock target ip s)"
  using assms set_ip_ok
  by (simp add: update_sunshine_ip_by_target_def sniffer_ok_def sockets_ok_def)

lemma length_decimal: "n < 1000 \<Longrightarrow> length (decimal n) \<le> 3"
  by (subst decimal.simps, subst decimal.simps, subst decimal.simps) (auto simp del: decimal.simps)

lemma length_dotted:
  assumes "length bs = 4"
  shows "length (dotted bs) \<le> 15"
proof -
  obtain a b c d where bs: "bs = [a, b, c, d]"
    using assms by (auto simp: length_Suc_conv numeral_eq_Suc)
  have small: "length (decimal (unat x)) \<le> 3" for x :: u8
    using unat_u8_less [of x] by (intro length_decimal) linarith
  show ?thesis
    using small [of a] small [of b] small [of c] small [of d]
    by (simp add: bs dotted_def upt_rec del: decimal.simps)
qed

lemma holds_string_drop: "holds_string needle (drop k s) \<Longrightarrow> holds_string needle s"
proof (induction k arbitrary: s)
  case (Suc k)
  then show ?case by (cases s) auto
qed simp

lemma holds_string_self: "holds_string needle needle"
  by (cases needle) auto

lemma has_suffix_nvstream:
  assumes "has_suffix nvstream_suffix s"
  shows "holds_string nvstream s"
proof -
  have "nvstream_suffix = 0x2E # nvstream"
    by (simp add: nvstream_suffix_def nvstream_def ascii_def)
  then have "drop (length s - length nvstream_suffix) s = 0x2E # nvstream"
    using assms by (simp add: has_suffix_def)
  moreover have "holds_string nvstream (0x2E # nvstream)"
    by (simp add: holds_string_self)
  ultimately show ?thesis
    using holds_string_drop by metis
qed

lemma length_cstr_decoded:
  assumes "decode_dns_name msg pos 256 = Some (l, out)"
  shows "length (cstr out) \<le> 255" "-1 \<le> l"
proof -
  have "length out \<le> 255" "-1 \<le> l"
    using assms decode_total [of 256 msg pos] by auto
  then show "length (cstr out) \<le> 255" "-1 \<le> l"
    using length_cstr [of out] by linarith+
qed

lemma read_ptr_ok:
  assumes "sniffer_ok s"
  shows "\<exists>more s'. read_ptr clock msg pos rdlength s = Some (more, s') \<and> sniffer_ok s'"
proof -
  obtain l out where d: "decode_dns_name msg pos 256 = Some (l, out)"
    using decode_total [of 256 msg pos] by auto
  show ?thesis
    using assms length_cstr_decoded [OF d]
    by (auto simp: read_ptr_def d intro!: update_sunshine_ok)
qed

lemma read_srv_ok:
  assumes "sniffer_ok s" "length (cstr rrname) \<le> 255" "pos + 5 < length msg"
  shows "\<exists>more s'. read_srv clock msg rrname pos rdlength s = Some (more, s') \<and> sniffer_ok s'"
proof -
  obtain l out where d: "decode_dns_name msg (pos + 6) 256 = Some (l, out)"
    using decode_total [of 256 msg "pos + 6"] by auto
  obtain port where p: "be16 msg (pos + 4) = Some port" "port < 65536"
    using be16_Some [of "pos + 4" msg] assms by auto
  show ?thesis
    using assms length_cstr_decoded [OF d] p
    by (auto simp: read_srv_def d intro!: update_sunshine_ok has_suffix_nvstream)
qed

lemma read_a_ok:
  assumes "sniffer_ok s" "pos + 4 \<le> length msg"
  shows "\<exists>more s'. read_a clock msg rrname pos s = Some (more, s') \<and> sniffer_ok s'"
  using assms
  by (auto simp: read_a_def bytes_at_def intro!: update_ip_ok length_dotted)

lemma read_data_ok:
  assumes "sniffer_ok s" "length (cstr rrname) \<le> 255" "pos + rdlength \<le> length msg"
  shows "\<exists>more s'. read_data clock msg rrname type rdlength pos s = Some (more, s') \<and> sniffer_ok s'"
  using read_ptr_ok [OF assms(1), of clock msg pos rdlength]
    read_srv_ok [OF assms(1,2), of pos msg clock rdlength] read_a_ok [OF assms(1), of pos msg clock rrname] assms
  by (auto simp: read_data_def)

lemma read_records_ok:
  "sniffer_ok s \<Longrightarrow> \<exists>finished s'. read_records clock msg n pos s = Some (finished, s') \<and> sniffer_ok s'"
proof (induction n arbitrary: pos s)
  case (Suc n)
  obtain l out where d: "decode_dns_name msg pos 256 = Some (l, out)"
    using decode_total [of 256 msg pos] by auto
  show ?case
  proof (cases "\<not> pos < length msg \<or> l < 0 \<or> l > int (length msg) - int pos - 10")
    case True
    then show ?thesis using Suc.prems d by auto
  next
    case False
    then have room: "pos + nat l + 10 \<le> length msg"
      by linarith
    obtain type rdlength where be: "be16 msg (pos + nat l) = Some type" "be16 msg (pos + nat l + 8) = Some rdlength"
      using be16_Some [of "pos + nat l" msg] be16_Some [of "pos + nat l + 8" msg] room by auto
    show ?thesis
    proof (cases "rdlength > length msg - (pos + nat l + 10)")
      case True
      then show ?thesis using False Suc.prems d be by auto
    next
      case fits: False
      then have "pos + nat l + 10 + rdlength \<le> length msg"
        using room by linarith
      then obtain more s' where data:
        "read_data clock msg out type rdlength (pos + nat l + 10) s = Some (more, s')" "sniffer_ok s'"
        using read_data_ok [OF Suc.prems length_cstr_decoded(1) [OF d]] by blast
      show ?thesis
        using False fits d be data Suc.IH [OF data(2), of "pos + nat l + 10 + rdlength"]
        by (cases more) auto
    qed
  qed
qed auto

text \<open>Reporting: the complete entries, in the order of the table, numbered on.\<close>

definition clear_ready :: "sunshine_entry \<Rightarrow> sunshine_entry" where
  "clear_ready e = (if entry_ready e then e\<lparr>se_host := [], se_ip := [], se_port := 0, se_target := []\<rparr> else e)"

fun numbered :: "int \<Rightarrow> sunshine_entry list \<Rightarrow> found list" where
  "numbered n [] = []"
| "numbered n (e # es) = (n, se_host e, se_target e, se_ip e, se_port e) # numbered (n + 1) es"

lemma numbered_append: "numbered n (xs @ ys) = numbered n xs @ numbered (n + int (length xs)) ys"
  by (induction xs arbitrary: n) (simp_all add: algebra_simps)

lemma fold_report:
  assumes "k \<le> length (sn_table s)"
  shows "fold report_entry [0..<k] s =
    s\<lparr>sn_count := sn_count s + int (length (filter entry_ready (take k (sn_table s)))),
      sn_found := (if sn_callback s
                   then sn_found s @ numbered (sn_count s + 1) (filter entry_ready (take k (sn_table s)))
                   else sn_found s),
      sn_table := map clear_ready (take k (sn_table s)) @ drop k (sn_table s)\<rparr>"
  using assms
proof (induction k)
  case (Suc k)
  let ?e = "sn_table s ! k"
  have split: "take (Suc k) (sn_table s) = take k (sn_table s) @ [?e]" "drop k (sn_table s) = ?e # drop (Suc k) (sn_table s)"
    using Suc.prems by (simp_all add: take_Suc_conv_app_nth Cons_nth_drop_Suc)
  then show ?case
    using Suc by (simp add: report_entry_def Let_def clear_ready_def nth_append list_update_append numbered_append)
qed simp

text \<open>
  After a packet that was read to its end, the callback is called once for each complete
  entry of the table, in table order and numbered consecutively; the reported entries are cleared, all
  others are kept, and no complete entry is left.
\<close>

theorem check_and_print_reports:
  assumes "length (sn_table s) = max_sunshine"
  defines "s' \<equiv> check_and_print_ready_entries s"
  shows "sn_found s' = sn_found s @
           (if sn_callback s then numbered (sn_count s + 1) (filter entry_ready (sn_table s)) else []) \<and>
         sn_count s' = sn_count s + int (length (filter entry_ready (sn_table s))) \<and>
         sn_table s' = map clear_ready (sn_table s) \<and> \<not> list_ex entry_ready (sn_table s')"
proof -
  have "\<not> entry_ready (clear_ready e)" for e
    by (simp add: clear_ready_def entry_ready_def)
  then show ?thesis
    using fold_report [of max_sunshine s] assms(1)
    by (simp add: s'_def check_and_print_ready_entries_def list_ex_iff)
qed

definition sample_sniffer :: sniffer where
  "sample_sniffer = sniffer_start\<lparr>sn_callback := True, sn_table :=
     \<lparr>se_host = ascii ''pc._nvstream._tcp.local'', se_port = 47989, se_last_seen = 5,
      se_ip = ascii ''10.0.0.2'', se_target = ascii ''pc.local''\<rparr> # replicate 15 empty_entry\<rparr>"

lemma check_and_print_reports_witness:
  "sn_found (check_and_print_ready_entries sample_sniffer) =
     [(1, ascii ''pc._nvstream._tcp.local'', ascii ''pc.local'', ascii ''10.0.0.2'', 47989)]"
proof -
  have "length (sn_table sample_sniffer) = max_sunshine"
    by code_simp
  moreover have "sn_found sample_sniffer = [] \<and> sn_callback sample_sniffer \<and>
      numbered (sn_count sample_sniffer + 1) (filter entry_ready (sn_table sample_sniffer)) =
      [(1, ascii ''pc._nvstream._tcp.local'', ascii ''pc.local'', ascii ''10.0.0.2'', 47989)]"
    by code_simp
  ultimately show ?thesis
    using check_and_print_reports [of sample_sniffer] by simp
qed

lemma check_and_print_ok:
  assumes "sniffer_ok s"
  shows "sniffer_ok (check_and_print_ready_entries s)"
proof -
  have len: "length (sn_table s) = max_sunshine"
    using assms by (simp add: sniffer_ok_def)
  have "found_ok f" if "f \<in> set (numbered n es)" "list_all entry_ok es" "list_all entry_ready es" for f n es
    using that
    by (induction es arbitrary: n) (auto simp: found_ok_def entry_ok_def entry_ready_def)
  moreover have "list_all entry_ok (filter entry_ready (sn_table s))" "list_all entry_ready (filter entry_ready (sn_table s))"
    using assms by (auto simp: sniffer_ok_def list_all_iff)
  ultimately have "list_all found_ok (numbered n (filter entry_ready (sn_table s)))" for n
    by (auto simp: list_all_iff)
  moreover have "list_all entry_ok (map clear_ready (sn_table s))"
    using assms by (auto simp: sniffer_ok_def list_all_iff clear_ready_def entry_ok_def)
  ultimately show ?thesis
    using fold_report [of max_sunshine s] len assms
    by (simp add: check_and_print_ready_entries_def sniffer_ok_def sockets_ok_def)
qed

lemma read_packet_ok:
  assumes "sniffer_ok s"
  shows "\<exists>s'. read_packet clock msg s = Some s' \<and> sniffer_ok s'"
proof (cases "length msg > 12")
  case True
  then obtain q a n r where be: "be16 msg 4 = Some q" "be16 msg 6 = Some a" "be16 msg 8 = Some n" "be16 msg 10 = Some r"
    using be16_Some [of 4 msg] be16_Some [of 6 msg] be16_Some [of 8 msg] be16_Some [of 10 msg] by auto
  obtain start where start: "skip_questions msg q 12 = Some start"
    using skip_questions_total by blast
  show ?thesis
  proof (cases start)
    case None
    then show ?thesis using True be start assms by (simp add: read_packet_def)
  next
    case (Some pos)
    obtain finished s' where "read_records clock msg (a + n + r) pos s = Some (finished, s')" "sniffer_ok s'"
      using read_records_ok [OF assms] by blast
    then show ?thesis
      using True be start Some check_and_print_ok by (simp add: read_packet_def)
  qed
qed (use assms in \<open>simp add: read_packet_def\<close>)

section \<open>All histories\<close>

text \<open>
  The states the sniffer can be in. \<open>udp_sniffer_vita_init\<close> is called before the first query and
  after \<open>udp_sniffer_vita_deinit\<close>, when no socket is open.
\<close>

inductive sniffer_reachable :: "sniffer \<Rightarrow> bool" where
  reach_start: "sniffer_reachable sniffer_start"
| reach_callback: "sniffer_reachable s \<Longrightarrow> sniffer_reachable (set_callback given s)"
| reach_init: "sniffer_reachable s \<Longrightarrow> sn_sock s < 0 \<Longrightarrow> sniffer_reachable (sniffer_init s)"
| reach_query: "sniffer_reachable s \<Longrightarrow> sniffer_reachable (snd (sniffer_query net s))"
| reach_poll: "sniffer_reachable s \<Longrightarrow> sniffer_poll clock received s = Some (r, s') \<Longrightarrow> sniffer_reachable s'"
| reach_deinit: "sniffer_reachable s \<Longrightarrow> sniffer_reachable (sniffer_deinit s)"

lemma empty_table_ok:
  "length (replicate max_sunshine empty_entry) = max_sunshine \<and> list_all entry_ok (replicate max_sunshine empty_entry)"
  by (simp add: list_all_iff entry_ok_def empty_entry_def)

lemma query_ok: "sniffer_ok s \<Longrightarrow> sniffer_ok (snd (sniffer_query net s))"
  by (auto simp: sniffer_query_def open_socket_def close_socket_def Let_def sniffer_ok_def sockets_ok_def
      split: prod.split)

lemma deinit_ok:
  assumes "sniffer_ok s"
  shows "sniffer_ok (sniffer_deinit s)" "sn_handles (sniffer_deinit s) = []"
  using assms empty_table_ok
  by (auto simp: sniffer_deinit_def close_socket_def Let_def sniffer_ok_def sockets_ok_def)

lemma poll_ok:
  assumes "sniffer_ok s"
  shows "\<exists>r s'. sniffer_poll clock received s = Some (r, s') \<and> sniffer_ok s'"
proof (cases received)
  case (RecvPacket msg)
  obtain s' where "read_packet clock msg s = Some s'" "sniffer_ok s'"
    using read_packet_ok [OF assms] by blast
  then show ?thesis using RecvPacket assms by (simp add: sniffer_poll_def)
qed (use assms in \<open>auto simp: sniffer_poll_def\<close>)

lemma sniffer_reachable_ok: "sniffer_reachable s \<Longrightarrow> sniffer_ok s"
proof (induction rule: sniffer_reachable.induct)
  case reach_start
  then show ?case
    using empty_table_ok by (simp add: sniffer_start_def sniffer_ok_def sockets_ok_def)
next
  case (reach_callback s given)
  then show ?case by (simp add: set_callback_def sniffer_ok_def sockets_ok_def)
next
  case (reach_init s)
  then show ?case
    using empty_table_ok by (simp add: sniffer_init_def sniffer_ok_def sockets_ok_def)
next
  case (reach_poll s clock received r s')
  then show ?case
    using poll_ok [of s clock received] by auto
qed (auto intro: query_ok deinit_ok)

text \<open>
  Property C12. In every history a poll of any packet ends with a value, that is, it never reads outside
  the packet, and afterwards the table has its 16 entries with strings that fit their arrays, everything
  that was reported is complete and names a service of the right type, and the one socket is accounted
  for.
\<close>

theorem sniffer_poll_safe:
  assumes "sniffer_reachable s"
  shows "\<exists>r s'. sniffer_poll clock received s = Some (r, s') \<and>
     length (sn_table s') = max_sunshine \<and>
     list_all (\<lambda>e. length (se_host e) < 256 \<and> length (se_target e) < 256 \<and> length (se_ip e) < 16) (sn_table s') \<and>
     list_all (\<lambda>(i, host, target, ip, port). holds_string nvstream host \<and> target \<noteq> [] \<and> ip \<noteq> [] \<and>
        0 < port \<and> port \<le> 65535) (sn_found s') \<and>
     sn_handles s' = (if sn_sock s' < 0 then [] else [sn_sock s'])"
proof -
  obtain r s' where poll: "sniffer_poll clock received s = Some (r, s')" "sniffer_ok s'"
    using poll_ok [OF sniffer_reachable_ok [OF assms]] by blast
  have "list_all (\<lambda>e. length (se_host e) < 256 \<and> length (se_target e) < 256 \<and> length (se_ip e) < 16) (sn_table s')"
    using poll(2) by (auto simp: sniffer_ok_def list_all_iff entry_ok_def)
  moreover have "list_all (\<lambda>(i, host, target, ip, port). holds_string nvstream host \<and> target \<noteq> [] \<and> ip \<noteq> [] \<and>
      0 < port \<and> port \<le> 65535) (sn_found s')"
    using poll(2) by (auto simp: sniffer_ok_def list_all_iff found_ok_def)
  ultimately show ?thesis
    using poll by (auto simp: sniffer_ok_def sockets_ok_def)
qed

text \<open>
  A packet with the three records of a service: \<open>PTR\<close> from the service type to \<open>pc\<close>, \<open>SRV\<close> from there
  to the port and the target, \<open>A\<close> for the target.
\<close>

definition sample_packet :: "u8 list" where
  "sample_packet =
     [0,0, 0x84,0, 0,0, 0,3, 0,0, 0,0] @
     [9] @ ascii ''_nvstream'' @ [4] @ ascii ''_tcp'' @ [5] @ ascii ''local'' @ [0] @
       [0,12, 0,1, 0,0,0,60, 0,5, 2] @ ascii ''pc'' @ [0xC0, 12] @
     [0xC0, 44, 0,33, 0,1, 0,0,0,60, 0,11, 0,0, 0,0, 0xBB,0x75, 2] @ ascii ''pc'' @ [0xC0, 27] @
     [0xC0, 67, 0,1, 0,1, 0,0,0,60, 0,4, 192,168,1,20]"

lemma sniffer_poll_safe_witness:
  "\<exists>r s'. sniffer_poll (\<lambda>_. 7) (RecvPacket sample_packet) (snd (sniffer_query \<lparr>na_socket = 3, na_bind = 0,
      na_join = 0, na_send = 46\<rparr> (set_callback True sniffer_start))) = Some (r, s') \<and> length (sn_table s') = max_sunshine"
proof -
  have "sniffer_reachable (snd (sniffer_query \<lparr>na_socket = 3, na_bind = 0, na_join = 0, na_send = 46\<rparr>
      (set_callback True sniffer_start)))"
    by (intro reach_query reach_callback reach_start)
  from sniffer_poll_safe [OF this, of "\<lambda>_. 7" "RecvPacket sample_packet"] show ?thesis
    by blast
qed

text \<open>
  An address record for the root name, whose text is empty, gives its address to the first host whose
  target is not known yet, because an unknown target is the empty string too.
\<close>

lemma address_of_root_name:
  assumes "sn_table s = e # es" "se_host e \<noteq> []" "se_target e = []"
  shows "sn_table (update_sunshine_ip_by_target clock [] ip s) =
           e\<lparr>se_ip := take 16 ip, se_last_seen := clock (sn_reads s)\<rparr> # es"
  using assms by (simp add: update_sunshine_ip_by_target_def)

end
