(* ===== verification/HostDiscovery.thy ===== *)
theory HostDiscovery imports Mdns begin

text \<open>
  The background host search (\<open>src/backend/legacy/legacy_host_discovery.c\<close>): a worker thread that
  drives the mDNS sniffer while a lease is running, and the functions that the rest of the program
  calls to start, stop and read it.

  The file's variables are a record, the worker is a program counter with its local variables, and
  one step of the worker is what it does between two points where another thread can come in: a
  critical section, or a stretch without any. The functions called from outside are steps of their own,
  as each holds the mutex. Time passes between steps. \<open>pthread\<close>, the network and the clock of the
  sniffer are parameters of the steps.
\<close>

section \<open>Data\<close>

record host =
  mh_id :: int
  mh_host_id :: "u8 list"
  mh_name :: "u8 list"
  mh_internal :: "u8 list"
  mh_external :: "u8 list"
  mh_mac :: "u8 list"
  mh_port :: u16
  mh_paired :: bool
  mh_online :: bool
  mh_prefer_external :: bool

definition host_zero :: host where
  "host_zero = \<lparr>mh_id = 0, mh_host_id = [], mh_name = [], mh_internal = [], mh_external = [], mh_mac = [],
     mh_port = 0, mh_paired = False, mh_online = False, mh_prefer_external = False\<rparr>"

definition max_discovered_hosts :: nat where
  "max_discovered_hosts = 16"

text \<open>\<open>MoonlightDiscoverySnapshot\<close>; the list holds the first \<open>count\<close> hosts.\<close>

record snapshot =
  ds_generation :: u32
  ds_revision :: u32
  ds_hosts :: "host list"

definition snapshot_zero :: snapshot where
  "snapshot_zero = \<lparr>ds_generation = 0, ds_revision = 0, ds_hosts = []\<rparr>"

record discovery =
  dc_thread_created :: bool
  dc_enabled :: bool
  dc_shutdown :: bool
  dc_generation :: u32
  dc_active :: u32
  dc_lease :: u64
  dc_snapshot :: snapshot
  dc_healthy_time :: u64
  dc_seen :: "u64 list"
  dc_last_error :: int
  dc_log :: "int list"

definition query_usec :: u64 where "query_usec = 5000000"
definition expiry_usec :: u64 where "expiry_usec = 15000000"
definition lease_usec :: u64 where "lease_usec = 250000"

section \<open>Operations under the mutex\<close>

text \<open>The errors that go to the debug log are collected in \<open>dc_log\<close>.\<close>

definition report_error :: "int \<Rightarrow> discovery \<Rightarrow> discovery" where
  "report_error result d =
     (if result \<noteq> dc_last_error d \<and> result < 0 then d\<lparr>dc_log := dc_log d @ [result]\<rparr> else d)
       \<lparr>dc_last_error := result\<rparr>"

definition generation_active :: "u32 \<Rightarrow> u64 \<Rightarrow> discovery \<Rightarrow> bool" where
  "generation_active generation now d \<longleftrightarrow>
     dc_enabled d \<and> \<not> dc_shutdown d \<and> generation = dc_generation d \<and> now < dc_lease d"

fun find_discovered :: "host list \<Rightarrow> nat \<Rightarrow> u8 list \<Rightarrow> int \<Rightarrow> nat" where
  "find_discovered [] i ip port = i"
| "find_discovered (h # hs) i ip port =
     (if int (unat (mh_port h)) = port \<and> mh_internal h = ip then i else find_discovered hs (i + 1) ip port)"

definition add_discovered :: "nat \<Rightarrow> u8 list \<Rightarrow> int \<Rightarrow> discovery \<Rightarrow> discovery" where
  "add_discovered index ip port d =
     (let sn = dc_snapshot d in
      if index = length (ds_hosts sn)
      then d\<lparr>dc_snapshot := sn\<lparr>
               ds_hosts := ds_hosts sn @ [host_zero\<lparr>mh_id := -1, mh_internal := take 255 ip, mh_port := of_int port\<rparr>],
               ds_revision := ds_revision sn + 1\<rparr>,
             dc_seen := dc_seen d @ [0]\<rparr>
      else d)"

definition name_discovered :: "nat \<Rightarrow> u8 list \<Rightarrow> discovery \<Rightarrow> discovery" where
  "name_discovered index name d =
     (let sn = dc_snapshot d; h = ds_hosts sn ! index in
      if take 255 (mh_name h) \<noteq> take 255 name
      then d\<lparr>dc_snapshot := sn\<lparr>ds_hosts := (ds_hosts sn)[index := h\<lparr>mh_name := take 255 name\<rparr>],
                              ds_revision := ds_revision sn + 1\<rparr>\<rparr>
      else d)"

definition on_mdns_host :: "u64 \<Rightarrow> found \<Rightarrow> discovery \<Rightarrow> discovery" where
  "on_mdns_host now f d =
     (case f of (idx, service, name, ip, port) \<Rightarrow>
        if name = [] \<or> ip = [] \<or> port \<le> 0 \<or> port > 65535 then d
        else if \<not> generation_active (dc_active d) now d then d
        else let index = find_discovered (ds_hosts (dc_snapshot d)) 0 ip port in
             if index < max_discovered_hosts then
               let d = name_discovered index name (add_discovered index ip port d)
               in d\<lparr>dc_seen := (dc_seen d)[index := dc_healthy_time d]\<rparr>
             else d)"

text \<open>One round of the loop of \<open>expire_hosts\<close>, which runs from the last host to the first.\<close>

definition expire_host :: "nat \<Rightarrow> discovery \<Rightarrow> discovery" where
  "expire_host i d =
     (let sn = dc_snapshot d in
      if dc_healthy_time d - dc_seen d ! i \<ge> expiry_usec
      then d\<lparr>dc_snapshot := sn\<lparr>ds_hosts := take i (ds_hosts sn) @ drop (i + 1) (ds_hosts sn),
                              ds_revision := ds_revision sn + 1\<rparr>,
             dc_seen := take i (dc_seen d) @ drop (i + 1) (dc_seen d)\<rparr>
      else d)"

definition expire_hosts :: "discovery \<Rightarrow> discovery" where
  "expire_hosts d = fold expire_host (rev [0..<length (ds_hosts (dc_snapshot d))]) d"

text \<open>The section at the end of a round of the worker.\<close>

definition age_hosts :: "bool \<Rightarrow> u32 \<Rightarrow> u64 \<Rightarrow> u64 \<Rightarrow> u64 \<Rightarrow> discovery \<Rightarrow> discovery" where
  "age_hosts healthy generation now last_tick clock d =
     (if healthy \<and> generation_active generation clock d
      then expire_hosts (d\<lparr>dc_healthy_time := dc_healthy_time d +
             (if now \<ge> last_tick then now - last_tick else 0)\<rparr>)
      else d)"

section \<open>Functions for the rest of the program\<close>

definition discovery_init :: "discovery \<Rightarrow> discovery" where
  "discovery_init d = d\<lparr>dc_shutdown := False, dc_enabled := False, dc_generation := 0, dc_active := 0,
     dc_healthy_time := 0, dc_last_error := 0, dc_snapshot := snapshot_zero, dc_seen := []\<rparr>"

text \<open>
  \<open>legacy_host_discovery_start\<close>. \<open>create\<close> is the result of setting up the thread, 0 or an error
  number. The result has the generation that is written to \<open>*generation\<close>.
\<close>

definition next_generation :: "u32 \<Rightarrow> u32" where
  "next_generation g = (if g + 1 = 0 then g + 1 + 1 else g + 1)"

definition discovery_start :: "int \<Rightarrow> u64 \<Rightarrow> discovery \<Rightarrow> int \<times> u32 option \<times> discovery" where
  "discovery_start create now d =
     (if dc_shutdown d then (-1, None, d)
      else if \<not> dc_thread_created d \<and> create \<noteq> 0 then (- create, None, d)
      else let d = d\<lparr>dc_thread_created := True\<rparr>;
               d = (if \<not> dc_enabled d \<or> now \<ge> dc_lease d
                    then let g = next_generation (dc_generation d); sn = dc_snapshot d
                         in d\<lparr>dc_generation := g,
                              dc_snapshot := sn\<lparr>ds_generation := g, ds_revision := ds_revision sn + 1\<rparr>\<rparr>
                    else d);
               d = d\<lparr>dc_enabled := True, dc_lease := now + lease_usec\<rparr>
           in (0, Some (dc_generation d), d))"

definition discovery_stop :: "discovery \<Rightarrow> int \<times> discovery" where
  "discovery_stop d = (0, d\<lparr>dc_enabled := False\<rparr>)"

definition discovery_is_idle :: "discovery \<Rightarrow> bool" where
  "discovery_is_idle d \<longleftrightarrow> dc_active d = 0"

text \<open>\<open>legacy_host_discovery_read\<close>, with the caller's copy before and after.\<close>

definition discovery_read :: "u64 \<Rightarrow> snapshot \<Rightarrow> discovery \<Rightarrow> int \<times> snapshot" where
  "discovery_read now copy d =
     (if generation_active (dc_generation d) now d
      then if ds_generation copy \<noteq> ds_generation (dc_snapshot d) \<or> ds_revision copy \<noteq> ds_revision (dc_snapshot d)
           then (1, dc_snapshot d) else (0, copy)
      else (-1, copy))"

definition discovery_shutdown :: "discovery \<Rightarrow> discovery" where
  "discovery_shutdown d = d\<lparr>dc_enabled := False, dc_shutdown := True\<rparr>"

text \<open>The end of \<open>legacy_host_discovery_shutdown\<close>, once the thread has been joined.\<close>

definition discovery_joined :: "discovery \<Rightarrow> discovery" where
  "discovery_joined d = d\<lparr>dc_thread_created := False\<rparr>"

section \<open>The worker\<close>

text \<open>
  Where the worker is: not created, at the top of the outer loop, before the sniffer is set up, at the
  head of the inner loop, after the check of the lease, after the query (two readings of the clock), at
  the poll, calling \<open>on_mdns_host\<close> for what the poll found, at the section that ages the hosts, and
  after the inner loop.
\<close>

datatype pc =
    PNone | PTop | PSetup | PHead | PQuery u64 | PNext | PTick | PPoll
  | PReport int "found list" | PAge u64 | PTeardown | PClear | PExit

record worker =
  wk_pc :: pc
  wk_generation :: u32
  wk_next_query :: u64
  wk_last_tick :: u64
  wk_healthy :: bool

record system =
  sy_time :: u64
  sy_disc :: discovery
  sy_sniffer :: sniffer
  sy_worker :: worker

definition query_step :: "net_answers \<Rightarrow> u64 \<Rightarrow> system \<Rightarrow> system" where
  "query_step net now s =
     (if now \<ge> wk_next_query (sy_worker s) then
        case sniffer_query net (sy_sniffer s) of
          (result, sniffer) \<Rightarrow>
            s\<lparr>sy_worker := (sy_worker s)\<lparr>wk_healthy := result \<ge> 0, wk_pc := PNext\<rparr>,
              sy_disc := (if result < 0 then report_error result (sy_disc s) else sy_disc s),
              sy_sniffer := (if result < 0 then sniffer_deinit sniffer else sniffer)\<rparr>
      else s\<lparr>sy_worker := (sy_worker s)\<lparr>wk_pc := PPoll\<rparr>\<rparr>)"

definition poll_step :: "clock \<Rightarrow> received \<Rightarrow> system \<Rightarrow> system" where
  "poll_step clock received s =
     (if wk_healthy (sy_worker s) then
        case sniffer_poll clock received (sy_sniffer s) of
          None \<Rightarrow> s
        | Some (result, sniffer) \<Rightarrow>
            s\<lparr>sy_sniffer := sniffer,
              sy_worker := (sy_worker s)\<lparr>wk_pc :=
                PReport result (drop (length (sn_found (sy_sniffer s))) (sn_found sniffer))\<rparr>\<rparr>
      else s\<lparr>sy_worker := (sy_worker s)\<lparr>wk_pc := PReport (-1) []\<rparr>\<rparr>)"

definition after_poll :: "int \<Rightarrow> system \<Rightarrow> system" where
  "after_poll result s =
     (let s = (if result < 0 \<and> wk_healthy (sy_worker s)
               then s\<lparr>sy_worker := (sy_worker s)\<lparr>wk_healthy := False\<rparr>,
                      sy_disc := report_error result (sy_disc s),
                      sy_sniffer := sniffer_deinit (sy_sniffer s)\<rparr>
               else s);
          s = (if wk_healthy (sy_worker s) then s\<lparr>sy_disc := report_error 0 (sy_disc s)\<rparr> else s)
      in s\<lparr>sy_worker := (sy_worker s)\<lparr>wk_pc := PAge (sy_time s)\<rparr>\<rparr>)"

definition worker_step :: "net_answers \<Rightarrow> clock \<Rightarrow> received \<Rightarrow> system \<Rightarrow> system" where
  "worker_step net clock received s =
     (let w = sy_worker s; d = sy_disc s in
      case wk_pc w of
        PNone \<Rightarrow> s
      | PExit \<Rightarrow> s
      | PTop \<Rightarrow>
          if dc_shutdown d then s\<lparr>sy_worker := w\<lparr>wk_pc := PExit\<rparr>\<rparr>
          else if \<not> dc_enabled d \<or> sy_time s \<ge> dc_lease d then s
          else s\<lparr>sy_worker := w\<lparr>wk_generation := dc_generation d, wk_pc := PSetup\<rparr>,
                 sy_disc := d\<lparr>dc_active := dc_generation d\<rparr>\<rparr>
      | PSetup \<Rightarrow>
          s\<lparr>sy_sniffer := set_callback True (sniffer_init (sy_sniffer s)),
            sy_worker := w\<lparr>wk_next_query := 0, wk_last_tick := sy_time s, wk_healthy := False, wk_pc := PHead\<rparr>\<rparr>
      | PHead \<Rightarrow>
          s\<lparr>sy_worker := w\<lparr>wk_pc :=
              (if generation_active (wk_generation w) (sy_time s) d then PQuery (sy_time s) else PTeardown)\<rparr>\<rparr>
      | PQuery now \<Rightarrow> query_step net now s
      | PNext \<Rightarrow> s\<lparr>sy_worker := w\<lparr>wk_next_query := sy_time s + query_usec, wk_pc := PTick\<rparr>\<rparr>
      | PTick \<Rightarrow> s\<lparr>sy_worker := w\<lparr>wk_last_tick := sy_time s, wk_pc := PPoll\<rparr>\<rparr>
      | PPoll \<Rightarrow> poll_step clock received s
      | PReport result (f # fs) \<Rightarrow>
          s\<lparr>sy_disc := on_mdns_host (sy_time s) f d, sy_worker := w\<lparr>wk_pc := PReport result fs\<rparr>\<rparr>
      | PReport result [] \<Rightarrow> after_poll result s
      | PAge now \<Rightarrow>
          s\<lparr>sy_disc := age_hosts (wk_healthy w) (wk_generation w) now (wk_last_tick w) (sy_time s) d,
            sy_worker := w\<lparr>wk_last_tick := now, wk_pc := PHead\<rparr>\<rparr>
      | PTeardown \<Rightarrow>
          s\<lparr>sy_sniffer := sniffer_deinit (set_callback False (sy_sniffer s)), sy_worker := w\<lparr>wk_pc := PClear\<rparr>\<rparr>
      | PClear \<Rightarrow> s\<lparr>sy_disc := d\<lparr>dc_active := 0\<rparr>, sy_worker := w\<lparr>wk_pc := PTop\<rparr>\<rparr>)"

text \<open>\<open>pthread_create\<close> puts the new thread at its top.\<close>

definition start_call :: "int \<Rightarrow> system \<Rightarrow> system" where
  "start_call create s =
     (case discovery_start create (sy_time s) (sy_disc s) of
        (r, g, d) \<Rightarrow> s\<lparr>sy_disc := d, sy_worker := (if dc_thread_created d \<and> \<not> dc_thread_created (sy_disc s)
                                                then (sy_worker s)\<lparr>wk_pc := PTop\<rparr> else sy_worker s)\<rparr>)"

inductive sys_step :: "system \<Rightarrow> system \<Rightarrow> bool" where
  step_time: "sy_time s \<le> t \<Longrightarrow> sys_step s (s\<lparr>sy_time := t\<rparr>)"
| step_worker: "sys_step s (worker_step net clock received s)"
| step_start: "sys_step s (start_call create s)"
| step_stop: "sys_step s (s\<lparr>sy_disc := snd (discovery_stop (sy_disc s))\<rparr>)"
| step_shutdown: "sys_step s (s\<lparr>sy_disc := discovery_shutdown (sy_disc s)\<rparr>)"
| step_join: "wk_pc (sy_worker s) = PExit \<Longrightarrow>
    sys_step s (s\<lparr>sy_disc := discovery_joined (sy_disc s), sy_worker := (sy_worker s)\<lparr>wk_pc := PNone\<rparr>\<rparr>)"

definition system_start :: system where
  "system_start = \<lparr>sy_time = 0,
     sy_disc = \<lparr>dc_thread_created = False, dc_enabled = False, dc_shutdown = False, dc_generation = 0,
       dc_active = 0, dc_lease = 0, dc_snapshot = snapshot_zero, dc_healthy_time = 0, dc_seen = [],
       dc_last_error = 0, dc_log = []\<rparr>,
     sy_sniffer = sniffer_start,
     sy_worker = \<lparr>wk_pc = PNone, wk_generation = 0, wk_next_query = 0, wk_last_tick = 0, wk_healthy = False\<rparr>\<rparr>"

text \<open>\<open>legacy_host_discovery_init\<close> is called when there is no thread.\<close>

inductive sys_reachable :: "system \<Rightarrow> bool" where
  sys_start: "sys_reachable system_start"
| sys_init: "sys_reachable s \<Longrightarrow> wk_pc (sy_worker s) = PNone \<Longrightarrow>
    sys_reachable (s\<lparr>sy_disc := discovery_init (sy_disc s)\<rparr>)"
| sys_next: "sys_reachable s \<Longrightarrow> sys_step s s' \<Longrightarrow> sys_reachable s'"

section \<open>Expiry\<close>

definition fresh :: "u64 \<Rightarrow> host \<times> u64 \<Rightarrow> bool" where
  "fresh healthy p \<longleftrightarrow> healthy - snd p < expiry_usec"

definition aged :: "discovery \<Rightarrow> (host \<times> u64) list" where
  "aged d = zip (ds_hosts (dc_snapshot d)) (dc_seen d)"

definition keep_aged :: "(host \<times> u64) list \<Rightarrow> nat \<Rightarrow> discovery \<Rightarrow> discovery" where
  "keep_aged ps removed d =
     d\<lparr>dc_snapshot := (dc_snapshot d)\<lparr>ds_hosts := map fst ps, ds_revision := ds_revision (dc_snapshot d) + of_nat removed\<rparr>,
       dc_seen := map snd ps\<rparr>"

lemma expire_host_aged:
  assumes "k < length ps"
  shows "expire_host k (keep_aged ps n d) =
    (if fresh (dc_healthy_time d) (ps ! k) then keep_aged ps n d
     else keep_aged (take k ps @ drop (k + 1) ps) (n + 1) d)"
  using assms
  by (simp add: expire_host_def keep_aged_def fresh_def Let_def not_less take_map drop_map)

lemma fold_expire:
  assumes "k \<le> length ps"
  shows "fold expire_host (rev [k..<length ps]) (keep_aged ps 0 d) =
    keep_aged (take k ps @ filter (fresh (dc_healthy_time d)) (drop k ps))
      (length (filter (\<lambda>p. \<not> fresh (dc_healthy_time d) p) (drop k ps))) d"
  using assms
proof (induction k rule: inc_induct)
  case base
  show ?case by simp
next
  case (step k)
  let ?f = "fresh (dc_healthy_time d)"
  let ?rest = "filter ?f (drop (Suc k) ps)"
  let ?qs = "take k ps @ ps ! k # ?rest"
  let ?n = "length (filter (\<lambda>p. \<not> ?f p) (drop (Suc k) ps))"
  have split: "rev [k..<length ps] = rev [Suc k..<length ps] @ [k]" "drop k ps = ps ! k # drop (Suc k) ps"
    "take (Suc k) ps @ ?rest = ?qs"
    using step.hyps by (simp_all add: upt_conv_Cons Cons_nth_drop_Suc take_Suc_conv_app_nth)
  have k: "length (take k ps) = k"
    using step.hyps by simp
  then have "k < length ?qs" "?qs ! k = ps ! k" "take k ?qs = take k ps" "drop (k + 1) ?qs = ?rest"
    by (simp_all add: nth_append)
  moreover have "fold expire_host (rev [k..<length ps]) (keep_aged ps 0 d) = expire_host k (keep_aged ?qs ?n d)"
    using step.IH split(1,3) by simp
  ultimately show ?case
    using expire_host_aged [of k ?qs ?n d] split(2) by simp
qed

lemma keep_aged_self:
  "length (dc_seen d) = length (ds_hosts (dc_snapshot d)) \<Longrightarrow> keep_aged (aged d) 0 d = d"
  by (simp add: keep_aged_def aged_def)

text \<open>
  The loop of \<open>expire_hosts\<close>, which removes hosts from the end while it walks to the
  front, leaves exactly the hosts that were seen within the last fifteen seconds of healthy searching, in
  their order and with their times, and raises the revision by the number of hosts it removed.
\<close>

theorem expire_hosts_filter:
  assumes "length (dc_seen d) = length (ds_hosts (dc_snapshot d))"
  shows "expire_hosts d =
    keep_aged (filter (fresh (dc_healthy_time d)) (aged d))
      (length (filter (\<lambda>p. \<not> fresh (dc_healthy_time d) p) (aged d))) d"
proof -
  have "length (aged d) = length (ds_hosts (dc_snapshot d))"
    using assms by (simp add: aged_def)
  then show ?thesis
    using fold_expire [of 0 "aged d" d] keep_aged_self [OF assms] by (simp add: expire_hosts_def)
qed

definition sample_discovery :: discovery where
  "sample_discovery = (sy_disc system_start)
     \<lparr>dc_healthy_time := 20000000, dc_seen := [1000000, 19000000],
      dc_snapshot := snapshot_zero\<lparr>ds_hosts := [host_zero\<lparr>mh_id := 1\<rparr>, host_zero\<lparr>mh_id := 2\<rparr>]\<rparr>\<rparr>"

lemma expire_hosts_filter_witness:
  "map mh_id (ds_hosts (dc_snapshot (expire_hosts sample_discovery))) = [2] \<and>
   ds_revision (dc_snapshot (expire_hosts sample_discovery)) = 1"
proof -
  have "length (dc_seen sample_discovery) = length (ds_hosts (dc_snapshot sample_discovery))"
    by code_simp
  moreover have "map mh_id (ds_hosts (dc_snapshot (keep_aged (filter (fresh (dc_healthy_time sample_discovery))
      (aged sample_discovery)) (length (filter (\<lambda>p. \<not> fresh (dc_healthy_time sample_discovery) p)
      (aged sample_discovery))) sample_discovery))) = [2] \<and>
    ds_revision (dc_snapshot (keep_aged (filter (fresh (dc_healthy_time sample_discovery))
      (aged sample_discovery)) (length (filter (\<lambda>p. \<not> fresh (dc_healthy_time sample_discovery) p)
      (aged sample_discovery))) sample_discovery)) = 1"
    by code_simp
  ultimately show ?thesis
    by (simp add: expire_hosts_filter)
qed

section \<open>The published hosts\<close>

definition host_ok :: "host \<Rightarrow> bool" where
  "host_ok h \<longleftrightarrow>
     mh_id h = -1 \<and> mh_name h \<noteq> [] \<and> length (mh_name h) \<le> 255 \<and> mh_internal h \<noteq> [] \<and>
     length (mh_internal h) \<le> 15 \<and> mh_port h \<noteq> 0"

definition host_key :: "host \<Rightarrow> u8 list \<times> u16" where
  "host_key h = (mh_internal h, mh_port h)"

definition hosts_ok :: "discovery \<Rightarrow> bool" where
  "hosts_ok d \<longleftrightarrow>
     (let hs = ds_hosts (dc_snapshot d) in
      length (dc_seen d) = length hs \<and> length hs \<le> max_discovered_hosts \<and> list_all host_ok hs \<and>
      distinct (map host_key hs) \<and> list_all (\<lambda>t. t \<le> dc_healthy_time d) (dc_seen d) \<and>
      (dc_enabled d \<longrightarrow> dc_generation d \<noteq> 0))"

lemma hosts_ok_expire:
  assumes "hosts_ok d"
  shows "hosts_ok (expire_hosts d)"
proof -
  let ?ps = "filter (fresh (dc_healthy_time d)) (aged d)"
  have len: "length (dc_seen d) = length (ds_hosts (dc_snapshot d))"
    using assms by (simp add: hosts_ok_def Let_def)
  have fst: "map fst (aged d) = ds_hosts (dc_snapshot d)" "map snd (aged d) = dc_seen d"
    using len by (simp_all add: aged_def)
  have "distinct (map (host_key \<circ> fst) (aged d))"
    using assms fst by (simp add: hosts_ok_def Let_def flip: map_map)
  then have "distinct (map (host_key \<circ> fst) ?ps)"
    by (rule distinct_map_filter)
  moreover have "length ?ps \<le> max_discovered_hosts"
    using assms fst(1) length_filter_le [of "fresh (dc_healthy_time d)" "aged d"]
    by (simp add: hosts_ok_def Let_def aged_def)
  moreover have "set (map fst ?ps) \<subseteq> set (ds_hosts (dc_snapshot d))" "set (map snd ?ps) \<subseteq> set (dc_seen d)"
    unfolding fst(1) [symmetric] fst(2) [symmetric] by auto
  ultimately show ?thesis
    using assms expire_hosts_filter [OF len]
    by (simp add: hosts_ok_def Let_def keep_aged_def list_all_iff subset_iff)
qed

lemma find_discovered_spec:
  defines "hit h ip port \<equiv> int (unat (mh_port h)) = port \<and> mh_internal h = ip"
  shows "i \<le> find_discovered hs i ip port \<and> find_discovered hs i ip port \<le> i + length hs \<and>
    (find_discovered hs i ip port < i + length hs \<longrightarrow> hit (hs ! (find_discovered hs i ip port - i)) ip port) \<and>
    (find_discovered hs i ip port = i + length hs \<longrightarrow> \<not> list_ex (\<lambda>h. hit h ip port) hs)"
  unfolding hit_def
proof (induction hs i ip port rule: find_discovered.induct)
  case (2 h hs i ip port)
  show ?case
  proof (cases "int (unat (mh_port h)) = port \<and> mh_internal h = ip")
    case False
    then have "find_discovered (h # hs) i ip port = find_discovered hs (i + 1) ip port"
      by auto
    moreover have "find_discovered hs (i + 1) ip port - i = Suc (find_discovered hs (i + 1) ip port - (i + 1))"
      using 2 [OF False] by linarith
    ultimately show ?thesis
      using False 2 [OF False] by auto
  qed simp
qed simp

lemma unat_of_int_port: "0 \<le> p \<Longrightarrow> p \<le> 65535 \<Longrightarrow> int (unat (of_int p :: u16)) = p"
  by (simp add: unsigned_of_int take_bit_int_eq_self)

text \<open>The update of a host, when it is let through: its place, and the three writes.\<close>

definition store_discovered :: "u8 list \<Rightarrow> u8 list \<Rightarrow> int \<Rightarrow> discovery \<Rightarrow> discovery" where
  "store_discovered name ip port d =
     (let index = find_discovered (ds_hosts (dc_snapshot d)) 0 ip port in
      if index < max_discovered_hosts
      then let d = name_discovered index name (add_discovered index ip port d)
           in d\<lparr>dc_seen := (dc_seen d)[index := dc_healthy_time d]\<rparr>
      else d)"

lemma on_mdns_host_cases:
  "on_mdns_host now (idx, service, name, ip, port) d =
     (if name \<noteq> [] \<and> ip \<noteq> [] \<and> 0 < port \<and> port \<le> 65535 \<and> generation_active (dc_active d) now d
      then store_discovered name ip port d else d)"
  by (simp add: on_mdns_host_def store_discovered_def Let_def)

lemma add_discovered_ok:
  assumes "hosts_ok d" "ip \<noteq> []" "length ip \<le> 15" "0 < port" "port \<le> 65535" "name \<noteq> []"
    and "index = find_discovered (ds_hosts (dc_snapshot d)) 0 ip port" "index < max_discovered_hosts"
  shows "hosts_ok (name_discovered index name (add_discovered index ip port d)) \<and>
    dc_healthy_time (name_discovered index name (add_discovered index ip port d)) = dc_healthy_time d"
proof -
  let ?hs = "ds_hosts (dc_snapshot d)"
  note found = find_discovered_spec [of 0 ?hs ip port]
  have port: "(of_int port :: u16) \<noteq> 0" "int (unat (of_int port :: u16)) = port"
    using assms unat_of_int_port [of port] by auto
  consider (new) "index = length ?hs" | (old) "index < length ?hs"
    using found assms(7) by fastforce
  then show ?thesis
  proof cases
    case new
    have "(ip, of_int port :: u16) \<notin> host_key ` set ?hs"
      using found new assms(7) port by (auto simp: host_key_def list_ex_iff)
    moreover have "map host_key ?hs = map host_key ?hs"
      by simp
    ultimately show ?thesis
      using assms new port
      by (simp add: hosts_ok_def Let_def add_discovered_def name_discovered_def host_zero_def host_ok_def
          host_key_def list_update_append nth_append)
  next
    case old
    let ?h = "(?hs ! index)\<lparr>mh_name := take 255 name\<rparr>"
    have "host_ok (?hs ! index)"
      using assms(1) old by (simp add: hosts_ok_def Let_def list_all_length)
    then have "host_ok ?h" "host_key ?h = host_key (?hs ! index)"
      using assms(6) by (simp_all add: host_ok_def host_key_def)
    then have "list_all host_ok (?hs[index := ?h])" "map host_key (?hs[index := ?h]) = map host_key ?hs"
      using assms(1) list_all_update [of host_ok ?hs index ?h]
      by (simp_all add: hosts_ok_def Let_def map_update list_update_id flip: nth_map [OF old, of host_key])
    then show ?thesis
      using assms(1) old by (simp add: hosts_ok_def Let_def add_discovered_def name_discovered_def)
  qed
qed

lemma hosts_ok_report:
  assumes "hosts_ok d" "found_ok f"
  shows "hosts_ok (on_mdns_host now f d)" "dc_healthy_time (on_mdns_host now f d) = dc_healthy_time d"
proof -
  obtain idx service name ip port where f: "f = (idx, service, name, ip, port)"
    by (cases f)
  have "hosts_ok (store_discovered name ip port d) \<and>
      dc_healthy_time (store_discovered name ip port d) = dc_healthy_time d"
    if "name \<noteq> []" "ip \<noteq> []" "0 < port" "port \<le> 65535"
  proof -
    have "length ip \<le> 15"
      using assms(2) f by (simp add: found_ok_def)
    note ok = add_discovered_ok [OF assms(1) that(2) this that(3,4,1) refl]
    show ?thesis
      using ok assms(1)
      by (auto simp: store_discovered_def Let_def hosts_ok_def intro!: list_all_update)
  qed
  then show "hosts_ok (on_mdns_host now f d)" "dc_healthy_time (on_mdns_host now f d) = dc_healthy_time d"
    using assms(1) by (auto simp: f on_mdns_host_cases)
qed

section \<open>The whole system\<close>

text \<open>
  Where the sniffer is closed, and where the worker is inside a generation. Times are ordered: the
  healthy time never runs ahead of the last tick, and the last tick not ahead of the clock.
\<close>

definition closed_pc :: "pc \<Rightarrow> bool" where
  "closed_pc p \<longleftrightarrow> p \<in> {PNone, PTop, PExit, PSetup, PClear}"

definition idle_pc :: "pc \<Rightarrow> bool" where
  "idle_pc p \<longleftrightarrow> p \<in> {PNone, PTop, PExit}"

definition pc_ok :: "system \<Rightarrow> bool" where
  "pc_ok s \<longleftrightarrow>
     (case wk_pc (sy_worker s) of
        PQuery now \<Rightarrow> now \<le> sy_time s
      | PAge now \<Rightarrow> wk_last_tick (sy_worker s) \<le> now \<and> now \<le> sy_time s
      | PReport r fs \<Rightarrow> list_all found_ok fs
      | _ \<Rightarrow> True)"

definition system_ok :: "system \<Rightarrow> bool" where
  "system_ok s \<longleftrightarrow>
     hosts_ok (sy_disc s) \<and> sniffer_ok (sy_sniffer s) \<and> pc_ok s \<and>
     dc_healthy_time (sy_disc s) \<le> wk_last_tick (sy_worker s) \<and> wk_last_tick (sy_worker s) \<le> sy_time s \<and>
     (dc_active (sy_disc s) = 0 \<longleftrightarrow> idle_pc (wk_pc (sy_worker s))) \<and>
     (closed_pc (wk_pc (sy_worker s)) \<longrightarrow> sn_sock (sy_sniffer s) < 0 \<and> \<not> sn_callback (sy_sniffer s)) \<and>
     (wk_pc (sy_worker s) = PNone \<longleftrightarrow> \<not> dc_thread_created (sy_disc s))"

lemma hosts_ok_frame:
  assumes "hosts_ok d" "dc_snapshot d' = dc_snapshot d" "dc_seen d' = dc_seen d"
    and "dc_healthy_time d \<le> dc_healthy_time d'" "dc_enabled d' \<longrightarrow> dc_generation d' \<noteq> 0"
  shows "hosts_ok d'"
  using assms by (auto simp: hosts_ok_def Let_def list_all_iff intro: order_trans)

lemma report_error_frame [simp]:
  "dc_snapshot (report_error r d) = dc_snapshot d" "dc_seen (report_error r d) = dc_seen d"
  "dc_healthy_time (report_error r d) = dc_healthy_time d" "dc_enabled (report_error r d) = dc_enabled d"
  "dc_generation (report_error r d) = dc_generation d" "dc_active (report_error r d) = dc_active d"
  "dc_shutdown (report_error r d) = dc_shutdown d" "dc_lease (report_error r d) = dc_lease d"
  "dc_thread_created (report_error r d) = dc_thread_created d"
  by (simp_all add: report_error_def)

lemma hosts_ok_enabled: "hosts_ok d \<Longrightarrow> dc_enabled d \<longrightarrow> dc_generation d \<noteq> 0"
  by (simp add: hosts_ok_def Let_def)

lemma hosts_ok_report_error: "hosts_ok d \<Longrightarrow> hosts_ok (report_error r d)"
  by (rule hosts_ok_frame) (auto dest: hosts_ok_enabled)

lemma on_mdns_host_frame [simp]:
  "dc_active (on_mdns_host now f d) = dc_active d"
  "dc_thread_created (on_mdns_host now f d) = dc_thread_created d"
  by (cases f; simp add: on_mdns_host_cases store_discovered_def name_discovered_def add_discovered_def Let_def)+

lemma keep_aged_frame [simp]:
  "dc_active (keep_aged ps n d) = dc_active d"
  "dc_thread_created (keep_aged ps n d) = dc_thread_created d"
  "dc_healthy_time (keep_aged ps n d) = dc_healthy_time d"
  by (simp_all add: keep_aged_def)

lemma age_hosts_ok:
  fixes healthy generation clock
  assumes "hosts_ok d" "dc_healthy_time d \<le> last_tick" "last_tick \<le> now"
  defines "d' \<equiv> age_hosts healthy generation now last_tick clock d"
  shows "hosts_ok d'" "dc_healthy_time d' \<le> now" "dc_active d' = dc_active d"
    "dc_thread_created d' = dc_thread_created d"
proof -
  let ?e = "d\<lparr>dc_healthy_time := dc_healthy_time d + (now - last_tick)\<rparr>"
  have no_wrap: "dc_healthy_time d \<le> dc_healthy_time d + (now - last_tick)"
    "dc_healthy_time d + (now - last_tick) \<le> now"
    using assms(2,3) by uint_arith+
  then have ok: "hosts_ok ?e"
    using assms(1) hosts_ok_enabled by (intro hosts_ok_frame [OF assms(1)]) auto
  have "length (dc_seen ?e) = length (ds_hosts (dc_snapshot ?e))"
    using ok by (simp add: hosts_ok_def Let_def)
  note expire = expire_hosts_filter [OF this]
  show "hosts_ok d'"
    using assms(1,3) ok hosts_ok_expire by (simp add: d'_def age_hosts_def)
  show "dc_healthy_time d' \<le> now" "dc_active d' = dc_active d" "dc_thread_created d' = dc_thread_created d"
    using assms(2,3) no_wrap expire by (auto simp: d'_def age_hosts_def)
qed

lemma sniffer_deinit_frame [simp]:
  "sn_callback (sniffer_deinit s) = sn_callback s" "sn_found (sniffer_deinit s) = sn_found s"
  by (simp_all add: sniffer_deinit_def close_socket_def Let_def)

lemma sniffer_deinit_closed [simp]: "sn_sock (sniffer_deinit s) < 0"
  by (simp add: sniffer_deinit_def close_socket_def Let_def)

lemma set_callback_frame [simp]:
  "sn_callback (set_callback g s) = g" "sn_sock (set_callback g s) = sn_sock s"
  by (simp_all add: set_callback_def)

lemma hosts_ok_updates:
  assumes "hosts_ok d"
  shows "hosts_ok (d\<lparr>dc_enabled := False\<rparr>)" "hosts_ok (d\<lparr>dc_enabled := False, dc_shutdown := True\<rparr>)"
    "hosts_ok (d\<lparr>dc_thread_created := b\<rparr>)" "hosts_ok (d\<lparr>dc_active := a\<rparr>)"
  using assms by (simp_all add: hosts_ok_def Let_def)

lemma sniffer_ok_callback: "sniffer_ok s \<Longrightarrow> sniffer_ok (set_callback g s)"
  by (simp add: set_callback_def sniffer_ok_def sockets_ok_def)

lemma sniffer_ok_init: "sniffer_ok s \<Longrightarrow> sn_sock s < 0 \<Longrightarrow> sniffer_ok (sniffer_init s)"
  using empty_table_ok by (simp add: sniffer_init_def sniffer_ok_def sockets_ok_def)

lemma sniffer_query_sniffer_ok:
  "sniffer_ok s \<Longrightarrow> sniffer_query net s = (r, s') \<Longrightarrow> sniffer_ok s'"
  using query_ok [of s net] by simp

lemmas system_parts = system_ok_def pc_ok_def closed_pc_def idle_pc_def

lemma query_step_ok:
  assumes "system_ok s" "wk_pc (sy_worker s) = PQuery now"
  shows "system_ok (query_step net now s)"
proof -
  obtain result sniffer where q: "sniffer_query net (sy_sniffer s) = (result, sniffer)"
    by (cases "sniffer_query net (sy_sniffer s)")
  have "sniffer_ok sniffer"
    using assms(1) sniffer_query_sniffer_ok [OF _ q] by (simp add: system_ok_def)
  then show ?thesis
    using assms q deinit_ok hosts_ok_report_error
    by (auto simp: query_step_def system_parts)
qed

lemma poll_found:
  assumes "sniffer_ok s" "sniffer_poll clock received s = Some (r, s')"
  shows "sniffer_ok s'" "list_all found_ok (drop n (sn_found s'))"
proof -
  show ok: "sniffer_ok s'"
    using poll_ok [OF assms(1), of clock received] assms(2) by auto
  show "list_all found_ok (drop n (sn_found s'))"
    using ok by (auto simp: sniffer_ok_def list_all_iff dest: in_set_dropD)
qed

lemma poll_step_ok:
  assumes "system_ok s" "wk_pc (sy_worker s) = PPoll"
  shows "system_ok (poll_step clock received s)"
proof (cases "wk_healthy (sy_worker s)")
  case True
  have "sniffer_ok (sy_sniffer s)"
    using assms(1) by (simp add: system_ok_def)
  then obtain r sniffer where p: "sniffer_poll clock received (sy_sniffer s) = Some (r, sniffer)"
    using poll_ok by blast
  then show ?thesis
    using True assms poll_found [OF \<open>sniffer_ok (sy_sniffer s)\<close> p]
    by (auto simp: poll_step_def system_parts)
next
  case False
  then show ?thesis
    using assms by (simp add: poll_step_def system_parts)
qed

lemma after_poll_ok:
  assumes "system_ok s" "wk_pc (sy_worker s) = PReport r []"
  shows "system_ok (after_poll r s)"
  using assms deinit_ok hosts_ok_report_error
  by (auto simp: after_poll_def system_parts Let_def)

lemma worker_step_ok:
  assumes "system_ok s"
  shows "system_ok (worker_step net clock received s)"
proof (cases "wk_pc (sy_worker s)")
  case PTop
  show ?thesis
  proof (cases "\<not> dc_shutdown (sy_disc s) \<and> dc_enabled (sy_disc s) \<and> sy_time s < dc_lease (sy_disc s)")
    case True
    have "dc_generation (sy_disc s) \<noteq> 0"
      using assms True by (simp add: system_ok_def hosts_ok_def Let_def)
    then show ?thesis
      using True assms PTop hosts_ok_updates
      by (auto simp: worker_step_def Let_def system_parts not_le)
  next
    case False
    then show ?thesis
      using assms PTop by (auto simp: worker_step_def Let_def system_parts not_le)
  qed
next
  case PSetup
  then show ?thesis
    using assms sniffer_ok_init [of "sy_sniffer s"] sniffer_ok_callback [of "sniffer_init (sy_sniffer s)" True]
    by (auto simp: worker_step_def system_parts intro: order_trans)
next
  case PHead
  then show ?thesis using assms by (auto simp: worker_step_def Let_def system_parts)
next
  case (PQuery now)
  then show ?thesis using query_step_ok assms by (simp add: worker_step_def)
next
  case PTick
  then show ?thesis
    using assms by (auto simp: worker_step_def system_parts intro: order_trans)
next
  case PPoll
  then show ?thesis using poll_step_ok assms by (simp add: worker_step_def)
next
  case (PReport r fs)
  show ?thesis
  proof (cases fs)
    case Nil
    then show ?thesis using after_poll_ok assms PReport by (simp add: worker_step_def)
  next
    case (Cons f gs)
    then show ?thesis
      using assms PReport hosts_ok_report [of "sy_disc s" f "sy_time s"]
      by (auto simp: worker_step_def system_parts)
  qed
next
  case (PAge now)
  then show ?thesis
    using assms age_hosts_ok [of "sy_disc s" "wk_last_tick (sy_worker s)" now]
    by (auto simp: worker_step_def Let_def system_parts)
next
  case PTeardown
  then show ?thesis
    using assms deinit_ok sniffer_ok_callback
    by (auto simp: worker_step_def Let_def system_parts)
next
  case PClear
  then show ?thesis
    using assms hosts_ok_updates by (auto simp: worker_step_def Let_def system_parts)
qed (use assms in \<open>auto simp: worker_step_def Let_def system_parts\<close>)

lemma next_generation_nonzero: "next_generation g \<noteq> 0"
  by (auto simp: next_generation_def)

text \<open>The three ways a start can end.\<close>

lemma discovery_start_cases:
  obtains (refused) r where "discovery_start create now d = (r, None, d)"
    | (fresh) g where "g \<noteq> 0" "discovery_start create now d = (0, Some g, d\<lparr>dc_thread_created := True,
        dc_generation := g, dc_snapshot := (dc_snapshot d)\<lparr>ds_generation := g,
          ds_revision := ds_revision (dc_snapshot d) + 1\<rparr>,
        dc_enabled := True, dc_lease := now + lease_usec\<rparr>)"
    | (renewed) "dc_enabled d" "discovery_start create now d = (0, Some (dc_generation d),
        d\<lparr>dc_thread_created := True, dc_lease := now + lease_usec\<rparr>)"
proof -
  consider (refused) "dc_shutdown d \<or> \<not> dc_thread_created d \<and> create \<noteq> 0"
    | (fresh) "\<not> (dc_shutdown d \<or> \<not> dc_thread_created d \<and> create \<noteq> 0)" "\<not> dc_enabled d \<or> now \<ge> dc_lease d"
    | (renewed) "\<not> (dc_shutdown d \<or> \<not> dc_thread_created d \<and> create \<noteq> 0)" "dc_enabled d" "\<not> now \<ge> dc_lease d"
    by blast
  then show thesis
  proof cases
    case refused
    then have "discovery_start create now d = (if dc_shutdown d then -1 else - create, None, d)"
      by (auto simp: discovery_start_def)
    then show thesis by (rule that(1))
  next
    case fresh
    then show thesis
      by (intro that(2) [OF next_generation_nonzero]) (simp add: discovery_start_def Let_def)
  next
    case renewed
    then show thesis
      by (intro that(3)) (simp_all add: discovery_start_def Let_def)
  qed
qed

lemma start_call_ok:
  assumes "system_ok s"
  shows "system_ok (start_call create s)"
proof -
  let ?d = "sy_disc s"
  have worker: "system_ok (s\<lparr>sy_disc := d, sy_worker := (if dc_thread_created d \<and> \<not> dc_thread_created ?d
      then (sy_worker s)\<lparr>wk_pc := PTop\<rparr> else sy_worker s)\<rparr>)"
    if "hosts_ok d" "dc_thread_created d" "dc_active d = dc_active ?d" "dc_healthy_time d = dc_healthy_time ?d" for d
    using assms that by (cases "dc_thread_created ?d") (simp_all add: system_parts split: pc.splits)
  show ?thesis
  proof (cases rule: discovery_start_cases [of create "sy_time s" ?d])
    case (refused r)
    then show ?thesis using assms by (simp add: start_call_def)
  next
    case (fresh g)
    have "hosts_ok (?d\<lparr>dc_thread_created := True, dc_generation := g,
        dc_snapshot := (dc_snapshot ?d)\<lparr>ds_generation := g, ds_revision := ds_revision (dc_snapshot ?d) + 1\<rparr>,
        dc_enabled := True, dc_lease := sy_time s + lease_usec\<rparr>)"
      using assms fresh(1) by (simp add: system_ok_def hosts_ok_def Let_def)
    then show ?thesis
      using worker fresh(2) by (simp add: start_call_def)
  next
    case renewed
    have "hosts_ok (?d\<lparr>dc_thread_created := True, dc_lease := sy_time s + lease_usec\<rparr>)"
      using assms by (simp add: system_ok_def hosts_ok_def Let_def)
    then show ?thesis
      using worker renewed(2) by (simp add: start_call_def)
  qed
qed

lemma sys_step_ok: "sys_step s s' \<Longrightarrow> system_ok s \<Longrightarrow> system_ok s'"
proof (induction rule: sys_step.induct)
  case (step_time s t)
  then show ?case
    by (auto simp: system_ok_def pc_ok_def split: pc.splits intro: order_trans)
next
  case (step_worker s net clock received)
  then show ?case by (rule worker_step_ok)
next
  case (step_start s create)
  then show ?case by (rule start_call_ok)
next
  case (step_stop s)
  then show ?case
    using hosts_ok_updates by (simp add: system_ok_def pc_ok_def discovery_stop_def split: pc.splits)
next
  case (step_shutdown s)
  then show ?case
    using hosts_ok_updates by (simp add: system_ok_def pc_ok_def discovery_shutdown_def split: pc.splits)
next
  case (step_join s)
  then show ?case
    using hosts_ok_updates by (auto simp: system_parts discovery_joined_def)
qed

lemma sys_reachable_ok: "sys_reachable s \<Longrightarrow> system_ok s"
proof (induction rule: sys_reachable.induct)
  case sys_start
  then show ?case
    by (simp add: system_start_def system_parts hosts_ok_def snapshot_zero_def Let_def
        sniffer_reachable_ok [OF reach_start]) (simp add: sniffer_start_def)
next
  case (sys_init s)
  then show ?case
    by (auto simp: system_parts discovery_init_def hosts_ok_def snapshot_zero_def Let_def)
qed (rule sys_step_ok)

text \<open>
  Property C16. In every history of the system the published snapshot has at most 16 hosts, no two with
  the same address and port, each with a name, an address and a port, and no host's time is in the future
  of the healthy time, so that the ages which expiry computes are the true ones.
\<close>

theorem discovery_snapshot_ok:
  assumes "sys_reachable s"
  shows "length (ds_hosts (dc_snapshot (sy_disc s))) \<le> max_discovered_hosts \<and>
    distinct (map (\<lambda>h. (mh_internal h, mh_port h)) (ds_hosts (dc_snapshot (sy_disc s)))) \<and>
    list_all (\<lambda>h. mh_name h \<noteq> [] \<and> length (mh_name h) < 256 \<and> mh_internal h \<noteq> [] \<and>
      length (mh_internal h) < 256 \<and> mh_port h \<noteq> 0) (ds_hosts (dc_snapshot (sy_disc s))) \<and>
    list_all2 (\<lambda>h t. unat (dc_healthy_time (sy_disc s) - t) = unat (dc_healthy_time (sy_disc s)) - unat t)
      (ds_hosts (dc_snapshot (sy_disc s))) (dc_seen (sy_disc s))"
proof -
  let ?d = "sy_disc s"
  have ok: "hosts_ok ?d"
    using sys_reachable_ok [OF assms] by (simp add: system_ok_def)
  have key: "(\<lambda>h. (mh_internal h, mh_port h)) = host_key"
    by (simp add: host_key_def fun_eq_iff)
  have "list_all (\<lambda>h. mh_name h \<noteq> [] \<and> length (mh_name h) < 256 \<and> mh_internal h \<noteq> [] \<and>
      length (mh_internal h) < 256 \<and> mh_port h \<noteq> 0) (ds_hosts (dc_snapshot ?d))"
    using ok by (auto simp: hosts_ok_def Let_def list_all_iff host_ok_def)
  moreover have "list_all2 (\<lambda>h t. unat (dc_healthy_time ?d - t) = unat (dc_healthy_time ?d) - unat t)
      (ds_hosts (dc_snapshot ?d)) (dc_seen ?d)"
    using ok by (auto simp: hosts_ok_def Let_def list_all_length list_all2_conv_all_nth intro!: unat_sub)
  ultimately show ?thesis
    using ok by (simp add: hosts_ok_def Let_def key)
qed

text \<open>
  When \<open>legacy_host_discovery_is_idle\<close> says so, the worker has really let go of the network:
  no socket of the sniffer is open and no callback is registered, whatever was started, stopped or
  shut down before.
\<close>

theorem discovery_idle_quiet:
  assumes "sys_reachable s" "discovery_is_idle (sy_disc s)"
  shows "sn_handles (sy_sniffer s) = [] \<and> \<not> sn_callback (sy_sniffer s) \<and>
    wk_pc (sy_worker s) \<in> {PNone, PTop, PExit}"
  using sys_reachable_ok [OF assms(1)] assms(2)
  by (auto simp: system_parts discovery_is_idle_def sniffer_ok_def sockets_ok_def)

section \<open>Readers\<close>

definition revised :: "nat \<Rightarrow> discovery \<Rightarrow> discovery \<Rightarrow> bool" where
  "revised k d d' \<longleftrightarrow>
     ds_revision (dc_snapshot d') = ds_revision (dc_snapshot d) + of_nat k \<and>
     (k = 0 \<longrightarrow> dc_snapshot d' = dc_snapshot d)"

lemma revised_same: "dc_snapshot d' = dc_snapshot d \<Longrightarrow> revised 0 d d'"
  by (simp add: revised_def)

lemma revised_trans: "revised j d d' \<Longrightarrow> revised k d' d'' \<Longrightarrow> revised (j + k) d d''"
  by (auto simp: revised_def algebra_simps)

lemma revised_report: "\<exists>k\<le>2. revised k d (on_mdns_host now f d)"
proof -
  obtain idx service name ip port where f: "f = (idx, service, name, ip, port)"
    by (cases f)
  have add: "\<exists>k\<le>1. revised k d (add_discovered i ip port d)" for i d
    by (intro exI [of _ "if i = length (ds_hosts (dc_snapshot d)) then 1 else 0"])
      (simp add: add_discovered_def Let_def revised_def)
  have name: "\<exists>k\<le>1. revised k d (name_discovered i name d)" for i d
    by (intro exI [of _ "if take 255 (mh_name (ds_hosts (dc_snapshot d) ! i)) \<noteq> take 255 name then 1 else 0"])
      (simp add: name_discovered_def Let_def revised_def)
  have "\<exists>k\<le>2. revised k d (store_discovered name ip port d)"
  proof -
    let ?i = "find_discovered (ds_hosts (dc_snapshot d)) 0 ip port"
    obtain j k where "j \<le> 1" "k \<le> 1" "revised j d (add_discovered ?i ip port d)"
      "revised k (add_discovered ?i ip port d) (name_discovered ?i name (add_discovered ?i ip port d))"
      using add name by metis
    then have "revised (j + k) d (name_discovered ?i name (add_discovered ?i ip port d))" "j + k \<le> 2"
      using revised_trans by auto
    then show ?thesis
      by (auto simp: store_discovered_def Let_def revised_def intro: exI [of _ "j + k"] exI [of _ 0])
  qed
  then show ?thesis
    by (auto simp: f on_mdns_host_cases revised_def intro: exI [of _ 0])
qed

lemma revised_age:
  assumes "hosts_ok d"
  shows "\<exists>k\<le>16. revised k d (age_hosts healthy generation now last_tick clock d)"
proof (cases "healthy \<and> generation_active generation clock d")
  case True
  let ?e = "d\<lparr>dc_healthy_time := dc_healthy_time d + (if now \<ge> last_tick then now - last_tick else 0)\<rparr>"
  let ?gone = "filter (\<lambda>p. \<not> fresh (dc_healthy_time ?e) p) (aged ?e)"
  have len: "length (dc_seen ?e) = length (ds_hosts (dc_snapshot ?e))"
    using assms by (simp add: hosts_ok_def Let_def)
  have "length ?gone \<le> 16"
    using assms length_filter_le [of "\<lambda>p. \<not> fresh (dc_healthy_time ?e) p" "aged ?e"]
    by (simp add: hosts_ok_def Let_def aged_def max_discovered_hosts_def)
  moreover have "revised (length ?gone) d (expire_hosts ?e)"
  proof (cases "?gone = []")
    case True
    then have "filter (fresh (dc_healthy_time ?e)) (aged ?e) = aged ?e"
      by (auto simp: filter_empty_conv filter_id_conv)
    then have "expire_hosts ?e = keep_aged (aged ?e) 0 ?e"
      using expire_hosts_filter [OF len] True by simp
    then have "expire_hosts ?e = ?e"
      using keep_aged_self [OF len] by simp
    then show ?thesis using True by (simp add: revised_def)
  next
    case False
    then show ?thesis
      by (simp add: expire_hosts_filter [OF len] revised_def keep_aged_def)
  qed
  ultimately show ?thesis
    using True by (auto simp: age_hosts_def)
next
  case False
  then show ?thesis by (auto simp: age_hosts_def revised_def intro: exI [of _ 0])
qed

lemma revised_worker:
  assumes "system_ok s"
  shows "\<exists>k\<le>16. revised k (sy_disc s) (sy_disc (worker_step net clock received s))"
proof -
  have same: "\<exists>k\<le>16. revised k (sy_disc s) (sy_disc (worker_step net clock received s))"
    if "dc_snapshot (sy_disc (worker_step net clock received s)) = dc_snapshot (sy_disc s)"
    using revised_same [OF that] by (auto intro: exI [of _ 0])
  show ?thesis
  proof (cases "wk_pc (sy_worker s)")
    case (PQuery now)
    then show ?thesis
      by (intro same) (auto simp: worker_step_def query_step_def Let_def split: prod.split)
  next
    case PPoll
    then show ?thesis
      by (intro same) (auto simp: worker_step_def poll_step_def Let_def split: option.split)
  next
    case (PReport r fs)
    show ?thesis
    proof (cases fs)
      case Nil
      then show ?thesis
        using PReport by (intro same) (auto simp: worker_step_def after_poll_def Let_def)
    next
      case (Cons f gs)
      then show ?thesis
        using PReport revised_report [of "sy_disc s" "sy_time s" f] order_trans [of _ 2 "16 :: nat"]
        by (fastforce simp: worker_step_def)
    qed
  next
    case (PAge now)
    have "hosts_ok (sy_disc s)"
      using assms by (simp add: system_ok_def)
    then show ?thesis
      using PAge revised_age by (simp add: worker_step_def Let_def)
  qed (intro same, simp add: worker_step_def Let_def)+
qed

lemma revised_step:
  assumes "sys_step s s'" "system_ok s"
  shows "\<exists>k\<le>16. revised k (sy_disc s) (sy_disc s')"
  using assms
proof (induction rule: sys_step.induct)
  case (step_worker s net clock received)
  then show ?case by (intro revised_worker)
next
  case (step_start s create)
  have "revised 0 (sy_disc s) (sy_disc (start_call create s)) \<or> revised 1 (sy_disc s) (sy_disc (start_call create s))"
    by (cases rule: discovery_start_cases [of create "sy_time s" "sy_disc s"])
      (simp_all add: start_call_def revised_def)
  then show ?case by (meson one_le_numeral zero_le)
qed (auto simp: revised_def discovery_stop_def discovery_shutdown_def discovery_joined_def intro: exI [of _ 0])

lemma revised_run:
  assumes "(sys_step ^^ n) s s'" "system_ok s"
  shows "system_ok s' \<and> (\<exists>k\<le>16 * n. revised k (sy_disc s) (sy_disc s'))"
  using assms
proof (induction n arbitrary: s')
  case 0
  then show ?case by (simp add: revised_def)
next
  case (Suc n)
  then obtain t where t: "(sys_step ^^ n) s t" "sys_step t s'"
    by auto
  then obtain j where j: "system_ok t" "j \<le> 16 * n" "revised j (sy_disc s) (sy_disc t)"
    using Suc by blast
  obtain k where k: "k \<le> 16" "revised k (sy_disc t) (sy_disc s')"
    using revised_step [OF t(2) j(1)] by blast
  have "revised (j + k) (sy_disc s) (sy_disc s')" "j + k \<le> 16 * Suc n"
    using revised_trans [OF j(3) k(2)] j k by auto
  then show ?case
    using sys_step_ok [OF t(2) j(1)] by blast
qed

text \<open>
  Property C15. The two numbers tell a reader the truth. If a reader got a copy, and within the next
  2^28 steps of the system a read says that nothing has changed, then the copy is still equal to what
  is published.
\<close>

theorem discovery_read_current:
  assumes "sys_reachable s" "discovery_read (sy_time s) old (sy_disc s) = (1, copy)"
    and "(sys_step ^^ n) s s'" "n < 2 ^ 28"
    and "discovery_read (sy_time s') copy (sy_disc s') = (0, copy')"
  shows "copy' = dc_snapshot (sy_disc s')"
proof -
  have copy: "copy = dc_snapshot (sy_disc s)"
    using assms(2) by (auto simp: discovery_read_def split: if_splits)
  have unchanged: "copy' = copy" "ds_revision copy = ds_revision (dc_snapshot (sy_disc s'))"
    using assms(5) by (auto simp: discovery_read_def split: if_splits)
  obtain k where k: "k \<le> 16 * n" "revised k (sy_disc s) (sy_disc s')"
    using revised_run [OF assms(3) sys_reachable_ok [OF assms(1)]] by blast
  have "(of_nat k :: u32) = 0"
    using k(2) copy unchanged(2) by (simp add: revised_def)
  then have "2 ^ 32 dvd k"
    by (simp add: word_of_nat_eq_0_iff)
  moreover have "k < 2 ^ 32"
    using k(1) assms(4) by simp
  ultimately have "k = 0"
    using nat_dvd_not_less by blast
  then show ?thesis
    using k(2) copy unchanged(1) by (simp add: revised_def)
qed

section \<open>A sample history\<close>

definition sample_system :: system where
  "sample_system = start_call 0 system_start"

lemma sample_reachable: "sys_reachable sample_system"
  unfolding sample_system_def by (intro sys_next [OF sys_start] step_start)

lemma discovery_snapshot_ok_witness:
  "length (ds_hosts (dc_snapshot (sy_disc sample_system))) \<le> max_discovered_hosts"
  using discovery_snapshot_ok [OF sample_reachable] by blast

lemma discovery_idle_quiet_witness:
  "sn_handles (sy_sniffer sample_system) = [] \<and> \<not> sn_callback (sy_sniffer sample_system)"
proof -
  have "discovery_is_idle (sy_disc sample_system)"
    by code_simp
  then show ?thesis
    using discovery_idle_quiet [OF sample_reachable] by blast
qed

lemma discovery_read_current_witness:
  "dc_snapshot (sy_disc sample_system) = dc_snapshot (sy_disc (sample_system\<lparr>sy_time := 5\<rparr>))"
proof -
  let ?s = "sample_system" and ?t = "sample_system\<lparr>sy_time := 5\<rparr>"
  have active: "generation_active (dc_generation (sy_disc ?s)) (sy_time ?s) (sy_disc ?s)"
    "generation_active (dc_generation (sy_disc ?s)) 5 (sy_disc ?s)"
    "ds_generation snapshot_zero \<noteq> ds_generation (dc_snapshot (sy_disc ?s))" "sy_time ?s \<le> 5"
    by code_simp+
  then have "discovery_read (sy_time ?s) snapshot_zero (sy_disc ?s) = (1, dc_snapshot (sy_disc ?s))"
    "discovery_read (sy_time ?t) (dc_snapshot (sy_disc ?s)) (sy_disc ?t) = (0, dc_snapshot (sy_disc ?s))"
    by (simp_all add: discovery_read_def)
  moreover have "(sys_step ^^ 1) ?s ?t"
    using step_time [of ?s 5] active by auto
  ultimately show ?thesis
    using discovery_read_current [OF sample_reachable, of snapshot_zero "dc_snapshot (sy_disc ?s)" 1 ?t]
    by simp
qed

end
