(* ===== verification/SystemVideo.thy ===== *)
theory SystemVideo imports Calls begin
unbundle bit_operations_syntax

text \<open>
  The decoder of the system profile (\<open>src/moonlight/vita_system_video.c\<close>): an arena of memory, a
  pool inside it, two contexts inside the pool, the codec library and a decoder, created in this order
  and destroyed in the opposite one, each step of which may fail.

  The firmware is a parameter; an answer has the result and the value that is returned through a pointer or,
  for an allocation in the pool, as the address. \<open>firmware_rule\<close> states what the firmware demands. What
  \<open>goto fail\<close> does is \<open>give_up\<close>. Memory statistics and the log are left out.
\<close>

section \<open>Data\<close>

record video_info =
  vi_size :: u32
  vi_horizontal :: u32
  vi_vertical :: u32
  vi_ref_frames :: u32
  vi_streams :: u32

datatype video_call =
    QueryLibrary video_info
  | QueryDecoder u32 u32 u32
  | AllocArena u32
  | GetBase int
  | OpenPool u32 u32
  | AllocContext int u32 u32
  | InitLibrary u32 u32 video_info
  | CreateDecoder u32 u32 u32 u32 u32
  | DeleteDecoder
  | TermLibrary
  | FreeContext int u32
  | ClosePool int
  | FreeArena int

record answer =
  an_result :: int
  an_value :: u32

type_synonym video_calls = "(video_call, answer) calls"
type_synonym video_env = "(video_call, answer) env"

record system_video =
  sv_arena :: int
  sv_pool :: int
  sv_library_context :: u32
  sv_decoder_context :: u32
  sv_library_initialized :: bool
  sv_decoder_created :: bool
  sv_frame_buffer :: u32
  sv_frame_size :: u32

definition video_start :: system_video where
  "video_start = \<lparr>sv_arena = - 1, sv_pool = - 1, sv_library_context = 0, sv_decoder_context = 0,
     sv_library_initialized = False, sv_decoder_created = False, sv_frame_buffer = 0, sv_frame_size = 0\<rparr>"

datatype video_error = Invalid_state | Out_of_memory | Firmware int

definition mem_alignment :: u32 where "mem_alignment = 0x100000"

definition round_allocation :: "u32 \<Rightarrow> u32 \<Rightarrow> u32" where
  "round_allocation sz alignment =
     (if sz = 0 \<or> sz > 64 * 1024 * 1024 - (alignment - 1) then 0
      else (sz + alignment - 1) AND NOT (alignment - 1))"

section \<open>Destroying\<close>

text \<open>
  One stage of \<open>vita_system_video_destroy\<close>: if the resource is held, release it, and stop with the result if
  that fails.
\<close>

definition release :: "video_env \<Rightarrow> bool \<Rightarrow> video_call \<Rightarrow> (system_video \<Rightarrow> system_video) \<Rightarrow>
    (system_video \<Rightarrow> video_calls \<Rightarrow> int \<times> system_video \<times> video_calls) \<Rightarrow>
    system_video \<Rightarrow> video_calls \<Rightarrow> int \<times> system_video \<times> video_calls" where
  "release env held c clear rest s log =
     (if held then
        case call env c log of (a, log) \<Rightarrow>
          if an_result a < 0 then (an_result a, s, log) else rest (clear s) log
      else rest s log)"

definition destroy_arena :: "video_env \<Rightarrow> system_video \<Rightarrow> video_calls \<Rightarrow> int \<times> system_video \<times> video_calls" where
  "destroy_arena env s log =
     release env (0 \<le> sv_arena s) (FreeArena (sv_arena s)) (sv_arena_update (\<lambda>_. - 1))
       (\<lambda>s log. (0, s\<lparr>sv_frame_buffer := 0, sv_frame_size := 0\<rparr>, log)) s log"

definition destroy_pool :: "video_env \<Rightarrow> system_video \<Rightarrow> video_calls \<Rightarrow> int \<times> system_video \<times> video_calls" where
  "destroy_pool env s log =
     release env (0 \<le> sv_pool s) (ClosePool (sv_pool s)) (sv_pool_update (\<lambda>_. - 1)) (destroy_arena env) s log"

definition destroy_library_context :: "video_env \<Rightarrow> system_video \<Rightarrow> video_calls \<Rightarrow> int \<times> system_video \<times> video_calls" where
  "destroy_library_context env s log =
     release env (sv_library_context s \<noteq> 0) (FreeContext (sv_pool s) (sv_library_context s))
       (sv_library_context_update (\<lambda>_. 0)) (destroy_pool env) s log"

definition destroy_decoder_context :: "video_env \<Rightarrow> system_video \<Rightarrow> video_calls \<Rightarrow> int \<times> system_video \<times> video_calls" where
  "destroy_decoder_context env s log =
     release env (sv_decoder_context s \<noteq> 0) (FreeContext (sv_pool s) (sv_decoder_context s))
       (sv_decoder_context_update (\<lambda>_. 0)) (destroy_library_context env) s log"

definition destroy_library :: "video_env \<Rightarrow> system_video \<Rightarrow> video_calls \<Rightarrow> int \<times> system_video \<times> video_calls" where
  "destroy_library env s log =
     release env (sv_library_initialized s) TermLibrary (sv_library_initialized_update (\<lambda>_. False))
       (destroy_decoder_context env) s log"

definition video_destroy :: "video_env \<Rightarrow> system_video \<Rightarrow> video_calls \<Rightarrow> int \<times> system_video \<times> video_calls" where
  "video_destroy env s log =
     release env (sv_decoder_created s) DeleteDecoder (sv_decoder_created_update (\<lambda>_. False))
       (destroy_library env) s log"

section \<open>Creating\<close>

text \<open>The result of \<open>vita_system_video_create\<close> is an error, or the decoder's frame buffer.\<close>

type_synonym video_result = "(video_error + u32) \<times> system_video \<times> video_calls"

definition give_up :: "video_env \<Rightarrow> video_error \<Rightarrow> system_video \<Rightarrow> video_calls \<Rightarrow> video_result" where
  "give_up env e s log = (case video_destroy env s log of (_, s, log) \<Rightarrow> (Inl e, s, log))"

text \<open>One call, what its answer stores in the static variables, and how the code goes on.\<close>

definition and_then :: "video_env \<Rightarrow> video_call \<Rightarrow> (answer \<Rightarrow> system_video \<Rightarrow> system_video) \<Rightarrow>
    (answer \<Rightarrow> system_video \<Rightarrow> video_calls \<Rightarrow> video_result) \<Rightarrow> system_video \<Rightarrow> video_calls \<Rightarrow> video_result" where
  "and_then env c store k s log = (case call env c log of (a, log) \<Rightarrow> k a (store a s) log)"

definition created :: "system_video \<Rightarrow> video_calls \<Rightarrow> video_result" where
  "created s log = (Inr (sv_frame_buffer s), s, log)"

definition create_decoder :: "video_env \<Rightarrow> video_info \<Rightarrow> u32 \<Rightarrow> system_video \<Rightarrow> video_calls \<Rightarrow> video_result" where
  "create_decoder env info frame_store s =
     and_then env (CreateDecoder (sv_decoder_context s) frame_store (vi_horizontal info) (vi_vertical info) (vi_ref_frames info))
       (\<lambda>a s. s\<lparr>sv_frame_buffer := sv_decoder_context s, sv_frame_size := frame_store,
                sv_decoder_created := 0 \<le> an_result a\<rparr>)
       (\<lambda>a. if an_result a < 0 then give_up env (Firmware (an_result a)) else created) s"

definition create_library :: "video_env \<Rightarrow> video_info \<Rightarrow> u32 \<Rightarrow> u32 \<Rightarrow> system_video \<Rightarrow> video_calls \<Rightarrow> video_result" where
  "create_library env info context_size frame_store s =
     and_then env (InitLibrary (sv_library_context s) context_size info)
       (\<lambda>a s. s\<lparr>sv_library_initialized := 0 \<le> an_result a\<rparr>)
       (\<lambda>a. if an_result a < 0 then give_up env (Firmware (an_result a)) else create_decoder env info frame_store) s"

definition create_contexts :: "video_env \<Rightarrow> video_info \<Rightarrow> u32 \<Rightarrow> u32 \<Rightarrow> system_video \<Rightarrow> video_calls \<Rightarrow> video_result" where
  "create_contexts env info context_size frame_store s =
     and_then env (AllocContext (sv_pool s) context_size 0x40000)
       (\<lambda>a s. s\<lparr>sv_library_context := an_value a\<rparr>)
       (\<lambda>_ s. and_then env (AllocContext (sv_pool s) frame_store mem_alignment)
         (\<lambda>a s. s\<lparr>sv_decoder_context := an_value a\<rparr>)
         (\<lambda>_ s. if sv_library_context s = 0 \<or> sv_decoder_context s = 0 then give_up env Out_of_memory s
                else create_library env info context_size frame_store s) s) s"

definition create_pool :: "video_env \<Rightarrow> video_info \<Rightarrow> u32 \<Rightarrow> u32 \<Rightarrow> u32 \<Rightarrow> system_video \<Rightarrow> video_calls \<Rightarrow> video_result" where
  "create_pool env info arena_size context_size frame_store s =
     and_then env (GetBase (sv_arena s)) (\<lambda>_ s. s)
       (\<lambda>base s. if an_result base < 0 then give_up env (Firmware (an_result base)) s
         else and_then env (OpenPool (an_value base) arena_size) (\<lambda>a s. s\<lparr>sv_pool := an_result a\<rparr>)
           (\<lambda>a. if an_result a < 0 then give_up env (Firmware (an_result a))
                else create_contexts env info context_size frame_store) s) s"

definition create_arena :: "video_env \<Rightarrow> video_info \<Rightarrow> u32 \<Rightarrow> u32 \<Rightarrow> u32 \<Rightarrow> system_video \<Rightarrow> video_calls \<Rightarrow> video_result" where
  "create_arena env info arena_size context_size frame_store =
     and_then env (AllocArena arena_size) (\<lambda>a s. s\<lparr>sv_arena := an_result a\<rparr>)
       (\<lambda>a. if an_result a < 0 then give_up env (Firmware (an_result a))
            else create_pool env info arena_size context_size frame_store)"

definition failed :: "video_error \<Rightarrow> system_video \<Rightarrow> video_calls \<Rightarrow> video_result" where
  "failed e s log = (Inl e, s, log)"

definition create_sized :: "video_env \<Rightarrow> video_info \<Rightarrow> u32 \<Rightarrow> u32 \<Rightarrow> system_video \<Rightarrow> video_calls \<Rightarrow> video_result" where
  "create_sized env info library_size frame_size =
     (let context_size = round_allocation library_size 0x40000;
          frame_store = round_allocation frame_size mem_alignment;
          arena_size = round_allocation context_size mem_alignment + frame_store + mem_alignment
      in if context_size = 0 \<or> frame_store = 0 \<or> arena_size > 64 * 1024 * 1024 then failed Out_of_memory
         else create_arena env info arena_size context_size frame_store)"

definition video_create :: "video_env \<Rightarrow> video_info \<Rightarrow> system_video \<Rightarrow> video_calls \<Rightarrow> video_result" where
  "video_create env info s =
     (if 0 \<le> sv_arena s then failed Invalid_state s
      else and_then env (QueryLibrary info) (\<lambda>_ s. s)
        (\<lambda>lib s. if an_result lib < 0 then failed (Firmware (an_result lib)) s
          else and_then env (QueryDecoder (vi_horizontal info) (vi_vertical info) (vi_ref_frames info)) (\<lambda>_ s. s)
            (\<lambda>dec. if an_result dec < 0 then failed (Firmware (an_result dec))
                   else create_sized env info (an_value lib) (an_value dec)) s) s)"

datatype video_op = Create video_info | Destroy

definition video_act :: "video_env \<Rightarrow> system_video \<Rightarrow> video_op \<Rightarrow> video_calls \<Rightarrow> system_video \<times> video_calls" where
  "video_act env s x log = (case x of
     Create info \<Rightarrow> snd (video_create env info s log)
   | Destroy \<Rightarrow> snd (video_destroy env s log))"

section \<open>What the firmware demands\<close>

record firmware =
  fw_arena :: "int option"
  fw_pool :: "int option"
  fw_contexts :: "u32 list"
  fw_library :: bool
  fw_decoder :: bool

definition firmware_start :: firmware where
  "firmware_start = \<lparr>fw_arena = None, fw_pool = None, fw_contexts = [], fw_library = False, fw_decoder = False\<rparr>"

fun firmware_rule :: "firmware \<Rightarrow> video_call \<Rightarrow> answer \<Rightarrow> firmware option" where
  "firmware_rule w (QueryLibrary _) _ = Some w"
| "firmware_rule w (QueryDecoder _ _ _) _ = Some w"
| "firmware_rule w (AllocArena _) a =
     (if fw_arena w \<noteq> None then None else if an_result a < 0 then Some w else Some (w\<lparr>fw_arena := Some (an_result a)\<rparr>))"
| "firmware_rule w (GetBase u) _ = (if fw_arena w = Some u then Some w else None)"
| "firmware_rule w (OpenPool _ _) a =
     (if fw_arena w = None \<or> fw_pool w \<noteq> None then None
      else if an_result a < 0 then Some w else Some (w\<lparr>fw_pool := Some (an_result a)\<rparr>))"
| "firmware_rule w (AllocContext u _ _) a =
     (if fw_pool w \<noteq> Some u then None
      else if an_value a = 0 then Some w else Some (w\<lparr>fw_contexts := an_value a # fw_contexts w\<rparr>))"
| "firmware_rule w (InitLibrary ctx _ _) a =
     (if ctx \<notin> set (fw_contexts w) \<or> fw_library w then None
      else if an_result a < 0 then Some w else Some (w\<lparr>fw_library := True\<rparr>))"
| "firmware_rule w (CreateDecoder ctx _ _ _ _) a =
     (if ctx \<notin> set (fw_contexts w) \<or> \<not> fw_library w \<or> fw_decoder w then None
      else if an_result a < 0 then Some w else Some (w\<lparr>fw_decoder := True\<rparr>))"
| "firmware_rule w DeleteDecoder a =
     (if \<not> fw_decoder w then None else if an_result a < 0 then Some w else Some (w\<lparr>fw_decoder := False\<rparr>))"
| "firmware_rule w TermLibrary a =
     (if \<not> fw_library w \<or> fw_decoder w then None
      else if an_result a < 0 then Some w else Some (w\<lparr>fw_library := False\<rparr>))"
| "firmware_rule w (FreeContext u ctx) a =
     (if fw_pool w \<noteq> Some u \<or> ctx \<notin> set (fw_contexts w) \<or> fw_library w then None
      else if an_result a < 0 then Some w else Some (w\<lparr>fw_contexts := remove1 ctx (fw_contexts w)\<rparr>))"
| "firmware_rule w (ClosePool u) a =
     (if fw_pool w \<noteq> Some u \<or> fw_contexts w \<noteq> [] then None
      else if an_result a < 0 then Some w else Some (w\<lparr>fw_pool := None\<rparr>))"
| "firmware_rule w (FreeArena u) a =
     (if fw_arena w \<noteq> Some u \<or> fw_pool w \<noteq> None then None
      else if an_result a < 0 then Some w else Some (w\<lparr>fw_arena := None\<rparr>))"

text \<open>What the static variables say is what the firmware holds.\<close>

definition held :: "int \<Rightarrow> int option" where
  "held u = (if u < 0 then None else Some u)"

definition view :: "system_video \<Rightarrow> firmware" where
  "view s = \<lparr>fw_arena = held (sv_arena s), fw_pool = held (sv_pool s),
     fw_contexts = filter (\<lambda>c. c \<noteq> 0) [sv_decoder_context s, sv_library_context s],
     fw_library = sv_library_initialized s, fw_decoder = sv_decoder_created s\<rparr>"

definition nested :: "system_video \<Rightarrow> bool" where
  "nested s \<longleftrightarrow> (sv_decoder_created s \<longrightarrow> sv_library_initialized s) \<and>
     (sv_library_initialized s \<longrightarrow> sv_library_context s \<noteq> 0 \<and> sv_decoder_context s \<noteq> 0) \<and>
     (sv_library_context s \<noteq> 0 \<or> sv_decoder_context s \<noteq> 0 \<longrightarrow> 0 \<le> sv_pool s) \<and>
     (0 \<le> sv_pool s \<longrightarrow> 0 \<le> sv_arena s)"

definition video_rel :: "system_video \<Rightarrow> firmware \<Rightarrow> bool" where
  "video_rel s w \<longleftrightarrow> w = view s \<and> nested s"

section \<open>Destroying keeps the rules\<close>

fun is_release :: "video_call \<Rightarrow> bool" where
  "is_release DeleteDecoder = True"
| "is_release TermLibrary = True"
| "is_release (FreeContext _ _) = True"
| "is_release (ClosePool _) = True"
| "is_release (FreeArena _) = True"
| "is_release _ = False"

definition releases_succeed :: "video_env \<Rightarrow> bool" where
  "releases_succeed env \<longleftrightarrow> (\<forall>log c. is_release c \<longrightarrow> 0 \<le> an_result (env log c))"

text \<open>
  What a tail of \<open>vita_system_video_destroy\<close> does on a state in which the earlier stages (\<open>P\<close>) are done: it
  obeys the firmware, a result of 0 means that nothing is held any more, and it fails only if an answer does.
\<close>

definition destroys :: "video_env \<Rightarrow> (system_video \<Rightarrow> bool) \<Rightarrow>
    (system_video \<Rightarrow> video_calls \<Rightarrow> int \<times> system_video \<times> video_calls) \<Rightarrow> bool" where
  "destroys env P f \<longleftrightarrow> (\<forall>s log r s' log'.
     accept firmware_rule firmware_start log = Some (view s) \<longrightarrow> nested s \<longrightarrow> P s \<longrightarrow> f s log = (r, s', log') \<longrightarrow>
     accept firmware_rule firmware_start log' = Some (view s') \<and> nested s' \<and> r \<le> 0 \<and>
     (r = 0 \<longrightarrow> view s' = firmware_start) \<and> (releases_succeed env \<longrightarrow> r = 0))"

lemma destroysD:
  assumes "destroys env P f" "accept firmware_rule firmware_start log = Some (view s)" "nested s" "P s"
    "f s log = (r, s', log')"
  shows "accept firmware_rule firmware_start log' = Some (view s')" "nested s'" "r \<le> 0"
    "r = 0 \<Longrightarrow> view s' = firmware_start" "releases_succeed env \<Longrightarrow> r = 0"
  using assms unfolding destroys_def by blast+

lemma release_destroys:
  assumes rest: "destroys env Q rest"
    and rule: "\<And>s a. nested s \<Longrightarrow> P s \<Longrightarrow> hold s \<Longrightarrow>
      firmware_rule (view s) (c s) a = Some (if an_result a < 0 then view s else view (clear s))"
    and clear: "\<And>s. nested s \<Longrightarrow> P s \<Longrightarrow> hold s \<Longrightarrow> nested (clear s) \<and> Q (clear s)"
    and skip: "\<And>s. nested s \<Longrightarrow> P s \<Longrightarrow> \<not> hold s \<Longrightarrow> Q s"
    and kind: "\<And>s. is_release (c s)"
  shows "destroys env P (\<lambda>s. release env (hold s) (c s) clear rest s)"
  unfolding destroys_def
proof (intro allI impI)
  fix s log r s' log'
  assume acc: "accept firmware_rule firmware_start log = Some (view s)" and n: "nested s" and p: "P s"
    and run: "release env (hold s) (c s) clear rest s log = (r, s', log')"
  show "accept firmware_rule firmware_start log' = Some (view s') \<and> nested s' \<and> r \<le> 0 \<and>
     (r = 0 \<longrightarrow> view s' = firmware_start) \<and> (releases_succeed env \<longrightarrow> r = 0)"
  proof (cases "hold s")
    case False
    then have "rest s log = (r, s', log')"
      using run by (simp add: release_def)
    from destroysD [OF rest acc n skip [OF n p False] this] show ?thesis by blast
  next
    case True
    obtain a log1 where c: "call env (c s) log = (a, log1)" by fastforce
    have acc1: "accept firmware_rule firmware_start log1 = Some (if an_result a < 0 then view s else view (clear s))"
      using call_allowed [OF acc c] rule [OF n p True] by simp
    show ?thesis
    proof (cases "an_result a < 0")
      case True': True
      then have "\<not> releases_succeed env"
        using call_answer [OF c] kind by (force simp: releases_succeed_def not_less [symmetric])
      then show ?thesis
        using True True' run c acc1 n by (auto simp: release_def)
    next
      case False
      then have "rest (clear s) log1 = (r, s', log')"
        using True run c by (simp add: release_def)
      moreover have "accept firmware_rule firmware_start log1 = Some (view (clear s))"
        using acc1 False by simp
      moreover note clear [OF n p True]
      ultimately show ?thesis
        using destroysD [OF rest, of log1 "clear s" r s' log'] by blast
    qed
  qed
qed

lemma destroy_arena_ok:
  "destroys env (\<lambda>s. \<not> sv_decoder_created s \<and> \<not> sv_library_initialized s \<and> sv_decoder_context s = 0 \<and>
     sv_library_context s = 0 \<and> sv_pool s < 0) (destroy_arena env)"
  unfolding destroy_arena_def
  by (rule release_destroys [where Q = "\<lambda>s. \<not> sv_decoder_created s \<and> \<not> sv_library_initialized s \<and> sv_decoder_context s = 0 \<and>
     sv_library_context s = 0 \<and> sv_pool s < 0 \<and> sv_arena s < 0"])
    (auto simp: destroys_def view_def held_def nested_def firmware_start_def)

lemma destroy_pool_ok:
  "destroys env (\<lambda>s. \<not> sv_decoder_created s \<and> \<not> sv_library_initialized s \<and> sv_decoder_context s = 0 \<and>
     sv_library_context s = 0) (destroy_pool env)"
  unfolding destroy_pool_def
  by (rule release_destroys [OF destroy_arena_ok]) (auto simp: view_def held_def nested_def)

lemma destroy_library_context_ok:
  "destroys env (\<lambda>s. \<not> sv_decoder_created s \<and> \<not> sv_library_initialized s \<and> sv_decoder_context s = 0)
     (destroy_library_context env)"
  unfolding destroy_library_context_def
  by (rule release_destroys [OF destroy_pool_ok]) (auto simp: view_def held_def nested_def)

lemma destroy_decoder_context_ok:
  "destroys env (\<lambda>s. \<not> sv_decoder_created s \<and> \<not> sv_library_initialized s) (destroy_decoder_context env)"
  unfolding destroy_decoder_context_def
  by (rule release_destroys [OF destroy_library_context_ok]) (auto simp: view_def held_def nested_def)

lemma destroy_library_ok:
  "destroys env (\<lambda>s. \<not> sv_decoder_created s) (destroy_library env)"
  unfolding destroy_library_def
  by (rule release_destroys [OF destroy_decoder_context_ok]) (auto simp: view_def held_def nested_def)

lemma video_destroy_ok: "destroys env (\<lambda>_. True) (video_destroy env)"
  unfolding video_destroy_def
  by (rule release_destroys [OF destroy_library_ok]) (auto simp: view_def held_def nested_def)

section \<open>Creating keeps the rules\<close>

text \<open>
  What a tail of \<open>vita_system_video_create\<close> does: it obeys the firmware, it hands out a decoder exactly when one is
  created, and when it fails and the releases succeed, nothing is held.
\<close>

definition creates :: "video_env \<Rightarrow> (system_video \<Rightarrow> bool) \<Rightarrow> (system_video \<Rightarrow> video_calls \<Rightarrow> video_result) \<Rightarrow> bool" where
  "creates env P f \<longleftrightarrow> (\<forall>s log r s' log'.
     accept firmware_rule firmware_start log = Some (view s) \<longrightarrow> nested s \<longrightarrow> P s \<longrightarrow> f s log = (r, s', log') \<longrightarrow>
     accept firmware_rule firmware_start log' = Some (view s') \<and> nested s' \<and>
     (case r of Inl _ \<Rightarrow> releases_succeed env \<longrightarrow> view s' = firmware_start
      | Inr d \<Rightarrow> sv_decoder_created s' \<and> d = sv_decoder_context s' \<and> sv_frame_buffer s' = d))"

lemma give_up_creates: "creates env (\<lambda>_. True) (give_up env e)"
  unfolding creates_def
proof (intro allI impI)
  fix s log r s' log'
  assume acc: "accept firmware_rule firmware_start log = Some (view s)" and n: "nested s"
    and run: "give_up env e s log = (r, s', log')"
  obtain q where "video_destroy env s log = (q, s', log')" "r = Inl e"
    using run by (auto simp: give_up_def split: prod.splits)
  then show "accept firmware_rule firmware_start log' = Some (view s') \<and> nested s' \<and>
     (case r of Inl _ \<Rightarrow> releases_succeed env \<longrightarrow> view s' = firmware_start
      | Inr d \<Rightarrow> sv_decoder_created s' \<and> d = sv_decoder_context s' \<and> sv_frame_buffer s' = d)"
    using destroysD [OF video_destroy_ok acc n, of env q s' log'] by auto
qed

lemma createsD:
  assumes "creates env P f" "accept firmware_rule firmware_start log = Some (view s)" "nested s" "P s"
    "f s log = (r, s', log')"
  shows "accept firmware_rule firmware_start log' = Some (view s')" "nested s'"
    "case r of Inl _ \<Rightarrow> releases_succeed env \<longrightarrow> view s' = firmware_start
     | Inr d \<Rightarrow> sv_decoder_created s' \<and> d = sv_decoder_context s' \<and> sv_frame_buffer s' = d"
  using assms unfolding creates_def by blast+

lemma and_then_creates:
  assumes step: "\<And>s a. nested s \<Longrightarrow> P s \<Longrightarrow>
      firmware_rule (view s) (c s) a = Some (view (store a s)) \<and> nested (store a s) \<and> Q a (store a s)"
    and rest: "\<And>a. creates env (Q a) (k a)"
  shows "creates env P (\<lambda>s. and_then env (c s) store k s)"
  unfolding creates_def
proof (intro allI impI)
  fix s log r s' log'
  assume acc: "accept firmware_rule firmware_start log = Some (view s)" and n: "nested s" and p: "P s"
    and run: "and_then env (c s) store k s log = (r, s', log')"
  obtain a log1 where c: "call env (c s) log = (a, log1)" by fastforce
  have "accept firmware_rule firmware_start log1 = Some (view (store a s))" "nested (store a s)" "Q a (store a s)"
    using call_allowed [OF acc c] step [OF n p, of a] by simp_all
  moreover have "k a (store a s) log1 = (r, s', log')"
    using run c by (simp add: and_then_def)
  ultimately show "accept firmware_rule firmware_start log' = Some (view s') \<and> nested s' \<and>
     (case r of Inl _ \<Rightarrow> releases_succeed env \<longrightarrow> view s' = firmware_start
      | Inr d \<Rightarrow> sv_decoder_created s' \<and> d = sv_decoder_context s' \<and> sv_frame_buffer s' = d)"
    using createsD [OF rest] by blast
qed

lemma creates_if:
  assumes "\<And>s. b s \<Longrightarrow> P s \<Longrightarrow> Q s" "\<And>s. \<not> b s \<Longrightarrow> P s \<Longrightarrow> R s" "creates env Q f" "creates env R g"
  shows "creates env P (\<lambda>s. if b s then f s else g s)"
  unfolding creates_def
proof (intro allI impI)
  fix s log r s' log'
  assume acc: "accept firmware_rule firmware_start log = Some (view s)" and n: "nested s" and p: "P s"
    and run: "(if b s then f s else g s) log = (r, s', log')"
  show "accept firmware_rule firmware_start log' = Some (view s') \<and> nested s' \<and>
     (case r of Inl _ \<Rightarrow> releases_succeed env \<longrightarrow> view s' = firmware_start
      | Inr d \<Rightarrow> sv_decoder_created s' \<and> d = sv_decoder_context s' \<and> sv_frame_buffer s' = d)"
  proof (cases "b s")
    case True
    then show ?thesis using createsD [OF assms(3) acc n assms(1) [OF True p], of r s' log'] run by simp
  next
    case False
    then show ?thesis using createsD [OF assms(4) acc n assms(2) [OF False p], of r s' log'] run by simp
  qed
qed

lemma creates_weaken: "creates env Q f \<Longrightarrow> (\<And>s. nested s \<Longrightarrow> P s \<Longrightarrow> Q s) \<Longrightarrow> creates env P f"
  unfolding creates_def by blast

lemma creates_if_const:
  "(b \<Longrightarrow> creates env P f) \<Longrightarrow> (\<not> b \<Longrightarrow> creates env P g) \<Longrightarrow> creates env P (if b then f else g)"
  by simp

lemma created_creates:
  "creates env (\<lambda>s. sv_decoder_created s \<and> sv_frame_buffer s = sv_decoder_context s) created"
  by (simp add: creates_def created_def)

lemma give_up_any: "creates env P (give_up env e)"
  by (rule creates_weaken [OF give_up_creates]) simp

lemma failed_creates: "creates env (\<lambda>s. view s = firmware_start) (failed e)"
  by (simp add: creates_def failed_def)

lemma create_decoder_ok:
  "creates env (\<lambda>s. sv_library_initialized s \<and> \<not> sv_decoder_created s) (create_decoder env info frame_store)"
  unfolding create_decoder_def
  by (rule and_then_creates [where Q = "\<lambda>a s. sv_decoder_created s = (0 \<le> an_result a) \<and> sv_frame_buffer s = sv_decoder_context s"])
    (auto simp: view_def nested_def intro: give_up_any creates_weaken [OF created_creates])

lemma create_library_ok:
  "creates env (\<lambda>s. \<not> sv_library_initialized s \<and> sv_library_context s \<noteq> 0 \<and> sv_decoder_context s \<noteq> 0)
     (create_library env info context_size frame_store)"
  unfolding create_library_def
  by (rule and_then_creates [where Q = "\<lambda>a s. sv_library_initialized s = (0 \<le> an_result a) \<and> \<not> sv_decoder_created s"])
    (auto simp: view_def nested_def intro: give_up_any creates_weaken [OF create_decoder_ok])

lemma create_contexts_ok:
  "creates env (\<lambda>s. 0 \<le> sv_pool s \<and> sv_library_context s = 0 \<and> sv_decoder_context s = 0)
     (create_contexts env info context_size frame_store)"
  unfolding create_contexts_def
proof (rule and_then_creates [where Q = "\<lambda>_ s. 0 \<le> sv_pool s \<and> \<not> sv_library_initialized s \<and> sv_decoder_context s = 0"])
  show "creates env (\<lambda>s. 0 \<le> sv_pool s \<and> \<not> sv_library_initialized s \<and> sv_decoder_context s = 0)
     (\<lambda>s. and_then env (AllocContext (sv_pool s) frame_store mem_alignment) (\<lambda>a s. s\<lparr>sv_decoder_context := an_value a\<rparr>)
       (\<lambda>_ s. if sv_library_context s = 0 \<or> sv_decoder_context s = 0 then give_up env Out_of_memory s
              else create_library env info context_size frame_store s) s)"
    by (rule and_then_creates [where Q = "\<lambda>_ s. \<not> sv_library_initialized s"])
      (auto simp: view_def nested_def held_def intro!: creates_if [OF _ _ give_up_creates create_library_ok])
qed (auto simp: view_def nested_def held_def)

lemma create_pool_ok:
  "creates env (\<lambda>s. 0 \<le> sv_arena s \<and> sv_pool s < 0 \<and> sv_library_context s = 0 \<and> sv_decoder_context s = 0)
     (create_pool env info arena_size context_size frame_store)"
  unfolding create_pool_def
proof (rule and_then_creates [where Q = "\<lambda>_ s. 0 \<le> sv_arena s \<and> sv_pool s < 0 \<and> sv_library_context s = 0 \<and> sv_decoder_context s = 0"])
  fix base
  show "creates env (\<lambda>s. 0 \<le> sv_arena s \<and> sv_pool s < 0 \<and> sv_library_context s = 0 \<and> sv_decoder_context s = 0)
     (\<lambda>s. if an_result base < 0 then give_up env (Firmware (an_result base)) s
          else and_then env (OpenPool (an_value base) arena_size) (\<lambda>a s. s\<lparr>sv_pool := an_result a\<rparr>)
            (\<lambda>a. if an_result a < 0 then give_up env (Firmware (an_result a))
                 else create_contexts env info context_size frame_store) s)"
  proof (rule creates_if [OF _ _ give_up_creates, where
      R = "\<lambda>s. 0 \<le> sv_arena s \<and> sv_pool s < 0 \<and> sv_library_context s = 0 \<and> sv_decoder_context s = 0"])
    show "creates env (\<lambda>s. 0 \<le> sv_arena s \<and> sv_pool s < 0 \<and> sv_library_context s = 0 \<and> sv_decoder_context s = 0)
     (\<lambda>s. and_then env (OpenPool (an_value base) arena_size) (\<lambda>a s. s\<lparr>sv_pool := an_result a\<rparr>)
            (\<lambda>a. if an_result a < 0 then give_up env (Firmware (an_result a))
                 else create_contexts env info context_size frame_store) s)"
      by (rule and_then_creates [where Q = "\<lambda>a s. sv_pool s = an_result a \<and> sv_library_context s = 0 \<and> sv_decoder_context s = 0"])
        (auto simp: view_def nested_def held_def intro: give_up_any creates_weaken [OF create_contexts_ok])
  qed auto
qed (auto simp: view_def nested_def held_def)

lemma create_arena_ok:
  "creates env (\<lambda>s. sv_arena s < 0) (create_arena env info arena_size context_size frame_store)"
  unfolding create_arena_def
  by (rule and_then_creates [where Q = "\<lambda>a s. sv_arena s = an_result a \<and> sv_pool s < 0 \<and> sv_library_context s = 0 \<and> sv_decoder_context s = 0"])
    (auto simp: view_def nested_def held_def intro: give_up_any creates_weaken [OF create_pool_ok])

lemma nothing_held: "nested s \<Longrightarrow> sv_arena s < 0 \<Longrightarrow> view s = firmware_start"
  by (auto simp: view_def nested_def held_def firmware_start_def)

lemma create_sized_ok: "creates env (\<lambda>s. sv_arena s < 0) (create_sized env info library_size frame_size)"
  unfolding create_sized_def Let_def
  by (intro creates_if_const create_arena_ok creates_weaken [OF failed_creates] nothing_held)

lemma video_create_ok: "creates env (\<lambda>s. sv_arena s < 0) (video_create env info)"
  unfolding video_create_def
proof (rule creates_if [where Q = "\<lambda>_. False" and R = "\<lambda>s. sv_arena s < 0"])
  show "creates env (\<lambda>s. sv_arena s < 0)
     (\<lambda>s. and_then env (QueryLibrary info) (\<lambda>_ s. s)
        (\<lambda>lib s. if an_result lib < 0 then failed (Firmware (an_result lib)) s
          else and_then env (QueryDecoder (vi_horizontal info) (vi_vertical info) (vi_ref_frames info)) (\<lambda>_ s. s)
            (\<lambda>dec. if an_result dec < 0 then failed (Firmware (an_result dec))
                   else create_sized env info (an_value lib) (an_value dec)) s) s)"
  proof (rule and_then_creates [where Q = "\<lambda>_ s. view s = firmware_start \<and> sv_arena s < 0"])
    fix lib
    show "creates env (\<lambda>s. view s = firmware_start \<and> sv_arena s < 0)
       (\<lambda>s. if an_result lib < 0 then failed (Firmware (an_result lib)) s
          else and_then env (QueryDecoder (vi_horizontal info) (vi_vertical info) (vi_ref_frames info)) (\<lambda>_ s. s)
            (\<lambda>dec. if an_result dec < 0 then failed (Firmware (an_result dec))
                   else create_sized env info (an_value lib) (an_value dec)) s)"
      by (rule creates_if [OF _ _ failed_creates and_then_creates [where Q = "\<lambda>_ s. view s = firmware_start \<and> sv_arena s < 0"]])
        (auto intro: creates_weaken [OF failed_creates] creates_weaken [OF create_sized_ok])
  qed (auto simp: nothing_held)
qed (auto simp: creates_def)

lemma video_create_retained: "0 \<le> sv_arena s \<Longrightarrow> video_create env info s log = (Inl Invalid_state, s, log)"
  by (simp add: video_create_def failed_def)

lemma video_act_obeys:
  assumes "accept firmware_rule firmware_start log = Some w" "video_rel s w" "video_act env s x log = (s', log')"
  shows "\<exists>w'. accept firmware_rule firmware_start log' = Some w' \<and> video_rel s' w'"
proof (cases x)
  case (Create info)
  show ?thesis
  proof (cases "0 \<le> sv_arena s")
    case True
    then show ?thesis
      using assms Create by (auto simp: video_act_def video_create_retained)
  next
    case False
    moreover obtain r where "video_create env info s log = (r, s', log')"
      using assms(3) Create by (cases "video_create env info s log") (auto simp: video_act_def)
    ultimately show ?thesis
      using createsD(1,2) [OF video_create_ok, of log s env info r s' log'] assms(1,2)
      by (auto simp: video_rel_def)
  qed
next
  case Destroy
  obtain r where "video_destroy env s log = (r, s', log')"
    using assms(3) Destroy by (cases "video_destroy env s log") (auto simp: video_act_def)
  then show ?thesis
    using destroysD(1,2) [OF video_destroy_ok, of log s env r s' log'] assms(1,2)
    by (auto simp: video_rel_def)
qed

interpretation video: client "video_act env" firmware_rule firmware_start video_rel "\<lambda>_ _. True" for env
  by unfold_locales (rule video_act_obeys)

lemma video_rel_start: "video_rel video_start firmware_start"
  by (simp add: video_rel_def view_def video_start_def held_def firmware_start_def nested_def)

text \<open>
  Property C34. Whatever the firmware answers, and in whatever order decoders are created and destroyed: nothing
  is used that is not held, nothing is released twice or while something else still needs it, nothing is
  created over something that is still held, and the static variables always say exactly what is held.
\<close>

theorem video_firmware_obeyed:
  "case perform (video_act env) video_start ops [] of
     (s, log) \<Rightarrow> \<exists>w. accept firmware_rule firmware_start log = Some w \<and> w = view s \<and> nested s"
  using video.run_obeys [OF video_rel_start, of env ops] by (simp add: video_rel_def)

definition video_reachable :: "video_env \<Rightarrow> system_video \<Rightarrow> video_calls \<Rightarrow> bool" where
  "video_reachable env s log \<longleftrightarrow> (\<exists>ops. perform (video_act env) video_start ops [] = (s, log))"

lemma video_reachableD:
  assumes "video_reachable env s log"
  shows "accept firmware_rule firmware_start log = Some (view s)" "nested s"
proof -
  obtain ops where "perform (video_act env) video_start ops [] = (s, log)"
    using assms by (auto simp: video_reachable_def)
  then show "accept firmware_rule firmware_start log = Some (view s)" "nested s"
    using video.run_obeys [OF video_rel_start, of env ops] by (auto simp: video_rel_def)
qed

text \<open>
  A creation that fails leaves nothing behind, as long as the firmware lets go of what it is asked
  to release, and one that succeeds hands out the buffer of the decoder context. A creation while something is
  still held is refused.
\<close>

theorem video_create_result:
  assumes "video_reachable env s log" and "video_create env info s log = (r, s', log')"
  shows "case r of
      Inr d \<Rightarrow> sv_decoder_created s' \<and> d = sv_decoder_context s' \<and> sv_frame_buffer s' = d \<and> d \<noteq> 0
    | Inl e \<Rightarrow> if 0 \<le> sv_arena s then e = Invalid_state \<and> s' = s \<and> log' = log
               else releases_succeed env \<longrightarrow> view s' = firmware_start"
proof (cases "0 \<le> sv_arena s")
  case True
  then show ?thesis using assms(2) by (auto simp: video_create_retained)
next
  case False
  note c = createsD [OF video_create_ok video_reachableD [OF assms(1)], of env info r s' log', OF _ assms(2)]
  have "nested s'" "case r of Inl _ \<Rightarrow> releases_succeed env \<longrightarrow> view s' = firmware_start
     | Inr d \<Rightarrow> sv_decoder_created s' \<and> d = sv_decoder_context s' \<and> sv_frame_buffer s' = d"
    using c(2,3) False by simp_all
  then show ?thesis using False by (auto simp: nested_def split: sum.splits)
qed

text \<open>Destroying returns 0 exactly when nothing is held afterwards, and can be repeated after a failure.\<close>

theorem video_destroy_result:
  assumes "video_reachable env s log" and "video_destroy env s log = (r, s', log')"
  shows "(r = 0 \<longrightarrow> view s' = firmware_start) \<and> (r \<noteq> 0 \<longrightarrow> r < 0 \<and> \<not> releases_succeed env) \<and>
    video_reachable env s' log'"
proof -
  obtain ops where ops: "perform (video_act env) video_start ops [] = (s, log)"
    using assms(1) by (auto simp: video_reachable_def)
  then have "perform (video_act env) video_start (ops @ [Destroy]) [] = (s', log')"
    using assms(2) by (simp add: perform_append video_act_def)
  then have "video_reachable env s' log'"
    unfolding video_reachable_def by blast
  then show ?thesis
    using destroysD [OF video_destroy_ok video_reachableD [OF assms(1)] _ assms(2)] by auto
qed

lemma video_reachable_start: "video_reachable env video_start []"
  unfolding video_reachable_def by (rule exI [of _ "[]"]) simp

definition example_info :: video_info where
  "example_info = \<lparr>vi_size = 20, vi_horizontal = 960, vi_vertical = 544, vi_ref_frames = 1, vi_streams = 1\<rparr>"

text \<open>A firmware that refuses the decoder, and one that does not.\<close>

definition example_env :: "int \<Rightarrow> video_env" where
  "example_env verdict log c = (case c of
     QueryLibrary _ \<Rightarrow> \<lparr>an_result = 0, an_value = 5000\<rparr>
   | QueryDecoder _ _ _ \<Rightarrow> \<lparr>an_result = 0, an_value = 900000\<rparr>
   | AllocArena _ \<Rightarrow> \<lparr>an_result = 7, an_value = 0\<rparr>
   | OpenPool _ _ \<Rightarrow> \<lparr>an_result = 9, an_value = 0\<rparr>
   | AllocContext _ sz _ \<Rightarrow> \<lparr>an_result = 0, an_value = sz\<rparr>
   | CreateDecoder _ _ _ _ _ \<Rightarrow> \<lparr>an_result = verdict, an_value = 0\<rparr>
   | _ \<Rightarrow> \<lparr>an_result = 0, an_value = 0\<rparr>)"

lemma example_releases: "releases_succeed (example_env v)"
  unfolding releases_succeed_def
proof (intro allI impI)
  fix log c
  assume "is_release c"
  then show "0 \<le> an_result (example_env v log c)" by (cases c) (simp_all add: example_env_def)
qed

theorem video_create_result_witness:
  "view (fst (snd (video_create (example_env (- 5)) example_info video_start []))) = firmware_start \<and>
   length (snd (snd (video_create (example_env (- 5)) example_info video_start []))) = 14"
proof -
  have e: "fst (video_create (example_env (- 5)) example_info video_start []) = Inl (Firmware (- 5))"
    "length (snd (snd (video_create (example_env (- 5)) example_info video_start []))) = 14"
    by code_simp+
  obtain r s' log' where run: "video_create (example_env (- 5)) example_info video_start [] = (r, s', log')"
    by (metis prod_cases3)
  show ?thesis
    using video_create_result [OF video_reachable_start run] e run example_releases by (simp add: video_start_def)
qed

theorem video_destroy_result_witness:
  "case video_create (example_env 0) example_info video_start [] of (r, s, log) \<Rightarrow>
     sv_decoder_created s \<and> view (fst (snd (video_destroy (example_env 0) s log))) = firmware_start"
proof -
  let ?env = "example_env 0"
  obtain r s log where run: "video_create ?env example_info video_start [] = (r, s, log)"
    by (metis prod_cases3)
  have e: "sv_decoder_created (fst (snd (video_create ?env example_info video_start [])))"
    by code_simp
  have reach: "video_reachable ?env s log"
    unfolding video_reachable_def
    by (rule exI [of _ "[Create example_info]"]) (simp add: video_act_def run)
  obtain q s' log' where d: "video_destroy ?env s log = (q, s', log')"
    by (metis prod_cases3)
  have "view s' = firmware_start"
    using video_destroy_result [OF reach d] example_releases by blast
  then show ?thesis using e run d by simp
qed

section \<open>Sizes\<close>

text \<open>
  A size is rounded up to the alignment, a power of two of at most 64 MiB, without wrapping around; a
  size of 0, and one that would exceed 64 MiB when rounded, gives 0.
\<close>

theorem round_allocation_value:
  assumes "k \<le> 26"
  shows "unat (round_allocation sz (2 ^ k)) =
    (if sz = 0 \<or> unat sz + 2 ^ k - 1 > 64 * 1024 * 1024 then 0 else (unat sz + 2 ^ k - 1) div 2 ^ k * 2 ^ k)"
proof -
  let ?m = "mask k :: u32"
  have p: "(2 :: nat) ^ k \<le> 67108864" "0 < (2 :: nat) ^ k"
    using power_increasing [OF assms, of "2 :: nat"] by simp_all
  have u: "unat ?m = 2 ^ k - 1"
  proof -
    have "(2 :: nat) ^ k - 1 < 2 ^ 32"
      using p by simp
    moreover have "?m = of_nat (2 ^ k - 1)"
      unfolding mask_nat_def [symmetric] by (rule of_nat_mask_eq [symmetric])
    ultimately show ?thesis
      by (simp only: unsigned_of_nat) (simp add: take_bit_nat_eq_self)
  qed
  have m: "(2 :: u32) ^ k - 1 = ?m"
    by (simp add: mask_eq_exp_minus_1)
  have r: "round_allocation sz (2 ^ k) = (if sz = 0 \<or> sz > 67108864 - ?m then 0 else (sz + ?m) AND NOT ?m)"
    using m by (simp add: round_allocation_def add_diff_eq [symmetric])
  have lim: "unat (67108864 - ?m) = 67108864 - (2 ^ k - 1)"
    using u p by (simp add: unat_sub word_le_nat_alt)
  have cond: "sz > 67108864 - ?m \<longleftrightarrow> unat sz + 2 ^ k - 1 > 67108864"
    using p by (simp add: word_less_nat_alt lim) linarith
  show ?thesis
  proof (cases "sz = 0 \<or> sz > 67108864 - ?m")
    case True
    then show ?thesis using cond r by auto
  next
    case False
    then have fits: "unat sz + (2 ^ k - 1) \<le> 67108864"
      using cond p by simp
    then have sum: "unat (sz + ?m) = unat sz + (2 ^ k - 1)"
      using u by (simp add: unat_word_ariths)
    have "unat ((sz + ?m) AND NOT ?m) = unat (sz + ?m) div 2 ^ k * 2 ^ k"
      by (rule unat_round_down)
    then show ?thesis
      using False r cond sum p by simp
  qed
qed

theorem round_allocation_value_witness:
  "unat (round_allocation 5000 (2 ^ 18)) = 262144"
  using round_allocation_value [of 18 5000] by simp

end
