(* ===== verification/HostProbe.thy ===== *)
theory HostProbe imports Calls begin
unbundle bit_operations_syntax

text \<open>
  The reachability probe (\<open>src/backend/legacy/legacy_host_probe.c\<close>): resolve the name if it is not a numeric
  address, connect without blocking, and poll for at most a second, looking at the cancellation flag.

  The network library, the clock and the flag are the other side of the calls. The loop has fuel; without fuel left
  the probe is at a place that the code never reaches, and the answer is \<open>None\<close>. A clock that moves by the delay
  between two polls makes 102 rounds enough. The result is what the function returns.
\<close>

datatype probe_call =
    Is_cancelled
  | Inet_pton string
  | Resolver_create
  | Resolver_start int string
  | Resolver_destroy int
  | Socket
  | Set_nonblocking int
  | Connect int u16 u32
  | Net_errno
  | Epoll_create
  | Epoll_add int int
  | Process_time
  | Epoll_wait int
  | Socket_error int
  | Delay nat
  | Epoll_destroy int
  | Socket_close int

text \<open>
  An answer: the result, the address, and what else is returned: the pending error of a socket. \<open>pa_out\<close> and \<open>pa_bad\<close>
  say whether the event has \<open>EPOLLOUT\<close>, and whether it has \<open>EPOLLERR\<close> or \<open>EPOLLHUP\<close>.
\<close>

record probe_answer =
  pa_result :: int
  pa_address :: u32
  pa_error :: int
  pa_out :: bool
  pa_bad :: bool

text \<open>The local variables that outlive a call: the two identifiers.\<close>

record probe =
  pb_socket :: int
  pb_epoll :: int

definition probe_start :: probe where
  "probe_start = \<lparr>pb_socket = - 1, pb_epoll = - 1\<rparr>"

type_synonym probe_env = "(probe_call, probe_answer) env"
type_synonym 'x probe_prog = "(probe, probe_call, probe_answer, 'x) prog"

text \<open>The network library's \<open>EINPROGRESS\<close> is a parameter.\<close>

definition cancelled :: "probe_env \<Rightarrow> bool probe_prog" where
  "cancelled env = do { a \<leftarrow> ask env Is_cancelled; State_Monad.return (pa_result a \<noteq> 0) }"

fun poll_loop :: "nat \<Rightarrow> probe_env \<Rightarrow> int \<Rightarrow> int option probe_prog" where
  "poll_loop 0 env deadline = State_Monad.return None"
| "poll_loop (Suc n) env deadline = do {
     c \<leftarrow> cancelled env;
     if c then State_Monad.return (Some 0)
     else do {
       t \<leftarrow> ask env Process_time;
       if pa_result t \<ge> deadline then State_Monad.return (Some 0)
       else do {
         ep \<leftarrow> look pb_epoll;
         sock \<leftarrow> look pb_socket;
         ready \<leftarrow> ask env (Epoll_wait ep);
         if pa_result ready < 0 then State_Monad.return (Some (- 1))
         else if pa_result ready > 0 then
           if pa_out ready \<and> \<not> pa_bad ready then do {
             e \<leftarrow> ask env (Socket_error sock);
             State_Monad.return (Some (if pa_result e < 0 then - 1 else if pa_error e = 0 then 1 else 0))
           }
           else State_Monad.return (Some 0)
         else do {
           _ \<leftarrow> ask env (Delay 10000);
           poll_loop n env deadline
         }
       }
     }
   }"

text \<open>What comes after the socket has been created, up to the label \<open>done\<close>.\<close>

definition connect_wait :: "nat \<Rightarrow> int \<Rightarrow> probe_env \<Rightarrow> u16 \<Rightarrow> u32 \<Rightarrow> int option probe_prog" where
  "connect_wait fuel einprogress env port address = do {
     sock \<leftarrow> look pb_socket;
     opt \<leftarrow> ask env (Set_nonblocking sock);
     if pa_result opt < 0 then State_Monad.return (Some (- 1))
     else do {
       conn \<leftarrow> ask env (Connect sock port address);
       if pa_result conn = 0 then State_Monad.return (Some 1)
       else do {
         errno \<leftarrow> ask env Net_errno;
         if pa_result errno \<noteq> einprogress then State_Monad.return (Some 0)
         else do {
           ep \<leftarrow> ask env Epoll_create;
           _ \<leftarrow> modify (pb_epoll_update (\<lambda>_. pa_result ep));
           if pa_result ep < 0 then State_Monad.return (Some (- 1))
           else do {
             add \<leftarrow> ask env (Epoll_add (pa_result ep) sock);
             if pa_result add < 0 then State_Monad.return (Some (- 1))
             else do {
               t \<leftarrow> ask env Process_time;
               poll_loop fuel env (pa_result t + 1000000)
             }
           }
         }
       }
     }
   }"

text \<open>The label \<open>done\<close>.\<close>

definition probe_done :: "probe_env \<Rightarrow> int option \<Rightarrow> int option probe_prog" where
  "probe_done env result = do {
     ep \<leftarrow> look pb_epoll;
     sock \<leftarrow> look pb_socket;
     _ \<leftarrow> (if ep \<ge> 0 then do { _ \<leftarrow> ask env (Epoll_destroy ep); skip } else skip);
     _ \<leftarrow> ask env (Socket_close sock);
     c \<leftarrow> cancelled env;
     State_Monad.return (if result = None then None else if c then Some (- 2) else result)
   }"

text \<open>The address of the host: \<open>Inl\<close> is a return from the function.\<close>

definition resolve :: "probe_env \<Rightarrow> string \<Rightarrow> (int + u32) probe_prog" where
  "resolve env internal = do {
     a \<leftarrow> ask env (Inet_pton internal);
     if pa_result a = 1 then State_Monad.return (Inr (pa_address a))
     else do {
       resolver \<leftarrow> ask env Resolver_create;
       if pa_result resolver < 0 then State_Monad.return (Inl (- 1))
       else do {
         resolved \<leftarrow> ask env (Resolver_start (pa_result resolver) internal);
         _ \<leftarrow> ask env (Resolver_destroy (pa_result resolver));
         c \<leftarrow> cancelled env;
         if c then State_Monad.return (Inl (- 2))
         else if pa_result resolved < 0 then State_Monad.return (Inl 0)
         else State_Monad.return (Inr (pa_address resolved))
       }
     }
   }"

definition legacy_host_probe :: "nat \<Rightarrow> int \<Rightarrow> probe_env \<Rightarrow> (string \<times> u16) option \<Rightarrow> int option probe_prog" where
  "legacy_host_probe fuel einprogress env host = (case host of
     None \<Rightarrow> State_Monad.return (Some (- 1))
   | Some (internal, port) \<Rightarrow>
       if internal = [] then State_Monad.return (Some (- 1))
       else do {
         c \<leftarrow> cancelled env;
         if c then State_Monad.return (Some (- 2))
         else do {
           r \<leftarrow> resolve env internal;
           case r of Inl result \<Rightarrow> State_Monad.return (Some result)
           | Inr address \<Rightarrow> do {
               sock \<leftarrow> ask env Socket;
               _ \<leftarrow> modify (pb_socket_update (\<lambda>_. pa_result sock));
               if pa_result sock < 0 then State_Monad.return (Some (- 1))
               else do {
                 result \<leftarrow> connect_wait fuel einprogress env (if port \<noteq> 0 then port else 47989) address;
                 probe_done env result
               }
             }
         }
       })"

section \<open>What the network library demands\<close>

record network =
  nw_resolver :: "int option"
  nw_socket :: "int option"
  nw_epoll :: "int option"

definition network_start :: network where
  "network_start = \<lparr>nw_resolver = None, nw_socket = None, nw_epoll = None\<rparr>"

fun network_rule :: "network \<Rightarrow> probe_call \<Rightarrow> probe_answer \<Rightarrow> network option" where
  "network_rule w Resolver_create a =
     (if nw_resolver w \<noteq> None then None
      else Some (if pa_result a < 0 then w else w\<lparr>nw_resolver := Some (pa_result a)\<rparr>))"
| "network_rule w (Resolver_start u _) a = (if nw_resolver w = Some u then Some w else None)"
| "network_rule w (Resolver_destroy u) a = (if nw_resolver w = Some u then Some (w\<lparr>nw_resolver := None\<rparr>) else None)"
| "network_rule w Socket a =
     (if nw_socket w \<noteq> None then None
      else Some (if pa_result a < 0 then w else w\<lparr>nw_socket := Some (pa_result a)\<rparr>))"
| "network_rule w (Set_nonblocking u) a = (if nw_socket w = Some u then Some w else None)"
| "network_rule w (Connect u _ _) a = (if nw_socket w = Some u then Some w else None)"
| "network_rule w (Socket_error u) a = (if nw_socket w = Some u then Some w else None)"
| "network_rule w (Socket_close u) a =
     (if nw_socket w = Some u \<and> nw_epoll w = None then Some (w\<lparr>nw_socket := None\<rparr>) else None)"
| "network_rule w Epoll_create a =
     (if nw_epoll w \<noteq> None then None
      else Some (if pa_result a < 0 then w else w\<lparr>nw_epoll := Some (pa_result a)\<rparr>))"
| "network_rule w (Epoll_add u v) a = (if nw_epoll w = Some u \<and> nw_socket w = Some v then Some w else None)"
| "network_rule w (Epoll_wait u) a = (if nw_epoll w = Some u then Some w else None)"
| "network_rule w (Epoll_destroy u) a = (if nw_epoll w = Some u then Some (w\<lparr>nw_epoll := None\<rparr>) else None)"
| "network_rule w _ a = Some w"

section \<open>Everything is closed\<close>

definition connecting :: "probe \<Rightarrow> network \<Rightarrow> bool" where
  "connecting s w \<longleftrightarrow> w = \<lparr>nw_resolver = None, nw_socket = Some (pb_socket s),
     nw_epoll = (if pb_epoll s < 0 then None else Some (pb_epoll s))\<rparr>"

abbreviation probe_safe where
  "probe_safe \<equiv> safe network_rule network_start"

lemma poll_loop_safe:
  "connecting s w \<Longrightarrow> 0 \<le> pb_epoll s \<Longrightarrow> probe_safe s w (poll_loop n env deadline) (\<lambda>_. connecting)"
proof (induction n)
  case 0
  then show ?case by (simp add: safe_return)
next
  case (Suc n)
  then show ?case
    unfolding poll_loop.simps cancelled_def
    by (auto intro!: safe_intro simp: connecting_def)
qed

lemma connect_wait_safe:
  assumes "w = \<lparr>nw_resolver = None, nw_socket = Some (pb_socket s), nw_epoll = None\<rparr>" "pb_epoll s < 0"
  shows "probe_safe s w (connect_wait fuel einprogress env port address) (\<lambda>_. connecting)"
  using assms unfolding connect_wait_def
  by (auto intro!: safe_intro poll_loop_safe simp: connecting_def)

lemma probe_done_safe:
  "connecting s w \<Longrightarrow> probe_safe s w (probe_done env result) (\<lambda>_ _ w. w = network_start)"
  unfolding probe_done_def cancelled_def
  by (auto intro!: safe_intro simp: connecting_def network_start_def)

lemma resolve_safe:
  "probe_safe s network_start (resolve env internal) (\<lambda>_ s' w. s' = s \<and> w = network_start)"
  unfolding resolve_def cancelled_def
  by (auto intro!: safe_intro simp: network_start_def)

lemma probe_connect_safe:
  assumes "pb_epoll s < 0"
  shows "probe_safe s network_start (State_Monad.bind (ask env Socket) (\<lambda>sock. State_Monad.bind
      (modify (pb_socket_update (\<lambda>_. pa_result sock)))
      (\<lambda>_. if pa_result sock < 0 then State_Monad.return (Some (- 1))
           else State_Monad.bind (connect_wait fuel einprogress env q address) (probe_done env)))) (\<lambda>_ _ w. w = network_start)"
proof -
  have "network_rule network_start Socket a = Some (if pa_result a < 0 then network_start
      else \<lparr>nw_resolver = None, nw_socket = Some (pa_result a), nw_epoll = None\<rparr>)" for a
    by (simp add: network_start_def)
  then show ?thesis
    using assms by (auto intro!: safe_intro safe_bind [OF connect_wait_safe probe_done_safe])
qed

lemma legacy_host_probe_safe:
  assumes "pb_epoll s < 0"
  shows "probe_safe s network_start (legacy_host_probe fuel einprogress env host) (\<lambda>_ _ w. w = network_start)"
  unfolding legacy_host_probe_def cancelled_def
  by (auto intro!: safe_intro safe_bind [OF resolve_safe] probe_connect_safe [OF assms] split: option.split sum.split)

text \<open>
  Property C35. However the network library answers and whenever the probe is cancelled: on every path, the resolver,
  the poll set and the socket that were opened are closed again, once, in the right order, and nothing is used
  before it was opened or after it was closed.
\<close>

theorem probe_closes_everything:
  "accept network_rule network_start
     (snd (snd (run_state (legacy_host_probe fuel einprogress env host) (probe_start, [])))) = Some network_start"
proof -
  obtain r s' log' where run: "run_state (legacy_host_probe fuel einprogress env host) (probe_start, []) = (r, (s', log'))"
    by (metis prod_cases3)
  show ?thesis
    using safeD [OF legacy_host_probe_safe _ run] run by (auto simp: probe_start_def)
qed

section \<open>The probe ends\<close>

definition delayed :: "(probe_call, probe_answer) calls \<Rightarrow> int" where
  "delayed log = (\<Sum>(c, a)\<leftarrow>log. case c of Delay us \<Rightarrow> int us | _ \<Rightarrow> 0)"

text \<open>A clock that never goes back, and moves at least by the delays: documented of \<open>sceKernelDelayThread\<close>.\<close>

definition clock :: "probe_env \<Rightarrow> bool" where
  "clock env \<longleftrightarrow> (\<forall>log log'. pa_result (env log Process_time) + delayed log' \<le> pa_result (env (log @ log') Process_time))"

lemma delayed_append: "delayed (xs @ ys) = delayed xs + delayed ys"
  by (simp add: delayed_def)

lemma delayed_simps [simp]: "delayed [] = 0" "delayed ((c, a) # log) = (case c of Delay us \<Rightarrow> int us | _ \<Rightarrow> 0) + delayed log"
  by (simp_all add: delayed_def)

lemma poll_loop_ends:
  assumes clock: "clock env"
  shows "1000000 \<le> delayed log' + int n * 10000 \<Longrightarrow>
    fst (run_state (poll_loop (Suc n) env (pa_result (env log Process_time) + 1000000)) (s, log @ log')) \<noteq> None"
proof (induction n arbitrary: log')
  case 0
  let ?c = "(Is_cancelled, env (log @ log') Is_cancelled)"
  have "pa_result (env log Process_time) + delayed (log' @ [?c]) \<le> pa_result (env (log @ log' @ [?c]) Process_time)"
    using clock unfolding clock_def by blast
  then show ?case
    using 0 by (simp add: cancelled_def delayed_append)
next
  case (Suc n)
  have "1000000 \<le> delayed (log' @ [(Is_cancelled, c), (Process_time, t), (Epoll_wait u, e), (Delay 10000, d)]) + int n * 10000"
    for c t u e d
    using Suc.prems by (simp add: delayed_append)
  from Suc.IH [OF this] show ?case
    by (subst poll_loop.simps(2)) (simp add: cancelled_def del: poll_loop.simps)
qed

lemma probe_done_result: "fst (run_state (probe_done env r) (s, log)) = None \<longleftrightarrow> r = None"
  by (simp add: probe_done_def cancelled_def split: prod.split)

lemma connect_wait_ends:
  assumes "clock env"
  shows "fst (run_state (connect_wait 101 einprogress env port address) (s, log)) \<noteq> None"
proof -
  have "fst (run_state (poll_loop 101 env (pa_result (env l Process_time) + 1000000)) (s', l @ [(Process_time, a)])) \<noteq> None"
    for l s' a
    using poll_loop_ends [OF assms, of "[(Process_time, a)]" 100 l s'] by (simp del: poll_loop.simps)
  then show ?thesis
    by (simp add: connect_wait_def del: poll_loop.simps append_assoc)
qed

definition returns :: "'x option probe_prog \<Rightarrow> bool" where
  "returns f \<longleftrightarrow> (\<forall>s log. fst (run_state f (s, log)) \<noteq> None)"

lemma returns_intro:
  "returns (State_Monad.return (Some x))"
  "(\<And>y. returns (g1 y)) \<Longrightarrow> returns (State_Monad.bind (ask env c) g1)"
  "(\<And>y. returns (g2 y)) \<Longrightarrow> returns (State_Monad.bind (modify m) g2)"
  "(\<And>y. returns (g3 y)) \<Longrightarrow> returns (State_Monad.bind (cancelled env) g3)"
  "(\<And>y. returns (g4 y)) \<Longrightarrow> returns (State_Monad.bind (resolve env i) g4)"
  "returns f \<Longrightarrow> returns f' \<Longrightarrow> returns (if b then f else f')"
  by (simp_all add: returns_def split: prod.split)

text \<open>
  Property C36. With a clock that moves by the delays between the polls, the probe ends within 101 rounds, whatever the network
  library answers.
\<close>

theorem probe_ends:
  assumes "clock env"
  shows "fst (run_state (legacy_host_probe 101 einprogress env host) (probe_start, [])) \<noteq> None"
proof -
  have "returns (State_Monad.bind (connect_wait 101 einprogress env q address) (probe_done env))" for q address
    unfolding returns_def
  proof (intro allI)
    fix s log
    obtain r s' log' where c: "run_state (connect_wait 101 einprogress env q address) (s, log) = (r, (s', log'))"
      by (metis prod_cases3)
    then have "r \<noteq> None"
      using connect_wait_ends [OF assms, of einprogress q address s log] by simp
    then show "fst (run_state (State_Monad.bind (connect_wait 101 einprogress env q address) (probe_done env)) (s, log)) \<noteq> None"
      using c probe_done_result [of env r s' log'] by simp
  qed
  then have "returns (legacy_host_probe 101 einprogress env host)"
    unfolding legacy_host_probe_def by (auto intro!: returns_intro split: option.split sum.split)
  then show ?thesis by (simp add: returns_def)
qed

definition silent_env :: probe_env where
  "silent_env log c = \<lparr>pa_result = (case c of
       Process_time \<Rightarrow> delayed log | Inet_pton _ \<Rightarrow> 1 | Socket \<Rightarrow> 3 | Connect _ _ _ \<Rightarrow> - 1 | Net_errno \<Rightarrow> 36
     | Epoll_create \<Rightarrow> 4 | _ \<Rightarrow> 0),
     pa_address = 0, pa_error = 0, pa_out = False, pa_bad = False\<rparr>"

text \<open>A host that never answers: the probe polls until the second is over.\<close>

theorem probe_ends_witness:
  "fst (run_state (legacy_host_probe 101 36 silent_env (Some (''10.0.0.2'', 0))) (probe_start, [])) \<noteq> None"
  by (rule probe_ends) (simp add: clock_def silent_env_def delayed_append)

end
