(* ===== verification/TransportThreads.thy ===== *)
theory TransportThreads imports Calls begin

text \<open>
  The replacements for the thread calls of the streaming library (\<open>src/moonlight/vita_transport_threads.c\<close>):
  the library sets up attributes, asks for a stack size and creates a thread, without a look at the
  results; the replacements make sure that a thread runs with the stack that is wanted or not at all, and that the
  attributes are freed.

  The thread library is the other side of the calls; \<open>ENOMEM\<close> and \<open>EINVAL\<close> are parameters.
\<close>

definition transport_stack_bytes :: u32 where "transport_stack_bytes = 128 * 1024"

text \<open>An attribute object is a pointer; \<open>thread\<close> is the identifier that the creation stores.\<close>

datatype thread_call =
    Attr_init
  | Attr_setstacksize u32 u32
  | Attr_getstacksize u32
  | Thread_create u32 nat nat
  | Attr_destroy u32

record thread_answer =
  ta_result :: int
  ta_value :: u32

type_synonym thread_env = "(thread_call, thread_answer) env"
type_synonym 'x thread_prog = "(u32, thread_call, thread_answer, 'x) prog"

definition transport_attr_init :: "thread_env \<Rightarrow> int thread_prog" where
  "transport_attr_init env = do {
     _ \<leftarrow> modify (\<lambda>_. 0);
     a \<leftarrow> ask env Attr_init;
     _ \<leftarrow> modify (\<lambda>_. ta_value a);
     State_Monad.return (ta_result a)
   }"

definition transport_attr_setstacksize :: "int \<Rightarrow> thread_env \<Rightarrow> u32 \<Rightarrow> int thread_prog" where
  "transport_attr_setstacksize enomem env requested = do {
     attr \<leftarrow> look id;
     if attr = 0 then State_Monad.return enomem
     else do {
       a \<leftarrow> ask env (Attr_setstacksize attr transport_stack_bytes);
       State_Monad.return (ta_result a)
     }
   }"

definition transport_thread_create :: "int \<Rightarrow> int \<Rightarrow> thread_env \<Rightarrow> nat \<Rightarrow> nat \<Rightarrow> int thread_prog" where
  "transport_thread_create enomem einval env entry ctx = do {
     attr \<leftarrow> look id;
     if attr = 0 then State_Monad.return enomem
     else do {
       g \<leftarrow> ask env (Attr_getstacksize attr);
       result \<leftarrow> (if ta_result g = 0 \<and> ta_value g = transport_stack_bytes then do {
                   c \<leftarrow> ask env (Thread_create attr entry ctx);
                   State_Monad.return (ta_result c)
                 }
                 else State_Monad.return (if ta_result g = 0 then einval else ta_result g));
       _ \<leftarrow> ask env (Attr_destroy attr);
       _ \<leftarrow> modify (\<lambda>_. 0);
       State_Monad.return result
     }
   }"

text \<open>How the streaming library uses them: without looking at the first two results.\<close>

definition library_create :: "int \<Rightarrow> int \<Rightarrow> thread_env \<Rightarrow> u32 \<Rightarrow> nat \<Rightarrow> nat \<Rightarrow> int thread_prog" where
  "library_create enomem einval env requested entry ctx = do {
     _ \<leftarrow> transport_attr_init env;
     _ \<leftarrow> transport_attr_setstacksize enomem env requested;
     transport_thread_create enomem einval env entry ctx
   }"

section \<open>What the thread library demands, and what the program wants of it\<close>

text \<open>
  The attributes that live, the stack size that was last read from them, and the threads that run. A thread
  may only be created with attributes whose size was read and is the wanted one.
\<close>

record threads =
  tw_attr :: "u32 option"
  tw_size :: "u32 option"
  tw_running :: "(nat \<times> nat) list"

fun threads_rule :: "threads \<Rightarrow> thread_call \<Rightarrow> thread_answer \<Rightarrow> threads option" where
  "threads_rule w Attr_init a =
     (if tw_attr w \<noteq> None then None
      else Some (if ta_value a = 0 then w else w\<lparr>tw_attr := Some (ta_value a), tw_size := None\<rparr>))"
| "threads_rule w (Attr_setstacksize u n) a = (if tw_attr w = Some u then Some (w\<lparr>tw_size := None\<rparr>) else None)"
| "threads_rule w (Attr_getstacksize u) a =
     (if tw_attr w = Some u then Some (w\<lparr>tw_size := if ta_result a = 0 then Some (ta_value a) else None\<rparr>) else None)"
| "threads_rule w (Thread_create u entry ctx) a =
     (if tw_attr w = Some u \<and> tw_size w = Some transport_stack_bytes
      then Some (if ta_result a = 0 then w\<lparr>tw_running := tw_running w @ [(entry, ctx)]\<rparr> else w) else None)"
| "threads_rule w (Attr_destroy u) a =
     (if tw_attr w = Some u then Some (w\<lparr>tw_attr := None, tw_size := None\<rparr>) else None)"

definition threads_start :: threads where
  "threads_start = \<lparr>tw_attr = None, tw_size = None, tw_running = []\<rparr>"

definition no_attr :: "u32 \<Rightarrow> threads \<Rightarrow> bool" where
  "no_attr attr w \<longleftrightarrow> attr = 0 \<and> tw_attr w = None"

lemma library_create_safe:
  assumes "tw_attr w = None"
  shows "safe threads_rule threads_start s w (library_create enomem einval env requested entry ctx)
    (\<lambda>result s' w'. no_attr s' w' \<and> (enomem \<noteq> 0 \<longrightarrow> einval \<noteq> 0 \<longrightarrow>
       tw_running w' = tw_running w @ (if result = 0 then [(entry, ctx)] else [])))"
  using assms
  unfolding library_create_def transport_attr_init_def transport_attr_setstacksize_def transport_thread_create_def
  by (auto intro!: safe_intro simp: no_attr_def)

definition create_op :: "int \<Rightarrow> int \<Rightarrow> thread_env \<Rightarrow> u32 \<Rightarrow> u32 \<times> nat \<times> nat \<Rightarrow> (thread_call, thread_answer) calls \<Rightarrow>
    u32 \<times> (thread_call, thread_answer) calls" where
  "create_op enomem einval env s x log =
     (case x of (requested, entry, ctx) \<Rightarrow> execute (library_create enomem einval env requested entry ctx) s log)"

lemma create_op_obeys:
  assumes "accept threads_rule threads_start log = Some w" "no_attr s w"
    "create_op enomem einval env s x log = (s', log')"
  shows "\<exists>w'. accept threads_rule threads_start log' = Some w' \<and> no_attr s' w'"
proof -
  obtain requested entry ctx where x: "x = (requested, entry, ctx)" by (metis prod_cases3)
  have "safe threads_rule threads_start s w (library_create enomem einval env requested entry ctx) (\<lambda>_. no_attr)"
    by (rule safe_weaken [OF library_create_safe]) (use assms in \<open>auto simp: no_attr_def\<close>)
  then show ?thesis
    using execute_obeys assms(1,3) by (simp add: create_op_def x)
qed

interpretation transport: client "create_op enomem einval env" threads_rule threads_start no_attr "\<lambda>_ _. True"
  for enomem einval env
  by unfold_locales (rule create_op_obeys)

text \<open>
  Whatever the thread library answers and however many threads are created: every attribute object that
  is allocated is freed, once; a thread is only started with attributes whose stack size was read back as 128 KiB; and
  the result is 0 exactly if a thread was started.
\<close>

theorem transport_threads_safe:
  assumes "enomem \<noteq> 0" "einval \<noteq> 0"
    and "accept threads_rule threads_start log = Some w" "tw_attr w = None"
    and "run_state (library_create enomem einval env requested entry ctx) (attr, log) = (result, (attr', log'))"
  shows "\<exists>w'. accept threads_rule threads_start log' = Some w' \<and> tw_attr w' = None \<and> attr' = 0 \<and>
    tw_running w' = tw_running w @ (if result = 0 then [(entry, ctx)] else [])"
  using safeD [OF library_create_safe [OF assms(4)] assms(3,5)] assms(1,2) by (auto simp: no_attr_def)

text \<open>A thread library in which setting the size fails, so that the default of 256 KiB stays.\<close>

definition stubborn_env :: thread_env where
  "stubborn_env log c = (case c of
     Attr_init \<Rightarrow> \<lparr>ta_result = 0, ta_value = 64\<rparr>
   | Attr_setstacksize _ _ \<Rightarrow> \<lparr>ta_result = 22, ta_value = 0\<rparr>
   | Attr_getstacksize _ \<Rightarrow> \<lparr>ta_result = 0, ta_value = 262144\<rparr>
   | _ \<Rightarrow> \<lparr>ta_result = 0, ta_value = 0\<rparr>)"

theorem transport_threads_safe_witness:
  "case run_state (library_create 12 22 stubborn_env 0 1 2) (0, []) of (result, (attr, log)) \<Rightarrow>
     result = 22 \<and> length log = 4 \<and> (\<exists>w. accept threads_rule threads_start log = Some w \<and> tw_attr w = None \<and> tw_running w = [])"
proof -
  obtain result attr log where run: "run_state (library_create 12 22 stubborn_env 0 1 2) (0, []) = (result, (attr, log))"
    by (metis prod_cases3)
  have "result = 22" "length log = 4"
    using run by (auto simp: library_create_def transport_attr_init_def transport_attr_setstacksize_def
        transport_thread_create_def stubborn_env_def transport_stack_bytes_def)
  then show ?thesis
    using transport_threads_safe [of 12 22 "[]" threads_start, OF _ _ _ _ run] run by (auto simp: threads_start_def)
qed

end
