(* ===== verification/HostEvents.thy ===== *)
theory HostEvents imports Complex_Main Calls begin

text \<open>
  What the input components send to the host through the streaming library, and what the host can hold
  because of it: touches, the mouse button and the state of the controller. Coordinates are fractions of
  the screen; they are real numbers here, where the code has floating point.
\<close>

datatype touch_kind = Touch_down | Touch_move | Touch_up | Touch_cancel_all

datatype mouse_button = Mouse_left | Mouse_right

datatype sensor = Gyro | Accel

text \<open>
  The flags of the streaming library are bits of their own, and a combination of them is a set here.
  \<open>LiSendMultiControllerEvent\<close> has the buttons, the triggers and the two sticks.
\<close>

datatype host_flag =
    UP_FLAG | DOWN_FLAG | LEFT_FLAG | RIGHT_FLAG | PLAY_FLAG | BACK_FLAG | SPECIAL_FLAG
  | A_FLAG | B_FLAG | X_FLAG | Y_FLAG | LB_FLAG | RB_FLAG | LS_CLK_FLAG | RS_CLK_FLAG

datatype controller_type = Xbox | Playstation | Nintendo | Unknown_type

datatype capability = Analog_triggers | Rgb_led | Touchpad | Gyroscope | Accelerometer

record pad_event =
  pe_buttons :: "host_flag set"
  pe_left_trigger :: nat
  pe_right_trigger :: nat
  pe_lx :: int
  pe_ly :: int
  pe_rx :: int
  pe_ry :: int

datatype host_event =
    Controller_touch touch_kind nat real real real
  | Screen_touch touch_kind nat real real real
  | Mouse_position int int int int
  | Mouse bool mouse_button
  | Scroll int
  | Controller pad_event
  | Arrival controller_type bool "capability set"
  | Motion sensor real real real

text \<open>The touches and the left mouse button that the host holds. A contact goes down, moves and goes up.\<close>

record host_hand =
  hh_touches :: "nat set"
  hh_left :: bool

definition hand_start :: host_hand where
  "hand_start = \<lparr>hh_touches = {}, hh_left = False\<rparr>"

definition touch_rule :: "touch_kind \<Rightarrow> nat \<Rightarrow> nat set \<Rightarrow> nat set option" where
  "touch_rule k i A = (case k of
     Touch_down \<Rightarrow> if i \<in> A then None else Some (insert i A)
   | Touch_move \<Rightarrow> if i \<in> A then Some A else None
   | Touch_up \<Rightarrow> if i \<in> A then Some (A - {i}) else None
   | Touch_cancel_all \<Rightarrow> Some {})"

fun hand_rule :: "host_hand \<Rightarrow> host_event \<Rightarrow> unit \<Rightarrow> host_hand option" where
  "hand_rule h (Controller_touch k i x y p) _ = map_option (\<lambda>A. h\<lparr>hh_touches := A\<rparr>) (touch_rule k i (hh_touches h))"
| "hand_rule h (Screen_touch k i x y p) _ = map_option (\<lambda>A. h\<lparr>hh_touches := A\<rparr>) (touch_rule k i (hh_touches h))"
| "hand_rule h (Mouse press Mouse_left) _ = (if hh_left h = press then None else Some (h\<lparr>hh_left := press\<rparr>))"
| "hand_rule h _ _ = Some h"

text \<open>Events are calls without an answer.\<close>

definition sent :: "host_event list \<Rightarrow> (host_event, unit) calls" where
  "sent es = map (\<lambda>e. (e, ())) es"

lemma sent_simps [simp]: "sent [] = []" "sent (e # es) = (e, ()) # sent es" "sent (es @ fs) = sent es @ sent fs"
  by (simp_all add: sent_def)

end
