(* ===== verification/Motion.thy ===== *)
theory Motion imports HostEvents begin

text \<open>
  The motion sensors (\<open>src/moonlight/vita_motion.c\<close>): two threads, one for each sensor, which
  send samples at the rate the host asked for.

  The variables are read and written by the two threads, the session and the streaming library without a
  lock. The threads are a step relation: one step reads the variables, takes a sample and sends it; the next one
  reads the rate again, for the delay; the other functions come in between. The firmware, for starting the
  threads, is the other side of the calls; a sample that cannot be read is \<open>None\<close>. Delays are not timed.
\<close>

record motion_sample =
  ms_velocity :: "real \<times> real \<times> real"
  ms_acceleration :: "real \<times> real \<times> real"

record motion =
  mo_active :: bool
  mo_enabled :: bool
  mo_rate :: "sensor \<Rightarrow> u16"
  mo_initialized :: bool
  mo_started :: "sensor \<Rightarrow> bool"

definition motion_boot :: motion where
  "motion_boot = \<lparr>mo_active = False, mo_enabled = False, mo_rate = (\<lambda>_. 0), mo_initialized = False,
     mo_started = (\<lambda>_. False)\<rparr>"

definition motion_scale :: real where "motion_scale = 28"

definition send_gyro :: "motion_sample option \<Rightarrow> host_event list" where
  "send_gyro sample = (case sample of None \<Rightarrow> []
     | Some m \<Rightarrow> case ms_velocity m of (x, y, z) \<Rightarrow> [Motion Gyro (x * motion_scale) (z * motion_scale) (y * - motion_scale)])"

definition send_accel :: "motion_sample option \<Rightarrow> host_event list" where
  "send_accel sample = (case sample of None \<Rightarrow> []
     | Some m \<Rightarrow> case ms_acceleration m of (x, y, z) \<Rightarrow> [Motion Accel (x * motion_scale) (z * motion_scale) (y * - motion_scale)])"

definition send_sensor :: "sensor \<Rightarrow> motion_sample option \<Rightarrow> host_event list" where
  "send_sensor k sample = (case k of Gyro \<Rightarrow> send_gyro sample | Accel \<Rightarrow> send_accel sample)"

section \<open>Starting the threads\<close>

datatype motion_call =
    Start_sampling
  | Motion_reset
  | Create_thread sensor
  | Start_thread int
  | Delete_thread int

type_synonym motion_env = "(motion_call, int) env"
type_synonym 'x motion_prog = "(motion, motion_call, int, 'x) prog"

definition create_thread :: "motion_env \<Rightarrow> sensor \<Rightarrow> unit motion_prog" where
  "create_thread env k = do {
     started \<leftarrow> look (\<lambda>s. mo_started s k);
     if started then skip
     else do {
       thread_id \<leftarrow> ask env (Create_thread k);
       if thread_id < 0 then skip
       else do {
         result \<leftarrow> ask env (Start_thread thread_id);
         if result < 0 then do { _ \<leftarrow> ask env (Delete_thread thread_id); skip }
         else modify (\<lambda>s. s\<lparr>mo_started := (mo_started s)(k := True)\<rparr>)
       }
     }
   }"

definition motion_init :: "motion_env \<Rightarrow> unit motion_prog" where
  "motion_init env = do {
     initialized \<leftarrow> look mo_initialized;
     if initialized then skip
     else do {
       _ \<leftarrow> ask env Start_sampling;
       _ \<leftarrow> ask env Motion_reset;
       _ \<leftarrow> create_thread env Gyro;
       _ \<leftarrow> create_thread env Accel;
       modify (mo_initialized_update (\<lambda>_. True))
     }
   }"

definition motion_start :: "motion_env \<Rightarrow> bool \<Rightarrow> unit motion_prog" where
  "motion_start env enabled = do {
     _ \<leftarrow> modify (mo_enabled_update (\<lambda>_. enabled));
     if \<not> enabled then modify (\<lambda>s. s\<lparr>mo_active := False, mo_rate := (\<lambda>_. 0)\<rparr>)
     else do {
       _ \<leftarrow> motion_init env;
       modify (mo_active_update (\<lambda>_. True))
     }
   }"

definition motion_stop :: "motion \<Rightarrow> motion" where
  "motion_stop s = s\<lparr>mo_active := False, mo_rate := (\<lambda>_. 0)\<rparr>"

text \<open>The motion type of a request; types that are not known are \<open>None\<close>.\<close>

definition motion_set_state :: "nat \<Rightarrow> sensor option \<Rightarrow> u16 \<Rightarrow> motion \<Rightarrow> motion" where
  "motion_set_state controller motion_type rate s =
     (if controller \<noteq> 0 \<or> \<not> mo_enabled s then s
      else case motion_type of None \<Rightarrow> s | Some k \<Rightarrow> s\<lparr>mo_rate := (mo_rate s)(k := rate)\<rparr>)"

text \<open>The threads that the firmware has: created and not started, or running. A thread may only be started once.\<close>

record motion_threads =
  mt_fresh :: "(int \<times> sensor) option"
  mt_running :: "sensor set"

fun motion_rule :: "motion_threads \<Rightarrow> motion_call \<Rightarrow> int \<Rightarrow> motion_threads option" where
  "motion_rule w Start_sampling _ = Some w"
| "motion_rule w Motion_reset _ = Some w"
| "motion_rule w (Create_thread k) a =
     (if mt_fresh w \<noteq> None \<or> k \<in> mt_running w then None else Some (if a < 0 then w else w\<lparr>mt_fresh := Some (a, k)\<rparr>))"
| "motion_rule w (Start_thread u) a =
     (case mt_fresh w of None \<Rightarrow> None
      | Some (v, k) \<Rightarrow> if u \<noteq> v then None
          else Some (if a < 0 then w else w\<lparr>mt_fresh := None, mt_running := insert k (mt_running w)\<rparr>))"
| "motion_rule w (Delete_thread u) a =
     (case mt_fresh w of None \<Rightarrow> None | Some (v, k) \<Rightarrow> if u \<noteq> v then None else Some (w\<lparr>mt_fresh := None\<rparr>))"

definition motion_threads_start :: motion_threads where
  "motion_threads_start = \<lparr>mt_fresh = None, mt_running = {}\<rparr>"

definition motion_rel :: "motion \<Rightarrow> motion_threads \<Rightarrow> bool" where
  "motion_rel s w \<longleftrightarrow> w = \<lparr>mt_fresh = None, mt_running = {k. mo_started s k}\<rparr>"

abbreviation motion_safe where
  "motion_safe \<equiv> safe motion_rule motion_threads_start"

lemma create_thread_safe:
  "motion_rel s w \<Longrightarrow> motion_safe s w (create_thread env k) (\<lambda>_. motion_rel)"
  unfolding create_thread_def motion_rel_def
  by (auto intro!: safe_intro)

lemma motion_init_safe: "motion_rel s w \<Longrightarrow> motion_safe s w (motion_init env) (\<lambda>_. motion_rel)"
  unfolding motion_init_def
  by (auto intro!: safe_intro safe_bind [OF create_thread_safe] simp: motion_rel_def)

lemma motion_start_safe: "motion_rel s w \<Longrightarrow> motion_safe s w (motion_start env enabled) (\<lambda>_. motion_rel)"
  unfolding motion_start_def
  by (auto intro!: safe_intro safe_bind [OF motion_init_safe] simp: motion_rel_def)

text \<open>The session's calls, and the requests of the host.\<close>

datatype motion_op = Motion_start bool | Motion_stop | Motion_set_state nat "sensor option" u16

definition motion_act :: "motion_env \<Rightarrow> motion \<Rightarrow> motion_op \<Rightarrow> (motion_call, int) calls \<Rightarrow> motion \<times> (motion_call, int) calls" where
  "motion_act env s x history = (case x of
     Motion_start enabled \<Rightarrow> execute (motion_start env enabled) s history
   | Motion_stop \<Rightarrow> (motion_stop s, history)
   | Motion_set_state controller k rate \<Rightarrow> (motion_set_state controller k rate s, history))"

lemma motion_act_obeys:
  assumes "accept motion_rule motion_threads_start history = Some w" "motion_rel s w"
    "motion_act env s x history = (s', history')"
  shows "\<exists>w'. accept motion_rule motion_threads_start history' = Some w' \<and> motion_rel s' w'"
proof (cases x)
  case (Motion_start enabled)
  then show ?thesis
    using execute_obeys [OF motion_start_safe [OF assms(2)] assms(1)] assms(3) by (auto simp: motion_act_def)
next
  case Motion_stop
  then show ?thesis using assms by (auto simp: motion_act_def motion_rel_def motion_stop_def)
next
  case (Motion_set_state controller k rate)
  moreover have "mo_started (motion_set_state controller k rate s) = mo_started s"
    by (simp add: motion_set_state_def split: option.split)
  ultimately show ?thesis
    using assms by (auto simp: motion_act_def motion_rel_def)
qed

interpretation motion: client "motion_act env" motion_rule motion_threads_start motion_rel "\<lambda>_ _. True" for env
  by unfold_locales (rule motion_act_obeys)

lemma motion_rel_boot: "motion_rel motion_boot motion_threads_start"
  by (simp add: motion_rel_def motion_boot_def motion_threads_start_def)

text \<open>
  Property C40. Over all sessions, and whatever the firmware answers: each sensor gets at most one thread, a thread that
  was created and cannot be started is deleted, and a sensor counts as started exactly if its thread runs.
\<close>

theorem motion_threads_once:
  "case perform (motion_act env) motion_boot ops [] of
     (s, history) \<Rightarrow> accept motion_rule motion_threads_start history = Some \<lparr>mt_fresh = None, mt_running = {k. mo_started s k}\<rparr>"
  using motion.run_obeys [OF motion_rel_boot, of env ops] by (auto simp: motion_rel_def)

section \<open>The threads\<close>

datatype motion_pc = Loop | Divide | Sleep nat | Divided_by_zero

record motion_system =
  my_vars :: motion
  my_pc :: "sensor \<Rightarrow> motion_pc"
  my_sent :: "host_event list"

definition motion_system_start :: "motion \<Rightarrow> motion_system" where
  "motion_system_start s = \<lparr>my_vars = s, my_pc = (\<lambda>_. Loop), my_sent = []\<rparr>"

definition thread_check :: "sensor \<Rightarrow> motion_sample option \<Rightarrow> motion_system \<Rightarrow> motion_system" where
  "thread_check k sample y =
     (if mo_active (my_vars y) \<and> mo_enabled (my_vars y) \<and> mo_rate (my_vars y) k \<noteq> 0
      then y\<lparr>my_sent := my_sent y @ send_sensor k sample, my_pc := (my_pc y)(k := Divide)\<rparr>
      else y\<lparr>my_pc := (my_pc y)(k := Sleep 100000)\<rparr>)"

definition thread_delay :: "sensor \<Rightarrow> motion_system \<Rightarrow> motion_system" where
  "thread_delay k y =
     (let rate = unat (mo_rate (my_vars y) k)
      in y\<lparr>my_pc := (my_pc y)(k := (if rate = 0 then Divided_by_zero else Sleep (1000000 div rate)))\<rparr>)"

text \<open>The steps: of the threads, and of the functions that other threads call.\<close>

inductive motion_step :: "motion_system \<Rightarrow> motion_system \<Rightarrow> bool" where
  Check: "my_pc y k = Loop \<Longrightarrow> mo_started (my_vars y) k \<Longrightarrow> motion_step y (thread_check k sample y)"
| Delay: "my_pc y k = Divide \<Longrightarrow> motion_step y (thread_delay k y)"
| Wake: "my_pc y k = Sleep us \<Longrightarrow> motion_step y (y\<lparr>my_pc := (my_pc y)(k := Loop)\<rparr>)"
| Request: "motion_step y (y\<lparr>my_vars := motion_set_state controller motion_type rate (my_vars y)\<rparr>)"
| Stop: "motion_step y (y\<lparr>my_vars := motion_stop (my_vars y)\<rparr>)"
| Start: "execute (motion_start env enabled) (my_vars y) [] = (s, calls) \<Longrightarrow> motion_step y (y\<lparr>my_vars := s\<rparr>)"

inductive_cases motion_step_elims: "motion_step y y'"

definition motion_reachable :: "motion_system \<Rightarrow> bool" where
  "motion_reachable y \<longleftrightarrow> motion_step\<^sup>*\<^sup>* (motion_system_start motion_boot) y"

lemma motion_steps:
  "motion_reachable y \<Longrightarrow> motion_step y y' \<Longrightarrow> motion_reachable y'"
  unfolding motion_reachable_def by (rule rtranclp.rtrancl_into_rtrancl)

text \<open>
  A thread that has found a rate and sent its sample divides by the rate when it reads it again. When the
  session stops in between, it divides by 0. The same happens when the host sets the rate to 0.
\<close>

theorem motion_rate_race:
  "\<exists>y. motion_reachable y \<and> my_pc y k = Divided_by_zero"
proof -
  define s1 where "s1 = fst (execute (motion_start (\<lambda>_ _. 1) True) motion_boot [])"
  have s1: "s1 = \<lparr>mo_active = True, mo_enabled = True, mo_rate = (\<lambda>_. 0), mo_initialized = True, mo_started = (\<lambda>_. True)\<rparr>"
    using sensor.exhaust
    by (auto simp: s1_def execute_def motion_start_def motion_init_def create_thread_def motion_boot_def fun_eq_iff)
  define y1 where "y1 = (motion_system_start motion_boot)\<lparr>my_vars := s1\<rparr>"
  define y2 where "y2 = y1\<lparr>my_vars := motion_set_state 0 (Some k) 100 (my_vars y1)\<rparr>"
  define y3 where "y3 = thread_check k None y2"
  define y4 where "y4 = y3\<lparr>my_vars := motion_stop (my_vars y3)\<rparr>"
  have "motion_step (motion_system_start motion_boot) y1"
    unfolding y1_def
    by (rule Start [of "\<lambda>_ _. 1" True _ _ "snd (execute (motion_start (\<lambda>_ _. 1) True) motion_boot [])"])
      (simp add: motion_system_start_def s1_def)
  then have "motion_reachable y1"
    unfolding motion_reachable_def by blast
  then have "motion_reachable y2"
    by (rule motion_steps) (simp add: y2_def Request)
  moreover have v2: "my_pc y2 k = Loop" "mo_started (my_vars y2) k" "mo_active (my_vars y2)" "mo_enabled (my_vars y2)"
    "mo_rate (my_vars y2) k = 100"
    by (simp_all add: y2_def y1_def s1 motion_system_start_def motion_set_state_def)
  ultimately have "motion_reachable y3"
    unfolding y3_def by (blast intro: motion_steps Check)
  then have "motion_reachable y4"
    by (rule motion_steps) (simp add: y4_def Stop)
  moreover have "my_pc y4 k = Divide" "mo_rate (my_vars y4) k = 0"
    using v2 by (simp_all add: y4_def y3_def thread_check_def motion_stop_def)
  ultimately have "motion_reachable (thread_delay k y4)"
    by (blast intro: motion_steps Delay)
  moreover have "my_pc (thread_delay k y4) k = Divided_by_zero"
    using \<open>mo_rate (my_vars y4) k = 0\<close> by (simp add: thread_delay_def)
  ultimately have "motion_reachable (thread_delay k y4)" "my_pc (thread_delay k y4) k = Divided_by_zero"
    by simp_all
  then show ?thesis by blast
qed

end
