(* ===== verification/Touch.thy ===== *)
theory Touch imports HostEvents "HOL-Library.Signed_Division" begin

text \<open>
  The front touch screen (\<open>src/moonlight/vita_touch.c\<close>): as the touch pad of the controller (mode 1), as
  a mouse (mode 2) or as a touch screen (mode 3) of the host.

  A sample is the number of contacts and their reports; the size of the report array is the length of
  the list of the points, 8 in the SDK. A sample that cannot be read is \<open>None\<close>. An operation returns
  the events it sends. The mouse multiplier and the scroll amount are real numbers, where the code has \<open>double\<close>.
\<close>

section \<open>Data\<close>

record touch_point =
  pt_active :: bool
  pt_x :: int
  pt_y :: int

definition point_zero :: touch_point where
  "point_zero = \<lparr>pt_active = False, pt_x = 0, pt_y = 0\<rparr>"

record touch_report =
  rp_id :: nat
  rp_x :: int
  rp_y :: int

record touch_data =
  td_count :: nat
  td_reports :: "nat \<Rightarrow> touch_report"

record touch =
  tp_active :: bool
  tp_mode :: int
  tp_multiplier :: real
  tp_initialized :: bool
  tp_points :: "touch_point list"
  tp_left :: bool
  tp_two :: bool
  tp_last_y :: int


definition screen_x :: "int \<Rightarrow> int" where "screen_x x = (x * 960) sdiv 1920"
definition screen_y :: "int \<Rightarrow> int" where "screen_y y = (y * 544) sdiv 1088"

section \<open>Operations\<close>

definition send_touch_event :: "touch \<Rightarrow> touch_kind \<Rightarrow> nat \<Rightarrow> int \<Rightarrow> int \<Rightarrow> real \<Rightarrow> host_event" where
  "send_touch_event s k i x y pressure =
     (if tp_mode s = 1 then Controller_touch k i (of_int x / 960) (of_int y / 544) pressure
      else Screen_touch k i (of_int x / 960) (of_int y / 544) pressure)"

definition send_up :: "touch \<Rightarrow> nat \<Rightarrow> host_event" where
  "send_up s i = send_touch_event s Touch_up i (pt_x (tp_points s ! i)) (pt_y (tp_points s ! i)) 0"

definition release_touch_state :: "touch \<Rightarrow> host_event list \<times> touch" where
  "release_touch_state s =
     ((if tp_mode s = 1 then map (send_up s) (filter (\<lambda>i. pt_active (tp_points s ! i)) [0..<length (tp_points s)])
       else if tp_mode s = 3 then [Screen_touch Touch_cancel_all 0 0 0 0] else []) @
      (if tp_left s then [Mouse False Mouse_left] else []),
      s\<lparr>tp_left := False, tp_two := False, tp_points := replicate (length (tp_points s)) point_zero\<rparr>)"

definition touch_init :: "touch \<Rightarrow> touch" where
  "touch_init s =
     (if tp_initialized s then s
      else s\<lparr>tp_points := replicate (length (tp_points s)) point_zero, tp_initialized := True\<rparr>)"

definition touch_configure :: "int \<Rightarrow> int \<Rightarrow> touch \<Rightarrow> touch" where
  "touch_configure mode acceleration s =
     (let m = 1 + 0.01 * real_of_int acceleration
      in s\<lparr>tp_mode := (if mode < 0 \<or> mode > 3 then 0 else mode), tp_multiplier := (if m < 0.1 then 0.1 else m)\<rparr>)"

definition touch_start :: "touch \<Rightarrow> host_event list \<times> touch" where
  "touch_start s = (case release_touch_state (touch_init s) of (es, s) \<Rightarrow> (es, s\<lparr>tp_active := True\<rparr>))"

definition touch_stop :: "touch \<Rightarrow> host_event list \<times> touch" where
  "touch_stop s = (if tp_active s then release_touch_state (s\<lparr>tp_active := False\<rparr>) else ([], s))"

text \<open>The index of the point of report \<open>i\<close>.\<close>

definition point_of :: "nat \<Rightarrow> touch_data \<Rightarrow> nat \<Rightarrow> nat" where
  "point_of n d i = (let k = rp_id (td_reports d i) in if k \<ge> n then i else k)"

text \<open>One report: the points of the sample so far, and the events.\<close>

definition see_finger :: "touch \<Rightarrow> touch_data \<Rightarrow> nat \<Rightarrow> touch_point list \<times> host_event list \<Rightarrow>
    touch_point list \<times> host_event list" where
  "see_finger s d i = (\<lambda>(now, es).
     let k = point_of (length (tp_points s)) d i;
         old = tp_points s ! k;
         x = screen_x (rp_x (td_reports d i));
         y = screen_y (rp_y (td_reports d i))
     in (now[k := \<lparr>pt_active = True, pt_x = x, pt_y = y\<rparr>],
         if \<not> pt_active old then es @ [send_touch_event s Touch_down k x y 1]
         else if pt_x old \<noteq> x \<or> pt_y old \<noteq> y then es @ [send_touch_event s Touch_move k x y 1]
         else es))"

definition process_touch_points :: "touch \<Rightarrow> touch_data \<Rightarrow> host_event list \<times> touch" where
  "process_touch_points s d =
     (let n = length (tp_points s);
          (now, es) = fold (see_finger s d) [0..<min (td_count d) n] (replicate n point_zero, []);
          ups = map (send_up s) (filter (\<lambda>i. pt_active (tp_points s ! i) \<and> \<not> pt_active (now ! i)) [0..<n])
      in (es @ ups, s\<lparr>tp_points := now\<rparr>))"

text \<open>\<open>lround\<close> rounds to the nearest integer, halves away from zero.\<close>

definition lround :: "real \<Rightarrow> int" where
  "lround x = (if x \<ge> 0 then \<lfloor>x + 1 / 2\<rfloor> else - \<lfloor>1 / 2 - x\<rfloor>)"

definition scroll_of :: "real \<Rightarrow> int \<Rightarrow> int" where
  "scroll_of multiplier delta =
     (let n = lround (real_of_int delta / 8 * multiplier)
      in if n > 127 then 127 else if n < - 127 then - 127 else n)"

definition process_absolute_mouse :: "touch \<Rightarrow> touch_data \<Rightarrow> host_event list \<times> touch" where
  "process_absolute_mouse s d =
     (let n = td_count d;
          pos = (if n > 0 then [Mouse_position (screen_x (rp_x (td_reports d 0))) (screen_y (rp_y (td_reports d 0))) 960 544]
                 else [])
      in if n = 1 then (pos @ (if tp_left s then [] else [Mouse True Mouse_left]), s\<lparr>tp_left := True, tp_two := False\<rparr>)
      else
        let rel = (if tp_left s then [Mouse False Mouse_left] else []); s = s\<lparr>tp_left := False\<rparr> in
        if n \<ge> 2 then
          let avg = (rp_y (td_reports d 0) + rp_y (td_reports d 1)) sdiv 2 in
          if \<not> tp_two s then (pos @ rel, s\<lparr>tp_two := True, tp_last_y := avg\<rparr>)
          else
            let delta = avg - tp_last_y s; k = scroll_of (tp_multiplier s) delta
            in (pos @ rel @ (if delta \<noteq> 0 \<and> k \<noteq> 0 then [Scroll k] else []), s\<lparr>tp_last_y := avg\<rparr>)
        else (pos @ rel, s\<lparr>tp_two := False\<rparr>))"

definition touch_process :: "touch_data option \<Rightarrow> touch \<Rightarrow> host_event list \<times> touch" where
  "touch_process sample s =
     (if \<not> tp_active s \<or> tp_mode s = 0 then ([], s)
      else case sample of None \<Rightarrow> ([], s)
      | Some d \<Rightarrow>
          if tp_mode s = 1 \<or> tp_mode s = 3 then process_touch_points s d
          else if tp_mode s = 2 then process_absolute_mouse s d
          else ([], s))"

datatype touch_op = Touch_configure int int | Touch_start | Touch_stop | Touch_process "touch_data option"

fun touch_step :: "touch \<Rightarrow> touch_op \<Rightarrow> host_event list \<times> touch" where
  "touch_step s (Touch_configure mode acceleration) = ([], touch_configure mode acceleration s)"
| "touch_step s Touch_start = touch_start s"
| "touch_step s Touch_stop = touch_stop s"
| "touch_step s (Touch_process sample) = touch_process sample s"

definition touch_act :: "touch \<Rightarrow> touch_op \<Rightarrow> (host_event, unit) calls \<Rightarrow> touch \<times> (host_event, unit) calls" where
  "touch_act s x history = (case touch_step s x of (es, s') \<Rightarrow> (s', history @ sent es))"

section \<open>The host's view\<close>

text \<open>No two contacts of a sample share an index; the session configures only while it is stopped.\<close>

definition sample_ok :: "nat \<Rightarrow> touch_data \<Rightarrow> bool" where
  "sample_ok n d \<longleftrightarrow> inj_on (point_of n d) {..<min (td_count d) n}"

fun touch_ok :: "touch \<Rightarrow> touch_op \<Rightarrow> bool" where
  "touch_ok s (Touch_configure mode acceleration) \<longleftrightarrow> \<not> tp_active s"
| "touch_ok s (Touch_process (Some d)) \<longleftrightarrow> sample_ok (length (tp_points s)) d"
| "touch_ok s _ \<longleftrightarrow> True"

definition down_points :: "touch_point list \<Rightarrow> nat set" where
  "down_points ps = {i. i < length ps \<and> pt_active (ps ! i)}"

definition touch_rel :: "touch \<Rightarrow> host_hand \<Rightarrow> bool" where
  "touch_rel s h \<longleftrightarrow> hh_touches h = down_points (tp_points s) \<and> hh_left h = tp_left s \<and>
     (tp_mode s \<noteq> 1 \<longrightarrow> tp_mode s \<noteq> 3 \<longrightarrow> down_points (tp_points s) = {}) \<and> (tp_mode s \<noteq> 2 \<longrightarrow> \<not> tp_left s) \<and>
     (\<not> tp_active s \<longrightarrow> down_points (tp_points s) = {} \<and> \<not> tp_left s) \<and> (tp_active s \<longrightarrow> tp_initialized s)"

lemma down_replicate [simp]: "down_points (replicate n point_zero) = {}"
  by (auto simp: down_points_def point_zero_def)

lemma down_update:
  "k < length ps \<Longrightarrow> pt_active p \<Longrightarrow> down_points (ps[k := p]) = insert k (down_points ps)"
  by (auto simp: down_points_def nth_list_update)

text \<open>A list of releases, of contacts that the host holds.\<close>

lemma hand_touch:
  "hand_rule h (send_touch_event s k i x y p) () = map_option (\<lambda>A. h\<lparr>hh_touches := A\<rparr>) (touch_rule k i (hh_touches h))"
  by (simp add: send_touch_event_def)

lemma hand_up: "hand_rule h (send_up s i) () = map_option (\<lambda>A. h\<lparr>hh_touches := A\<rparr>) (touch_rule Touch_up i (hh_touches h))"
  by (simp add: send_up_def hand_touch)

lemma accept_ups:
  "distinct is \<Longrightarrow> set is \<subseteq> hh_touches h \<Longrightarrow>
     accept hand_rule h (sent (map (send_up s) is)) = Some (h\<lparr>hh_touches := hh_touches h - set is\<rparr>)"
proof (induction "is" arbitrary: h)
  case (Cons i "is")
  let ?h = "h\<lparr>hh_touches := hh_touches h - {i}\<rparr>"
  have "accept hand_rule ?h (sent (map (send_up s) is)) = Some (?h\<lparr>hh_touches := hh_touches ?h - set is\<rparr>)"
    by (rule Cons.IH) (use Cons.prems in auto)
  moreover have "hh_touches h - {i} - set is = hh_touches h - set (i # is)" by auto
  ultimately show ?case
    using Cons.prems by (simp add: hand_up touch_rule_def)
qed simp

lemma release_accepted:
  assumes "touch_rel s h" "release_touch_state s = (es, s')"
  shows "accept hand_rule h (sent es) = Some hand_start" "down_points (tp_points s') = {}" "\<not> tp_left s'"
    "tp_active s' = tp_active s" "tp_mode s' = tp_mode s" "length (tp_points s') = length (tp_points s)"
proof -
  let ?is = "filter (\<lambda>i. pt_active (tp_points s ! i)) [0..<length (tp_points s)]"
  have downs: "set ?is = down_points (tp_points s)"
    by (auto simp: down_points_def)
  have h: "h = \<lparr>hh_touches = down_points (tp_points s), hh_left = tp_left s\<rparr>"
    using assms(1) by (simp add: touch_rel_def)
  have ups: "accept hand_rule h (sent (map (send_up s) ?is)) = Some (h\<lparr>hh_touches := {}\<rparr>)"
    using accept_ups [of ?is h s] downs h by simp
  have es: "es = (if tp_mode s = 1 then map (send_up s) ?is
      else if tp_mode s = 3 then [Screen_touch Touch_cancel_all 0 0 0 0] else []) @
      (if tp_left s then [Mouse False Mouse_left] else [])"
    and s': "s' = s\<lparr>tp_left := False, tp_two := False, tp_points := replicate (length (tp_points s)) point_zero\<rparr>"
    using assms(2) by (auto simp: release_touch_state_def)
  have "accept hand_rule h (sent (if tp_mode s = 1 then map (send_up s) ?is
      else if tp_mode s = 3 then [Screen_touch Touch_cancel_all 0 0 0 0] else [])) = Some (h\<lparr>hh_touches := {}\<rparr>)"
    using ups assms(1) h by (auto simp: touch_rule_def touch_rel_def)
  then show "accept hand_rule h (sent es) = Some hand_start"
    unfolding es sent_simps accept_append using h by (simp add: hand_start_def)
  show "down_points (tp_points s') = {}" "\<not> tp_left s'" "tp_active s' = tp_active s" "tp_mode s' = tp_mode s"
    "length (tp_points s') = length (tp_points s)"
    by (simp_all add: s')
qed

text \<open>The first loop of \<open>process_touch_points\<close>: the host holds what was down before and what has been seen.\<close>

lemma point_of_less: "i < n \<Longrightarrow> point_of n d i < n"
  by (simp add: point_of_def Let_def)

lemma see_fingers_accepted:
  fixes s :: touch and d :: touch_data and h :: host_hand
  assumes T: "hh_touches h = down_points (tp_points s)" and inj: "sample_ok (length (tp_points s)) d"
    and m: "m \<le> min (td_count d) (length (tp_points s))"
    and run: "fold (see_finger s d) [0..<m] (replicate (length (tp_points s)) point_zero, []) = (now, es)"
  shows "accept hand_rule h (sent es) = Some (h\<lparr>hh_touches := down_points (tp_points s) \<union> down_points now\<rparr>) \<and>
    length now = length (tp_points s) \<and> down_points now = point_of (length (tp_points s)) d ` {..<m}"
  using m run
proof (induction m arbitrary: now es)
  case 0
  then show ?case using T by auto
next
  case (Suc m)
  let ?n = "length (tp_points s)" and ?k = "point_of (length (tp_points s)) d m"
  obtain now0 es0 where f0: "fold (see_finger s d) [0..<m] (replicate ?n point_zero, []) = (now0, es0)"
    by fastforce
  have IH: "accept hand_rule h (sent es0) = Some (h\<lparr>hh_touches := down_points (tp_points s) \<union> down_points now0\<rparr>)"
    "length now0 = ?n" "down_points now0 = point_of ?n d ` {..<m}"
    using Suc.IH [OF _ f0] Suc.prems(1) by simp_all
  have k: "?k < ?n"
    using Suc.prems(1) by (intro point_of_less) simp
  have fresh: "?k \<notin> down_points now0"
  proof
    assume "?k \<in> down_points now0"
    then obtain j where "j < m" "point_of ?n d j = ?k"
      using IH(3) by auto
    moreover have "j \<in> {..<min (td_count d) ?n}" "m \<in> {..<min (td_count d) ?n}"
      using \<open>j < m\<close> Suc.prems(1) by auto
    ultimately have "j = m"
      using inj unfolding sample_ok_def by (blast dest: inj_onD)
    then show False using \<open>j < m\<close> by simp
  qed
  let ?x = "screen_x (rp_x (td_reports d m))" and ?y = "screen_y (rp_y (td_reports d m))"
  have step: "see_finger s d m (now0, es0) = (now, es)"
    using Suc.prems(2) f0 by simp
  have now: "now = now0[?k := \<lparr>pt_active = True, pt_x = ?x, pt_y = ?y\<rparr>]"
    and es: "es = (if \<not> pt_active (tp_points s ! ?k) then es0 @ [send_touch_event s Touch_down ?k ?x ?y 1]
        else if pt_x (tp_points s ! ?k) \<noteq> ?x \<or> pt_y (tp_points s ! ?k) \<noteq> ?y
          then es0 @ [send_touch_event s Touch_move ?k ?x ?y 1] else es0)"
    using step by (simp_all add: see_finger_def Let_def)
  have down: "down_points now = insert ?k (down_points now0)"
    unfolding now by (rule down_update) (use k IH(2) in simp_all)
  have active: "pt_active (tp_points s ! ?k) \<longleftrightarrow> ?k \<in> down_points (tp_points s)"
    using k by (simp add: down_points_def)
  have "accept hand_rule h (sent es) = Some (h\<lparr>hh_touches := down_points (tp_points s) \<union> down_points now\<rparr>)"
    using IH(1) fresh active unfolding es down
    by (auto simp: accept_append hand_touch touch_rule_def insert_absorb)
  then show ?case
    using IH(2,3) down unfolding now by (auto simp: lessThan_Suc)
qed

lemma process_touch_points_accepted:
  assumes rel: "touch_rel s h" and ok: "sample_ok (length (tp_points s)) d" and mode: "tp_mode s = 1 \<or> tp_mode s = 3"
    and active: "tp_active s" and run: "process_touch_points s d = (es, s')"
  shows "\<exists>h'. accept hand_rule h (sent es) = Some h' \<and> touch_rel s' h'"
proof -
  let ?n = "length (tp_points s)"
  obtain now es0 where f: "fold (see_finger s d) [0..<min (td_count d) ?n] (replicate ?n point_zero, []) = (now, es0)"
    by fastforce
  let ?ups = "filter (\<lambda>i. pt_active (tp_points s ! i) \<and> \<not> pt_active (now ! i)) [0..<?n]"
  have T: "hh_touches h = down_points (tp_points s)"
    using rel by (simp add: touch_rel_def)
  have first: "accept hand_rule h (sent es0) = Some (h\<lparr>hh_touches := down_points (tp_points s) \<union> down_points now\<rparr>)"
    "length now = ?n"
    using see_fingers_accepted [OF T ok order.refl f] by simp_all
  have ups: "set ?ups = down_points (tp_points s) - down_points now"
    using first(2) by (auto simp: down_points_def)
  let ?h = "h\<lparr>hh_touches := down_points (tp_points s) \<union> down_points now\<rparr>"
  have "accept hand_rule ?h (sent (map (send_up s) ?ups)) = Some (?h\<lparr>hh_touches := hh_touches ?h - set ?ups\<rparr>)"
    by (rule accept_ups) (use ups in auto)
  moreover have "hh_touches ?h - set ?ups = down_points now"
    using ups by auto
  ultimately have second: "accept hand_rule ?h (sent (map (send_up s) ?ups)) = Some (h\<lparr>hh_touches := down_points now\<rparr>)"
    by simp
  have es: "es = es0 @ map (send_up s) ?ups" and s': "s' = s\<lparr>tp_points := now\<rparr>"
    using run f by (auto simp: process_touch_points_def Let_def)
  have "accept hand_rule h (sent es) = Some (h\<lparr>hh_touches := down_points now\<rparr>)"
    unfolding es sent_simps accept_append using first second by simp
  moreover have "touch_rel s' (h\<lparr>hh_touches := down_points now\<rparr>)"
    using rel mode active unfolding s' by (auto simp: touch_rel_def)
  ultimately show ?thesis by blast
qed

lemma process_absolute_mouse_accepted:
  assumes rel: "touch_rel s h" and "tp_mode s = 2" "tp_active s" and run: "process_absolute_mouse s d = (es, s')"
  shows "\<exists>h'. accept hand_rule h (sent es) = Some h' \<and> touch_rel s' h'"
proof -
  have h: "h = \<lparr>hh_touches = {}, hh_left = tp_left s\<rparr>" "down_points (tp_points s) = {}"
    using rel assms(2) by (auto simp: touch_rel_def)
  have "accept hand_rule h (sent es) = Some (h\<lparr>hh_left := tp_left s'\<rparr>) \<and> tp_points s' = tp_points s \<and>
      tp_mode s' = 2 \<and> tp_active s' \<and> tp_initialized s' = tp_initialized s"
    using run assms(2,3) h unfolding process_absolute_mouse_def Let_def
    by (auto split: if_splits)
  then show ?thesis using h rel assms(3) by (auto simp: touch_rel_def)
qed

lemma touch_init_rel: "touch_rel s h \<Longrightarrow> touch_rel (touch_init s) h \<and> tp_initialized (touch_init s)"
  by (auto simp: touch_init_def touch_rel_def)

text \<open>After the release, the host holds nothing.\<close>

lemma released_rel:
  assumes "touch_rel s h" "release_touch_state s = (es, s')"
  shows "accept hand_rule h (sent es) = Some hand_start" "tp_initialized s \<Longrightarrow> touch_rel (s'\<lparr>tp_active := b\<rparr>) hand_start"
proof -
  have "tp_initialized s' = tp_initialized s"
    using assms(2) by (auto simp: release_touch_state_def)
  then show "accept hand_rule h (sent es) = Some hand_start"
    "tp_initialized s \<Longrightarrow> touch_rel (s'\<lparr>tp_active := b\<rparr>) hand_start"
    using release_accepted [OF assms] by (auto simp: touch_rel_def hand_start_def)
qed

lemma touch_stop_accepted:
  assumes "touch_rel s h" "touch_stop s = (es, s')"
  shows "accept hand_rule h (sent es) = Some hand_start" "touch_rel s' hand_start"
proof -
  have "h = hand_start" "es = []" "s' = s" if "\<not> tp_active s"
    using that assms by (auto simp: touch_stop_def touch_rel_def hand_start_def)
  moreover have "accept hand_rule h (sent es) = Some hand_start \<and> touch_rel s' hand_start" if a: "tp_active s"
  proof -
    obtain s1 where rel: "release_touch_state s = (es, s1)" "s' = s1\<lparr>tp_active := False\<rparr>"
      using a assms(2) by (auto simp: touch_stop_def release_touch_state_def send_up_def send_touch_event_def)
    then show ?thesis
      using released_rel(1) [OF assms(1) rel(1)] released_rel(2) [OF assms(1) rel(1), of False] a assms(1)
      by (simp add: touch_rel_def)
  qed
  ultimately show "accept hand_rule h (sent es) = Some hand_start" "touch_rel s' hand_start"
    using assms(1) by (cases "tp_active s"; auto)+
qed

lemma touch_step_accepted:
  assumes rel: "touch_rel s h" and ok: "touch_ok s x" and step: "touch_step s x = (es, s')"
  shows "\<exists>h'. accept hand_rule h (sent es) = Some h' \<and> touch_rel s' h'"
proof (cases x)
  case (Touch_configure mode acceleration)
  then show ?thesis
    using assms by (auto simp: touch_configure_def touch_rel_def Let_def)
next
  case Touch_start
  note i = touch_init_rel [OF rel]
  obtain s1 where "release_touch_state (touch_init s) = (es, s1)" "s' = s1\<lparr>tp_active := True\<rparr>"
    using step Touch_start by (auto simp: touch_start_def split: prod.splits)
  then show ?thesis
    using released_rel [of "touch_init s" h] i by auto
next
  case Touch_stop
  then show ?thesis
    using touch_stop_accepted [OF rel] step by auto
next
  case (Touch_process sample)
  show ?thesis
  proof (cases "tp_active s \<and> sample \<noteq> None \<and> (tp_mode s = 1 \<or> tp_mode s = 2 \<or> tp_mode s = 3)")
    case True
    then obtain d where d: "sample = Some d" by blast
    show ?thesis
    proof (cases "tp_mode s = 2")
      case mode: True
      then show ?thesis
        using True d step Touch_process process_absolute_mouse_accepted [OF rel mode]
        by (auto simp: touch_process_def)
    next
      case False
      then show ?thesis
        using True d step ok Touch_process process_touch_points_accepted [OF rel]
        by (auto simp: touch_process_def)
    qed
  next
    case False
    then have "es = []" "s' = s"
      using step Touch_process by (auto simp: touch_process_def split: option.splits if_splits)
    then show ?thesis using rel by simp
  qed
qed

lemma touch_act_obeys:
  assumes "accept hand_rule hand_start history = Some h" "touch_rel s h" "touch_ok s x"
    "touch_act s x history = (s', history')"
  shows "\<exists>h'. accept hand_rule hand_start history' = Some h' \<and> touch_rel s' h'"
proof -
  obtain es where "touch_step s x = (es, s')" "history' = history @ sent es"
    using assms(4) by (auto simp: touch_act_def split: prod.splits)
  then show ?thesis
    using touch_step_accepted [OF assms(2,3)] assms(1) by (auto simp: accept_append)
qed

interpretation touch: client touch_act hand_rule hand_start touch_rel touch_ok
  by unfold_locales (rule touch_act_obeys)







text \<open>The amount of a scroll fits a signed byte, and is the nearest integer to an eighth of the way times the multiplier.\<close>

lemma scroll_of_range: "- 127 \<le> scroll_of m d" "scroll_of m d \<le> 127"
  by (auto simp: scroll_of_def Let_def)

lemma floor_half_nearest: "\<bar>of_int \<lfloor>x + 1 / 2\<rfloor> - (x :: real)\<bar> \<le> 1 / 2"
proof -
  have "of_int \<lfloor>x + 1 / 2\<rfloor> \<le> x + 1 / 2" "x + 1 / 2 < of_int \<lfloor>x + 1 / 2\<rfloor> + 1"
    by linarith+
  then show ?thesis by linarith
qed

lemma lround_nearest: "\<bar>of_int (lround x) - x\<bar> \<le> 1 / 2"
  using floor_half_nearest [of x] floor_half_nearest [of "- x"]
  by (auto simp: lround_def add.commute abs_minus_commute)

end
