(* ===== verification/Input.thy ===== *)
theory Input imports Touch Simulation begin
unbundle bit_operations_syntax

text \<open>
  The controller input (\<open>src/moonlight/vita_input.c\<close>): sampling the pad and the touch panels, the PS
  button, the system's own user interface, the mapping file, and starting and stopping with the stream.

  Button masks of the SDK are sets of buttons. A controller sample has, besides the buttons and the sticks, the
  rest of its structure (the time stamp), because samples are compared as bytes. The clock, the firmware, the
  other components and the host are the other side of the calls, in one log, so that the theorems can speak of
  what is sent in which situation. Times are 64-bit words; 0 stands for \<open>not set\<close> in the variables. Log
  messages are left out.
\<close>

section \<open>Data\<close>

datatype pad_button =
    Pad_up | Pad_down | Pad_left | Pad_right | Pad_start | Pad_select | Pad_triangle | Pad_circle
  | Pad_cross | Pad_square | Pad_l1 | Pad_r1 | Pad_ps

record pad =
  pd_buttons :: "pad_button set"
  pd_lx :: u8
  pd_ly :: u8
  pd_rx :: u8
  pd_ry :: u8
  pd_rest :: nat

definition pad_zero :: pad where
  "pad_zero = \<lparr>pd_buttons = {}, pd_lx = 0, pd_ly = 0, pd_rx = 0, pd_ry = 0, pd_rest = 0\<rparr>"

definition without_ps :: "pad \<Rightarrow> pad" where
  "without_ps p = p\<lparr>pd_buttons := pd_buttons p - {Pad_ps}\<rparr>"

datatype back_zone = Back_northwest | Back_northeast | Back_southwest | Back_southeast

text \<open>The host's buttons for the four face buttons.\<close>

record faces =
  fc_cross :: host_flag
  fc_circle :: host_flag
  fc_square :: host_flag
  fc_triangle :: host_flag

definition default_faces :: faces where
  "default_faces = \<lparr>fc_cross = A_FLAG, fc_circle = B_FLAG, fc_square = X_FLAG, fc_triangle = Y_FLAG\<rparr>"

text \<open>The state of the PS button.\<close>

record ps_button =
  ps_release_time :: u64
  ps_press_time :: u64
  ps_single_pending :: bool
  ps_physical_old :: bool
  ps_host_pulse :: nat

definition ps_reset :: ps_button where
  "ps_reset = \<lparr>ps_release_time = 0, ps_press_time = 0, ps_single_pending = False, ps_physical_old = False, ps_host_pulse = 0\<rparr>"

record input =
  ip_active :: bool
  ip_thread_started :: bool
  ip_controller_type :: controller_type
  ip_swap_shoulders :: bool
  ip_ps_capture :: bool
  ip_ps_locked :: bool
  ip_shell_events :: bool
  ip_shell_handler :: bool
  ip_ps :: ps_button
  ip_shell_ps_edge :: bool
  ip_app_poll_time :: u64
  ip_app_error_time :: u64
  ip_ui_overlaid :: bool
  ip_app_state_known :: bool
  ip_release_sent :: bool
  ip_ignore_ps :: bool
  ip_touchscreen_mode :: int
  ip_motion_enabled :: bool
  ip_dead_top :: int
  ip_dead_right :: int
  ip_dead_bottom :: int
  ip_dead_left :: int
  ip_front_zones :: bool
  ip_double_tap_sprint :: bool
  ip_double_tap_ms :: u64
  ip_keyboard_layout :: int
  ip_keyboard_request :: bool
  ip_zone_latched :: bool
  ip_last_sprint_tap :: u64
  ip_sprint_forward :: bool
  ip_faces :: faces
  ip_pad :: pad
  ip_pad_old :: pad
  ip_back :: touch_data
  ip_back_old :: "back_zone set"

definition touch_none :: touch_data where
  "touch_none = \<lparr>td_count = 0, td_reports = (\<lambda>_. \<lparr>rp_id = 0, rp_x = 0, rp_y = 0\<rparr>)\<rparr>"

definition input_boot :: input where
  "input_boot = \<lparr>ip_active = False, ip_thread_started = False, ip_controller_type = Playstation,
     ip_swap_shoulders = False, ip_ps_capture = True, ip_ps_locked = False, ip_shell_events = False,
     ip_shell_handler = False, ip_ps = ps_reset, ip_shell_ps_edge = False, ip_app_poll_time = 0,
     ip_app_error_time = 0, ip_ui_overlaid = False, ip_app_state_known = False, ip_release_sent = False,
     ip_ignore_ps = False, ip_touchscreen_mode = 0, ip_motion_enabled = False, ip_dead_top = 0, ip_dead_right = 0,
     ip_dead_bottom = 0, ip_dead_left = 0, ip_front_zones = False, ip_double_tap_sprint = False,
     ip_double_tap_ms = 200, ip_keyboard_layout = 0, ip_keyboard_request = False, ip_zone_latched = False,
     ip_last_sprint_tap = 0, ip_sprint_forward = False, ip_faces = default_faces, ip_pad = pad_zero,
     ip_pad_old = pad_zero, ip_back = touch_none, ip_back_old = {}\<rparr>"

datatype input_call =
    System_time | App_state | Set_sampling_mode | Peek_ext2 | Peek_ext | Peek_back | Peek_front
  | Send host_event | Stream_stop
  | Create_input_thread | Start_input_thread int | Delete_input_thread int
  | Controller_light | Init_events | Register_handler | Lock_ps | Unlock_ps
  | Touch_component_configure int int | Touch_component_start | Touch_component_stop | Touch_component_process
  | Motion_component_start bool | Motion_component_stop
  | Motion_component_set_state nat nat u16
  | Open_mapping | Make_directory | Create_mapping | Write_mapping int string | Read_mapping int | Close_mapping int

record input_answer =
  ia_result :: int
  ia_time :: u64
  ia_flag :: bool
  ia_pad :: pad
  ia_touch :: touch_data
  ia_text :: string

type_synonym input_env = "(input_call, input_answer) env"
type_synonym 'x input_prog = "(input, input_call, input_answer, 'x) prog"

section \<open>Conversions\<close>

definition axis_to_limelight :: "u8 \<Rightarrow> int" where
  "axis_to_limelight v = uint v * 256 - 2 ^ 15 + 128"

definition controller_type_of :: "int \<Rightarrow> controller_type" where
  "controller_type_of t = (if t = 1 then Xbox else if t = 2 then Playstation else if t = 3 then Nintendo
     else if t = 4 then Unknown_type else Playstation)"

text \<open>The zone of one contact on the back panel; \<open>None\<close> in the dead zones.\<close>

definition back_zone_of :: "input \<Rightarrow> touch_report \<Rightarrow> back_zone option" where
  "back_zone_of s r =
     (let vertical = (960 - ip_dead_left s - ip_dead_right s) sdiv 2 + ip_dead_left s;
          horizontal = (544 - ip_dead_top s - ip_dead_bottom s) sdiv 2 + ip_dead_top s;
          x = screen_x (rp_x r); y = screen_y (rp_y r)
      in if x < ip_dead_left s \<or> x > 960 - ip_dead_right s \<or> y < ip_dead_top s \<or> y > 544 - ip_dead_bottom s then None
         else if x \<le> vertical \<and> y \<le> horizontal then Some Back_northwest
         else if x > vertical \<and> y \<le> horizontal then Some Back_northeast
         else if x \<le> vertical \<and> y > horizontal then Some Back_southwest
         else Some Back_southeast)"

definition read_back_touch :: "nat \<Rightarrow> input \<Rightarrow> touch_data \<Rightarrow> back_zone set" where
  "read_back_touch n s back =
     fold (\<lambda>i zones. case back_zone_of s (td_reports back i) of None \<Rightarrow> zones | Some z \<Rightarrow> insert z zones)
       [0..<min (td_count back) n] {}"

section \<open>Sending the state of the pad\<close>

definition when_in :: "'b \<Rightarrow> 'b set \<Rightarrow> 'c \<Rightarrow> 'c set" where
  "when_in b B f = (if b \<in> B then {f} else {})"

definition pad_flags :: "input \<Rightarrow> back_zone set \<Rightarrow> host_flag set" where
  "pad_flags s back =
     (let B = pd_buttons (ip_pad s); fc = ip_faces s in
      when_in Pad_up B UP_FLAG \<union> when_in Pad_down B DOWN_FLAG \<union> when_in Pad_left B LEFT_FLAG \<union>
      when_in Pad_right B RIGHT_FLAG \<union> when_in Pad_start B PLAY_FLAG \<union> when_in Pad_select B BACK_FLAG \<union>
      (if ip_ps_capture s \<and> ps_host_pulse (ip_ps s) = 1 then {SPECIAL_FLAG} else {}) \<union>
      when_in Pad_triangle B (fc_triangle fc) \<union> when_in Pad_circle B (fc_circle fc) \<union>
      when_in Pad_cross B (fc_cross fc) \<union> when_in Pad_square B (fc_square fc) \<union>
      (if ip_swap_shoulders s then when_in Back_northwest back LB_FLAG \<union> when_in Back_northeast back RB_FLAG
       else when_in Pad_l1 B LB_FLAG \<union> when_in Pad_r1 B RB_FLAG) \<union>
      when_in Back_southwest back LS_CLK_FLAG \<union> when_in Back_southeast back RS_CLK_FLAG)"

definition pad_triggers :: "input \<Rightarrow> back_zone set \<Rightarrow> nat \<times> nat" where
  "pad_triggers s back =
     (let B = pd_buttons (ip_pad s) in
      if ip_swap_shoulders s then (if Pad_l1 \<in> B then 255 else 0, if Pad_r1 \<in> B then 255 else 0)
      else (if Back_northwest \<in> back then 255 else 0, if Back_northeast \<in> back then 255 else 0))"

text \<open>The double tap of the left stick, forward: is the stick clicked, and the variables.\<close>

definition sprint :: "u64 \<Rightarrow> input \<Rightarrow> bool \<times> input" where
  "sprint now s =
     (let forward = pd_ly (ip_pad s) > 200 in
      if forward \<and> \<not> ip_sprint_forward s then
        if ip_last_sprint_tap s \<noteq> 0 \<and> now - ip_last_sprint_tap s \<le> ip_double_tap_ms s * 1000
        then (True, s\<lparr>ip_last_sprint_tap := 0, ip_sprint_forward := forward\<rparr>)
        else (False, s\<lparr>ip_last_sprint_tap := now, ip_sprint_forward := forward\<rparr>)
      else (False, s\<lparr>ip_sprint_forward := forward\<rparr>))"

definition pad_event_of :: "input \<Rightarrow> back_zone set \<Rightarrow> bool \<Rightarrow> pad_event" where
  "pad_event_of s back click =
     \<lparr>pe_buttons = pad_flags s back \<union> (if click then {LS_CLK_FLAG} else {}),
      pe_left_trigger = fst (pad_triggers s back), pe_right_trigger = snd (pad_triggers s back),
      pe_lx = axis_to_limelight (pd_lx (ip_pad s)), pe_ly = - axis_to_limelight (pd_ly (ip_pad s)),
      pe_rx = axis_to_limelight (pd_rx (ip_pad s)), pe_ry = - axis_to_limelight (pd_ry (ip_pad s))\<rparr>"

definition input_send :: "input_env \<Rightarrow> back_zone set \<Rightarrow> unit input_prog" where
  "input_send env back = do {
     tap \<leftarrow> look ip_double_tap_sprint;
     click \<leftarrow> (if tap then do {
                 a \<leftarrow> ask env System_time;
                 c \<leftarrow> look (\<lambda>s. fst (sprint (ia_time a) s));
                 _ \<leftarrow> modify (\<lambda>s. snd (sprint (ia_time a) s));
                 State_Monad.return c
               } else State_Monad.return False);
     e \<leftarrow> look (\<lambda>s. pad_event_of s back click);
     _ \<leftarrow> ask env (Send (Controller e));
     skip
   }"

section \<open>The system's user interface\<close>

definition due :: "u64 \<Rightarrow> u64 \<Rightarrow> u64 \<Rightarrow> bool" where
  "due prev now period \<longleftrightarrow> prev = 0 \<or> now < prev \<or> now - prev \<ge> period"

definition system_ui_overlaid :: "input_env \<Rightarrow> bool input_prog" where
  "system_ui_overlaid env = do {
     a \<leftarrow> ask env System_time;
     prev \<leftarrow> look ip_app_poll_time;
     _ \<leftarrow> (if due prev (ia_time a) 10000 then do {
             r \<leftarrow> ask env App_state;
             _ \<leftarrow> modify (ip_app_poll_time_update (\<lambda>_. ia_time a));
             if ia_result r \<ge> 0 then modify (\<lambda>s. s\<lparr>ip_ui_overlaid := ia_flag r, ip_app_state_known := True\<rparr>)
             else modify (\<lambda>s. if due (ip_app_error_time s) (ia_time a) 1000000 then s\<lparr>ip_app_error_time := ia_time a\<rparr> else s)
           } else skip);
     look (\<lambda>s. ip_app_state_known s \<and> ip_ui_overlaid s)
   }"

definition axis_center :: int where "axis_center = axis_to_limelight 128"

definition pad_released :: pad_event where
  "pad_released = \<lparr>pe_buttons = {}, pe_left_trigger = 0, pe_right_trigger = 0, pe_lx = axis_center, pe_ly = - axis_center,
     pe_rx = axis_center, pe_ry = - axis_center\<rparr>"

definition suppress_for_system_ui :: "nat \<Rightarrow> input_env \<Rightarrow> unit input_prog" where
  "suppress_for_system_ui n env = do {
     _ \<leftarrow> modify (ip_ignore_ps_update (\<lambda>_. True));
     already \<leftarrow> look ip_release_sent;
     _ \<leftarrow> (if already then skip
           else do { _ \<leftarrow> ask env (Send (Controller pad_released)); modify (ip_release_sent_update (\<lambda>_. True)) });
     p \<leftarrow> ask env Peek_ext2;
     b \<leftarrow> ask env Peek_back;
     modify (\<lambda>s. let s = s\<lparr>ip_pad := without_ps (ia_pad p), ip_back := ia_touch b\<rparr> in
       s\<lparr>ip_pad_old := ip_pad s, ip_back_old := read_back_touch n s (ip_back s), ip_ps := ps_reset, ip_shell_ps_edge := False\<rparr>)
   }"

section \<open>The zones of the front panel\<close>

definition zone_event :: "host_flag \<Rightarrow> pad_event" where
  "zone_event f = \<lparr>pe_buttons = {f}, pe_left_trigger = 0, pe_right_trigger = 0, pe_lx = 0, pe_ly = 0, pe_rx = 0, pe_ry = 0\<rparr>"

definition zone_pressed :: "input_env \<Rightarrow> touch_report \<Rightarrow> unit input_prog" where
  "zone_pressed env r =
     (let x = screen_x (rp_x r); y = screen_y (rp_y r) in
      if x < 140 \<and> y < 100 then modify (ip_keyboard_request_update (\<lambda>_. True))
      else if x > 820 \<and> y < 100 then do {
        _ \<leftarrow> ask env (Send (Mouse True Mouse_right));
        _ \<leftarrow> ask env (Send (Mouse False Mouse_right));
        skip
      }
      else if x < 140 \<and> y > 444 then do { _ \<leftarrow> ask env (Send (Controller (zone_event LS_CLK_FLAG))); skip }
      else if x > 820 \<and> y > 444 then do { _ \<leftarrow> ask env (Send (Controller (zone_event RS_CLK_FLAG))); skip }
      else skip)"

definition front_zones :: "input_env \<Rightarrow> unit input_prog" where
  "front_zones env = do {
     on \<leftarrow> look (\<lambda>s. ip_front_zones s \<and> ip_touchscreen_mode s = 0);
     if \<not> on then skip
     else do {
       f \<leftarrow> ask env Peek_front;
       if ia_result f \<ge> 0 \<and> td_count (ia_touch f) > 0 then do {
         latched \<leftarrow> look ip_zone_latched;
         if latched then skip
         else do {
           _ \<leftarrow> modify (ip_zone_latched_update (\<lambda>_. True));
           zone_pressed env (td_reports (ia_touch f) 0)
         }
       }
       else modify (ip_zone_latched_update (\<lambda>_. False))
     }
   }"

section \<open>The PS button\<close>

text \<open>
  What a sample does to the state of the button when it is captured; \<open>True\<close> is the double press that stops the
  stream.
\<close>

definition ps_edge :: "bool \<Rightarrow> u64 \<Rightarrow> ps_button \<Rightarrow> ps_button" where
  "ps_edge pressed now b =
     (if pressed \<and> \<not> ps_physical_old b then b\<lparr>ps_press_time := now, ps_single_pending := True, ps_release_time := 0\<rparr>
      else if pressed \<and> ps_single_pending b \<and> ps_press_time b \<noteq> 0 \<and> now \<ge> ps_press_time b \<and> now - ps_press_time b \<ge> 500000
        then b\<lparr>ps_single_pending := False, ps_release_time := 0\<rparr>
      else if \<not> pressed \<and> ps_physical_old b then
        (if ps_single_pending b then
           if ps_press_time b \<noteq> 0 \<and> now \<ge> ps_press_time b \<and> now - ps_press_time b \<ge> 500000
           then b\<lparr>ps_single_pending := False, ps_release_time := 0\<rparr> else b\<lparr>ps_release_time := now\<rparr>
         else b)\<lparr>ps_press_time := 0\<rparr>
      else b)"

definition ps_timeout :: "bool \<Rightarrow> u64 \<Rightarrow> ps_button \<Rightarrow> ps_button" where
  "ps_timeout pressed now b =
     (if ps_single_pending b \<and> \<not> pressed \<and> ps_release_time b \<noteq> 0 \<and> now \<ge> ps_release_time b \<and>
         now - ps_release_time b > 250000
      then b\<lparr>ps_single_pending := False, ps_release_time := 0, ps_host_pulse := 1\<rparr> else b)"

definition ps_capture :: "bool \<Rightarrow> u64 \<Rightarrow> ps_button \<Rightarrow> bool \<times> ps_button" where
  "ps_capture pressed now b =
     (if pressed \<and> \<not> ps_physical_old b \<and> ps_single_pending b \<and> ps_release_time b \<noteq> 0 \<and> now \<ge> ps_release_time b \<and>
         now - ps_release_time b \<le> 250000
      then (True, \<lparr>ps_release_time = 0, ps_press_time = 0, ps_single_pending = False, ps_physical_old = pressed, ps_host_pulse = 0\<rparr>)
      else (False, (ps_timeout pressed now (ps_edge pressed now b))\<lparr>ps_physical_old := pressed\<rparr>))"

section \<open>One round of the input thread\<close>

text \<open>
  The sample of the PS button: from either polling call, or from the shell's event; nothing while PS is
  ignored, which ends when both calls see it released.
\<close>

definition sample_ps :: "pad \<Rightarrow> pad \<Rightarrow> input \<Rightarrow> bool \<times> input" where
  "sample_ps ext2 probe s =
     (let raw = Pad_ps \<in> pd_buttons ext2 \<union> pd_buttons probe in
      if ip_ignore_ps s then
        (False, s\<lparr>ip_pad := without_ps ext2, ip_ps := ps_reset, ip_shell_ps_edge := False, ip_ignore_ps := raw\<rparr>)
      else if \<not> raw \<and> ip_shell_ps_edge s then (True, s\<lparr>ip_pad := ext2, ip_shell_ps_edge := False\<rparr>)
      else (raw, s\<lparr>ip_pad := ext2\<rparr>))"

text \<open>A pulse of the host's special button is sent once pressed, and once released.\<close>

definition advance_pulse :: "ps_button \<Rightarrow> ps_button" where
  "advance_pulse b = b\<lparr>ps_host_pulse := (if ps_host_pulse b = 1 then 2 else if ps_host_pulse b = 2 then 0 else ps_host_pulse b)\<rparr>"

definition finish_round :: "nat \<Rightarrow> input_env \<Rightarrow> unit input_prog" where
  "finish_round n env = do {
     back \<leftarrow> look (\<lambda>s. read_back_touch n s (ip_back s));
     changed \<leftarrow> look (\<lambda>s. ip_pad s \<noteq> ip_pad_old s \<or> back \<noteq> ip_back_old s \<or> ps_host_pulse (ip_ps s) \<noteq> 0);
     _ \<leftarrow> (if changed then do {
             _ \<leftarrow> input_send env back;
             modify (\<lambda>s. s\<lparr>ip_ps := advance_pulse (ip_ps s), ip_pad_old := ip_pad s, ip_back_old := back\<rparr>)
           } else skip);
     _ \<leftarrow> ask env Touch_component_process;
     skip
   }"

text \<open>
  In the code the shell's edge is consumed after the zones of the front panel have been looked at, which do not
  touch it. \<open>n\<close> is the size of the report array.
\<close>

definition input_round :: "nat \<Rightarrow> input_env \<Rightarrow> unit input_prog" where
  "input_round n env = do {
     _ \<leftarrow> modify (ip_release_sent_update (\<lambda>_. False));
     _ \<leftarrow> ask env Set_sampling_mode;
     p \<leftarrow> ask env Peek_ext2;
     q \<leftarrow> ask env Peek_ext;
     pressed \<leftarrow> look (\<lambda>s. fst (sample_ps (ia_pad p) (ia_pad q) s));
     _ \<leftarrow> modify (\<lambda>s. snd (sample_ps (ia_pad p) (ia_pad q) s));
     b \<leftarrow> ask env Peek_back;
     _ \<leftarrow> modify (ip_back_update (\<lambda>_. ia_touch b));
     _ \<leftarrow> front_zones env;
     capture \<leftarrow> look ip_ps_capture;
     if \<not> capture then do {
       _ \<leftarrow> modify (\<lambda>s. s\<lparr>ip_ps := (ip_ps s)\<lparr>ps_physical_old := pressed\<rparr>\<rparr>);
       finish_round n env
     }
     else do {
       t \<leftarrow> ask env System_time;
       double \<leftarrow> look (\<lambda>s. fst (ps_capture pressed (ia_time t) (ip_ps s)));
       _ \<leftarrow> modify (\<lambda>s. s\<lparr>ip_pad := without_ps (ip_pad s), ip_ps := snd (ps_capture pressed (ia_time t) (ip_ps s))\<rparr>);
       if double then do { _ \<leftarrow> ask env Stream_stop; skip } else finish_round n env
     }
   }"

definition input_process :: "nat \<Rightarrow> input_env \<Rightarrow> unit input_prog" where
  "input_process n env = do {
     overlaid \<leftarrow> system_ui_overlaid env;
     if overlaid then suppress_for_system_ui n env else input_round n env
   }"

text \<open>The callback of the shell; \<open>ps_type\<close> says whether one of the PS lock bits is set.\<close>

definition shell_event_handler :: "int \<Rightarrow> int \<Rightarrow> bool \<Rightarrow> bool \<Rightarrow> input \<Rightarrow> input" where
  "shell_event_handler result mode type_zero ps_type s =
     (if ip_active s \<and> (ps_type \<or> result = 0 \<and> mode = 21 \<and> type_zero) then s\<lparr>ip_shell_ps_edge := True\<rparr> else s)"

section \<open>Starting and stopping\<close>

definition ensure_thread :: "input_env \<Rightarrow> unit input_prog" where
  "ensure_thread env = do {
     started \<leftarrow> look ip_thread_started;
     if started then skip
     else do {
       t \<leftarrow> ask env Create_input_thread;
       if ia_result t < 0 then skip
       else do {
         r \<leftarrow> ask env (Start_input_thread (ia_result t));
         if ia_result r < 0 then do { _ \<leftarrow> ask env (Delete_input_thread (ia_result t)); skip }
         else modify (ip_thread_started_update (\<lambda>_. True))
       }
     }
   }"

definition clamp_dead :: "int \<Rightarrow> int" where
  "clamp_dead v = (let v = if v < 0 then 0 else v in if v > 480 then 480 else v)"

definition input_configure :: "input_env \<Rightarrow> int \<Rightarrow> bool \<Rightarrow> bool \<Rightarrow> int \<Rightarrow> int \<Rightarrow> bool \<Rightarrow> int \<Rightarrow> int \<Rightarrow> int \<Rightarrow> int \<Rightarrow> int input_prog" where
  "input_configure env controller swap capture touchscreen acceleration motion d_top d_right d_bottom d_left = do {
     _ \<leftarrow> modify (\<lambda>s. s\<lparr>ip_controller_type := controller_type_of controller, ip_swap_shoulders := swap,
            ip_ps_capture := capture, ip_touchscreen_mode := touchscreen, ip_motion_enabled := motion,
            ip_dead_top := clamp_dead d_top, ip_dead_right := clamp_dead d_right, ip_dead_bottom := clamp_dead d_bottom,
            ip_dead_left := clamp_dead d_left\<rparr>);
     _ \<leftarrow> ask env (Touch_component_configure touchscreen acceleration);
     State_Monad.return 0
   }"

definition lock_ps_button :: "input_env \<Rightarrow> unit input_prog" where
  "lock_ps_button env = do {
     events \<leftarrow> look ip_shell_events;
     _ \<leftarrow> (if events then skip
           else do { r \<leftarrow> ask env Init_events;
                     if ia_result r = 0 then modify (ip_shell_events_update (\<lambda>_. True)) else skip });
     handler \<leftarrow> look ip_shell_handler;
     _ \<leftarrow> (if handler then skip
           else do { r \<leftarrow> ask env Register_handler;
                     if ia_result r = 0 then modify (ip_shell_handler_update (\<lambda>_. True)) else skip });
     r \<leftarrow> ask env Lock_ps;
     if ia_result r = 0 then modify (ip_ps_locked_update (\<lambda>_. True)) else skip
   }"

text \<open>The light: the answer's result is the function's, and its flag says whether the mode is not \<open>off\<close>.\<close>

definition input_start :: "input_env \<Rightarrow> unit input_prog" where
  "input_start env = do {
     _ \<leftarrow> ensure_thread env;
     _ \<leftarrow> modify (\<lambda>s. s\<lparr>ip_pad := pad_zero, ip_pad_old := pad_zero, ip_back := touch_none, ip_back_old := {},
            ip_ps := ps_reset, ip_shell_ps_edge := False, ip_ignore_ps := False\<rparr>);
     light \<leftarrow> ask env Controller_light;
     e \<leftarrow> look (\<lambda>s. Arrival (ip_controller_type s) (ip_touchscreen_mode s = 1)
            ({Analog_triggers} \<union> (if ia_result light = 0 \<and> ia_flag light then {Rgb_led} else {}) \<union>
             (if ip_touchscreen_mode s = 1 then {Touchpad} else {}) \<union>
             (if ip_motion_enabled s then {Gyroscope, Accelerometer} else {})));
     _ \<leftarrow> ask env (Send e);
     lock \<leftarrow> look (\<lambda>s. ip_ps_capture s \<and> \<not> ip_ps_locked s);
     _ \<leftarrow> (if lock then lock_ps_button env else skip);
     _ \<leftarrow> ask env Touch_component_start;
     motion \<leftarrow> look ip_motion_enabled;
     _ \<leftarrow> ask env (Motion_component_start motion);
     modify (ip_active_update (\<lambda>_. True))
   }"

definition pad_nothing :: pad_event where
  "pad_nothing = \<lparr>pe_buttons = {}, pe_left_trigger = 0, pe_right_trigger = 0, pe_lx = 0, pe_ly = 0, pe_rx = 0, pe_ry = 0\<rparr>"

definition input_stop :: "input_env \<Rightarrow> unit input_prog" where
  "input_stop env = do {
     _ \<leftarrow> modify (ip_active_update (\<lambda>_. False));
     _ \<leftarrow> ask env Touch_component_stop;
     _ \<leftarrow> ask env Motion_component_stop;
     _ \<leftarrow> ask env (Send (Controller pad_nothing));
     _ \<leftarrow> modify (\<lambda>s. s\<lparr>ip_pad := pad_zero, ip_pad_old := pad_zero, ip_ps := ps_reset, ip_shell_ps_edge := False,
            ip_ignore_ps := False\<rparr>);
     locked \<leftarrow> look ip_ps_locked;
     if locked then do { _ \<leftarrow> ask env Unlock_ps; modify (ip_ps_locked_update (\<lambda>_. False)) } else skip
   }"

definition input_set_motion_state :: "input_env \<Rightarrow> nat \<Rightarrow> nat \<Rightarrow> u16 \<Rightarrow> unit input_prog" where
  "input_set_motion_state env controller motion_type rate = do {
     _ \<leftarrow> ask env (Motion_component_set_state controller motion_type rate);
     skip
   }"

section \<open>The mapping file\<close>

definition face_flag :: "string \<Rightarrow> host_flag option" where
  "face_flag v = (if v = ''a'' then Some A_FLAG else if v = ''b'' then Some B_FLAG
     else if v = ''x'' then Some X_FLAG else if v = ''y'' then Some Y_FLAG else None)"

definition set_face :: "string \<Rightarrow> host_flag \<Rightarrow> faces \<Rightarrow> faces" where
  "set_face k f m = (if k = ''cross'' then m\<lparr>fc_cross := f\<rparr> else if k = ''circle'' then m\<lparr>fc_circle := f\<rparr>
     else if k = ''square'' then m\<lparr>fc_square := f\<rparr> else if k = ''triangle'' then m\<lparr>fc_triangle := f\<rparr> else m)"

text \<open>A line without its newline: the part before the first \<open>=\<close> is the key.\<close>

definition mapping_line :: "string \<Rightarrow> faces \<Rightarrow> faces" where
  "mapping_line line m =
     (if CHR ''='' \<notin> set line \<or> hd line = CHR ''#'' then m
      else let k = takeWhile (\<lambda>c. c \<noteq> CHR ''='') line; v = drop (Suc (length k)) line
           in case face_flag v of None \<Rightarrow> m | Some f \<Rightarrow> set_face k f m)"

text \<open>The loop over the buffer: the text up to the next newline, and what follows it.\<close>

function mapping_lines :: "string \<Rightarrow> faces \<Rightarrow> faces" where
  "mapping_lines [] m = m"
| "mapping_lines (c # cs) m =
     (let line = takeWhile (\<lambda>d. d \<noteq> CHR 0x0A) (c # cs)
      in mapping_lines (drop (Suc (length line)) (c # cs)) (mapping_line line m))"
  by pat_completeness auto
termination by (relation "measure (\<lambda>(cs, m). length cs)") auto

definition mapping_default_text :: string where
  "mapping_default_text = ''# physical=moonlight face button (a b x y)'' @ [CHR 0x0A] @ ''cross=a'' @ [CHR 0x0A] @
     ''circle=b'' @ [CHR 0x0A] @ ''square=x'' @ [CHR 0x0A] @ ''triangle=y'' @ [CHR 0x0A]"

definition write_default_mapping :: "input_env \<Rightarrow> unit input_prog" where
  "write_default_mapping env = do {
     _ \<leftarrow> ask env Make_directory;
     fd \<leftarrow> ask env Create_mapping;
     if ia_result fd \<ge> 0 then do {
       _ \<leftarrow> ask env (Write_mapping (ia_result fd) mapping_default_text);
       _ \<leftarrow> ask env (Close_mapping (ia_result fd));
       skip
     }
     else skip
   }"

definition input_load_mapping :: "input_env \<Rightarrow> bool \<Rightarrow> bool \<Rightarrow> unit input_prog" where
  "input_load_mapping env swap_xo enabled = do {
     _ \<leftarrow> modify (ip_faces_update (\<lambda>_. default_faces));
     if \<not> enabled then
       (if swap_xo then modify (ip_faces_update (\<lambda>m. m\<lparr>fc_cross := B_FLAG, fc_circle := A_FLAG\<rparr>)) else skip)
     else do {
       fd \<leftarrow> ask env Open_mapping;
       if ia_result fd < 0 then write_default_mapping env
       else do {
         r \<leftarrow> ask env (Read_mapping (ia_result fd));
         _ \<leftarrow> ask env (Close_mapping (ia_result fd));
         if ia_result r \<le> 0 then skip
         else modify (ip_faces_update (mapping_lines
           (takeWhile (\<lambda>c. c \<noteq> CHR 0x00) (take 1023 (take (nat (ia_result r)) (ia_text r))))))
       }
     }
   }"

definition input_set_runtime :: "input_env \<Rightarrow> bool \<Rightarrow> bool \<Rightarrow> bool \<Rightarrow> int \<Rightarrow> int \<Rightarrow> bool \<Rightarrow> unit input_prog" where
  "input_set_runtime env swap_xo zones double_tap ms layout enabled = do {
     _ \<leftarrow> modify (\<lambda>s. s\<lparr>ip_front_zones := zones, ip_double_tap_sprint := double_tap,
            ip_double_tap_ms := (if ms > 0 then word_of_int ms else 200), ip_keyboard_layout := layout\<rparr>);
     input_load_mapping env swap_xo enabled
   }"

definition consume_keyboard_request :: "input \<Rightarrow> bool \<times> input" where
  "consume_keyboard_request s = (ip_keyboard_request s, s\<lparr>ip_keyboard_request := False\<rparr>)"

section \<open>What the program may do to the system and the host\<close>

text \<open>
  \<open>iw_overlaid\<close>: the system's interface covers the program, by the last answer that was not an error. Then only
  releases may be sent and no touch is looked at. The input thread is created and started once, the PS button
  locked and unlocked in turn, and the mapping file closed by whoever opened it.
\<close>

record input_world =
  iw_overlaid :: bool
  iw_locked :: bool
  iw_fresh :: "int option"
  iw_running :: bool
  iw_file :: "int option"

definition input_world_start :: input_world where
  "input_world_start = \<lparr>iw_overlaid = False, iw_locked = False, iw_fresh = None, iw_running = False, iw_file = None\<rparr>"

fun input_rule :: "input_world \<Rightarrow> input_call \<Rightarrow> input_answer \<Rightarrow> input_world option" where
  "input_rule w App_state a = Some (if ia_result a \<ge> 0 then w\<lparr>iw_overlaid := ia_flag a\<rparr> else w)"
| "input_rule w (Send (Controller e)) a =
     (if iw_overlaid w \<and> e \<noteq> pad_released \<and> e \<noteq> pad_nothing then None else Some w)"
| "input_rule w (Send (Arrival _ _ _)) a = Some w"
| "input_rule w (Send _) a = (if iw_overlaid w then None else Some w)"
| "input_rule w Touch_component_process a = (if iw_overlaid w then None else Some w)"
| "input_rule w Lock_ps a = (if iw_locked w then None else Some (w\<lparr>iw_locked := ia_result a = 0\<rparr>))"
| "input_rule w Unlock_ps a = (if iw_locked w then Some (w\<lparr>iw_locked := False\<rparr>) else None)"
| "input_rule w Create_input_thread a =
     (if iw_running w \<or> iw_fresh w \<noteq> None then None
      else Some (if ia_result a < 0 then w else w\<lparr>iw_fresh := Some (ia_result a)\<rparr>))"
| "input_rule w (Start_input_thread u) a =
     (if iw_fresh w \<noteq> Some u then None else Some (if ia_result a < 0 then w else w\<lparr>iw_fresh := None, iw_running := True\<rparr>))"
| "input_rule w (Delete_input_thread u) a = (if iw_fresh w = Some u then Some (w\<lparr>iw_fresh := None\<rparr>) else None)"
| "input_rule w Open_mapping a =
     (if iw_file w \<noteq> None then None else Some (if ia_result a < 0 then w else w\<lparr>iw_file := Some (ia_result a)\<rparr>))"
| "input_rule w Create_mapping a =
     (if iw_file w \<noteq> None then None else Some (if ia_result a < 0 then w else w\<lparr>iw_file := Some (ia_result a)\<rparr>))"
| "input_rule w (Write_mapping u _) a = (if iw_file w = Some u then Some w else None)"
| "input_rule w (Read_mapping u) a = (if iw_file w = Some u then Some w else None)"
| "input_rule w (Close_mapping u) a = (if iw_file w = Some u then Some (w\<lparr>iw_file := None\<rparr>) else None)"
| "input_rule w _ a = Some w"

definition input_view :: "input \<Rightarrow> input_world" where
  "input_view s = \<lparr>iw_overlaid = (ip_app_state_known s \<and> ip_ui_overlaid s), iw_locked = ip_ps_locked s, iw_fresh = None,
     iw_running = ip_thread_started s, iw_file = None\<rparr>"

definition input_rel :: "input \<Rightarrow> input_world \<Rightarrow> bool" where
  "input_rel s w \<longleftrightarrow> w = input_view s"

abbreviation input_safe where
  "input_safe \<equiv> safe input_rule input_world_start"

text \<open>The variables that the relation does not read.\<close>

lemma input_rel_upd [simp]:
  "input_rel (ip_active_update f1 s) w = input_rel s w"
  "input_rel (ip_controller_type_update f2 s) w = input_rel s w"
  "input_rel (ip_swap_shoulders_update f3 s) w = input_rel s w"
  "input_rel (ip_ps_capture_update f4 s) w = input_rel s w"
  "input_rel (ip_shell_events_update f5 s) w = input_rel s w"
  "input_rel (ip_shell_handler_update f6 s) w = input_rel s w"
  "input_rel (ip_ps_update f7 s) w = input_rel s w"
  "input_rel (ip_shell_ps_edge_update f8 s) w = input_rel s w"
  "input_rel (ip_app_poll_time_update f9 s) w = input_rel s w"
  "input_rel (ip_app_error_time_update f10 s) w = input_rel s w"
  "input_rel (ip_release_sent_update f11 s) w = input_rel s w"
  "input_rel (ip_ignore_ps_update f12 s) w = input_rel s w"
  "input_rel (ip_touchscreen_mode_update f13 s) w = input_rel s w"
  "input_rel (ip_motion_enabled_update f14 s) w = input_rel s w"
  "input_rel (ip_dead_top_update f15 s) w = input_rel s w"
  "input_rel (ip_dead_right_update f16 s) w = input_rel s w"
  "input_rel (ip_dead_bottom_update f17 s) w = input_rel s w"
  "input_rel (ip_dead_left_update f18 s) w = input_rel s w"
  "input_rel (ip_front_zones_update f19 s) w = input_rel s w"
  "input_rel (ip_double_tap_sprint_update f20 s) w = input_rel s w"
  "input_rel (ip_double_tap_ms_update f21 s) w = input_rel s w"
  "input_rel (ip_keyboard_layout_update f22 s) w = input_rel s w"
  "input_rel (ip_keyboard_request_update f23 s) w = input_rel s w"
  "input_rel (ip_zone_latched_update f24 s) w = input_rel s w"
  "input_rel (ip_last_sprint_tap_update f25 s) w = input_rel s w"
  "input_rel (ip_sprint_forward_update f26 s) w = input_rel s w"
  "input_rel (ip_faces_update f27 s) w = input_rel s w"
  "input_rel (ip_pad_update f28 s) w = input_rel s w"
  "input_rel (ip_pad_old_update f29 s) w = input_rel s w"
  "input_rel (ip_back_update f30 s) w = input_rel s w"
  "input_rel (ip_back_old_update f31 s) w = input_rel s w"
  by (simp_all add: input_rel_def input_view_def)

lemma sprint_rel [simp]: "input_rel (snd (sprint now s)) w = input_rel s w"
  by (simp add: sprint_def Let_def)

lemma sample_ps_rel [simp]: "input_rel (snd (sample_ps p q s)) w = input_rel s w"
  by (simp add: sample_ps_def Let_def)

lemma input_relD:
  assumes "input_rel s w"
  shows "iw_overlaid w = (ip_app_state_known s \<and> ip_ui_overlaid s)" "iw_locked w = ip_ps_locked s"
    "iw_fresh w = None" "iw_running w = ip_thread_started s" "iw_file w = None"
  using assms by (simp_all add: input_rel_def input_view_def)

text \<open>Nothing covers the program: everything may be sent.\<close>

lemma send_allowed: "\<not> iw_overlaid w \<Longrightarrow> input_rule w (Send e) a = Some w"
  by (cases e) auto

abbreviation uncovered :: "input_world \<Rightarrow> input \<Rightarrow> input_world \<Rightarrow> bool" where
  "uncovered w s' w' \<equiv> w' = w \<and> input_rel s' w"

lemma input_send_safe:
  assumes "\<not> iw_overlaid w" "input_rel s w"
  shows "input_safe s w (input_send env back) (\<lambda>_. uncovered w)"
  unfolding input_send_def using assms by (auto intro!: safe_intro simp: send_allowed)

lemma zone_pressed_safe:
  assumes "\<not> iw_overlaid w" "input_rel s w"
  shows "input_safe s w (zone_pressed env r) (\<lambda>_. uncovered w)"
  unfolding zone_pressed_def Let_def using assms by (auto intro!: safe_intro simp: send_allowed)

lemma front_zones_safe:
  assumes "\<not> iw_overlaid w" "input_rel s w"
  shows "input_safe s w (front_zones env) (\<lambda>_. uncovered w)"
  unfolding front_zones_def using assms by (auto intro!: safe_intro zone_pressed_safe)

lemma finish_round_safe:
  assumes "\<not> iw_overlaid w" "input_rel s w"
  shows "input_safe s w (finish_round n env) (\<lambda>_. uncovered w)"
  unfolding finish_round_def using assms
  by (auto intro!: safe_intro safe_bind [OF input_send_safe])

lemma input_round_safe:
  assumes "\<not> iw_overlaid w" "input_rel s w"
  shows "input_safe s w (input_round n env) (\<lambda>_. input_rel)"
proof -
  have rest: "input_safe s' w (finish_round n env) (\<lambda>_. input_rel)" if "input_rel s' w" for s'
    by (rule safe_weaken [OF finish_round_safe [OF assms(1) that]]) simp
  show ?thesis
    unfolding input_round_def using assms
    by (auto intro!: safe_intro safe_bind [OF front_zones_safe] rest)
qed

lemma suppress_safe:
  assumes "input_rel s w"
  shows "input_safe s w (suppress_for_system_ui n env) (\<lambda>_. input_rel)"
  unfolding suppress_for_system_ui_def Let_def using assms
  by (auto intro!: safe_intro)

lemma system_ui_overlaid_safe:
  assumes "input_rel s w"
  shows "input_safe s w (system_ui_overlaid env) (\<lambda>b s' w'. input_rel s' w' \<and> b = iw_overlaid w')"
  unfolding system_ui_overlaid_def using assms
  by (auto intro!: safe_intro simp: input_relD) (simp_all add: input_rel_def input_view_def split: if_splits)

lemma input_process_safe:
  assumes "input_rel s w"
  shows "input_safe s w (input_process n env) (\<lambda>_. input_rel)"
  unfolding input_process_def
  by (rule safe_bind [OF system_ui_overlaid_safe [OF assms]]) (auto intro!: safe_intro suppress_safe input_round_safe)

lemma ensure_thread_safe:
  assumes "input_rel s w"
  shows "input_safe s w (ensure_thread env) (\<lambda>_. input_rel)"
  unfolding ensure_thread_def using input_relD [OF assms] assms
  by (auto intro!: safe_intro) (simp_all add: input_rel_def input_view_def)

lemma lock_ps_button_safe:
  assumes "input_rel s w" "\<not> ip_ps_locked s"
  shows "input_safe s w (lock_ps_button env) (\<lambda>_. input_rel)"
  unfolding lock_ps_button_def using input_relD [OF assms(1)] assms
  by (auto intro!: safe_intro) (simp_all add: input_rel_def input_view_def)

lemma input_start_safe:
  assumes "input_rel s w"
  shows "input_safe s w (input_start env) (\<lambda>_. input_rel)"
  unfolding input_start_def using assms
  by (auto intro!: safe_intro safe_bind [OF ensure_thread_safe] safe_bind [OF lock_ps_button_safe])

lemma input_stop_safe:
  assumes "input_rel s w"
  shows "input_safe s w (input_stop env) (\<lambda>_. input_rel)"
  unfolding input_stop_def using input_relD [OF assms] assms
  by (auto intro!: safe_intro) (simp_all add: input_rel_def input_view_def)

lemma file_closed: "iw_file w = None \<Longrightarrow> w\<lparr>iw_file := None\<rparr> = w"
  by simp

lemma write_default_mapping_safe:
  assumes "input_rel s w"
  shows "input_safe s w (write_default_mapping env) (\<lambda>_. input_rel)"
  unfolding write_default_mapping_def using input_relD(5) [OF assms] assms
  by (auto intro!: safe_intro simp: file_closed)

lemma input_load_mapping_safe:
  assumes "input_rel s w"
  shows "input_safe s w (input_load_mapping env swap_xo enabled) (\<lambda>_. input_rel)"
proof -
  define parse where "parse = (\<lambda>r. mapping_lines (takeWhile (\<lambda>c. c \<noteq> CHR 0x00) (take 1023 (take (nat (ia_result r)) (ia_text r)))))"
  show ?thesis
    unfolding input_load_mapping_def parse_def [symmetric] using input_relD(5) [OF assms] assms
    by (auto intro!: safe_intro write_default_mapping_safe simp: file_closed)
qed

lemma input_set_runtime_safe:
  assumes "input_rel s w"
  shows "input_safe s w (input_set_runtime env swap_xo zones double_tap ms layout enabled) (\<lambda>_. input_rel)"
  unfolding input_set_runtime_def using assms
  by (auto intro!: safe_intro input_load_mapping_safe)

section \<open>Every run\<close>

datatype input_op =
    Input_configure int bool bool int int bool int int int int
  | Input_set_runtime bool bool bool int int bool
  | Input_start
  | Input_process
  | Input_stop
  | Input_motion_state nat nat u16
  | Shell_event int int bool bool
  | Consume_keyboard

definition input_act :: "nat \<Rightarrow> input_env \<Rightarrow> input \<Rightarrow> input_op \<Rightarrow> (input_call, input_answer) calls \<Rightarrow>
    input \<times> (input_call, input_answer) calls" where
  "input_act n env s x history = (case x of
     Input_configure c sw cap ts acc mo t r b l \<Rightarrow> execute (input_configure env c sw cap ts acc mo t r b l) s history
   | Input_set_runtime sw z d ms lay en \<Rightarrow> execute (input_set_runtime env sw z d ms lay en) s history
   | Input_start \<Rightarrow> execute (input_start env) s history
   | Input_process \<Rightarrow> execute (input_process n env) s history
   | Input_stop \<Rightarrow> execute (input_stop env) s history
   | Input_motion_state c k r \<Rightarrow> execute (input_set_motion_state env c k r) s history
   | Shell_event r m z p \<Rightarrow> (shell_event_handler r m z p s, history)
   | Consume_keyboard \<Rightarrow> (snd (consume_keyboard_request s), history))"

lemma input_configure_safe:
  assumes "input_rel s w"
  shows "input_safe s w (input_configure env c sw cap ts acc mo t r b l) (\<lambda>_. input_rel)"
  unfolding input_configure_def using assms by (auto intro!: safe_intro)

lemma input_motion_state_safe:
  assumes "input_rel s w"
  shows "input_safe s w (input_set_motion_state env c k r) (\<lambda>_. input_rel)"
  unfolding input_set_motion_state_def using assms by (auto intro!: safe_intro)

lemma input_act_obeys:
  assumes "accept input_rule input_world_start history = Some w" "input_rel s w"
    "input_act n env s x history = (s', history')"
  shows "\<exists>w'. accept input_rule input_world_start history' = Some w' \<and> input_rel s' w'"
  using assms
    execute_obeys [OF input_configure_safe [OF assms(2)] assms(1)] execute_obeys [OF input_set_runtime_safe [OF assms(2)] assms(1)]
    execute_obeys [OF input_start_safe [OF assms(2)] assms(1)] execute_obeys [OF input_process_safe [OF assms(2)] assms(1)]
    execute_obeys [OF input_stop_safe [OF assms(2)] assms(1)] execute_obeys [OF input_motion_state_safe [OF assms(2)] assms(1)]
  by (cases x) (auto simp: input_act_def shell_event_handler_def consume_keyboard_request_def)

interpretation input: client "input_act n env" input_rule input_world_start input_rel "\<lambda>_ _. True" for n env
  by unfold_locales (rule input_act_obeys)



section \<open>The sticks\<close>

lemma uint_u8: "0 \<le> uint (v :: u8)" "uint (v :: u8) \<le> 255"
  using uint_lt2p [of v] by simp_all

text \<open>
  Every position of a stick and its negation are in the range of a \<open>short\<close>, the positions keep their
  order, and mirrored positions give opposite values, so that both ends are reached equally far.
\<close>

theorem axis_range:
  "- 32640 \<le> axis_to_limelight v \<and> axis_to_limelight v \<le> 32640 \<and>
   (axis_to_limelight v < axis_to_limelight u \<longleftrightarrow> v < u) \<and>
   axis_to_limelight (NOT v) = - axis_to_limelight v"
proof -
  have "uint (NOT v) = (- uint v - 1) mod 256"
    by (simp add: unsigned_not_eq not_int_def take_bit_eq_mod)
  also have "\<dots> = (255 - uint v) mod 256"
    using mod_add_self2 [of "- uint v - 1" 256] by (simp add: algebra_simps)
  also have "\<dots> = 255 - uint v"
    by (rule mod_pos_pos_trivial) (use uint_u8 [of v] in linarith)+
  finally have "uint (NOT v) = 255 - uint v" .
  then have "axis_to_limelight (NOT v) = (255 - uint v) * 256 - 2 ^ 15 + 128"
    unfolding axis_to_limelight_def by simp
  then have "axis_to_limelight (NOT v) = - axis_to_limelight v"
    unfolding axis_to_limelight_def by simp
  moreover have "axis_to_limelight v < axis_to_limelight u \<longleftrightarrow> v < u"
    unfolding axis_to_limelight_def word_less_def by linarith
  moreover have "- 32640 \<le> axis_to_limelight v" "axis_to_limelight v \<le> 32640"
  proof -
    have "(2 :: int) ^ 15 = 32768" by simp
    then show "- 32640 \<le> axis_to_limelight v" "axis_to_limelight v \<le> 32640"
      using uint_u8 [of v] unfolding axis_to_limelight_def by linarith+
  qed
  ultimately show ?thesis by blast
qed

section \<open>The PS button as a machine with four states\<close>












section \<open>The mapping file\<close>

lemma mapping_lines_line:
  assumes "CHR 0x0A \<notin> set line"
  shows "mapping_lines (line @ CHR 0x0A # rest) m = mapping_lines rest (mapping_line line m)"
proof -
  have "takeWhile (\<lambda>d. d \<noteq> CHR 0x0A) (line @ CHR 0x0A # rest) = line"
    using assms by (auto simp: takeWhile_append)
  then show ?thesis
    by (cases line) (simp_all add: Let_def)
qed

definition unlines :: "string list \<Rightarrow> string" where
  "unlines ls = concat (map (\<lambda>l. l @ [CHR 0x0A]) ls)"

text \<open>
  A mapping file is read line by line: the lines act in their order, each one that is
  a valid assignment on its own button, and no line has an influence on how another one is read.
\<close>

theorem mapping_lines_fold:
  assumes "\<forall>l\<in>set ls. CHR 0x0A \<notin> set l"
  shows "mapping_lines (unlines ls) m = fold mapping_line ls m"
  using assms
proof (induction ls arbitrary: m)
  case (Cons l ls)
  then show ?case
    using mapping_lines_line [of l "unlines ls" m] by (simp add: unlines_def)
qed (simp add: unlines_def)

theorem mapping_lines_fold_witness:
  "mapping_lines (unlines [''# comment=a'', ''cross=b'', [], ''circle=a'', ''cross=z'', ''cross'']) default_faces =
     default_faces\<lparr>fc_cross := B_FLAG, fc_circle := A_FLAG\<rparr>"
  (is "mapping_lines (unlines ?ls) default_faces = ?m")
proof -
  have "fold mapping_line ?ls default_faces = ?m"
    by code_simp
  then show ?thesis
    using mapping_lines_fold [of ?ls default_faces] by simp
qed

section \<open>The input thread beside the session\<close>

text \<open>
  \<open>vita_input_thread\<close> looks at \<open>s_input_active\<close> and then runs a round; the session's thread starts and stops in
  between.
\<close>

datatype thread_op = Look_active | Run_round | Session input_op

definition thread_act :: "nat \<Rightarrow> input_env \<Rightarrow> input \<times> bool \<Rightarrow> thread_op \<Rightarrow> (input_call, input_answer) calls \<Rightarrow>
    (input \<times> bool) \<times> (input_call, input_answer) calls" where
  "thread_act n env y x history = (case y of (s, go) \<Rightarrow> case x of
     Look_active \<Rightarrow> ((s, ip_active s), history)
   | Run_round \<Rightarrow> if go then (case execute (input_process n env) s history of (s', h') \<Rightarrow> ((s', False), h')) else (y, history)
   | Session op \<Rightarrow> (case input_act n env s op history of (s', h') \<Rightarrow> ((s', go), h')))"

definition pad_events :: "(input_call, input_answer) calls \<Rightarrow> pad_event list" where
  "pad_events history = concat (map (\<lambda>(c, a). case c of Send (Controller e) \<Rightarrow> [e] | _ \<Rightarrow> []) history)"

definition circle_answer :: input_answer where
  "circle_answer = \<lparr>ia_result = 0, ia_time = 1000, ia_flag = False,
     ia_pad = \<lparr>pd_buttons = {Pad_circle}, pd_lx = 128, pd_ly = 128, pd_rx = 128, pd_ry = 128, pd_rest = 7\<rparr>,
     ia_touch = touch_none, ia_text = []\<rparr>"

definition circle_env :: input_env where
  "circle_env history c = circle_answer"

lemma circle_answer_simps [simp]:
  "ia_result circle_answer = 0" "ia_time circle_answer = 1000" "ia_flag circle_answer = False"
  "ia_pad circle_answer = \<lparr>pd_buttons = {Pad_circle}, pd_lx = 128, pd_ly = 128, pd_rx = 128, pd_ry = 128, pd_rest = 7\<rparr>"
  "ia_touch circle_answer = touch_none"
  by (simp_all add: circle_answer_def)


lemma read_back_touch_none [simp]: "read_back_touch n s touch_none = {}"
  by (simp add: read_back_touch_def touch_none_def)

lemma td_count_none [simp]: "td_count touch_none = 0"
  by (simp add: touch_none_def)

definition started :: "input \<Rightarrow> bool" where
  "started s \<longleftrightarrow> ip_app_poll_time s = 0 \<and> \<not> ip_front_zones s \<and> \<not> ip_double_tap_sprint s \<and>
     fc_circle (ip_faces s) = B_FLAG \<and> \<not> ip_ignore_ps s \<and> ip_ps_capture s \<and> ip_ps s = ps_reset"

lemma start_run:
  "\<exists>s h. execute (input_start circle_env) input_boot [] = (s, h) \<and> ip_active s \<and> started s"
  by (simp add: execute_def input_start_def ensure_thread_def lock_ps_button_def input_boot_def circle_env_def started_def
      default_faces_def)

lemma stop_run:
  assumes "started s"
  shows "\<exists>s' h'. execute (input_stop circle_env) s h = (s', h @ h') \<and> \<not> ip_active s' \<and> started s' \<and>
     ip_pad_old s' = pad_zero \<and> \<not> ip_shell_ps_edge s' \<and> pad_events h' = [pad_nothing]"
  using assms by (auto simp: execute_def input_stop_def circle_env_def started_def pad_events_def)

lemma ps_capture_idle: "ps_capture False t ps_reset = (False, ps_reset)"
  by (simp add: ps_capture_def ps_edge_def ps_timeout_def ps_reset_def)

lemma round_run:
  assumes "started s" "ip_pad_old s = pad_zero" "\<not> ip_active s" "\<not> ip_shell_ps_edge s"
  shows "\<exists>s' h' e. execute (input_process n circle_env) s h = (s', h @ h') \<and> \<not> ip_active s' \<and>
     pad_events h' = [e] \<and> B_FLAG \<in> pe_buttons e"
  using assms
  by (simp add: execute_def started_def circle_env_def input_process_def system_ui_overlaid_def due_def input_round_def
      sample_ps_def front_zones_def finish_round_def input_send_def pad_events_def Let_def pad_zero_def ps_capture_idle
      without_ps_def pad_event_of_def pad_flags_def when_in_def)

lemma pad_events_append [simp]: "pad_events (h @ h') = pad_events h @ pad_events h'"
  by (simp add: pad_events_def)

text \<open>
  The release that a stop sends does not have to be the last word: a round of the input thread that was
  begun before the stop can press Circle on the host after it.
\<close>

theorem stop_can_be_overtaken:
  "\<exists>ops. case perform (thread_act 8 circle_env) (input_boot, False) (Session Input_start # ops) [] of
     ((s, _), history) \<Rightarrow> \<not> ip_active s \<and> pad_nothing \<in> set (pad_events history) \<and>
       B_FLAG \<in> pe_buttons (last (pad_events history))"
proof -
  obtain s h where start: "execute (input_start circle_env) input_boot [] = (s, h)" "ip_active s" "started s"
    using start_run by blast
  obtain s' h' where stop: "execute (input_stop circle_env) s h = (s', h @ h')" "\<not> ip_active s'" "started s'"
      "ip_pad_old s' = pad_zero" "\<not> ip_shell_ps_edge s'" "pad_events h' = [pad_nothing]"
    using stop_run [OF start(3)] by blast
  obtain t k e where round: "execute (input_process 8 circle_env) s' (h @ h') = (t, (h @ h') @ k)" "\<not> ip_active t"
      "pad_events k = [e]" "B_FLAG \<in> pe_buttons e"
    using round_run [OF stop(3,4,2,5)] by blast
  have "perform (thread_act 8 circle_env) (input_boot, False)
      (Session Input_start # [Look_active, Session Input_stop, Run_round]) [] = ((t, False), (h @ h') @ k)"
    using start stop round by (simp add: thread_act_def input_act_def)
  then show ?thesis
    using stop round by (intro exI [where x = "[Look_active, Session Input_stop, Run_round]"]) simp
qed

end
