(* ===== verification/Spec2Isabelle.thy ===== *)
theory Spec2Isabelle imports StreamSession StreamLaunch ConnectionService ConnectionApi HostStore HostAvailability AppEvents Pairing VideoSubmit Audio StreamStats HeapTrace EventQueue GamestreamXml HostDiscovery DeviceStore SystemVideo HostProbe TransportThreads Motion Input begin
text \<open>
  A model of the parts of Vita Moonlight PAF that keep state, with the theorems that make them
  correct. Each theory opens with what it models and from which files.
\<close>
end
